(* ===== verification/Prelude.thy ===== *)
theory Prelude
  imports Complex_Main "HOL-Library.AList" "HOL-Library.Monad_Syntax" "HOL-Library.Word"
begin

text \<open>
  Shared vocabulary of the development.

  It holds the result combinators (a panic is \<open>None\<close>, an \<open>Err\<close> is \<open>Inl\<close>, an \<open>Ok\<close> is
  \<open>Inr\<close>), the identifier and time types, the record \<open>deps\<close> of everything the engine takes from
  third-party crates (\<open>rust_decimal\<close>, \<open>uuid\<close>), the named laws the proofs assume of it, the record
  \<open>env\<close> of what a call reads from its surroundings (fresh identifiers, the clock), and the generic
  lemmas on association lists, sums and searches that the component theories share.
\<close>

named_theorems dec_laws \<open>what an exact decimal operation returns\<close>
named_theorems inv_intros \<open>preservation lemmas of the ledger invariant\<close>

section \<open>Results\<close>

text \<open>
  A fallible Rust function of type \<open>Result<A, E>\<close> is modelled as \<open>('e + 'a) option\<close>: \<open>None\<close> is a
  panic, \<open>Some (Inl e)\<close> is \<open>Err(e)\<close>, \<open>Some (Inr a)\<close> is \<open>Ok(a)\<close>. A method on shared state returns
  the state it leaves behind as well.
\<close>

type_synonym ('e, 'a) res = "('e + 'a) option"
type_synonym ('s, 'e, 'a) sres = "('s \<times> ('e + 'a)) option"

text \<open>The \<open>?\<close> operator, for pure functions and for functions on a state.\<close>

definition rbind :: "('e, 'a) res \<Rightarrow> ('a \<Rightarrow> ('e, 'b) res) \<Rightarrow> ('e, 'b) res" where
  "rbind m f = (case m of
      None \<Rightarrow> None
    | Some (Inl e) \<Rightarrow> Some (Inl e)
    | Some (Inr a) \<Rightarrow> f a)"

definition sbind :: "('s, 'e, 'a) sres \<Rightarrow> ('s \<Rightarrow> 'a \<Rightarrow> ('s, 'e, 'b) sres) \<Rightarrow> ('s, 'e, 'b) sres" where
  "sbind m f = (case m of
      None \<Rightarrow> None
    | Some (s, Inl e) \<Rightarrow> Some (s, Inl e)
    | Some (s, Inr a) \<Rightarrow> f s a)"

text \<open>\<open>Result::map_err\<close>.\<close>

definition map_err :: "('e \<Rightarrow> 'f) \<Rightarrow> ('e, 'a) res \<Rightarrow> ('f, 'a) res" where
  "map_err f m = map_option (map_sum f id) m"

lemma map_err_simps [simp]:
  "map_err f None = None"
  "map_err f (Some (Inl e)) = Some (Inl (f e))"
  "map_err f (Some (Inr a)) = Some (Inr a)"
  by (simp_all add: map_err_def)

lemma map_err_Ok_iff: "map_err f m = Some (Inr a) \<longleftrightarrow> m = Some (Inr a)"
  by (cases m; cases "the m") auto

lemma map_Ok_iff:
  "map_option (map_sum id f) m = Some (Inr y) \<longleftrightarrow> (\<exists>x. m = Some (Inr x) \<and> y = f x)"
  by (cases m; cases "the m") auto

lemma map_reply_Ok_iff:
  "map_option (\<lambda>x. map_sum id f (snd x)) m = Some (Inr y) \<longleftrightarrow> (\<exists>s x. m = Some (s, Inr x) \<and> y = f x)"
  by (cases m; cases "snd (the m)") (auto simp: prod_eq_iff)

lemma rbind_simps [simp]:
  "rbind None f = None"
  "rbind (Some (Inl e)) f = Some (Inl e)"
  "rbind (Some (Inr a)) f = f a"
  by (simp_all add: rbind_def)

lemma rbind_Ok_iff:
  "rbind m f = Some (Inr b) \<longleftrightarrow> (\<exists>a. m = Some (Inr a) \<and> f a = Some (Inr b))"
  by (auto simp: rbind_def split: option.splits sum.splits)

lemma rbind_None_iff:
  "rbind m f = None \<longleftrightarrow> m = None \<or> (\<exists>a. m = Some (Inr a) \<and> f a = None)"
  by (auto simp: rbind_def split: option.splits sum.splits)

lemma sbind_simps [simp]:
  "sbind None g = None"
  "sbind (Some (s, Inl e)) g = Some (s, Inl e)"
  "sbind (Some (s, Inr a)) g = g s a"
  by (simp_all add: sbind_def)

lemma sbind_Ok_iff:
  "sbind m f = Some (w, Inr b) \<longleftrightarrow> (\<exists>w1 a. m = Some (w1, Inr a) \<and> f w1 a = Some (w, Inr b))"
  by (auto simp: sbind_def split: option.splits sum.splits)

text \<open>A loop over a list whose body may fail; the first failure ends it.\<close>

fun fold_calls :: "('s \<Rightarrow> 'b \<Rightarrow> 'a \<Rightarrow> ('s, 'e, 'b) sres) \<Rightarrow> 's \<Rightarrow> 'b \<Rightarrow> 'a list \<Rightarrow> ('s, 'e, 'b) sres" where
  "fold_calls f s b [] = Some (s, Inr b)"
| "fold_calls f s b (x # xs) = sbind (f s b x) (\<lambda>s b. fold_calls f s b xs)"

text \<open>
  What can go wrong with a message to a database, beyond the statement itself: it is refused, or it
  takes effect and its acknowledgement is lost.
\<close>

datatype fault = Refused string | AckLost string

fun fault_text :: "fault \<Rightarrow> string" where
  "fault_text (Refused m) = m"
| "fault_text (AckLost m) = m"

section \<open>Identifiers and time\<close>

text \<open>
  A \<open>Uuid\<close> is its 128 bits. The Rust \<open>Id<T>\<close> carries a phantom entity marker, which the phantom
  type parameter of \<open>'t id\<close> mirrors: an organization id is not an account id. An
  \<open>OffsetDateTime\<close> is its instant, in nanoseconds since the Unix epoch.
\<close>

type_synonym uuid = "128 word"
type_synonym time = int

datatype 't id = Id (as_uuid: uuid)

definition nil_uuid :: uuid where
  "nil_uuid = 0"

section \<open>Third-party crates\<close>

text \<open>
  The value of a \<open>rust_decimal::Decimal\<close> is the rational number \<open>m / 10^e\<close> it denotes; the crate
  compares decimals by that value. Its arithmetic is not the engine's code, so it is a parameter:
  an operation returns the decimal it rounds to, or \<open>None\<close> when the crate panics on overflow or
  division by zero. The sign of a zero is not represented.

  \<open>dec_str\<close> is \<open>normalize().to_string()\<close>, which depends on the value only, and \<open>dec_parse\<close> is
  \<open>Decimal::from_str\<close>. \<open>uuid_str\<close> and \<open>uuid_parse\<close> convert a UUID to and from text and \<open>uuid_v5\<close> is the
  name-based hash of the \<open>uuid\<close> crate.
\<close>

record deps =
  dec_add :: "rat \<Rightarrow> rat \<Rightarrow> rat option"
  dec_sub :: "rat \<Rightarrow> rat \<Rightarrow> rat option"
  dec_mul :: "rat \<Rightarrow> rat \<Rightarrow> rat option"
  dec_div :: "rat \<Rightarrow> rat \<Rightarrow> rat option"
  dec_ceil :: "rat \<Rightarrow> rat"
  dec_round_dp :: "nat \<Rightarrow> rat \<Rightarrow> rat"
  dec_str :: "rat \<Rightarrow> string"
  dec_parse :: "string \<Rightarrow> rat option"
  uuid_str :: "uuid \<Rightarrow> string"
  uuid_parse :: "string \<Rightarrow> uuid option"
  uuid_v5 :: "uuid \<Rightarrow> string \<Rightarrow> uuid"

text \<open>
  Named hypotheses on the crates.

  \<^item> \<open>exact_sums D\<close>: an addition or subtraction that returns, returns the exact result. This is how
    \<open>rust_decimal\<close> behaves as long as a sum fits its 96-bit mantissa, that is 28 significant digits.
  \<^item> \<open>total_sums D\<close>: additions and subtractions do not overflow.
  \<^item> \<open>exact_products D\<close>, \<open>total_products D\<close>: the same for multiplication.
  \<^item> \<open>quotient_error D e\<close>: a division that returns is within \<open>e\<close> of the quotient; the crate rounds
    quotients to 28 significant digits.
  \<^item> \<open>rounds_to_nearest D\<close>: \<open>round_dp\<close> rounds to a nearest multiple of \<open>10^-n\<close>.
  \<^item> \<open>text_roundtrip D\<close>: the text of a decimal parses back to it.
\<close>

definition exact_sums :: "deps \<Rightarrow> bool" where
  "exact_sums D \<longleftrightarrow>
     (\<forall>x y z. dec_add D x y = Some z \<longrightarrow> z = x + y) \<and>
     (\<forall>x y z. dec_sub D x y = Some z \<longrightarrow> z = x - y)"

definition total_sums :: "deps \<Rightarrow> bool" where
  "total_sums D \<longleftrightarrow>
     (\<forall>x y. dec_add D x y \<noteq> None) \<and> (\<forall>x y. dec_sub D x y \<noteq> None)"

definition exact_products :: "deps \<Rightarrow> bool" where
  "exact_products D \<longleftrightarrow> (\<forall>x y z. dec_mul D x y = Some z \<longrightarrow> z = x * y)"

definition total_products :: "deps \<Rightarrow> bool" where
  "total_products D \<longleftrightarrow> (\<forall>x y. dec_mul D x y \<noteq> None)"

definition quotient_error :: "deps \<Rightarrow> rat \<Rightarrow> bool" where
  "quotient_error D e \<longleftrightarrow> (\<forall>x y z. dec_div D x y = Some z \<longrightarrow> \<bar>z - x / y\<bar> \<le> e)"

definition rounds_to_nearest :: "deps \<Rightarrow> bool" where
  "rounds_to_nearest D \<longleftrightarrow> (\<forall>n x. \<bar>dec_round_dp D n x - x\<bar> \<le> 1 / (2 * 10 ^ n))"

definition text_roundtrip :: "deps \<Rightarrow> bool" where
  "text_roundtrip D \<longleftrightarrow> (\<forall>x. dec_parse D (dec_str D x) = Some x)"

lemma dec_add_exact [dec_laws]: "exact_sums D \<Longrightarrow> dec_add D x y = Some z \<Longrightarrow> z = x + y"
  by (simp add: exact_sums_def)

lemma dec_sub_exact [dec_laws]: "exact_sums D \<Longrightarrow> dec_sub D x y = Some z \<Longrightarrow> z = x - y"
  by (simp add: exact_sums_def)

lemma dec_mul_exact [dec_laws]: "exact_products D \<Longrightarrow> dec_mul D x y = Some z \<Longrightarrow> z = x * y"
  by (simp add: exact_products_def)

lemma dec_add_total: "exact_sums D \<Longrightarrow> total_sums D \<Longrightarrow> dec_add D x y = Some (x + y)"
  by (metis dec_add_exact not_None_eq total_sums_def)

lemma dec_mul_total:
  "exact_products D \<Longrightarrow> total_products D \<Longrightarrow> dec_mul D x y = Some (x * y)"
  by (metis dec_mul_exact not_None_eq total_products_def)

lemma dec_sub_total: "exact_sums D \<Longrightarrow> total_sums D \<Longrightarrow> dec_sub D x y = Some (x - y)"
  by (metis dec_sub_exact not_None_eq total_sums_def)

text \<open>
  A reference instance for evaluation: exact rational arithmetic that panics only on division by
  zero, rounding half to even, unary numerals for the text of a decimal, the sixteen bytes of a UUID
  as its text, and a hash that keeps the namespace and adds up the name. Witnesses use it to show that the hypotheses can hold.
\<close>

definition round_half_even :: "rat \<Rightarrow> int" where
  "round_half_even x =
     (let f = \<lfloor>x\<rfloor>; d = x - of_int f in
      if d < 1 / 2 then f else if 1 / 2 < d then f + 1 else if even f then f else f + 1)"

definition uuid_bytes :: "uuid \<Rightarrow> string" where
  "uuid_bytes u = map (\<lambda>i. char_of (uint u div 256 ^ i mod 256)) (rev [0..<16])"

definition uuid_of_bytes :: "string \<Rightarrow> uuid option" where
  "uuid_of_bytes s = (if length s = 16
     then Some (of_int (foldl (\<lambda>acc c. acc * 256 + of_char c) 0 s)) else None)"

definition rat_text :: "rat \<Rightarrow> string" where
  "rat_text x = (case quotient_of x of (p, q) \<Rightarrow>
     (if p < 0 then ''-'' else []) @ replicate (nat \<bar>p\<bar>) (CHR ''1'') @ ''/'' @ replicate (nat q) (CHR ''1''))"

definition rat_of_text :: "string \<Rightarrow> rat option" where
  "rat_of_text s =
     (let neg = (case s of [] \<Rightarrow> False | c # _ \<Rightarrow> c = CHR ''-'');
          t = (if neg then tl s else s);
          p = int (length (takeWhile (\<lambda>c. c = CHR ''1'') t));
          q = int (length (tl (dropWhile (\<lambda>c. c = CHR ''1'') t)))
      in if q = 0 then None else Some (Fract (if neg then - p else p) q))"

definition exact_deps :: deps where
  "exact_deps = \<lparr>
     dec_add = (\<lambda>x y. Some (x + y)),
     dec_sub = (\<lambda>x y. Some (x - y)),
     dec_mul = (\<lambda>x y. Some (x * y)),
     dec_div = (\<lambda>x y. if y = 0 then None else Some (x / y)),
     dec_ceil = (\<lambda>x. of_int \<lceil>x\<rceil>),
     dec_round_dp = (\<lambda>n x. of_int (round_half_even (x * 10 ^ n)) / 10 ^ n),
     dec_str = rat_text,
     dec_parse = rat_of_text,
     uuid_str = uuid_bytes,
     uuid_parse = uuid_of_bytes,
     uuid_v5 = (\<lambda>ns name. ns + of_int (sum_list (map of_char name)) + 1)\<rparr>"

lemma exact_deps_sel [simp]:
  "dec_add exact_deps x y = Some (x + y)"
  "dec_sub exact_deps x y = Some (x - y)"
  "dec_mul exact_deps x y = Some (x * y)"
  "dec_div exact_deps x y = (if y = 0 then None else Some (x / y))"
  "dec_ceil exact_deps x = of_int \<lceil>x\<rceil>"
  "dec_round_dp exact_deps n x = of_int (round_half_even (x * 10 ^ n)) / 10 ^ n"
  "uuid_str exact_deps = uuid_bytes" "uuid_parse exact_deps = uuid_of_bytes"
  "dec_str exact_deps = rat_text" "dec_parse exact_deps = rat_of_text"
  by (simp_all add: exact_deps_def)

lemma round_half_even_near: "\<bar>of_int (round_half_even x) - x\<bar> \<le> 1 / 2"
proof -
  have "of_int \<lfloor>x\<rfloor> \<le> x" "x < of_int \<lfloor>x\<rfloor> + 1" by linarith+
  then show ?thesis by (auto simp: round_half_even_def Let_def abs_le_iff)
qed

lemma exact_deps_rounds: "rounds_to_nearest exact_deps"
proof -
  have "\<bar>of_int (round_half_even (x * 10 ^ n)) / 10 ^ n - x\<bar> \<le> 1 / (2 * 10 ^ n)" for x and n :: nat
  proof -
    have "of_int (round_half_even (x * 10 ^ n)) / 10 ^ n - x =
            (of_int (round_half_even (x * 10 ^ n)) - x * 10 ^ n) / 10 ^ n"
      by (simp add: diff_divide_distrib)
    also have "\<bar>\<dots>\<bar> \<le> (1 / 2) / 10 ^ n"
      using divide_right_mono [OF round_half_even_near [of "x * 10 ^ n"], of "10 ^ n"] by simp
    finally show ?thesis by simp
  qed
  then show ?thesis by (simp add: rounds_to_nearest_def)
qed

lemma rat_text_roundtrip: "rat_of_text (rat_text x) = Some x"
proof -
  obtain p q where pq: "quotient_of x = (p, q)" by (cases "quotient_of x")
  then have q: "0 < q" and x: "x = Fract p q"
    by (simp_all add: quotient_of_denom_pos quotient_of_div Fract_of_int_quotient)
  let ?one = "CHR ''1''"
  have "takeWhile (\<lambda>c. c = ?one) (replicate n ?one @ CHR ''/'' # ys) = replicate n ?one"
    "dropWhile (\<lambda>c. c = ?one) (replicate n ?one @ CHR ''/'' # ys) = CHR ''/'' # ys" for n and ys :: string
    by (induction n) auto
  moreover have "(case replicate n ?one @ CHR ''/'' # ys of [] \<Rightarrow> False | c # _ \<Rightarrow> c = CHR ''-'') = False"
    for n and ys :: string by (cases n) auto
  ultimately have parts: "rat_of_text (rat_text x) = Some (Fract p q)"
    using q by (simp add: rat_of_text_def rat_text_def pq Let_def)
  then show ?thesis using x by simp
qed

lemma exact_deps_text [simp]: "text_roundtrip exact_deps"
  by (simp add: text_roundtrip_def rat_text_roundtrip)

lemma exact_deps_laws [simp]:
  "exact_sums exact_deps" "total_sums exact_deps" "exact_products exact_deps"
  "total_products exact_deps" "quotient_error exact_deps 0" "rounds_to_nearest exact_deps"
  by (simp_all add: exact_sums_def total_sums_def exact_products_def total_products_def
        quotient_error_def exact_deps_rounds)

section \<open>What a call reads from its surroundings\<close>

text \<open>
  \<open>new_v7 E n\<close> is the result of the \<open>n\<close>-th call to \<open>Uuid::now_v7()\<close> that an operation makes and
  \<open>now_utc E n\<close> the result of its \<open>n\<close>-th reading of the clock.
\<close>

record env =
  new_v7 :: "nat \<Rightarrow> uuid"
  now_utc :: "nat \<Rightarrow> time"

section \<open>Lemmas on lists and association lists\<close>

lemma map_of_update [simp]: "map_of (AList.update k v m) = (map_of m)(k \<mapsto> v)"
  by (rule update_conv')

lemma sum_list_update_present:
  fixes f :: "'v \<Rightarrow> 'c::ab_group_add"
  assumes "distinct (map fst m)" and "map_of m k = Some v"
  shows "sum_list (map (\<lambda>(_, x). f x) (AList.update k v' m))
       = sum_list (map (\<lambda>(_, x). f x) m) - f v + f v'"
  using assms
proof (induction m)
  case (Cons p m)
  then show ?case by (cases p) (auto simp: algebra_simps)
qed simp

lemma sum_list_update_absent:
  fixes f :: "'v \<Rightarrow> 'c::comm_monoid_add"
  assumes "k \<notin> fst ` set m"
  shows "sum_list (map (\<lambda>(_, x). f x) (AList.update k v m))
       = sum_list (map (\<lambda>(_, x). f x) m) + f v"
  using assms by (induction m) (auto simp: ac_simps)

lemma update_update_commute:
  assumes "j \<noteq> k" and "j \<in> fst ` set m"
  shows "AList.update k v (AList.update j w m) = AList.update j w (AList.update k v m)"
  using assms by (induction m) auto

lemma map_of_mem_keys: "map_of m k = Some v \<Longrightarrow> k \<in> fst ` set m"
  by (metis domI dom_map_of_conv_image_fst)

lemma find_append:
  "List.find P (xs @ ys) = (case List.find P xs of None \<Rightarrow> List.find P ys | Some x \<Rightarrow> Some x)"
  by (induction xs) auto

lemma find_append_Some [simp]: "List.find P xs = Some x \<Longrightarrow> List.find P (xs @ ys) = Some x"
  by (simp add: find_append)

lemma find_SomeD: "List.find P xs = Some x \<Longrightarrow> x \<in> set xs \<and> P x"
  by (induction xs) (auto split: if_splits)

lemma find_None_iff_all: "List.find P xs = None \<longleftrightarrow> (\<forall>x \<in> set xs. \<not> P x)"
  by (induction xs) auto

lemma find_unique:
  assumes "distinct (map f xs)" and "x \<in> set xs"
  shows "List.find (\<lambda>y. f y = f x) xs = Some x"
  using assms by (induction xs) (auto simp: image_iff)

end
