(* ===== verification/Core.thy ===== *)
theory Core
  imports Prelude
begin

text \<open>
  The value types of \<open>crates/meter-core\<close>: typed identifiers, credits and money.

  A \<open>Credit\<close> is a newtype over \<open>Decimal\<close> and is modelled by its rational value; its operators go
  through the decimal parameter \<open>D\<close> and can panic. \<open>Money\<close> pairs an amount with a currency and
  refuses to combine two currencies. The lemmas show that currency codes are well formed exactly
  when they are accepted, that money operations never mix or change a currency, and that summing
  credits with the crate's addition is the mathematical sum whenever it returns.
\<close>

section \<open>Entity identifiers\<close>

datatype org_entity = Org_entity
datatype account_entity = Account_entity
datatype entry_entity = Entry_entity
datatype event_entity = Event_entity
datatype run_entity = Run_entity
datatype rate_card_entity = Rate_card_entity

type_synonym org_id = "org_entity id"
type_synonym account_id = "account_entity id"
type_synonym entry_id = "entry_entity id"
type_synonym event_id = "event_entity id"
type_synonym run_id = "run_entity id"
type_synonym rate_card_id = "rate_card_entity id"

text \<open>\<open>Id::deterministic\<close>: a stable identifier from a namespace and a name.\<close>

definition deterministic :: "deps \<Rightarrow> uuid \<Rightarrow> string \<Rightarrow> 't id" where
  "deterministic D namespace name = Id (uuid_v5 D namespace name)"

section \<open>Credits\<close>

type_synonym credit = rat

definition is_zero :: "credit \<Rightarrow> bool" where
  "is_zero c = (c = 0)"

definition is_negative :: "credit \<Rightarrow> bool" where
  "is_negative c = (c < 0 \<and> \<not> c = 0)"

definition is_positive :: "credit \<Rightarrow> bool" where
  "is_positive c = (\<not> c < 0 \<and> \<not> c = 0)"

lemma credit_sign_iff [simp]:
  "is_negative c \<longleftrightarrow> c < 0" "is_positive c \<longleftrightarrow> 0 < c" "is_zero c \<longleftrightarrow> c = 0"
  by (auto simp: is_negative_def is_positive_def is_zero_def)

text \<open>\<open>impl Sum for Credit\<close>: a left fold of the addition from zero.\<close>

fun credit_sum_from :: "deps \<Rightarrow> credit \<Rightarrow> credit list \<Rightarrow> credit option" where
  "credit_sum_from D acc [] = Some acc"
| "credit_sum_from D acc (c # cs) = do { acc' \<leftarrow> dec_add D acc c; credit_sum_from D acc' cs }"

definition credit_sum :: "deps \<Rightarrow> credit list \<Rightarrow> credit option" where
  "credit_sum D cs = credit_sum_from D 0 cs"

lemma credit_sum_from_exact:
  "exact_sums D \<Longrightarrow> credit_sum_from D acc cs = Some t \<Longrightarrow> t = acc + sum_list cs"
proof (induction cs arbitrary: acc)
  case (Cons c cs)
  from Cons.prems obtain acc' where
    "dec_add D acc c = Some acc'" and r: "credit_sum_from D acc' cs = Some t"
    by (auto simp: Option.bind_eq_Some_conv)
  then have "acc' = acc + c" by (auto dest: dec_add_exact [OF Cons.prems(1)])
  with Cons.IH [OF Cons.prems(1) r] show ?case by simp
qed simp

lemma credit_sum_exact [dec_laws]:
  "exact_sums D \<Longrightarrow> credit_sum D cs = Some t \<Longrightarrow> t = sum_list cs"
  by (auto simp: credit_sum_def dest: credit_sum_from_exact)

lemma credit_sum_total:
  assumes "exact_sums D" and "total_sums D"
  shows "credit_sum D cs = Some (sum_list cs)"
proof -
  have "credit_sum_from D acc cs = Some (acc + sum_list cs)" for acc
    by (induction cs arbitrary: acc) (simp_all add: dec_add_total [OF assms] add.assoc)
  then show ?thesis by (simp add: credit_sum_def)
qed

section \<open>Currencies and money\<close>

datatype currency = Currency (code: string)

datatype money_error =
    CurrencyMismatch currency currency
  | InvalidCurrency string

definition is_ascii_uppercase :: "char \<Rightarrow> bool" where
  "is_ascii_uppercase c = (65 \<le> (of_char c :: nat) \<and> (of_char c :: nat) \<le> 90)"

definition currency_new :: "string \<Rightarrow> money_error + currency" where
  "currency_new c =
     (if \<not> (length c = 3 \<and> list_all is_ascii_uppercase c) then Inl (InvalidCurrency c)
      else Inr (Currency c))"

record money =
  amount :: rat
  currency :: currency

definition money_new :: "rat \<Rightarrow> currency \<Rightarrow> money" where
  "money_new a c = \<lparr>amount = a, currency = c\<rparr>"

definition money_zero :: "currency \<Rightarrow> money" where
  "money_zero c = \<lparr>amount = 0, currency = c\<rparr>"

definition money_is_zero :: "money \<Rightarrow> bool" where
  "money_is_zero m = (amount m = 0)"

definition money_is_negative :: "money \<Rightarrow> bool" where
  "money_is_negative m = (amount m < 0 \<and> \<not> amount m = 0)"

definition ensure_same_currency :: "money \<Rightarrow> money \<Rightarrow> money_error + unit" where
  "ensure_same_currency self other =
     (if currency self \<noteq> currency other
      then Inl (CurrencyMismatch (currency self) (currency other))
      else Inr ())"

definition try_add :: "deps \<Rightarrow> money \<Rightarrow> money \<Rightarrow> (money_error, money) res" where
  "try_add D self other =
     rbind (Some (ensure_same_currency self other)) (\<lambda>_.
       do { a \<leftarrow> dec_add D (amount self) (amount other);
            Some (Inr (money_new a (currency self))) })"

definition try_sub :: "deps \<Rightarrow> money \<Rightarrow> money \<Rightarrow> (money_error, money) res" where
  "try_sub D self other =
     rbind (Some (ensure_same_currency self other)) (\<lambda>_.
       do { a \<leftarrow> dec_sub D (amount self) (amount other);
            Some (Inr (money_new a (currency self))) })"

definition money_scale_by :: "deps \<Rightarrow> money \<Rightarrow> rat \<Rightarrow> money option" where
  "money_scale_by D self factor =
     do { a \<leftarrow> dec_mul D (amount self) factor; Some (money_new a (currency self)) }"

lemma money_new_sel [simp]:
  "amount (money_new a c) = a" "currency (money_new a c) = c"
  "amount (money_zero c) = 0" "currency (money_zero c) = c"
  by (simp_all add: money_new_def money_zero_def)

lemma currency_new_accepts:
  "currency_new c = Inr k \<longleftrightarrow> length c = 3 \<and> list_all is_ascii_uppercase c \<and> k = Currency c"
  by (auto simp: currency_new_def)

text \<open>An accepted code is printed back unchanged and accepted again.\<close>

lemma currency_code_round_trip: "currency_new c = Inr k \<Longrightarrow> currency_new (code k) = Inr k"
  by (auto simp: currency_new_accepts)

lemma try_add_Ok:
  "try_add D m n = Some (Inr r) \<Longrightarrow>
     currency m = currency n \<and> currency r = currency m \<and>
     dec_add D (amount m) (amount n) = Some (amount r)"
  by (auto simp: try_add_def ensure_same_currency_def rbind_Ok_iff Option.bind_eq_Some_conv
           split: if_splits)

lemma try_add_Err:
  "try_add D m n = Some (Inl e) \<longleftrightarrow>
     currency m \<noteq> currency n \<and> e = CurrencyMismatch (currency m) (currency n)"
  by (auto simp: try_add_def ensure_same_currency_def Option.bind_eq_Some_conv)

lemma try_add_exact:
  "exact_sums D \<Longrightarrow> try_add D m n = Some (Inr r) \<Longrightarrow> amount r = amount m + amount n"
  by (auto dest!: try_add_Ok dec_add_exact)

lemma try_sub_Ok:
  "try_sub D m n = Some (Inr r) \<Longrightarrow>
     currency m = currency n \<and> currency r = currency m \<and>
     dec_sub D (amount m) (amount n) = Some (amount r)"
  by (auto simp: try_sub_def ensure_same_currency_def rbind_Ok_iff Option.bind_eq_Some_conv
           split: if_splits)

lemma money_scale_by_Some:
  "money_scale_by D m f = Some r \<longleftrightarrow>
     currency r = currency m \<and> dec_mul D (amount m) f = Some (amount r)"
  by (cases r) (auto simp: money_scale_by_def money_new_def Option.bind_eq_Some_conv)

end
