(* ===== verification/Ledger_Model.thy ===== *)
theory Ledger_Model
  imports Core
begin

text \<open>
  The nouns and verbs of \<open>crates/meter-ledger\<close>: accounts, entries, reservations and balances
  (\<open>src/model\<close>), the requests and outcomes of the ledger API (\<open>src/request.rs\<close>), its errors
  (\<open>src/error.rs\<close>), the idempotency keys of a run void (\<open>src/backend.rs\<close>), and the mutable state
  behind the in-memory ledger (\<open>src/memory/state.rs\<close>). A hash map is an association list in
  iteration order; the invariant of \<open>Ledger_Invariant\<close> keeps its keys distinct.
\<close>

section \<open>Accounts\<close>

definition SYSTEM_ORG :: org_id where
  "SYSTEM_ORG = Id nil_uuid"

definition SYSTEM_ACCOUNT :: account_id where
  "SYSTEM_ACCOUNT = Id nil_uuid"

datatype account_scope =
    Org | Team | User | Product | Session | Promo | Paid | Budget | Overage | FxClearing | System

record ledger_account =
  acct_id :: account_id
  acct_org_id :: org_id
  acct_scope :: account_scope
  acct_no_overdraft :: bool
  acct_parent_id :: "account_id option"

record balance =
  bal_settled :: credit
  bal_held :: credit

definition available :: "deps \<Rightarrow> balance \<Rightarrow> credit option" where
  "available D b = dec_sub D (bal_settled b) (bal_held b)"

section \<open>Reservations and entries\<close>

datatype reservation_id = ReservationId (reservation_uuid: uuid)

datatype limit_class = Hard | Soft

datatype entry_type =
    Grant | Usage | ReservationHold | Settle | PartialReturn | Transfer | Void | Refund
  | Chargeback | Expiration | Amendment | Fx | Sealing

datatype credit_source = Paid_source | Promo_source | Grant_source

record ledger_entry =
  entry_id :: entry_id
  account_id :: account_id
  paired_account_id :: account_id
  entry_type :: entry_type
  delta_credits :: credit
  balance_after :: credit
  entry_source :: "credit_source option"
  revenue_recognizable :: bool
  reverses_entry_id :: "entry_id option"
  entry_reservation_id :: "reservation_id option"
  entry_run_id :: "run_id option"
  entry_idempotency_key :: "string option"
  created_at :: time

section \<open>Errors\<close>

datatype ledger_error =
    AccountNotFound account_id
  | ReservationNotFound reservation_id
  | ReservationClosed reservation_id
  | NonPositiveAmount
  | InsufficientFunds credit credit
  | NotALease account_id
  | Backend string

section \<open>Requests and outcomes\<close>

record new_account =
  na_org_id :: org_id
  na_scope :: account_scope
  na_no_overdraft :: bool
  na_parent_id :: "account_id option"

record grant_request =
  grant_account :: account_id
  grant_amount :: credit
  grant_source :: credit_source
  grant_idempotency_key :: "string option"

record refund_request =
  refund_account :: account_id
  refund_amount :: credit
  refund_reverses_entry_id :: "entry_id option"
  refund_idempotency_key :: "string option"

record reserve_request =
  rsv_account :: account_id
  rsv_reservation_id :: reservation_id
  rsv_amount :: credit
  rsv_limit :: limit_class
  rsv_expires_at :: "time option"
  rsv_run_id :: "run_id option"

datatype reserve_outcome =
    Allowed reservation_id
  | Denied credit credit

record run_void_summary =
  holds_released :: nat
  charges_refunded :: nat
  credits_refunded :: credit

record settle_request =
  settle_reservation_id :: reservation_id
  settle_actual :: credit

record charge_request =
  charge_account :: account_id
  charge_amount :: credit
  charge_run_id :: "run_id option"
  charge_idempotency_key :: "string option"

record reverse_charge_request =
  rev_account :: account_id
  rev_charge_entry_id :: entry_id
  rev_run_id :: "run_id option"
  rev_idempotency_key :: string

record lease_request =
  lease_parent :: account_id
  lease_amount :: credit

section \<open>Idempotency keys of a run void\<close>

definition run_void_refund_key :: "deps \<Rightarrow> run_id \<Rightarrow> reservation_id \<Rightarrow> string" where
  "run_void_refund_key D run reservation =
     ''void-run:'' @ uuid_str D (as_uuid run) @ '':'' @ uuid_str D (reservation_uuid reservation)"

definition run_void_charge_refund_key :: "deps \<Rightarrow> run_id \<Rightarrow> entry_id \<Rightarrow> string" where
  "run_void_charge_refund_key D run charge_entry =
     ''void-run:'' @ uuid_str D (as_uuid run) @ '':charge:'' @ uuid_str D (as_uuid charge_entry)"

section \<open>The state of the in-memory ledger\<close>

record account_row =
  row_account :: ledger_account
  row_settled :: credit

definition account_row_new :: "ledger_account \<Rightarrow> account_row" where
  "account_row_new a = \<lparr>row_account = a, row_settled = 0\<rparr>"

datatype hold_status = Open | Settled | Voided

record hold =
  hold_account :: account_id
  hold_amount :: credit
  hold_status :: hold_status
  hold_settle_entry :: "entry_id option"
  hold_expires_at :: "time option"
  hold_run_id :: "run_id option"

record state =
  accounts :: "(account_id \<times> account_row) list"
  holds :: "(reservation_id \<times> hold) list"
  entries :: "ledger_entry list"

definition open_against :: "account_id \<Rightarrow> hold \<Rightarrow> bool" where
  "open_against a h = (hold_account h = a \<and> hold_status h = Open)"

text \<open>\<open>State::held\<close>: the credits locked by open holds against an account.\<close>

definition held :: "deps \<Rightarrow> state \<Rightarrow> account_id \<Rightarrow> credit option" where
  "held D s a = credit_sum D (map hold_amount (filter (open_against a) (map snd (holds s))))"

text \<open>The in-memory ledger starts with its system account only.\<close>

definition system_row :: account_row where
  "system_row = account_row_new \<lparr>acct_id = SYSTEM_ACCOUNT, acct_org_id = SYSTEM_ORG,
     acct_scope = System, acct_no_overdraft = False, acct_parent_id = None\<rparr>"

definition new_ledger :: state where
  "new_ledger = \<lparr>accounts = [(SYSTEM_ACCOUNT, system_row)], holds = [], entries = []\<rparr>"

text \<open>\<open>InMemoryLedger::net_settled\<close>, the audit sum over every account.\<close>

definition net_settled :: "deps \<Rightarrow> state \<Rightarrow> credit option" where
  "net_settled D s = credit_sum D (map (row_settled \<circ> snd) (accounts s))"

section \<open>Mathematical views of a state\<close>

text \<open>
  The settled balance of an account, the exact sum of its open holds, what that leaves available,
  and the exact net of all accounts. The operations compute these with the decimal parameter; the
  theorems speak about the exact values.
\<close>

definition settled_of :: "state \<Rightarrow> account_id \<Rightarrow> credit" where
  "settled_of s a = (case map_of (accounts s) a of None \<Rightarrow> 0 | Some r \<Rightarrow> row_settled r)"

definition open_amount :: "account_id \<Rightarrow> hold \<Rightarrow> credit" where
  "open_amount a h = (if open_against a h then hold_amount h else 0)"

definition held_of :: "state \<Rightarrow> account_id \<Rightarrow> credit" where
  "held_of s a = sum_list (map (\<lambda>(_, h). open_amount a h) (holds s))"

definition available_of :: "state \<Rightarrow> account_id \<Rightarrow> credit" where
  "available_of s a = settled_of s a - held_of s a"

definition net_of :: "state \<Rightarrow> credit" where
  "net_of s = sum_list (map (\<lambda>(_, r). row_settled r) (accounts s))"

lemma sum_list_filter_open:
  "sum_list (map hold_amount (filter (open_against a) (map snd m)))
     = sum_list (map (\<lambda>(_, h). open_amount a h) m)"
  by (induction m) (auto simp: open_amount_def)

lemma held_exact [dec_laws]: "exact_sums D \<Longrightarrow> held D s a = Some h \<Longrightarrow> h = held_of s a"
  by (auto simp: held_def held_of_def sum_list_filter_open dest: credit_sum_exact)

lemma held_total: "exact_sums D \<Longrightarrow> total_sums D \<Longrightarrow> held D s a = Some (held_of s a)"
  by (simp add: held_def held_of_def credit_sum_total sum_list_filter_open)

lemma net_settled_exact [dec_laws]:
  "exact_sums D \<Longrightarrow> net_settled D s = Some n \<Longrightarrow> n = net_of s"
  by (auto simp: net_settled_def net_of_def comp_def case_prod_unfold dest: credit_sum_exact)

lemma net_settled_total: "exact_sums D \<Longrightarrow> total_sums D \<Longrightarrow> net_settled D s = Some (net_of s)"
  by (simp add: net_settled_def net_of_def comp_def case_prod_unfold credit_sum_total)

end
