(* ===== verification/Ledger_Memory.thy ===== *)
theory Ledger_Memory
  imports Ledger_Model
begin

text \<open>
  The operations of the in-memory ledger, \<open>crates/meter-ledger/src/memory/ops.rs\<close>: one definition
  per method of \<open>impl LedgerBackend for InMemoryLedger\<close>, branch for branch. Every method takes the
  ledger's mutex for its whole body, so a method is one atomic step on the state. \<open>expect\<close> on a
  missing key and an overflowing decimal are panics, the value \<open>None\<close>; a panic poisons the mutex, so
  no later call returns and there is no later state to describe.

  \<open>post_credit\<close> and \<open>post_debit\<close> are the two balance updates that the methods repeat inline: the
  system account moves first on a credit and last on a debit.
\<close>

section \<open>Balance updates\<close>

definition push_entry :: "ledger_entry \<Rightarrow> state \<Rightarrow> state" where
  "push_entry e s = s\<lparr>entries := entries s @ [e]\<rparr>"

text \<open>\<open>if let Some(system) = state.accounts.get_mut(&self.system) \<dots>\<close>\<close>

definition system_sub :: "deps \<Rightarrow> state \<Rightarrow> credit \<Rightarrow> state option" where
  "system_sub D s amt = (case map_of (accounts s) SYSTEM_ACCOUNT of
      None \<Rightarrow> Some s
    | Some row \<Rightarrow> do {
        b \<leftarrow> dec_sub D (row_settled row) amt;
        Some (s\<lparr>accounts := AList.update SYSTEM_ACCOUNT (row\<lparr>row_settled := b\<rparr>) (accounts s)\<rparr>) })"

definition system_add :: "deps \<Rightarrow> state \<Rightarrow> credit \<Rightarrow> state option" where
  "system_add D s amt = (case map_of (accounts s) SYSTEM_ACCOUNT of
      None \<Rightarrow> Some s
    | Some row \<Rightarrow> do {
        b \<leftarrow> dec_add D (row_settled row) amt;
        Some (s\<lparr>accounts := AList.update SYSTEM_ACCOUNT (row\<lparr>row_settled := b\<rparr>) (accounts s)\<rparr>) })"

text \<open>\<open>get_mut(&account).expect(\<dots>)\<close>, then \<open>settled += amount\<close> or \<open>settled -= amount\<close>.\<close>

definition account_add :: "deps \<Rightarrow> state \<Rightarrow> account_id \<Rightarrow> credit \<Rightarrow> (state \<times> credit) option" where
  "account_add D s a amt = do {
     row \<leftarrow> map_of (accounts s) a;
     b \<leftarrow> dec_add D (row_settled row) amt;
     Some (s\<lparr>accounts := AList.update a (row\<lparr>row_settled := b\<rparr>) (accounts s)\<rparr>, b) }"

definition account_sub :: "deps \<Rightarrow> state \<Rightarrow> account_id \<Rightarrow> credit \<Rightarrow> (state \<times> credit) option" where
  "account_sub D s a amt = do {
     row \<leftarrow> map_of (accounts s) a;
     b \<leftarrow> dec_sub D (row_settled row) amt;
     Some (s\<lparr>accounts := AList.update a (row\<lparr>row_settled := b\<rparr>) (accounts s)\<rparr>, b) }"

definition post_credit :: "deps \<Rightarrow> state \<Rightarrow> account_id \<Rightarrow> credit \<Rightarrow> (state \<times> credit) option" where
  "post_credit D s a amt = do { s1 \<leftarrow> system_sub D s amt; account_add D s1 a amt }"

definition post_debit :: "deps \<Rightarrow> state \<Rightarrow> account_id \<Rightarrow> credit \<Rightarrow> (state \<times> credit) option" where
  "post_debit D s a amt = do {
     (s1, b) \<leftarrow> account_sub D s a amt;
     s2 \<leftarrow> system_add D s1 amt;
     Some (s2, b) }"

section \<open>Helpers\<close>

definition unreversed_remainder :: "deps \<Rightarrow> state \<Rightarrow> entry_id \<Rightarrow> credit option" where
  "unreversed_remainder D s eid = do {
     let charged = (case List.find (\<lambda>e. entry_id e = eid) (entries s) of
                      None \<Rightarrow> 0 | Some e \<Rightarrow> delta_credits e);
     reversed \<leftarrow> credit_sum_from D 0
       (map delta_credits (filter (\<lambda>e. reverses_entry_id e = Some eid) (entries s)));
     dec_sub D (- charged) reversed }"

definition transfer_entry ::
  "entry_id \<Rightarrow> account_id \<Rightarrow> account_id \<Rightarrow> credit \<Rightarrow> credit \<Rightarrow> time \<Rightarrow> ledger_entry" where
  "transfer_entry eid a paired delta after now =
     \<lparr>entry_id = eid, account_id = a, paired_account_id = paired, entry_type = Transfer,
      delta_credits = delta, balance_after = after, entry_source = None,
      revenue_recognizable = False, reverses_entry_id = None, entry_reservation_id = None,
      entry_run_id = None, entry_idempotency_key = None, created_at = now\<rparr>"

definition post_transfer ::
  "deps \<Rightarrow> entry_id \<Rightarrow> entry_id \<Rightarrow> time \<Rightarrow> state \<Rightarrow> account_id \<Rightarrow> account_id \<Rightarrow> credit
     \<Rightarrow> state option" where
  "post_transfer D eid1 eid2 now s from dest amt = do {
     (s1, from_after) \<leftarrow> account_sub D s from amt;
     (s2, to_after) \<leftarrow> account_add D s1 dest amt;
     Some (push_entry (transfer_entry eid2 dest from amt to_after now)
            (push_entry (transfer_entry eid1 from dest (- amt) from_after now) s2)) }"

text \<open>The search that makes a keyed posting idempotent, scoped to one account.\<close>

definition find_keyed :: "state \<Rightarrow> account_id \<Rightarrow> string \<Rightarrow> ledger_entry option" where
  "find_keyed s a key =
     List.find (\<lambda>e. account_id e = a \<and> entry_idempotency_key e = Some key) (entries s)"

definition find_existing :: "state \<Rightarrow> account_id \<Rightarrow> string option \<Rightarrow> ledger_entry option" where
  "find_existing s a k = (case k of None \<Rightarrow> None | Some key \<Rightarrow> find_keyed s a key)"

section \<open>Accounts and balances\<close>

definition open_account ::
  "env \<Rightarrow> state \<Rightarrow> new_account \<Rightarrow> (state, ledger_error, ledger_account) sres" where
  "open_account E s req =
     (let account = \<lparr>acct_id = Id (new_v7 E 0), acct_org_id = na_org_id req,
                     acct_scope = na_scope req, acct_no_overdraft = na_no_overdraft req,
                     acct_parent_id = na_parent_id req\<rparr>
      in Some (s\<lparr>accounts := AList.update (acct_id account) (account_row_new account) (accounts s)\<rparr>,
               Inr account))"

definition balance :: "deps \<Rightarrow> state \<Rightarrow> account_id \<Rightarrow> (state, ledger_error, balance) sres" where
  "balance D s a = (case map_of (accounts s) a of
      None \<Rightarrow> Some (s, Inl (AccountNotFound a))
    | Some row \<Rightarrow> do {
        h \<leftarrow> held D s a;
        Some (s, Inr \<lparr>bal_settled = row_settled row, bal_held = h\<rparr>) })"

definition entries_of :: "state \<Rightarrow> account_id \<Rightarrow> (state, ledger_error, ledger_entry list) sres" where
  "entries_of s a =
     (if map_of (accounts s) a = None then Some (s, Inl (AccountNotFound a))
      else Some (s, Inr (filter (\<lambda>e. account_id e = a \<or> paired_account_id e = a) (entries s))))"

section \<open>Keyed postings\<close>

definition grant_entry :: "env \<Rightarrow> grant_request \<Rightarrow> credit \<Rightarrow> ledger_entry" where
  "grant_entry E req after =
     \<lparr>entry_id = Id (new_v7 E 0), account_id = grant_account req,
      paired_account_id = SYSTEM_ACCOUNT, entry_type = Grant,
      delta_credits = grant_amount req, balance_after = after,
      entry_source = Some (grant_source req), revenue_recognizable = False,
      reverses_entry_id = None, entry_reservation_id = None, entry_run_id = None,
      entry_idempotency_key = grant_idempotency_key req, created_at = now_utc E 0\<rparr>"

definition grant :: "deps \<Rightarrow> env \<Rightarrow> state \<Rightarrow> grant_request \<Rightarrow> (state, ledger_error, ledger_entry) sres"
where
  "grant D E s req =
     (if \<not> is_positive (grant_amount req) then Some (s, Inl NonPositiveAmount)
      else if map_of (accounts s) (grant_account req) = None
      then Some (s, Inl (AccountNotFound (grant_account req)))
      else case find_existing s (grant_account req) (grant_idempotency_key req) of
        Some existing \<Rightarrow> Some (s, Inr existing)
      | None \<Rightarrow> do {
          (s1, after) \<leftarrow> post_credit D s (grant_account req) (grant_amount req);
          let entry = grant_entry E req after;
          Some (push_entry entry s1, Inr entry) })"

definition refund_entry :: "env \<Rightarrow> refund_request \<Rightarrow> credit \<Rightarrow> ledger_entry" where
  "refund_entry E req after =
     \<lparr>entry_id = Id (new_v7 E 0), account_id = refund_account req,
      paired_account_id = SYSTEM_ACCOUNT, entry_type = Refund,
      delta_credits = refund_amount req, balance_after = after,
      entry_source = None, revenue_recognizable = False,
      reverses_entry_id = refund_reverses_entry_id req, entry_reservation_id = None,
      entry_run_id = None, entry_idempotency_key = refund_idempotency_key req,
      created_at = now_utc E 0\<rparr>"

definition refund :: "deps \<Rightarrow> env \<Rightarrow> state \<Rightarrow> refund_request \<Rightarrow> (state, ledger_error, ledger_entry) sres"
where
  "refund D E s req =
     (if \<not> is_positive (refund_amount req) then Some (s, Inl NonPositiveAmount)
      else if map_of (accounts s) (refund_account req) = None
      then Some (s, Inl (AccountNotFound (refund_account req)))
      else case find_existing s (refund_account req) (refund_idempotency_key req) of
        Some existing \<Rightarrow> Some (s, Inr existing)
      | None \<Rightarrow> do {
          (s1, after) \<leftarrow> post_credit D s (refund_account req) (refund_amount req);
          let entry = refund_entry E req after;
          Some (push_entry entry s1, Inr entry) })"

definition charge_entry :: "env \<Rightarrow> charge_request \<Rightarrow> credit \<Rightarrow> ledger_entry" where
  "charge_entry E req after =
     \<lparr>entry_id = Id (new_v7 E 0), account_id = charge_account req,
      paired_account_id = SYSTEM_ACCOUNT, entry_type = Usage,
      delta_credits = - charge_amount req, balance_after = after,
      entry_source = None, revenue_recognizable = True,
      reverses_entry_id = None, entry_reservation_id = None,
      entry_run_id = charge_run_id req,
      entry_idempotency_key = charge_idempotency_key req, created_at = now_utc E 0\<rparr>"

definition charge :: "deps \<Rightarrow> env \<Rightarrow> state \<Rightarrow> charge_request \<Rightarrow> (state, ledger_error, ledger_entry) sres"
where
  "charge D E s req =
     (if \<not> is_positive (charge_amount req) then Some (s, Inl NonPositiveAmount)
      else if map_of (accounts s) (charge_account req) = None
      then Some (s, Inl (AccountNotFound (charge_account req)))
      else case find_existing s (charge_account req) (charge_idempotency_key req) of
        Some existing \<Rightarrow> Some (s, Inr existing)
      | None \<Rightarrow> do {
          (s1, after) \<leftarrow> post_debit D s (charge_account req) (charge_amount req);
          let entry = charge_entry E req after;
          Some (push_entry entry s1, Inr entry) })"

text \<open>The refund that reverses a charge or a settle, with the links it carries.\<close>

definition reversal_entry ::
  "entry_id \<Rightarrow> account_id \<Rightarrow> credit \<Rightarrow> credit \<Rightarrow> entry_id \<Rightarrow> reservation_id option \<Rightarrow> run_id option
     \<Rightarrow> string \<Rightarrow> time \<Rightarrow> ledger_entry" where
  "reversal_entry eid a amt after reverses rsv run key now =
     \<lparr>entry_id = eid, account_id = a, paired_account_id = SYSTEM_ACCOUNT, entry_type = Refund,
      delta_credits = amt, balance_after = after, entry_source = None,
      revenue_recognizable = False, reverses_entry_id = Some reverses,
      entry_reservation_id = rsv, entry_run_id = run, entry_idempotency_key = Some key,
      created_at = now\<rparr>"

definition reverse_charge ::
  "deps \<Rightarrow> env \<Rightarrow> state \<Rightarrow> reverse_charge_request \<Rightarrow> (state, ledger_error, ledger_entry option) sres"
where
  "reverse_charge D E s req =
     (if map_of (accounts s) (rev_account req) = None
      then Some (s, Inl (AccountNotFound (rev_account req)))
      else case find_keyed s (rev_account req) (rev_idempotency_key req) of
        Some existing \<Rightarrow> Some (s, Inr (Some existing))
      | None \<Rightarrow>
          if \<not> list_ex (\<lambda>e. entry_id e = rev_charge_entry_id req \<and> account_id e = rev_account req)
                 (entries s)
          then Some (s, Inr None)
          else do {
            amt \<leftarrow> unreversed_remainder D s (rev_charge_entry_id req);
            if \<not> is_positive amt then Some (s, Inr None)
            else do {
              (s1, after) \<leftarrow> post_credit D s (rev_account req) amt;
              let entry = reversal_entry (Id (new_v7 E 0)) (rev_account req) amt after
                 (rev_charge_entry_id req) None (rev_run_id req) (rev_idempotency_key req)
                 (now_utc E 0);
              Some (push_entry entry s1, Inr (Some entry)) } })"

section \<open>Reservations\<close>

definition reserve ::
  "deps \<Rightarrow> state \<Rightarrow> reserve_request \<Rightarrow> (state, ledger_error, reserve_outcome) sres" where
  "reserve D s req =
     (if \<not> is_positive (rsv_amount req) then Some (s, Inl NonPositiveAmount)
      else case map_of (accounts s) (rsv_account req) of
        None \<Rightarrow> Some (s, Inl (AccountNotFound (rsv_account req)))
      | Some row \<Rightarrow> (case map_of (holds s) (rsv_reservation_id req) of
          Some h \<Rightarrow>
            if hold_status h = Open then Some (s, Inr (Allowed (rsv_reservation_id req)))
            else Some (s, Inl (ReservationClosed (rsv_reservation_id req)))
        | None \<Rightarrow> do {
            h \<leftarrow> held D s (rsv_account req);
            avail \<leftarrow> dec_sub D (row_settled row) h;
            let hard = (rsv_limit req = Hard \<or> acct_no_overdraft (row_account row));
            if hard \<and> avail < rsv_amount req
            then Some (s, Inr (Denied avail (rsv_amount req)))
            else Some (s\<lparr>holds := AList.update (rsv_reservation_id req)
                   \<lparr>hold_account = rsv_account req, hold_amount = rsv_amount req,
                    hold_status = Open, hold_settle_entry = None,
                    hold_expires_at = rsv_expires_at req, hold_run_id = rsv_run_id req\<rparr> (holds s)\<rparr>,
                   Inr (Allowed (rsv_reservation_id req))) }))"

definition settle_entry ::
  "env \<Rightarrow> settle_request \<Rightarrow> account_id \<Rightarrow> credit \<Rightarrow> ledger_entry" where
  "settle_entry E req a after =
     \<lparr>entry_id = Id (new_v7 E 0), account_id = a,
      paired_account_id = SYSTEM_ACCOUNT, entry_type = Settle,
      delta_credits = - settle_actual req, balance_after = after,
      entry_source = None, revenue_recognizable = True,
      reverses_entry_id = None,
      entry_reservation_id = Some (settle_reservation_id req),
      entry_run_id = None, entry_idempotency_key = None, created_at = now_utc E 0\<rparr>"

definition settle ::
  "deps \<Rightarrow> env \<Rightarrow> state \<Rightarrow> settle_request \<Rightarrow> (state, ledger_error, ledger_entry) sres" where
  "settle D E s req =
     (if is_negative (settle_actual req) then Some (s, Inl NonPositiveAmount)
      else case map_of (holds s) (settle_reservation_id req) of
        None \<Rightarrow> Some (s, Inl (ReservationNotFound (settle_reservation_id req)))
      | Some h \<Rightarrow> (case hold_status h of
          Settled \<Rightarrow> do {
            eid \<leftarrow> hold_settle_entry h;
            entry \<leftarrow> List.find (\<lambda>e. entry_id e = eid) (entries s);
            Some (s, Inr entry) }
        | Voided \<Rightarrow> Some (s, Inl (ReservationClosed (settle_reservation_id req)))
        | Open \<Rightarrow> do {
            (s1, after) \<leftarrow> post_debit D s (hold_account h) (settle_actual req);
            let entry = settle_entry E req (hold_account h) after;
            let s2 = push_entry entry s1;
            Some (s2\<lparr>holds := AList.update (settle_reservation_id req)
                     (h\<lparr>hold_status := Settled, hold_settle_entry := Some (entry_id entry)\<rparr>)
                     (holds s2)\<rparr>,
                  Inr entry) }))"

definition void :: "state \<Rightarrow> reservation_id \<Rightarrow> (state, ledger_error, unit) sres" where
  "void s r = (case map_of (holds s) r of
      None \<Rightarrow> Some (s, Inr ())
    | Some h \<Rightarrow> (case hold_status h of
        Open \<Rightarrow> Some (s\<lparr>holds := AList.update r (h\<lparr>hold_status := Voided\<rparr>) (holds s)\<rparr>, Inr ())
      | Voided \<Rightarrow> Some (s, Inr ())
      | Settled \<Rightarrow> Some (s, Inl (ReservationClosed r))))"

definition expired_by :: "time \<Rightarrow> hold \<Rightarrow> bool" where
  "expired_by now h = (case hold_expires_at h of None \<Rightarrow> False | Some t \<Rightarrow> t \<le> now)"

definition expire_hold :: "time \<Rightarrow> hold \<Rightarrow> hold" where
  "expire_hold now h =
     (if hold_status h = Open \<and> expired_by now h then h\<lparr>hold_status := Voided\<rparr> else h)"

definition void_expired_holds :: "state \<Rightarrow> time \<Rightarrow> (state, ledger_error, nat) sres" where
  "void_expired_holds s now =
     Some (s\<lparr>holds := map (\<lambda>(r, h). (r, expire_hold now h)) (holds s)\<rparr>,
           Inr (length (filter (\<lambda>(_, h). hold_status h = Open \<and> expired_by now h) (holds s))))"

definition extend_hold :: "state \<Rightarrow> reservation_id \<Rightarrow> time \<Rightarrow> (state, ledger_error, unit) sres" where
  "extend_hold s r t = (case map_of (holds s) r of
      None \<Rightarrow> Some (s, Inl (ReservationNotFound r))
    | Some h \<Rightarrow> (case hold_status h of
        Open \<Rightarrow> Some (s\<lparr>holds := AList.update r (h\<lparr>hold_expires_at := Some t\<rparr>) (holds s)\<rparr>, Inr ())
      | _ \<Rightarrow> Some (s, Inl (ReservationClosed r))))"

section \<open>Voiding a run\<close>

text \<open>
  The loop state of \<open>void_run\<close>: the ledger, the number of identifiers drawn so far (one per
  posted refund) and the summary.
\<close>

type_synonym vr_state = "state \<times> nat \<times> run_void_summary"

definition vr_refund ::
  "deps \<Rightarrow> env \<Rightarrow> vr_state \<Rightarrow> account_id \<Rightarrow> entry_id \<Rightarrow> reservation_id option \<Rightarrow> run_id \<Rightarrow> string
     \<Rightarrow> vr_state option" where
  "vr_refund D E v a reverses rsv run key = (case v of (s, n, sm) \<Rightarrow> do {
     amt \<leftarrow> unreversed_remainder D s reverses;
     if \<not> is_positive amt then Some (s, n, sm)
     else do {
       (s1, after) \<leftarrow> post_credit D s a amt;
       total \<leftarrow> dec_add D (credits_refunded sm) amt;
       Some (push_entry (reversal_entry (Id (new_v7 E n)) a amt after reverses rsv (Some run) key
                          (now_utc E n)) s1,
             Suc n,
             sm\<lparr>charges_refunded := Suc (charges_refunded sm), credits_refunded := total\<rparr>) } })"

definition vr_hold ::
  "deps \<Rightarrow> env \<Rightarrow> run_id \<Rightarrow> vr_state \<Rightarrow> reservation_id \<times> hold \<Rightarrow> vr_state option" where
  "vr_hold D E run v m = (case m of (r, h) \<Rightarrow> (case hold_status h of
      Voided \<Rightarrow> Some v
    | Open \<Rightarrow> (case v of (s, n, sm) \<Rightarrow>
        Some ((case map_of (holds s) r of
                 None \<Rightarrow> s
               | Some h' \<Rightarrow> s\<lparr>holds := AList.update r (h'\<lparr>hold_status := Voided\<rparr>) (holds s)\<rparr>),
              n, sm\<lparr>holds_released := Suc (holds_released sm)\<rparr>))
    | Settled \<Rightarrow> do {
        eid \<leftarrow> hold_settle_entry h;
        vr_refund D E v (hold_account h) eid (Some r) run (run_void_refund_key D run r) }))"

definition vr_charge ::
  "deps \<Rightarrow> env \<Rightarrow> run_id \<Rightarrow> vr_state \<Rightarrow> entry_id \<times> account_id \<Rightarrow> vr_state option" where
  "vr_charge D E run v c = (case c of (cid, a) \<Rightarrow>
     vr_refund D E v a cid None run (run_void_charge_refund_key D run cid))"

text \<open>A loop that may panic in its body.\<close>

fun fold_opt :: "('b \<Rightarrow> 'a \<Rightarrow> 'b option) \<Rightarrow> 'b \<Rightarrow> 'a list \<Rightarrow> 'b option" where
  "fold_opt f b [] = Some b"
| "fold_opt f b (x # xs) = do { b' \<leftarrow> f b x; fold_opt f b' xs }"

definition run_members :: "state \<Rightarrow> run_id \<Rightarrow> (reservation_id \<times> hold) list" where
  "run_members s run = filter (\<lambda>(_, h). hold_run_id h = Some run) (holds s)"

definition run_charges :: "state \<Rightarrow> run_id \<Rightarrow> (entry_id \<times> account_id) list" where
  "run_charges s run = map (\<lambda>e. (entry_id e, account_id e))
     (filter (\<lambda>e. entry_run_id e = Some run \<and> entry_type e = Usage) (entries s))"

definition empty_summary :: run_void_summary where
  "empty_summary = \<lparr>holds_released = 0, charges_refunded = 0, credits_refunded = 0\<rparr>"

definition void_run ::
  "deps \<Rightarrow> env \<Rightarrow> state \<Rightarrow> run_id \<Rightarrow> (state, ledger_error, run_void_summary) sres" where
  "void_run D E s run = do {
     v1 \<leftarrow> fold_opt (vr_hold D E run) (s, 0, empty_summary) (run_members s run);
     (s2, n, sm) \<leftarrow> fold_opt (vr_charge D E run) v1 (run_charges (fst v1) run);
     Some (s2, Inr sm) }"

section \<open>Leases\<close>

definition open_lease ::
  "deps \<Rightarrow> env \<Rightarrow> state \<Rightarrow> lease_request \<Rightarrow> (state, ledger_error, ledger_account) sres" where
  "open_lease D E s req =
     (if \<not> is_positive (lease_amount req) then Some (s, Inl NonPositiveAmount)
      else case map_of (accounts s) (lease_parent req) of
        None \<Rightarrow> Some (s, Inl (AccountNotFound (lease_parent req)))
      | Some row \<Rightarrow> do {
          h \<leftarrow> held D s (lease_parent req);
          avail \<leftarrow> dec_sub D (row_settled row) h;
          if acct_no_overdraft (row_account row) \<and> avail < lease_amount req
          then Some (s, Inl (InsufficientFunds avail (lease_amount req)))
          else do {
            let child = \<lparr>acct_id = Id (new_v7 E 0), acct_org_id = acct_org_id (row_account row),
               acct_scope = Session, acct_no_overdraft = True,
               acct_parent_id = Some (lease_parent req)\<rparr>;
            let s1 = s\<lparr>accounts := AList.update (acct_id child) (account_row_new child) (accounts s)\<rparr>;
            s2 \<leftarrow> post_transfer D (Id (new_v7 E 1)) (Id (new_v7 E 2)) (now_utc E 0) s1
                    (lease_parent req) (acct_id child) (lease_amount req);
            Some (s2, Inr child) } })"

definition close_lease ::
  "deps \<Rightarrow> env \<Rightarrow> state \<Rightarrow> account_id \<Rightarrow> (state, ledger_error, credit) sres" where
  "close_lease D E s lease = (case map_of (accounts s) lease of
      None \<Rightarrow> Some (s, Inl (AccountNotFound lease))
    | Some row \<Rightarrow> (case acct_parent_id (row_account row) of
        None \<Rightarrow> Some (s, Inl (NotALease lease))
      | Some parent \<Rightarrow> do {
          h \<leftarrow> held D s lease;
          avail \<leftarrow> dec_sub D (row_settled row) h;
          if \<not> is_positive avail then Some (s, Inr 0)
          else do {
            s1 \<leftarrow> post_transfer D (Id (new_v7 E 0)) (Id (new_v7 E 1)) (now_utc E 0) s lease parent avail;
            Some (s1, Inr avail) } }))"

section \<open>Fields of the posted entries\<close>

lemma entry_fields [simp]:
  "entry_id (transfer_entry i a p d b t) = i" "account_id (transfer_entry i a p d b t) = a"
  "paired_account_id (transfer_entry i a p d b t) = p"
  "entry_type (transfer_entry i a p d b t) = Transfer"
  "delta_credits (transfer_entry i a p d b t) = d"
  "reverses_entry_id (transfer_entry i a p d b t) = None"
  "balance_after (transfer_entry i a p d b t) = b"
  "entry_id (reversal_entry i a m b v q u k t) = i"
  "account_id (reversal_entry i a m b v q u k t) = a"
  "paired_account_id (reversal_entry i a m b v q u k t) = SYSTEM_ACCOUNT"
  "entry_type (reversal_entry i a m b v q u k t) = Refund"
  "delta_credits (reversal_entry i a m b v q u k t) = m"
  "reverses_entry_id (reversal_entry i a m b v q u k t) = Some v"
  "balance_after (reversal_entry i a m b v q u k t) = b"
  "entry_idempotency_key (reversal_entry i a m b v q u k t) = Some k"
  "entry_run_id (reversal_entry i a m b v q u k t) = u"
  by (simp_all add: transfer_entry_def reversal_entry_def)

end
