(* ===== verification/Ledger_Kernel.thy ===== *)
theory Ledger_Kernel
  imports Ledger_Memory
begin

text \<open>
  The abstract specification of the ledger: a double-entry machine with seven kinds of atomic
  steps. A posting moves an amount between one account and the system account and appends exactly
  one entry; a transfer moves an amount between two accounts and appends two entries; the other
  steps open an account and create, extend, release and settle a hold. \<open>kstep\<close> is the step
  relation and \<open>ktrace\<close> a run of steps; \<open>Ledger_Refine\<close> shows that every operation of the
  in-memory ledger is such a run.
\<close>

section \<open>Moving credits\<close>

definition has_account :: "state \<Rightarrow> account_id \<Rightarrow> bool" where
  "has_account s a = (map_of (accounts s) a \<noteq> None)"

definition entry_ids :: "state \<Rightarrow> entry_id set" where
  "entry_ids s = entry_id ` set (entries s)"

definition shift :: "account_id \<Rightarrow> credit \<Rightarrow> state \<Rightarrow> state" where
  "shift a d s = (case map_of (accounts s) a of
      None \<Rightarrow> s
    | Some r \<Rightarrow>
        s\<lparr>accounts := AList.update a (r\<lparr>row_settled := row_settled r + d\<rparr>) (accounts s)\<rparr>)"

lemma shift_frame [simp]:
  "holds (shift a d s) = holds s" "entries (shift a d s) = entries s"
  "entry_ids (shift a d s) = entry_ids s" "held_of (shift a d s) b = held_of s b"
  by (simp_all add: shift_def entry_ids_def held_of_def split: option.split)

lemma push_entry_frame [simp]:
  "holds (push_entry e s) = holds s" "accounts (push_entry e s) = accounts s"
  "entries (push_entry e s) = entries s @ [e]"
  "entry_ids (push_entry e s) = insert (entry_id e) (entry_ids s)"
  "held_of (push_entry e s) b = held_of s b" "settled_of (push_entry e s) b = settled_of s b"
  "has_account (push_entry e s) b = has_account s b" "net_of (push_entry e s) = net_of s"
  by (auto simp: push_entry_def entry_ids_def held_of_def settled_of_def has_account_def net_of_def)

lemma map_of_shift:
  "map_of (accounts (shift a d s)) b =
     map_option (\<lambda>r. if b = a then r\<lparr>row_settled := row_settled r + d\<rparr> else r)
       (map_of (accounts s) b)"
  by (cases "map_of (accounts s) a"; cases "map_of (accounts s) b")
     (auto simp: shift_def)

lemma has_account_shift [simp]: "has_account (shift a d s) b = has_account s b"
  by (simp add: has_account_def map_of_shift)

lemma settled_of_shift [simp]:
  "settled_of (shift a d s) b = settled_of s b + (if b = a \<and> has_account s a then d else 0)"
  by (cases "map_of (accounts s) b") (auto simp: settled_of_def map_of_shift has_account_def)

lemma keys_shift [simp]: "map fst (accounts (shift a d s)) = map fst (accounts s)"
proof (cases "map_of (accounts s) a")
  case (Some r)
  then have "a \<in> fst ` set (accounts s)" by (rule map_of_mem_keys)
  then show ?thesis using Some by (simp add: shift_def update_keys)
qed (simp add: shift_def)

lemma net_of_shift:
  assumes "distinct (map fst (accounts s))" and "has_account s a"
  shows "net_of (shift a d s) = net_of s + d"
proof -
  from assms(2) obtain r where r: "map_of (accounts s) a = Some r"
    by (auto simp: has_account_def)
  with sum_list_update_present [OF assms(1) r, of row_settled] show ?thesis
    by (simp add: shift_def net_of_def)
qed

lemma shift_commute: "shift a x (shift b y s) = shift b y (shift a x s)"
proof (cases "map_of (accounts s) a = None \<or> map_of (accounts s) b = None")
  case True
  then show ?thesis by (auto simp: shift_def split: option.splits if_splits)
next
  case False
  then obtain r q where *: "map_of (accounts s) a = Some r" "map_of (accounts s) b = Some q"
    by auto
  show ?thesis
  proof (cases "a = b")
    case True
    with * show ?thesis by (simp add: shift_def algebra_simps)
  next
    case False
    moreover have "b \<in> fst ` set (accounts s)" using *(2) by (rule map_of_mem_keys)
    ultimately show ?thesis using * update_update_commute [of b a "accounts s"]
      by (simp add: shift_def)
  qed
qed

text \<open>The exact unreversed remainder of a charge.\<close>

definition charged_of :: "state \<Rightarrow> entry_id \<Rightarrow> credit" where
  "charged_of s eid = (case List.find (\<lambda>e. entry_id e = eid) (entries s) of
     None \<Rightarrow> 0 | Some e \<Rightarrow> - delta_credits e)"

definition reversed_of :: "state \<Rightarrow> entry_id \<Rightarrow> credit" where
  "reversed_of s eid =
     sum_list (map delta_credits (filter (\<lambda>e. reverses_entry_id e = Some eid) (entries s)))"

definition remainder_of :: "state \<Rightarrow> entry_id \<Rightarrow> credit" where
  "remainder_of s eid = charged_of s eid - reversed_of s eid"

lemma unreversed_remainder_exact [dec_laws]:
  assumes "exact_sums D" and "unreversed_remainder D s eid = Some r"
  shows "r = remainder_of s eid"
proof -
  from assms(2) obtain t where
    "credit_sum_from D 0 (map delta_credits
       (filter (\<lambda>e. reverses_entry_id e = Some eid) (entries s))) = Some t" and
    "dec_sub D (charged_of s eid) t = Some r"
    by (auto simp: unreversed_remainder_def charged_of_def Let_def Option.bind_eq_Some_conv
             split: option.splits)
  from credit_sum_from_exact [OF assms(1) this(1)] dec_sub_exact [OF assms(1) this(2)]
  show ?thesis by (simp add: remainder_of_def reversed_of_def)
qed

section \<open>The step relation\<close>

datatype klabel =
    KAccount ledger_account
  | KPost ledger_entry
  | KTransfer account_id account_id credit
  | KHold reservation_id hold
  | KExtend reservation_id
  | KRelease reservation_id
  | KSettle reservation_id

inductive kstep :: "state \<Rightarrow> klabel \<Rightarrow> state \<Rightarrow> bool" where
  k_account:
    "\<not> has_account s (acct_id acc) \<Longrightarrow>
     kstep s (KAccount acc)
       (s\<lparr>accounts := AList.update (acct_id acc) (account_row_new acc) (accounts s)\<rparr>)"
| k_post:
    "has_account s (account_id e) \<Longrightarrow> entry_id e \<notin> entry_ids s \<Longrightarrow>
     paired_account_id e = SYSTEM_ACCOUNT \<Longrightarrow> entry_type e \<noteq> Transfer \<Longrightarrow>
     (account_id e \<noteq> SYSTEM_ACCOUNT \<Longrightarrow>
        balance_after e = settled_of s (account_id e) + delta_credits e) \<Longrightarrow>
     (reverses_entry_id e \<noteq> None \<Longrightarrow> 0 < delta_credits e) \<Longrightarrow>
     kstep s (KPost e)
       (push_entry e (shift SYSTEM_ACCOUNT (- delta_credits e)
          (shift (account_id e) (delta_credits e) s)))"
| k_transfer:
    "has_account s from \<Longrightarrow> has_account s dest \<Longrightarrow> 0 < amt \<Longrightarrow>
     eid1 \<notin> entry_ids s \<Longrightarrow> eid2 \<notin> entry_ids s \<Longrightarrow> eid1 \<noteq> eid2 \<Longrightarrow>
     after1 = settled_of s from - amt \<Longrightarrow>
     after2 = settled_of (shift from (- amt) s) dest + amt \<Longrightarrow>
     kstep s (KTransfer from dest amt)
       (push_entry (transfer_entry eid2 dest from amt after2 now)
         (push_entry (transfer_entry eid1 from dest (- amt) after1 now)
           (shift dest amt (shift from (- amt) s))))"
| k_hold:
    "map_of (holds s) r = None \<Longrightarrow> has_account s (hold_account h) \<Longrightarrow> 0 < hold_amount h \<Longrightarrow>
     hold_status h = Open \<Longrightarrow>
     kstep s (KHold r h) (s\<lparr>holds := AList.update r h (holds s)\<rparr>)"
| k_extend:
    "map_of (holds s) r = Some h \<Longrightarrow> hold_status h = Open \<Longrightarrow>
     kstep s (KExtend r) (s\<lparr>holds := AList.update r (h\<lparr>hold_expires_at := t\<rparr>) (holds s)\<rparr>)"
| k_release:
    "map_of (holds s) r = Some h \<Longrightarrow> hold_status h = Open \<Longrightarrow>
     kstep s (KRelease r) (s\<lparr>holds := AList.update r (h\<lparr>hold_status := Voided\<rparr>) (holds s)\<rparr>)"
| k_settle:
    "map_of (holds s) r = Some h \<Longrightarrow> hold_status h = Open \<Longrightarrow>
     e \<in> set (entries s) \<Longrightarrow> account_id e = hold_account h \<Longrightarrow> entry_type e = Settle \<Longrightarrow>
     entry_reservation_id e = Some r \<Longrightarrow>
     kstep s (KSettle r)
       (s\<lparr>holds := AList.update r
            (h\<lparr>hold_status := Settled, hold_settle_entry := Some (entry_id e)\<rparr>) (holds s)\<rparr>)"

inductive_cases kstep_postE: "kstep s (KPost e) s'"
inductive_cases kstep_transferE: "kstep s (KTransfer from dest amt) s'"

inductive ktrace :: "state \<Rightarrow> klabel list \<Rightarrow> state \<Rightarrow> bool" where
  kt_nil: "ktrace s [] s"
| kt_cons: "kstep s l s' \<Longrightarrow> ktrace s' ls s'' \<Longrightarrow> ktrace s (l # ls) s''"

inductive_simps ktrace_Nil [simp]: "ktrace s [] s'"
inductive_simps ktrace_Cons: "ktrace s (l # ls) s'"

lemma ktrace_single: "kstep s l s' \<Longrightarrow> ktrace s [l] s'"
  by (blast intro: ktrace.intros)

lemma ktrace_append: "ktrace s ls s' \<Longrightarrow> ktrace s' ms s'' \<Longrightarrow> ktrace s (ls @ ms) s''"
  by (induction rule: ktrace.induct) (auto intro: ktrace.intros)

text \<open>A property every step keeps, under a condition on its label, is kept by every run.\<close>

lemma ktrace_preserves:
  assumes "ktrace s ls s'" and "P s" and "\<forall>l \<in> set ls. Q l"
    and "\<And>s l s'. kstep s l s' \<Longrightarrow> Q l \<Longrightarrow> P s \<Longrightarrow> P s'"
  shows "P s'"
  using assms(1-3) by (induction rule: ktrace.induct) (auto intro: assms(4))

section \<open>What a step does to accounts, entries and holds\<close>

text \<open>Entries are only ever appended.\<close>

lemma kstep_append_only: "kstep s l s' \<Longrightarrow> \<exists>es. entries s' = entries s @ es"
  by (induction rule: kstep.induct) auto

lemma ktrace_append_only: "ktrace s ls s' \<Longrightarrow> \<exists>es. entries s' = entries s @ es"
proof (induction rule: ktrace.induct)
  case (kt_cons s l s' ls s'')
  then show ?case using kstep_append_only by fastforce
qed simp

lemma kstep_has_account: "kstep s l s' \<Longrightarrow> has_account s a \<Longrightarrow> has_account s' a"
  by (induction rule: kstep.induct) (auto simp: has_account_def map_of_shift)

lemma ktrace_has_account: "ktrace s ls s' \<Longrightarrow> has_account s a \<Longrightarrow> has_account s' a"
  by (induction rule: ktrace.induct) (auto intro: kstep_has_account)

text \<open>An account's identity, flags and parent never change.\<close>

lemma kstep_row_account:
  assumes "kstep s l s'" and "map_of (accounts s) a = Some r"
  shows "\<exists>r'. map_of (accounts s') a = Some r' \<and> row_account r' = row_account r"
  using assms by (induction rule: kstep.induct) (auto simp: has_account_def map_of_shift)

lemma ktrace_row_account:
  assumes "ktrace s ls s'" and "map_of (accounts s) a = Some r"
  shows "\<exists>r'. map_of (accounts s') a = Some r' \<and> row_account r' = row_account r"
  using assms
proof (induction arbitrary: r rule: ktrace.induct)
  case (kt_cons s l s' ls s'')
  from kstep_row_account [OF kt_cons.hyps(1) kt_cons.prems] kt_cons.IH show ?case by metis
qed simp

text \<open>
  The life of a hold: its account, amount and run are fixed, an open hold may be released or
  settled, and a settled or released hold never changes again.
\<close>

definition hold_evolves :: "hold \<Rightarrow> hold \<Rightarrow> bool" where
  "hold_evolves h h' \<longleftrightarrow>
     hold_account h' = hold_account h \<and> hold_amount h' = hold_amount h \<and>
     hold_run_id h' = hold_run_id h \<and> (hold_status h \<noteq> Open \<longrightarrow> h' = h)"

lemma hold_evolves_refl: "hold_evolves h h"
  by (simp add: hold_evolves_def)

lemma hold_evolves_trans: "hold_evolves h h' \<Longrightarrow> hold_evolves h' h'' \<Longrightarrow> hold_evolves h h''"
  by (auto simp: hold_evolves_def)

lemma kstep_hold_evolves:
  assumes "kstep s l s'" and "map_of (holds s) r = Some h"
  shows "\<exists>h'. map_of (holds s') r = Some h' \<and> hold_evolves h h'"
  using assms by (induction rule: kstep.induct) (auto simp: hold_evolves_def)

lemma ktrace_hold_evolves:
  assumes "ktrace s ls s'" and "map_of (holds s) r = Some h"
  shows "\<exists>h'. map_of (holds s') r = Some h' \<and> hold_evolves h h'"
  using assms
proof (induction arbitrary: h rule: ktrace.induct)
  case (kt_nil s)
  then show ?case by (auto simp: hold_evolves_refl)
next
  case (kt_cons s l s' ls s'')
  from kstep_hold_evolves [OF kt_cons.hyps(1) kt_cons.prems] obtain h1 where
    h1: "map_of (holds s') r = Some h1" "hold_evolves h h1" by blast
  from kt_cons.IH [OF h1(1)] h1(2) show ?case by (blast intro: hold_evolves_trans)
qed

end
