(* ===== verification/Ledger_Refine.thy ===== *)
theory Ledger_Refine
  imports Ledger_Kernel
begin

text \<open>
  Refinement: every operation of the in-memory ledger is a run of the abstract machine of
  \<open>Ledger_Kernel\<close>. One elimination lemma per operation lists its branches and, on the branches that
  change the ledger, the abstract step it performs; \<open>exec\<close> dispatches the methods of the
  \<open>LedgerBackend\<close> trait (\<open>src/backend.rs\<close>) and \<open>exec_refines\<close> is the simulation.

  The hypotheses are exact decimal sums and fresh identifiers: the identifiers an operation draws
  from \<open>Uuid::now_v7\<close> are pairwise distinct and not in use. \<open>id_budget\<close> bounds how many an operation
  draws: at most three, or one per hold and entry for \<open>void_run\<close>.
\<close>

section \<open>Fresh identifiers\<close>

definition fresh_ids :: "env \<Rightarrow> nat \<Rightarrow> nat \<Rightarrow> state \<Rightarrow> bool" where
  "fresh_ids E n k s \<longleftrightarrow>
     inj_on (new_v7 E) {n..<k} \<and>
     (\<forall>i. n \<le> i \<and> i < k \<longrightarrow> Id (new_v7 E i) \<notin> entry_ids s \<and> \<not> has_account s (Id (new_v7 E i)))"

definition id_budget :: "state \<Rightarrow> nat" where
  "id_budget s = 3 + length (holds s) + length (entries s)"

lemma fresh_ids_entry: "fresh_ids E n k s \<Longrightarrow> n \<le> i \<Longrightarrow> i < k \<Longrightarrow> Id (new_v7 E i) \<notin> entry_ids s"
  by (simp add: fresh_ids_def)

lemma fresh_ids_account:
  "fresh_ids E n k s \<Longrightarrow> n \<le> i \<Longrightarrow> i < k \<Longrightarrow> \<not> has_account s (Id (new_v7 E i))"
  by (simp add: fresh_ids_def)

lemma fresh_ids_distinct:
  assumes "fresh_ids E n k s" and "n \<le> i" and "i < j" and "j < k"
  shows "new_v7 E i \<noteq> new_v7 E j"
proof
  assume eq: "new_v7 E i = new_v7 E j"
  have "inj_on (new_v7 E) {n..<k}" using assms(1) by (simp add: fresh_ids_def)
  from inj_onD [OF this eq] assms(2-4) show False by simp
qed

lemma fresh_ids_mono: "fresh_ids E n k s \<Longrightarrow> n \<le> m \<Longrightarrow> j \<le> k \<Longrightarrow> fresh_ids E m j s"
  by (auto simp: fresh_ids_def intro: inj_on_subset)

section \<open>The balance updates are exact shifts\<close>

lemma system_sub_exact:
  assumes "exact_sums D" and "system_sub D s amt = Some s'"
  shows "s' = shift SYSTEM_ACCOUNT (- amt) s"
  using assms
  by (auto simp: system_sub_def shift_def Option.bind_eq_Some_conv
           dest: dec_sub_exact split: option.splits)

lemma system_add_exact:
  assumes "exact_sums D" and "system_add D s amt = Some s'"
  shows "s' = shift SYSTEM_ACCOUNT amt s"
  using assms
  by (auto simp: system_add_def shift_def Option.bind_eq_Some_conv
           dest: dec_add_exact split: option.splits)

lemma account_add_exact:
  assumes "exact_sums D" and "account_add D s a amt = Some (s', b)"
  shows "has_account s a \<and> s' = shift a amt s \<and> b = settled_of s a + amt"
  using assms
  by (auto simp: account_add_def shift_def has_account_def settled_of_def
           Option.bind_eq_Some_conv dest: dec_add_exact)

lemma account_sub_exact:
  assumes "exact_sums D" and "account_sub D s a amt = Some (s', b)"
  shows "has_account s a \<and> s' = shift a (- amt) s \<and> b = settled_of s a - amt"
  using assms
  by (auto simp: account_sub_def shift_def has_account_def settled_of_def
           Option.bind_eq_Some_conv dest: dec_sub_exact)

lemma post_credit_exact:
  assumes "exact_sums D" and "post_credit D s a amt = Some (s', b)"
  shows "has_account s a \<and> s' = shift SYSTEM_ACCOUNT (- amt) (shift a amt s) \<and>
         (a \<noteq> SYSTEM_ACCOUNT \<longrightarrow> b = settled_of s a + amt)"
proof -
  from assms(2) obtain s1 where
    1: "system_sub D s amt = Some s1" and 2: "account_add D s1 a amt = Some (s', b)"
    by (auto simp: post_credit_def Option.bind_eq_Some_conv)
  from system_sub_exact [OF assms(1) 1] account_add_exact [OF assms(1) 2] show ?thesis
    by (auto simp: shift_commute [of a])
qed

lemma post_debit_exact:
  assumes "exact_sums D" and "post_debit D s a amt = Some (s', b)"
  shows "has_account s a \<and> s' = shift SYSTEM_ACCOUNT amt (shift a (- amt) s) \<and>
         b = settled_of s a - amt"
proof -
  from assms(2) obtain s1 where
    1: "account_sub D s a amt = Some (s1, b)" and 2: "system_add D s1 amt = Some s'"
    by (auto simp: post_debit_def Option.bind_eq_Some_conv)
  from account_sub_exact [OF assms(1) 1] system_add_exact [OF assms(1) 2] show ?thesis
    by simp
qed

text \<open>Posting and recording an entry is one posting step.\<close>

lemma credit_posted:
  assumes "exact_sums D" and "post_credit D s a amt = Some (s1, b)"
    and "account_id e = a" "delta_credits e = amt" "balance_after e = b"
    and "paired_account_id e = SYSTEM_ACCOUNT" "entry_type e \<noteq> Transfer"
    and "entry_id e \<notin> entry_ids s" "0 < amt"
  shows "kstep s (KPost e) (push_entry e s1)"
  using post_credit_exact [OF assms(1,2)] assms(3-) by (auto intro!: k_post)

lemma debit_posted:
  assumes "exact_sums D" and "post_debit D s a amt = Some (s1, b)"
    and "account_id e = a" "delta_credits e = - amt" "balance_after e = b"
    and "paired_account_id e = SYSTEM_ACCOUNT" "entry_type e \<noteq> Transfer"
    and "entry_id e \<notin> entry_ids s" "reverses_entry_id e = None"
  shows "kstep s (KPost e) (push_entry e s1)"
proof -
  from post_debit_exact [OF assms(1,2)] assms(3-)
  have "push_entry e s1 = push_entry e (shift SYSTEM_ACCOUNT (- delta_credits e)
          (shift (account_id e) (delta_credits e) s))" by simp
  moreover have "kstep s (KPost e) \<dots>"
    using post_debit_exact [OF assms(1,2)] assms(3-) by (intro k_post) auto
  ultimately show ?thesis by simp
qed

lemma transfer_posted:
  assumes "exact_sums D" and "post_transfer D eid1 eid2 now s from dest amt = Some s'"
    and "eid1 \<notin> entry_ids s" "eid2 \<notin> entry_ids s" "eid1 \<noteq> eid2" "0 < amt"
  shows "kstep s (KTransfer from dest amt) s'"
proof -
  from assms(2) obtain s1 b1 s2 b2 where
    1: "account_sub D s from amt = Some (s1, b1)" and
    2: "account_add D s1 dest amt = Some (s2, b2)" and
    s': "s' = push_entry (transfer_entry eid2 dest from amt b2 now)
            (push_entry (transfer_entry eid1 from dest (- amt) b1 now) s2)"
    by (auto simp: post_transfer_def Option.bind_eq_Some_conv)
  from account_sub_exact [OF assms(1) 1] account_add_exact [OF assms(1) 2] assms(3-) show ?thesis
    unfolding s' by (auto intro!: k_transfer)
qed

section \<open>Keyed postings\<close>

text \<open>
  \<open>grant\<close>, \<open>refund\<close> and \<open>charge\<close> share one contract: refuse a non-positive amount, refuse an unknown
  account, return the entry already posted under the key, else post one entry. The locale states
  it over the operation and its posting \<open>post\<close>, and proves the branches, the abstract step and
  idempotency once.
\<close>

locale keyed_posting =
  fixes op :: "state \<Rightarrow> 'req \<Rightarrow> (state, ledger_error, ledger_entry) sres"
    and post :: "state \<Rightarrow> 'req \<Rightarrow> (state \<times> ledger_entry) option"
    and acct :: "'req \<Rightarrow> account_id"
    and amt :: "'req \<Rightarrow> credit"
    and key :: "'req \<Rightarrow> string option"
    and D :: deps
    and fresh :: "state \<Rightarrow> bool"
  assumes op_eq: "op s req =
      (if \<not> 0 < amt req then Some (s, Inl NonPositiveAmount)
       else if \<not> has_account s (acct req) then Some (s, Inl (AccountNotFound (acct req)))
       else case find_existing s (acct req) (key req) of
         Some e \<Rightarrow> Some (s, Inr e)
       | None \<Rightarrow> (case post s req of None \<Rightarrow> None | Some (s', e) \<Rightarrow> Some (s', Inr e)))"
    and post_entry: "post s req = Some (s', e) \<Longrightarrow>
      entries s' = entries s @ [e] \<and> account_id e = acct req \<and> entry_idempotency_key e = key req"
    and post_step: "exact_sums D \<Longrightarrow> fresh s \<Longrightarrow> 0 < amt req \<Longrightarrow>
      post s req = Some (s', e) \<Longrightarrow> kstep s (KPost e) s'"
begin

lemma branches:
  assumes "op s req = Some (s', r)"
  obtains (nonpositive) "\<not> 0 < amt req" "s' = s" "r = Inl NonPositiveAmount"
  | (missing) "0 < amt req" "\<not> has_account s (acct req)" "s' = s"
      "r = Inl (AccountNotFound (acct req))"
  | (existing) e where "0 < amt req" "has_account s (acct req)"
      "find_existing s (acct req) (key req) = Some e" "s' = s" "r = Inr e"
  | (posted) e where "0 < amt req" "has_account s (acct req)"
      "find_existing s (acct req) (key req) = None" "post s req = Some (s', e)" "r = Inr e"
  using assms by (auto simp: op_eq split: if_splits option.splits)

lemma error_keeps_state: "op s req = Some (s', Inl e) \<Longrightarrow> s' = s"
  by (erule branches) auto

lemma refines:
  assumes "exact_sums D" and "fresh s" and "op s req = Some (s', r)"
  shows "s' = s \<or> (\<exists>e. kstep s (KPost e) s' \<and> r = Inr e \<and> post s req = Some (s', e) \<and> 0 < amt req)"
  using assms(3) by (rule branches) (auto intro: post_step [OF assms(1,2)])

text \<open>
  After a successful call under a key the entry is found under that key, and wherever it is found
  a call returns it and changes nothing.
\<close>

lemma recorded:
  assumes "op s req = Some (s1, Inr e)" and "key req = Some k"
  shows "find_existing s1 (acct req) (key req) = Some e \<and> 0 < amt req \<and> has_account s (acct req)"
  using assms(1)
proof (cases rule: branches)
  case (posted e')
  with post_entry [OF posted(4)] assms(2) show ?thesis
    by (auto simp: find_existing_def find_keyed_def find_append)
qed auto

lemma found:
  assumes "find_existing s (acct req) (key req) = Some e" and "0 < amt req" and "has_account s (acct req)"
  shows "op s req = Some (s, Inr e)"
  using assms by (simp add: op_eq)

end

lemma find_existing_append:
  "find_existing s a k = Some e \<Longrightarrow> entries s' = entries s @ es \<Longrightarrow> find_existing s' a k = Some e"
  by (auto simp: find_existing_def find_keyed_def split: option.splits)

definition grant_post :: "deps \<Rightarrow> env \<Rightarrow> state \<Rightarrow> grant_request \<Rightarrow> (state \<times> ledger_entry) option" where
  "grant_post D E s req = do {
     (s1, after) \<leftarrow> post_credit D s (grant_account req) (grant_amount req);
     Some (push_entry (grant_entry E req after) s1, grant_entry E req after) }"

definition refund_post :: "deps \<Rightarrow> env \<Rightarrow> state \<Rightarrow> refund_request \<Rightarrow> (state \<times> ledger_entry) option" where
  "refund_post D E s req = do {
     (s1, after) \<leftarrow> post_credit D s (refund_account req) (refund_amount req);
     Some (push_entry (refund_entry E req after) s1, refund_entry E req after) }"

definition charge_post :: "deps \<Rightarrow> env \<Rightarrow> state \<Rightarrow> charge_request \<Rightarrow> (state \<times> ledger_entry) option" where
  "charge_post D E s req = do {
     (s1, after) \<leftarrow> post_debit D s (charge_account req) (charge_amount req);
     Some (push_entry (charge_entry E req after) s1, charge_entry E req after) }"

lemma post_credit_entries: "post_credit D s a m = Some (s', b) \<Longrightarrow> entries s' = entries s"
  by (auto simp: post_credit_def system_sub_def account_add_def Option.bind_eq_Some_conv
           split: option.splits)

lemma post_debit_entries: "post_debit D s a m = Some (s', b) \<Longrightarrow> entries s' = entries s"
  by (auto simp: post_debit_def system_add_def account_sub_def Option.bind_eq_Some_conv
           split: option.splits)

lemma bind_pair_case:
  "(case (m \<bind> (\<lambda>(s1, b). Some (f s1 b, g s1 b))) of None \<Rightarrow> None | Some (s', e) \<Rightarrow> Some (s', h e))
     = (m \<bind> (\<lambda>(s1, b). Some (f s1 b, h (g s1 b))))"
  by (cases m) auto

interpretation grant: keyed_posting "grant D E" "grant_post D E" grant_account grant_amount
  grant_idempotency_key D "fresh_ids E 0 (Suc k)" for D E k
proof (unfold_locales, goal_cases)
  case (1 s req)
  then show ?case
    by (simp add: grant_def grant_post_def has_account_def bind_pair_case Let_def
             split: option.split)
next
  case (2 s req s' e)
  then show ?case
    by (auto simp: grant_post_def grant_entry_def Option.bind_eq_Some_conv
             dest: post_credit_entries)
next
  case (3 s req s' e)
  then show ?case
    by (auto simp: grant_post_def Option.bind_eq_Some_conv grant_entry_def fresh_ids_entry
             intro!: credit_posted)
qed

interpretation refund: keyed_posting "refund D E" "refund_post D E" refund_account refund_amount
  refund_idempotency_key D "fresh_ids E 0 (Suc k)" for D E k
proof (unfold_locales, goal_cases)
  case (1 s req)
  then show ?case
    by (simp add: refund_def refund_post_def has_account_def bind_pair_case Let_def
             split: option.split)
next
  case (2 s req s' e)
  then show ?case
    by (auto simp: refund_post_def refund_entry_def Option.bind_eq_Some_conv
             dest: post_credit_entries)
next
  case (3 s req s' e)
  then show ?case
    by (auto simp: refund_post_def Option.bind_eq_Some_conv refund_entry_def fresh_ids_entry
             intro!: credit_posted)
qed

interpretation charge: keyed_posting "charge D E" "charge_post D E" charge_account charge_amount
  charge_idempotency_key D "fresh_ids E 0 (Suc k)" for D E k
proof (unfold_locales, goal_cases)
  case (1 s req)
  then show ?case
    by (simp add: charge_def charge_post_def has_account_def bind_pair_case Let_def
             split: option.split)
next
  case (2 s req s' e)
  then show ?case
    by (auto simp: charge_post_def charge_entry_def Option.bind_eq_Some_conv
             dest: post_debit_entries)
next
  case (3 s req s' e)
  then show ?case
    by (auto simp: charge_post_def Option.bind_eq_Some_conv charge_entry_def fresh_ids_entry
             intro!: debit_posted)
qed

section \<open>Accounts and reservations\<close>

lemma open_account_step:
  assumes "fresh_ids E 0 (Suc k) s" and "open_account E s req = Some (s', r)"
  shows "\<exists>acc. r = Inr acc \<and> kstep s (KAccount acc) s' \<and> acct_id acc = Id (new_v7 E 0) \<and>
           acct_no_overdraft acc = na_no_overdraft req \<and> acct_parent_id acc = na_parent_id req"
proof -
  let ?acc = "\<lparr>acct_id = Id (new_v7 E 0), acct_org_id = na_org_id req, acct_scope = na_scope req,
     acct_no_overdraft = na_no_overdraft req, acct_parent_id = na_parent_id req\<rparr>"
  have "\<not> has_account s (acct_id ?acc)" using fresh_ids_account [OF assms(1)] by simp
  from k_account [OF this] assms(2) show ?thesis
    by (intro exI [of _ ?acc]) (auto simp: open_account_def Let_def)
qed

lemma reserve_cases:
  assumes "exact_sums D" and "reserve D s req = Some (s', r)"
  obtains (same) "s' = s" "\<forall>x. r = Inr (Allowed x) \<longrightarrow>
      (\<exists>h. map_of (holds s) (rsv_reservation_id req) = Some h \<and> hold_status h = Open)"
  | (held) row h where "map_of (accounts s) (rsv_account req) = Some row"
      "map_of (holds s) (rsv_reservation_id req) = None"
      "kstep s (KHold (rsv_reservation_id req) h) s'"
      "hold_account h = rsv_account req" "hold_amount h = rsv_amount req" "0 < rsv_amount req"
      "hold_status h = Open" "hold_run_id h = rsv_run_id req"
      "r = Inr (Allowed (rsv_reservation_id req))"
      "rsv_limit req = Hard \<or> acct_no_overdraft (row_account row) \<Longrightarrow>
         rsv_amount req \<le> available_of s (rsv_account req)"
proof (cases "\<not> 0 < rsv_amount req \<or> map_of (accounts s) (rsv_account req) = None \<or>
              map_of (holds s) (rsv_reservation_id req) \<noteq> None")
  case True
  then show ?thesis using assms(2) by (intro same) (auto simp: reserve_def split: if_splits option.splits)
next
  case False
  then obtain row where pos: "0 < rsv_amount req"
    and row: "map_of (accounts s) (rsv_account req) = Some row"
    and none: "map_of (holds s) (rsv_reservation_id req) = None" by auto
  from assms(2) pos row none obtain h avail where
    h: "held D s (rsv_account req) = Some h" and av: "dec_sub D (row_settled row) h = Some avail"
    by (auto simp: reserve_def Option.bind_eq_Some_conv)
  have avail: "avail = available_of s (rsv_account req)"
    using held_exact [OF assms(1) h] dec_sub_exact [OF assms(1) av] row
    by (simp add: available_of_def settled_of_def)
  define hd where "hd = \<lparr>hold_account = rsv_account req, hold_amount = rsv_amount req,
     hold_status = Open, hold_settle_entry = None, hold_expires_at = rsv_expires_at req,
     hold_run_id = rsv_run_id req\<rparr>"
  show ?thesis
  proof (cases "(rsv_limit req = Hard \<or> acct_no_overdraft (row_account row)) \<and> avail < rsv_amount req")
    case True
    with assms(2) pos row none h av show ?thesis
      by (intro same) (auto simp: reserve_def)
  next
    case False
    with assms(2) pos row none h av have
      s': "s' = s\<lparr>holds := AList.update (rsv_reservation_id req) hd (holds s)\<rparr>"
      and r: "r = Inr (Allowed (rsv_reservation_id req))"
      by (auto simp: reserve_def hd_def)
    have "kstep s (KHold (rsv_reservation_id req) hd) s'"
      unfolding s' using row pos none by (intro k_hold) (auto simp: hd_def has_account_def)
    from held [OF row none this _ _ pos _ _ r] False avail show ?thesis
      by (auto simp: hd_def)
  qed
qed

lemma settle_cases:
  assumes "exact_sums D" and "fresh_ids E 0 (Suc k) s" and "settle D E s req = Some (s', r)"
  obtains (same) "s' = s" "\<forall>e. r = Inr e \<longrightarrow> (\<exists>h. map_of (holds s) (settle_reservation_id req) = Some h \<and>
        hold_status h = Settled \<and> (\<exists>i. hold_settle_entry h = Some i \<and>
        List.find (\<lambda>x. entry_id x = i) (entries s) = Some e))"
  | (posted) h e s1 where "map_of (holds s) (settle_reservation_id req) = Some h"
      "hold_status h = Open" "0 \<le> settle_actual req"
      "kstep s (KPost e) s1" "kstep s1 (KSettle (settle_reservation_id req)) s'" "r = Inr e"
      "account_id e = hold_account h" "delta_credits e = - settle_actual req"
      "entry_type e = Settle" "reverses_entry_id e = None" "entry_run_id e = None"
      "entry_id e = Id (new_v7 E 0)"
      "map_of (holds s') (settle_reservation_id req) =
         Some (h\<lparr>hold_status := Settled, hold_settle_entry := Some (entry_id e)\<rparr>)"
proof (cases "\<exists>h. \<not> settle_actual req < 0 \<and> map_of (holds s) (settle_reservation_id req) = Some h \<and>
                  hold_status h = Open")
  case False
  then show ?thesis using assms(3)
    by (intro same)
       (auto simp: settle_def Option.bind_eq_Some_conv
             split: if_splits option.splits hold_status.splits)
next
  case True
  then obtain h where nn: "0 \<le> settle_actual req"
    and h: "map_of (holds s) (settle_reservation_id req) = Some h" and o: "hold_status h = Open"
    by auto
  from assms(3) nn h o obtain s1 b where
    p: "post_debit D s (hold_account h) (settle_actual req) = Some (s1, b)"
    and r: "r = Inr (settle_entry E req (hold_account h) b)"
    and s': "s' = push_entry (settle_entry E req (hold_account h) b) s1
       \<lparr>holds := AList.update (settle_reservation_id req)
          (h\<lparr>hold_status := Settled,
             hold_settle_entry := Some (entry_id (settle_entry E req (hold_account h) b))\<rparr>)
          (holds (push_entry (settle_entry E req (hold_account h) b) s1))\<rparr>"
    by (auto simp: settle_def Option.bind_eq_Some_conv Let_def)
  let ?e = "settle_entry E req (hold_account h) b"
  have "entry_id ?e \<notin> entry_ids s"
    using fresh_ids_entry [OF assms(2)] by (simp add: settle_entry_def)
  then have step1: "kstep s (KPost ?e) (push_entry ?e s1)"
    by (intro debit_posted [OF assms(1) p]) (simp_all add: settle_entry_def)
  have holds1: "holds s1 = holds s" using post_debit_exact [OF assms(1) p] by simp
  have step2: "kstep (push_entry ?e s1) (KSettle (settle_reservation_id req)) s'"
    unfolding s' using h o by (intro k_settle) (auto simp: holds1 settle_entry_def)
  from posted [OF h o nn step1 step2 r] show ?thesis
    by (simp add: s' settle_entry_def)
qed

lemma void_step:
  assumes "void s r = Some (s', x)"
  shows "s' = s \<or> kstep s (KRelease r) s'"
  using assms by (auto simp: void_def intro: k_release split: option.splits hold_status.splits)

lemma extend_hold_step:
  assumes "extend_hold s r t = Some (s', x)"
  shows "s' = s \<or> kstep s (KExtend r) s'"
  using assms by (auto simp: extend_hold_def intro: k_extend split: option.splits hold_status.splits)

lemma update_middle:
  "r \<notin> fst ` set xs \<Longrightarrow> AList.update r v (xs @ (r, h) # ys) = xs @ (r, v) # ys"
  by (induction xs) auto

text \<open>The expiry sweep releases the expired open holds one after the other.\<close>

lemma expire_trace:
  assumes "holds s = map (\<lambda>(r, h). (r, expire_hold now h)) xs @ ys"
    and "distinct (map fst (xs @ ys))"
  shows "\<exists>ls. ktrace s ls (s\<lparr>holds := map (\<lambda>(r, h). (r, expire_hold now h)) (xs @ ys)\<rparr>) \<and>
           (\<forall>l \<in> set ls. \<exists>r. l = KRelease r)"
  using assms
proof (induction ys arbitrary: s xs)
  case Nil
  then have "s\<lparr>holds := map (\<lambda>(r, h). (r, expire_hold now h)) (xs @ [])\<rparr> = s" by simp
  then show ?case by (metis empty_iff ktrace_Nil list.set(1))
next
  case (Cons p ys)
  obtain r h where p: "p = (r, h)" by (cases p)
  define f where "f = (\<lambda>(r::reservation_id, h). (r, expire_hold now h))"
  let ?s1 = "s\<lparr>holds := map f (xs @ [p]) @ ys\<rparr>"
  have fst_f: "fst \<circ> f = fst" by (auto simp: f_def)
  have notin: "r \<notin> fst ` set (map f xs)"
    using Cons.prems(2) fst_f p by (metis (no_types, lifting) distinct_append disjoint_iff fst_conv
        image_set list.map_comp list.set_intros(1) list.set_map list.simps(9) map_append)
  have "\<exists>ls. ktrace ?s1 ls (?s1\<lparr>holds := map f ((xs @ [p]) @ ys)\<rparr>) \<and> (\<forall>l \<in> set ls. \<exists>r. l = KRelease r)"
    unfolding f_def using Cons.IH [of ?s1 "xs @ [p]"] Cons.prems(2) by (simp add: f_def)
  then obtain ls where
    ls: "ktrace ?s1 ls (s\<lparr>holds := map f (xs @ p # ys)\<rparr>)" "\<forall>l \<in> set ls. \<exists>r. l = KRelease r" by auto
  show ?case
  proof (cases "hold_status h = Open \<and> expired_by now h")
    case True
    have "map_of (holds s) r = Some h"
      using notin Cons.prems(1) p by (simp add: f_def map_of_eq_None_iff [THEN iffD2] map_add_Some_iff)
    from k_release [OF this] True have "kstep s (KRelease r) ?s1"
      using Cons.prems(1) notin p update_middle [of r "map f xs"]
      by (simp add: f_def expire_hold_def)
    with ls show ?thesis unfolding f_def by (intro exI [of _ "KRelease r # ls"]) (auto intro: kt_cons)
  next
    case False
    then have "?s1 = s" using Cons.prems(1) p by (simp add: f_def expire_hold_def)
    with ls show ?thesis unfolding f_def by auto
  qed
qed

lemma void_expired_trace:
  assumes "distinct (map fst (holds s))" and "void_expired_holds s now = Some (s', r)"
  shows "\<exists>ls. ktrace s ls s' \<and> (\<forall>l \<in> set ls. \<exists>r. l = KRelease r)"
  using expire_trace [of s now "[]" "holds s"] assms by (simp add: void_expired_holds_def)

section \<open>Reversals\<close>

lemma reverse_charge_cases:
  assumes "exact_sums D" and "fresh_ids E 0 (Suc k) s" and "reverse_charge D E s req = Some (s', r)"
  obtains (missing) "\<not> has_account s (rev_account req)" "s' = s"
      "r = Inl (AccountNotFound (rev_account req))"
  | (existing) e where "has_account s (rev_account req)"
      "find_keyed s (rev_account req) (rev_idempotency_key req) = Some e" "s' = s" "r = Inr (Some e)"
  | (foreign) "find_keyed s (rev_account req) (rev_idempotency_key req) = None"
      "\<forall>e \<in> set (entries s). \<not> (entry_id e = rev_charge_entry_id req \<and> account_id e = rev_account req)"
      "s' = s" "r = Inr None"
  | (whole) "remainder_of s (rev_charge_entry_id req) \<le> 0" "s' = s" "r = Inr None"
  | (posted) e where "has_account s (rev_account req)"
      "find_keyed s (rev_account req) (rev_idempotency_key req) = None"
      "\<exists>c \<in> set (entries s). entry_id c = rev_charge_entry_id req \<and> account_id c = rev_account req"
      "kstep s (KPost e) s'" "r = Inr (Some e)" "account_id e = rev_account req"
      "delta_credits e = remainder_of s (rev_charge_entry_id req)" "0 < delta_credits e"
      "entry_type e = Refund" "reverses_entry_id e = Some (rev_charge_entry_id req)"
      "entry_idempotency_key e = Some (rev_idempotency_key req)" "entry_id e = Id (new_v7 E 0)"
proof -
  let ?a = "rev_account req" and ?c = "rev_charge_entry_id req"
  consider "\<not> has_account s ?a"
    | e where "has_account s ?a" "find_keyed s ?a (rev_idempotency_key req) = Some e"
    | "has_account s ?a" "find_keyed s ?a (rev_idempotency_key req) = None"
      "\<not> list_ex (\<lambda>e. entry_id e = ?c \<and> account_id e = ?a) (entries s)"
    | "has_account s ?a" "find_keyed s ?a (rev_idempotency_key req) = None"
      "list_ex (\<lambda>e. entry_id e = ?c \<and> account_id e = ?a) (entries s)"
    by (cases "find_keyed s ?a (rev_idempotency_key req)") auto
  then show ?thesis
  proof cases
    case 1
    with assms(3) show ?thesis by (intro missing) (auto simp: reverse_charge_def has_account_def)
  next
    case 2
    with assms(3) show ?thesis by (intro existing) (auto simp: reverse_charge_def has_account_def)
  next
    case 3
    with assms(3) show ?thesis
      by (intro foreign) (auto simp: reverse_charge_def has_account_def list_ex_iff)
  next
    case 4
    with assms(3) obtain amt where rem: "unreversed_remainder D s ?c = Some amt"
      by (auto simp: reverse_charge_def has_account_def Option.bind_eq_Some_conv)
    note amt = unreversed_remainder_exact [OF assms(1) rem]
    show ?thesis
    proof (cases "0 < amt")
      case False
      with 4 assms(3) rem amt show ?thesis
        by (intro whole) (auto simp: reverse_charge_def has_account_def)
    next
      case True
      with 4 assms(3) rem obtain s1 b where
        p: "post_credit D s ?a amt = Some (s1, b)" and
        s': "s' = push_entry (reversal_entry (Id (new_v7 E 0)) ?a amt b ?c None (rev_run_id req)
               (rev_idempotency_key req) (now_utc E 0)) s1" and
        r: "r = Inr (Some (reversal_entry (Id (new_v7 E 0)) ?a amt b ?c None (rev_run_id req)
               (rev_idempotency_key req) (now_utc E 0)))"
        by (auto simp: reverse_charge_def has_account_def Option.bind_eq_Some_conv Let_def)
      have "kstep s (KPost (reversal_entry (Id (new_v7 E 0)) ?a amt b ?c None (rev_run_id req)
               (rev_idempotency_key req) (now_utc E 0))) s'"
        unfolding s' using True fresh_ids_entry [OF assms(2)]
        by (intro credit_posted [OF assms(1) p]) simp_all
      from posted [OF 4(1,2) _ this r] 4 amt True show ?thesis by (auto simp: list_ex_iff)
    qed
  qed
qed

section \<open>Voiding a run\<close>

text \<open>A run void only releases holds and posts positive refunds linked to what they reverse.\<close>

definition vr_label :: "klabel \<Rightarrow> bool" where
  "vr_label l \<longleftrightarrow> (\<exists>r. l = KRelease r) \<or>
     (\<exists>e. l = KPost e \<and> 0 < delta_credits e \<and> entry_type e = Refund \<and> reverses_entry_id e \<noteq> None)"

lemma fresh_ids_kpost:
  assumes "fresh_ids E n k s" and "kstep s (KPost e) s'" and "entry_id e = Id (new_v7 E n)" and "n < k"
  shows "fresh_ids E (Suc n) k s'"
proof -
  have "entry_ids s' = insert (Id (new_v7 E n)) (entry_ids s)"
    and acc: "\<And>a. has_account s' a = has_account s a"
    using assms(2,3) by (auto elim!: kstep_postE)
  moreover have "new_v7 E i \<noteq> new_v7 E n" if "Suc n \<le> i" "i < k" for i
    using fresh_ids_distinct [OF assms(1), of n i] that by auto
  ultimately show ?thesis
    using assms(1) by (auto simp: fresh_ids_def intro: inj_on_subset)
qed

lemma vr_refund_cases:
  assumes "exact_sums D" and "fresh_ids E n k s" and "n < k"
    and "vr_refund D E (s, n, sm) a rv q run key = Some (s', n', sm')"
  obtains (whole) "remainder_of s rv \<le> 0" "s' = s" "n' = n" "sm' = sm"
  | (posted) e where "kstep s (KPost e) s'" "n' = Suc n" "fresh_ids E n' k s'"
      "0 < remainder_of s rv" "delta_credits e = remainder_of s rv" "account_id e = a"
      "entry_type e = Refund" "reverses_entry_id e = Some rv" "vr_label (KPost e)"
      "entry_run_id e = Some run"
      "sm' = sm\<lparr>charges_refunded := Suc (charges_refunded sm),
                credits_refunded := credits_refunded sm + remainder_of s rv\<rparr>"
proof -
  from assms(4) obtain amt where rem: "unreversed_remainder D s rv = Some amt"
    by (auto simp: vr_refund_def Option.bind_eq_Some_conv)
  note amt = unreversed_remainder_exact [OF assms(1) rem]
  show ?thesis
  proof (cases "0 < amt")
    case False
    with assms(4) rem amt show ?thesis by (intro whole) (auto simp: vr_refund_def)
  next
    case True
    with assms(4) rem obtain s1 b tot where
      p: "post_credit D s a amt = Some (s1, b)" and
      t: "dec_add D (credits_refunded sm) amt = Some tot" and
      s': "s' = push_entry (reversal_entry (Id (new_v7 E n)) a amt b rv q (Some run) key (now_utc E n)) s1"
      and n': "n' = Suc n" and
      sm': "sm' = sm\<lparr>charges_refunded := Suc (charges_refunded sm), credits_refunded := tot\<rparr>"
      by (auto simp: vr_refund_def Option.bind_eq_Some_conv)
    let ?e = "reversal_entry (Id (new_v7 E n)) a amt b rv q (Some run) key (now_utc E n)"
    have step: "kstep s (KPost ?e) s'"
      unfolding s' using True fresh_ids_entry [OF assms(2)] assms(3)
      by (intro credit_posted [OF assms(1) p]) simp_all
    have "fresh_ids E (Suc n) k s'"
      using fresh_ids_kpost [OF assms(2) step _ assms(3)] by simp
    then show ?thesis
      using posted [OF step n'] True amt n' sm' dec_add_exact [OF assms(1) t]
      by (simp add: vr_label_def)
  qed
qed

lemma vr_charges_trace:
  assumes "exact_sums D" and "fold_opt (vr_charge D E run) (s, n, sm) cs = Some (s', n', sm')"
    and "fresh_ids E n k s" and "n + length cs \<le> k"
  shows "\<exists>ls. ktrace s ls s' \<and> (\<forall>l \<in> set ls. vr_label l)"
  using assms(2-)
proof (induction cs arbitrary: s n sm)
  case Nil
  then show ?case by (intro exI [of _ "[]"]) simp
next
  case (Cons c cs)
  obtain cid a where c: "c = (cid, a)" by (cases c)
  from Cons.prems(1) obtain s1 n1 sm1 where
    1: "vr_charge D E run (s, n, sm) c = Some (s1, n1, sm1)" and
    2: "fold_opt (vr_charge D E run) (s1, n1, sm1) cs = Some (s', n', sm')"
    by (auto simp: Option.bind_eq_Some_conv)
  have "n < k" using Cons.prems(3) by simp
  from assms(1) Cons.prems(2) this 1 [unfolded vr_charge_def c prod.case] show ?case
  proof (cases rule: vr_refund_cases)
    case whole
    then show ?thesis using Cons.IH [OF 2] Cons.prems(2,3) by simp
  next
    case (posted e)
    then obtain ls where "ktrace s1 ls s'" "\<forall>l \<in> set ls. vr_label l"
      using Cons.IH [OF 2] Cons.prems(3) by auto
    with posted show ?thesis by (intro exI [of _ "KPost e # ls"]) (auto intro: kt_cons)
  qed
qed

lemma vr_holds_trace:
  assumes "exact_sums D" and "fold_opt (vr_hold D E run) (s, n, sm) ms = Some (s', n', sm')"
    and "fresh_ids E n k s" and "n + length ms \<le> k"
    and "distinct (map fst ms)" and "\<forall>(r, h) \<in> set ms. map_of (holds s) r = Some h"
  shows "\<exists>ls. ktrace s ls s' \<and> (\<forall>l \<in> set ls. vr_label l) \<and> fresh_ids E n' k s' \<and>
           n' \<le> n + length ms"
  using assms(2-)
proof (induction ms arbitrary: s n sm)
  case Nil
  then show ?case by (intro exI [of _ "[]"]) simp
next
  case (Cons m ms)
  obtain r h where m: "m = (r, h)" by (cases m)
  from Cons.prems(1) obtain s1 n1 sm1 where
    1: "vr_hold D E run (s, n, sm) m = Some (s1, n1, sm1)" and
    2: "fold_opt (vr_hold D E run) (s1, n1, sm1) ms = Some (s', n', sm')"
    by (auto simp: Option.bind_eq_Some_conv)
  have nk: "n < k" and hr: "map_of (holds s) r = Some h" and d: "distinct (map fst ms)"
    and notin: "r \<notin> fst ` set ms"
    using Cons.prems m by auto
  have rest: "\<forall>(r', h') \<in> set ms. map_of (holds s1) r' = Some h'"
    if "\<And>r'. r' \<noteq> r \<Longrightarrow> map_of (holds s1) r' = map_of (holds s) r'"
    using Cons.prems(5) that notin by force
  show ?case
  proof (cases "hold_status h")
    case Voided
    then show ?thesis using 1 m Cons.IH [OF 2] Cons.prems d by (auto simp: vr_hold_def)
  next
    case Open
    then have s1: "s1 = s\<lparr>holds := AList.update r (h\<lparr>hold_status := Voided\<rparr>) (holds s)\<rparr>" and n1: "n1 = n"
      using 1 m hr by (auto simp: vr_hold_def)
    have step: "kstep s (KRelease r) s1" unfolding s1 using hr Open by (rule k_release)
    have f1: "fresh_ids E n1 k s1"
      using Cons.prems(2) by (simp add: s1 n1 fresh_ids_def entry_ids_def has_account_def)
    from Cons.IH [OF 2 f1 _ d rest] Cons.prems(3) n1 obtain ls where
      "ktrace s1 ls s'" "\<forall>l \<in> set ls. vr_label l" "fresh_ids E n' k s'" "n' \<le> n + length ms"
      by (auto simp: s1)
    with step show ?thesis
      by (intro exI [of _ "KRelease r # ls"]) (auto simp: vr_label_def intro: kt_cons)
  next
    case Settled
    then obtain eid where
      rf: "vr_refund D E (s, n, sm) (hold_account h) eid (Some r) run (run_void_refund_key D run r)
             = Some (s1, n1, sm1)"
      using 1 m by (auto simp: vr_hold_def Option.bind_eq_Some_conv)
    from assms(1) Cons.prems(2) nk rf show ?thesis
    proof (cases rule: vr_refund_cases)
      case whole
      then show ?thesis using Cons.IH [OF 2 _ _ d] Cons.prems by auto
    next
      case (posted e)
      have "holds s1 = holds s" using posted(1) by (auto elim!: kstep_postE)
      then obtain ls where "ktrace s1 ls s'" "\<forall>l \<in> set ls. vr_label l" "fresh_ids E n' k s'"
        "n' \<le> n1 + length ms"
        using Cons.IH [OF 2 posted(3) _ d rest] Cons.prems(3) posted(2) by auto
      with posted show ?thesis by (intro exI [of _ "KPost e # ls"]) (auto intro: kt_cons)
    qed
  qed
qed

text \<open>Releases and refunds leave the direct charges of a run as they were.\<close>

lemma vr_label_run_charges:
  assumes "ktrace s ls s'" and "\<forall>l \<in> set ls. vr_label l"
  shows "run_charges s' run = run_charges s run"
  using assms
proof (induction rule: ktrace.induct)
  case (kt_cons s l s' ls s'')
  from kt_cons.hyps(1) kt_cons.prems have "run_charges s' run = run_charges s run"
    by (cases rule: kstep.cases) (auto simp: run_charges_def vr_label_def)
  with kt_cons show ?case by simp
qed simp

lemma run_members_map_of:
  "distinct (map fst (holds s)) \<Longrightarrow> \<forall>(r, h) \<in> set (run_members s run). map_of (holds s) r = Some h"
  by (auto simp: run_members_def)

lemma distinct_run_members:
  "distinct (map fst (holds s)) \<Longrightarrow> distinct (map fst (run_members s run))"
  by (simp add: run_members_def distinct_map_filter)

lemma void_run_phases:
  assumes "exact_sums D" and "fresh_ids E 0 (id_budget s) s" and "distinct (map fst (holds s))"
    and "void_run D E s run = Some (s', x)"
  obtains s1 n1 sm1 n2 sm2 ls1 ls2 where
    "fold_opt (vr_hold D E run) (s, 0, empty_summary) (run_members s run) = Some (s1, n1, sm1)"
    "fold_opt (vr_charge D E run) (s1, n1, sm1) (run_charges s run) = Some (s', n2, sm2)"
    "x = Inr sm2" "fresh_ids E n1 (id_budget s) s1" "n1 + length (run_charges s run) \<le> id_budget s"
    "ktrace s ls1 s1" "\<forall>l \<in> set ls1. vr_label l"
    "ktrace s1 ls2 s'" "\<forall>l \<in> set ls2. vr_label l"
proof -
  from assms(4) obtain s1 n1 sm1 n2 sm2 where
    1: "fold_opt (vr_hold D E run) (s, 0, empty_summary) (run_members s run) = Some (s1, n1, sm1)" and
    2: "fold_opt (vr_charge D E run) (s1, n1, sm1) (run_charges s1 run) = Some (s', n2, sm2)" and
    x: "x = Inr sm2"
    by (auto simp: void_run_def Option.bind_eq_Some_conv)
  have len: "length (run_members s run) \<le> length (holds s)"
    by (simp add: run_members_def)
  have "0 + length (run_members s run) \<le> id_budget s" using len by (simp add: id_budget_def)
  from vr_holds_trace [OF assms(1) 1 assms(2) this distinct_run_members [OF assms(3)]
      run_members_map_of [OF assms(3)]] obtain ls1 where
    ls1: "ktrace s ls1 s1" "\<forall>l \<in> set ls1. vr_label l" and
    f1: "fresh_ids E n1 (id_budget s) s1" and n1: "n1 \<le> length (run_members s run)" by auto
  note rc = vr_label_run_charges [OF ls1]
  have "length (run_charges s run) \<le> length (entries s)" by (simp add: run_charges_def)
  with n1 len have b: "n1 + length (run_charges s run) \<le> id_budget s" by (simp add: id_budget_def)
  from vr_charges_trace [OF assms(1) 2 f1] b rc obtain ls2 where
    "ktrace s1 ls2 s'" "\<forall>l \<in> set ls2. vr_label l" by auto
  with that 1 2 x f1 b ls1 rc show ?thesis by auto
qed

lemma void_run_trace:
  assumes "exact_sums D" and "fresh_ids E 0 (id_budget s) s" and "distinct (map fst (holds s))"
    and "void_run D E s run = Some (s', x)"
  shows "\<exists>ls. ktrace s ls s' \<and> (\<forall>l \<in> set ls. vr_label l)"
  using assms
proof (cases rule: void_run_phases)
  case (1 s1 n1 sm1 n2 sm2 ls1 ls2)
  then show ?thesis by (intro exI [of _ "ls1 @ ls2"]) (auto intro: ktrace_append)
qed

section \<open>Leases\<close>

lemma fresh_ids_kaccount:
  assumes "fresh_ids E n k s" and "n < k"
  shows "fresh_ids E (Suc n) k
     (s\<lparr>accounts := AList.update (Id (new_v7 E n)) row (accounts s)\<rparr>)"
proof -
  have "new_v7 E i \<noteq> new_v7 E n" if "Suc n \<le> i" "i < k" for i
    using fresh_ids_distinct [OF assms(1), of n i] that by auto
  then show ?thesis using assms(1)
    by (auto simp: fresh_ids_def entry_ids_def has_account_def intro: inj_on_subset)
qed

lemma open_lease_cases:
  assumes "exact_sums D" and "fresh_ids E 0 (3 + k) s" and "open_lease D E s req = Some (s', r)"
  obtains (same) e where "s' = s" "r = Inl e"
  | (leased) row child s1 where "map_of (accounts s) (lease_parent req) = Some row"
      "kstep s (KAccount child) s1"
      "kstep s1 (KTransfer (lease_parent req) (acct_id child) (lease_amount req)) s'"
      "r = Inr child" "0 < lease_amount req" "\<not> has_account s (acct_id child)"
      "acct_no_overdraft child" "acct_parent_id child = Some (lease_parent req)"
      "acct_id child = Id (new_v7 E 0)" "acct_org_id child = acct_org_id (row_account row)"
      "acct_no_overdraft (row_account row) \<Longrightarrow> lease_amount req \<le> available_of s (lease_parent req)"
proof (cases "0 < lease_amount req \<and> has_account s (lease_parent req)")
  case False
  then show ?thesis using assms(3) same
    by (auto simp: open_lease_def has_account_def split: if_splits option.splits)
next
  case True
  then obtain row where pos: "0 < lease_amount req"
    and row: "map_of (accounts s) (lease_parent req) = Some row"
    by (auto simp: has_account_def)
  from assms(3) pos row obtain h avail where
    h: "held D s (lease_parent req) = Some h" and av: "dec_sub D (row_settled row) h = Some avail"
    by (auto simp: open_lease_def Option.bind_eq_Some_conv)
  have avail: "avail = available_of s (lease_parent req)"
    using held_exact [OF assms(1) h] dec_sub_exact [OF assms(1) av] row
    by (simp add: available_of_def settled_of_def)
  show ?thesis
  proof (cases "acct_no_overdraft (row_account row) \<and> avail < lease_amount req")
    case True
    then show ?thesis using assms(3) pos row h av same by (auto simp: open_lease_def)
  next
    case False
    define child where "child = \<lparr>acct_id = Id (new_v7 E 0),
       acct_org_id = acct_org_id (row_account row), acct_scope = Session,
       acct_no_overdraft = True, acct_parent_id = Some (lease_parent req)\<rparr>"
    let ?s1 = "s\<lparr>accounts := AList.update (acct_id child) (account_row_new child) (accounts s)\<rparr>"
    from False assms(3) pos row h av have
      t: "post_transfer D (Id (new_v7 E 1)) (Id (new_v7 E 2)) (now_utc E 0) ?s1
             (lease_parent req) (acct_id child) (lease_amount req) = Some s'"
      and r: "r = Inr child"
      by (auto simp: open_lease_def child_def Let_def Option.bind_eq_Some_conv)
    have fr: "\<not> has_account s (acct_id child)"
      using fresh_ids_account [OF assms(2)] by (simp add: child_def)
    have ne: "new_v7 E 1 \<noteq> new_v7 E 2"
      using fresh_ids_distinct [OF assms(2), of 1 2] by simp
    have "Id (new_v7 E 1) \<notin> entry_ids ?s1" "Id (new_v7 E 2) \<notin> entry_ids ?s1"
      using fresh_ids_entry [OF assms(2)] by (auto simp: entry_ids_def)
    from transfer_posted [OF assms(1) t this _ pos] ne
    have "kstep ?s1 (KTransfer (lease_parent req) (acct_id child) (lease_amount req)) s'" by simp
    from leased [OF row k_account [OF fr] this r pos fr] False avail show ?thesis
      by (auto simp: child_def)
  qed
qed

lemma close_lease_cases:
  assumes "exact_sums D" and "fresh_ids E 0 (2 + k) s" and "close_lease D E s lease = Some (s', r)"
  obtains (same) "s' = s" "\<forall>c. r = Inr c \<longrightarrow> c = 0 \<and> available_of s lease \<le> 0"
  | (returned) parent row where "map_of (accounts s) lease = Some row"
      "acct_parent_id (row_account row) = Some parent"
      "kstep s (KTransfer lease parent (available_of s lease)) s'"
      "r = Inr (available_of s lease)" "0 < available_of s lease"
proof (cases "\<exists>row parent. map_of (accounts s) lease = Some row \<and>
                acct_parent_id (row_account row) = Some parent")
  case False
  then show ?thesis using assms(3) same by (auto simp: close_lease_def split: option.splits)
next
  case True
  then obtain row parent where row: "map_of (accounts s) lease = Some row"
    and parent: "acct_parent_id (row_account row) = Some parent" by blast
  from assms(3) row parent obtain h avail where
    h: "held D s lease = Some h" and av: "dec_sub D (row_settled row) h = Some avail"
    by (auto simp: close_lease_def Option.bind_eq_Some_conv)
  have avail: "avail = available_of s lease"
    using held_exact [OF assms(1) h] dec_sub_exact [OF assms(1) av] row
    by (simp add: available_of_def settled_of_def)
  show ?thesis
  proof (cases "0 < avail")
    case False
    then show ?thesis using assms(3) row parent h av avail same by (auto simp: close_lease_def)
  next
    case True
    with assms(3) row parent h av have
      t: "post_transfer D (Id (new_v7 E 0)) (Id (new_v7 E 1)) (now_utc E 0) s lease parent avail = Some s'"
      and r: "r = Inr avail"
      by (auto simp: close_lease_def Option.bind_eq_Some_conv)
    have ne: "new_v7 E 0 \<noteq> new_v7 E 1" using fresh_ids_distinct [OF assms(2), of 0 1] by simp
    have "Id (new_v7 E 0) \<notin> entry_ids s" "Id (new_v7 E 1) \<notin> entry_ids s"
      using fresh_ids_entry [OF assms(2)] by auto
    from transfer_posted [OF assms(1) t this _ True] ne
    have "kstep s (KTransfer lease parent avail) s'" by simp
    then show ?thesis using returned row parent r True avail by auto
  qed
qed

section \<open>The backend as a whole\<close>

text \<open>The methods of the \<open>LedgerBackend\<close> trait, as requests, and what they return.\<close>

datatype request =
    ROpenAccount new_account
  | RBalance account_id
  | RGrant grant_request
  | RRefund refund_request
  | RReserve reserve_request
  | RSettle settle_request
  | RCharge charge_request
  | RReverseCharge reverse_charge_request
  | RVoid reservation_id
  | RVoidExpiredHolds time
  | RExtendHold reservation_id time
  | RVoidRun run_id
  | ROpenLease lease_request
  | RCloseLease account_id
  | REntries account_id

datatype reply =
    PAccount ledger_account
  | PBalance balance
  | PEntry ledger_entry
  | PReserve reserve_outcome
  | PReversal "ledger_entry option"
  | PUnit
  | PCount nat
  | PSummary run_void_summary
  | PCredit credit
  | PEntries "ledger_entry list"

definition replying :: "('a \<Rightarrow> reply) \<Rightarrow> (state, ledger_error, 'a) sres \<Rightarrow> (state, ledger_error, reply) sres"
where
  "replying f m = map_option (\<lambda>(s, r). (s, map_sum id f r)) m"

fun exec :: "deps \<Rightarrow> env \<Rightarrow> state \<Rightarrow> request \<Rightarrow> (state, ledger_error, reply) sres" where
  "exec D E s (ROpenAccount q) = replying PAccount (open_account E s q)"
| "exec D E s (RBalance a) = replying PBalance (balance D s a)"
| "exec D E s (RGrant q) = replying PEntry (grant D E s q)"
| "exec D E s (RRefund q) = replying PEntry (refund D E s q)"
| "exec D E s (RReserve q) = replying PReserve (reserve D s q)"
| "exec D E s (RSettle q) = replying PEntry (settle D E s q)"
| "exec D E s (RCharge q) = replying PEntry (charge D E s q)"
| "exec D E s (RReverseCharge q) = replying PReversal (reverse_charge D E s q)"
| "exec D E s (RVoid r) = replying (\<lambda>_. PUnit) (void s r)"
| "exec D E s (RVoidExpiredHolds t) = replying PCount (void_expired_holds s t)"
| "exec D E s (RExtendHold r t) = replying (\<lambda>_. PUnit) (extend_hold s r t)"
| "exec D E s (RVoidRun run) = replying PSummary (void_run D E s run)"
| "exec D E s (ROpenLease q) = replying PAccount (open_lease D E s q)"
| "exec D E s (RCloseLease a) = replying PCredit (close_lease D E s a)"
| "exec D E s (REntries a) = replying PEntries (entries_of s a)"

lemma replying_Some:
  "replying f m = Some (s', r) \<longleftrightarrow> (\<exists>x. m = Some (s', x) \<and> r = map_sum id f x)"
  by (auto simp: replying_def)

lemma balance_keeps_state: "balance D s a = Some (s', r) \<Longrightarrow> s' = s"
  by (auto simp: balance_def Option.bind_eq_Some_conv split: option.splits)

lemma entries_of_keeps_state: "entries_of s a = Some (s', r) \<Longrightarrow> s' = s"
  by (auto simp: entries_of_def split: if_splits)

text \<open>The identifiers a call draws are fresh.\<close>

abbreviation fresh :: "env \<Rightarrow> state \<Rightarrow> bool" where
  "fresh E s \<equiv> fresh_ids E 0 (id_budget s) s"

lemma id_budget_forms: "\<exists>k. id_budget s = Suc k" "\<exists>k. id_budget s = 2 + k" "\<exists>k. id_budget s = 3 + k"
  unfolding id_budget_def by presburger+

lemma exec_refines:
  assumes "exact_sums D" and "fresh E s" and "distinct (map fst (holds s))"
    and "exec D E s q = Some (s', r)"
  shows "\<exists>ls. ktrace s ls s'"
proof -
  obtain k1 k2 k3 where k: "fresh_ids E 0 (Suc k1) s" "fresh_ids E 0 (2 + k2) s" "fresh_ids E 0 (3 + k3) s"
    using assms(2) id_budget_forms [of s] by metis
  have nop: "\<exists>ls. ktrace s ls s" by (intro exI [of _ "[]"]) simp
  have one: ?thesis if "kstep s l s'" for l using that by (intro exI [of _ "[l]"] ktrace_single)
  have two: ?thesis if "kstep s l s1" "kstep s1 m s'" for l m s1
    using that by (intro exI [of _ "[l, m]"]) (auto simp: ktrace_Cons)
  show ?thesis
  proof (cases q)
    case (ROpenAccount x)
    with assms(4) show ?thesis
      by (auto simp: replying_Some dest!: open_account_step [OF k(1)] intro: one)
  next
    case (RBalance x)
    with assms(4) show ?thesis by (auto simp: replying_Some dest!: balance_keeps_state intro: nop)
  next
    case (RGrant x)
    with assms(4) show ?thesis
      by (auto simp: replying_Some dest!: grant.refines [OF assms(1) k(1)] intro: one nop)
  next
    case (RRefund x)
    with assms(4) show ?thesis
      by (auto simp: replying_Some dest!: refund.refines [OF assms(1) k(1)] intro: one nop)
  next
    case (RReserve x)
    with assms(4) obtain y where "reserve D s x = Some (s', y)" by (auto simp: replying_Some)
    then show ?thesis by (rule reserve_cases [OF assms(1)]) (auto intro: one nop)
  next
    case (RSettle x)
    with assms(4) obtain y where "settle D E s x = Some (s', y)" by (auto simp: replying_Some)
    then show ?thesis by (rule settle_cases [OF assms(1) k(1)]) (auto intro: two nop)
  next
    case (RCharge x)
    with assms(4) show ?thesis
      by (auto simp: replying_Some dest!: charge.refines [OF assms(1) k(1)] intro: one nop)
  next
    case (RReverseCharge x)
    with assms(4) obtain y where "reverse_charge D E s x = Some (s', y)" by (auto simp: replying_Some)
    then show ?thesis by (rule reverse_charge_cases [OF assms(1) k(1)]) (auto intro: one nop)
  next
    case (RVoid x)
    with assms(4) show ?thesis by (auto simp: replying_Some dest!: void_step intro: one nop)
  next
    case (RVoidExpiredHolds x)
    with assms(4) void_expired_trace [OF assms(3)] show ?thesis by (fastforce simp: replying_Some)
  next
    case (RExtendHold x y)
    with assms(4) show ?thesis by (auto simp: replying_Some dest!: extend_hold_step intro: one nop)
  next
    case (RVoidRun x)
    with assms(4) void_run_trace [OF assms(1,2,3)] show ?thesis by (fastforce simp: replying_Some)
  next
    case (ROpenLease x)
    with assms(4) obtain y where "open_lease D E s x = Some (s', y)" by (auto simp: replying_Some)
    then show ?thesis by (rule open_lease_cases [OF assms(1) k(3)]) (auto intro: two nop)
  next
    case (RCloseLease x)
    with assms(4) obtain y where "close_lease D E s x = Some (s', y)" by (auto simp: replying_Some)
    then show ?thesis by (rule close_lease_cases [OF assms(1) k(2)]) (auto intro: one nop)
  next
    case (REntries x)
    with assms(4) show ?thesis by (auto simp: replying_Some dest!: entries_of_keeps_state intro: nop)
  qed
qed

end
