(* ===== verification/Ledger_Invariant.thy ===== *)
theory Ledger_Invariant
  imports Ledger_Refine
begin

text \<open>
  The invariant of the ledger and its preservation, first by every step of the abstract machine,
  then, through the refinement, by every operation and in every reachable state. \<open>ledger_inv\<close> says:
  keys and entry ids are unique, rows are stored under their own id, the system account exists, every
  entry names existing accounts and only transfers are paired with an account other than the system
  account, every balance is the sum of the entries that touch it, all balances sum to zero, and every
  hold belongs to an existing account and, once settled, names its settle entry.
\<close>

section \<open>The invariant\<close>

definition keys_ok :: "state \<Rightarrow> bool" where
  "keys_ok s \<longleftrightarrow> distinct (map fst (accounts s)) \<and> distinct (map fst (holds s)) \<and>
     distinct (map entry_id (entries s))"

definition rows_ok :: "state \<Rightarrow> bool" where
  "rows_ok s \<longleftrightarrow> (\<forall>a r. map_of (accounts s) a = Some r \<longrightarrow> acct_id (row_account r) = a)"

definition entries_ok :: "state \<Rightarrow> bool" where
  "entries_ok s \<longleftrightarrow> (\<forall>e \<in> set (entries s).
     has_account s (account_id e) \<and> has_account s (paired_account_id e) \<and>
     (entry_type e \<noteq> Transfer \<longrightarrow> paired_account_id e = SYSTEM_ACCOUNT) \<and>
     (reverses_entry_id e \<noteq> None \<longrightarrow> 0 < delta_credits e))"

text \<open>
  What one entry contributes to the balance of an account: its delta to its own account, and the
  opposite to the counter-account. A transfer records each leg as an entry of its own, so its
  counter-leg counts there.
\<close>

definition entry_effect :: "account_id \<Rightarrow> ledger_entry \<Rightarrow> credit" where
  "entry_effect a e =
     (if account_id e = a then delta_credits e else 0) -
     (if paired_account_id e = a \<and> entry_type e \<noteq> Transfer then delta_credits e else 0)"

definition posted_to :: "ledger_entry list \<Rightarrow> account_id \<Rightarrow> credit" where
  "posted_to es a = sum_list (map (entry_effect a) es)"

definition derived_ok :: "state \<Rightarrow> bool" where
  "derived_ok s \<longleftrightarrow> (\<forall>a. has_account s a \<longrightarrow> settled_of s a = posted_to (entries s) a)"

definition settle_link :: "state \<Rightarrow> reservation_id \<Rightarrow> hold \<Rightarrow> bool" where
  "settle_link s r h \<longleftrightarrow> (\<exists>e \<in> set (entries s). hold_settle_entry h = Some (entry_id e) \<and>
     account_id e = hold_account h \<and> entry_type e = Settle \<and> entry_reservation_id e = Some r)"

definition holds_ok :: "state \<Rightarrow> bool" where
  "holds_ok s \<longleftrightarrow> (\<forall>r h. map_of (holds s) r = Some h \<longrightarrow>
     has_account s (hold_account h) \<and> 0 < hold_amount h \<and>
     (hold_status h = Settled \<longrightarrow> settle_link s r h))"

definition ledger_inv :: "state \<Rightarrow> bool" where
  "ledger_inv s \<longleftrightarrow> keys_ok s \<and> rows_ok s \<and> has_account s SYSTEM_ACCOUNT \<and> entries_ok s \<and>
     derived_ok s \<and> net_of s = 0 \<and> holds_ok s"

lemma posted_to_simps [simp]:
  "posted_to [] a = 0"
  "posted_to (es @ fs) a = posted_to es a + posted_to fs a"
  "posted_to (e # es) a = entry_effect a e + posted_to es a"
  by (simp_all add: posted_to_def)

section \<open>Preservation by the abstract steps\<close>

lemma distinct_keys_update:
  "distinct (map fst m) \<Longrightarrow> distinct (map fst (AList.update k v m))"
  by (rule distinct_update)

lemma kstep_keys_ok [inv_intros]: "kstep s l s' \<Longrightarrow> keys_ok s \<Longrightarrow> keys_ok s'"
  by (induction rule: kstep.induct)
     (auto simp: keys_ok_def entry_ids_def distinct_keys_update)

lemma rows_ok_shift: "rows_ok s \<Longrightarrow> rows_ok (shift a d s)"
  by (auto simp: rows_ok_def map_of_shift)

lemma rows_ok_frame: "rows_ok s \<Longrightarrow> accounts s' = accounts s \<Longrightarrow> rows_ok s'"
  by (simp add: rows_ok_def)

lemma kstep_rows_ok [inv_intros]: "kstep s l s' \<Longrightarrow> rows_ok s \<Longrightarrow> rows_ok s'"
proof (induction rule: kstep.induct)
  case (k_account s acc)
  then show ?case by (auto simp: rows_ok_def account_row_new_def)
qed (auto intro: rows_ok_shift rows_ok_frame [OF rows_ok_shift [OF rows_ok_shift]]
       elim: rows_ok_frame)

lemma has_account_new [simp]:
  "has_account (s\<lparr>accounts := AList.update a row (accounts s)\<rparr>) b \<longleftrightarrow> b = a \<or> has_account s b"
  by (simp add: has_account_def)

lemma kstep_entries_ok [inv_intros]:
  "kstep s l s' \<Longrightarrow> has_account s SYSTEM_ACCOUNT \<Longrightarrow> entries_ok s \<Longrightarrow> entries_ok s'"
proof (induction rule: kstep.induct)
  case (k_account s acc)
  then show ?case by (auto simp: entries_ok_def)
next
  case (k_post s e)
  then show ?case by (auto simp: entries_ok_def)
next
  case (k_transfer s src dest amt eid1 eid2 b1 b2 now)
  then show ?case by (auto simp: entries_ok_def)
qed (auto simp: entries_ok_def has_account_def)

lemma posted_to_unknown:
  assumes "entries_ok s" and "\<not> has_account s a"
  shows "posted_to (entries s) a = 0"
proof -
  have "entry_effect a e = 0" if "e \<in> set (entries s)" for e
    using assms that by (auto simp: entries_ok_def entry_effect_def)
  then have "map (entry_effect a) (entries s) = map (\<lambda>_. 0) (entries s)" by simp
  then show ?thesis unfolding posted_to_def by (simp only: sum_list_0)
qed

lemma settled_of_new:
  "\<not> has_account s a \<Longrightarrow>
     settled_of (s\<lparr>accounts := AList.update a (account_row_new acc) (accounts s)\<rparr>) b = settled_of s b"
  by (auto simp: settled_of_def has_account_def account_row_new_def)

lemma kstep_derived_ok [inv_intros]:
  assumes "kstep s l s'" and "has_account s SYSTEM_ACCOUNT" and "entries_ok s" and "derived_ok s"
  shows "derived_ok s'"
  using assms
proof (induction rule: kstep.induct)
  case (k_account s acc)
  have "settled_of s (acct_id acc) = 0" using k_account.hyps by (simp add: settled_of_def has_account_def)
  with k_account posted_to_unknown [of s "acct_id acc"] show ?case
    by (auto simp: derived_ok_def settled_of_new)
next
  case (k_post s e)
  then show ?case by (auto simp: derived_ok_def entry_effect_def)
next
  case (k_transfer s src dest amt eid1 eid2 b1 b2 now)
  then show ?case by (auto simp: derived_ok_def entry_effect_def)
qed (simp_all add: derived_ok_def settled_of_def has_account_def)

lemma net_of_new:
  assumes "\<not> has_account s a"
  shows "net_of (s\<lparr>accounts := AList.update a (account_row_new acc) (accounts s)\<rparr>) = net_of s"
proof -
  have "a \<notin> fst ` set (accounts s)" using assms by (simp add: has_account_def map_of_eq_None_iff)
  from sum_list_update_absent [OF this, of row_settled] show ?thesis
    by (simp add: net_of_def account_row_new_def)
qed

lemma kstep_net [inv_intros]:
  assumes "kstep s l s'" and "keys_ok s" and "has_account s SYSTEM_ACCOUNT"
  shows "net_of s' = net_of s"
  using assms
proof (induction rule: kstep.induct)
  case (k_account s acc)
  then show ?case by (simp add: net_of_new)
next
  case (k_post s e)
  then show ?case by (simp add: keys_ok_def net_of_shift)
next
  case (k_transfer s src dest amt eid1 eid2 b1 b2 now)
  then show ?case by (simp add: keys_ok_def net_of_shift)
qed (simp_all add: net_of_def)

lemma holds_ok_frame:
  assumes "holds_ok s" and "holds s' = holds s" and "set (entries s) \<subseteq> set (entries s')"
    and "\<And>a. has_account s a \<Longrightarrow> has_account s' a"
  shows "holds_ok s'"
proof -
  have "settle_link s' r h" if "settle_link s r h" for r h
    using that assms(3) by (auto simp: settle_link_def)
  then show ?thesis using assms(1,2,4) by (auto simp: holds_ok_def)
qed

lemma holds_ok_update:
  assumes "holds_ok s" and "has_account s (hold_account h)" and "0 < hold_amount h"
    and "hold_status h = Settled \<Longrightarrow> settle_link s r h"
  shows "holds_ok (s\<lparr>holds := AList.update r h (holds s)\<rparr>)"
  using assms by (simp add: holds_ok_def settle_link_def has_account_def)

lemma kstep_holds_ok [inv_intros]:
  assumes "kstep s l s'" and "holds_ok s"
  shows "holds_ok s'"
  using assms
proof (induction rule: kstep.induct)
  case (k_account s acc)
  then show ?case by (auto elim: holds_ok_frame)
next
  case (k_post s e)
  then show ?case by (auto elim!: holds_ok_frame)
next
  case (k_transfer s src dest amt eid1 eid2 b1 b2 now)
  then show ?case by (auto elim!: holds_ok_frame)
next
  case (k_hold s r h)
  then show ?case by (intro holds_ok_update) auto
next
  case (k_extend s r h t)
  then show ?case by (intro holds_ok_update) (auto simp: holds_ok_def)
next
  case (k_release s r h)
  then show ?case by (intro holds_ok_update) (auto simp: holds_ok_def)
next
  case (k_settle s r h e)
  then show ?case by (intro holds_ok_update) (auto simp: holds_ok_def settle_link_def)
qed

lemma kstep_inv: "kstep s l s' \<Longrightarrow> ledger_inv s \<Longrightarrow> ledger_inv s'"
  unfolding ledger_inv_def by (auto intro: inv_intros kstep_has_account simp: kstep_net)

lemma ktrace_inv: "ktrace s ls s' \<Longrightarrow> ledger_inv s \<Longrightarrow> ledger_inv s'"
  by (erule ktrace_preserves [where Q = "\<lambda>_. True"]) (auto intro: kstep_inv)

lemma ledger_inv_keys:
  "ledger_inv s \<Longrightarrow> distinct (map fst (accounts s))"
  "ledger_inv s \<Longrightarrow> distinct (map fst (holds s))"
  "ledger_inv s \<Longrightarrow> distinct (map entry_id (entries s))"
  by (simp_all add: ledger_inv_def keys_ok_def)

lemma new_ledger_inv: "ledger_inv new_ledger"
  by (simp add: ledger_inv_def keys_ok_def rows_ok_def has_account_def entries_ok_def derived_ok_def
        holds_ok_def net_of_def settled_of_def new_ledger_def system_row_def account_row_new_def)

section \<open>Preservation by the operations, reachable states\<close>

lemma exec_inv:
  assumes "exact_sums D" and "fresh E s" and "ledger_inv s" and "exec D E s q = Some (s', r)"
  shows "ledger_inv s'"
proof -
  from exec_refines [OF assms(1,2) ledger_inv_keys(2) [OF assms(3)] assms(4)]
  obtain ls where "ktrace s ls s'" ..
  then show ?thesis using assms(3) by (rule ktrace_inv)
qed

text \<open>
  The mutex serialises concurrent callers, so what the ledger can become is what a sequence of
  calls makes of a new ledger. \<open>runs D s qs s'\<close> is such a sequence, whatever each call returned.
\<close>

inductive runs :: "deps \<Rightarrow> state \<Rightarrow> request list \<Rightarrow> state \<Rightarrow> bool" for D where
  run_nil: "runs D s [] s"
| run_call: "fresh E s \<Longrightarrow> exec D E s q = Some (s', r) \<Longrightarrow> runs D s' qs s'' \<Longrightarrow> runs D s (q # qs) s''"

inductive_simps runs_Nil [simp]: "runs D s [] s'"
inductive_simps runs_Cons: "runs D s (q # qs) s'"

lemma runs_inv: "runs D s qs s' \<Longrightarrow> exact_sums D \<Longrightarrow> ledger_inv s \<Longrightarrow> ledger_inv s'"
  by (induction rule: runs.induct) (auto intro: exec_inv)

lemma runs_trace:
  "runs D s qs s' \<Longrightarrow> exact_sums D \<Longrightarrow> ledger_inv s \<Longrightarrow> \<exists>ls. ktrace s ls s'"
proof (induction rule: runs.induct)
  case (run_nil s)
  then show ?case by (intro exI [of _ "[]"]) simp
next
  case (run_call E s q s' r qs s'')
  have "ledger_inv s'" using exec_inv run_call by blast
  moreover from exec_refines [OF run_call.prems(1) run_call.hyps(1) ledger_inv_keys(2) run_call.hyps(2)]
  obtain ls where "ktrace s ls s'" using run_call.prems(2) by blast
  ultimately show ?case using run_call by (blast intro: ktrace_append)
qed

lemma runs_from_new_inv: "exact_sums D \<Longrightarrow> runs D new_ledger qs s \<Longrightarrow> ledger_inv s"
  by (auto intro: runs_inv new_ledger_inv)

end
