(* ===== verification/Ledger_Overdraft.thy ===== *)
theory Ledger_Overdraft
  imports Ledger_Invariant
begin

text \<open>
  Available credits and the overdraft guarantee. The first part says what each abstract step does
  to the credits available in an account; the second proves that an account opened with
  \<open>no_overdraft\<close> never shows a negative available balance as long as nobody charges it directly
  and no settle exceeds its hold. Direct charges and settles above the hold post unconditionally
  in the code (\<open>ChargeRequest\<close>: it can drive a balance negative), so they are outside the guarantee.
\<close>

section \<open>Effect of the steps on available credits\<close>

lemma held_of_update:
  assumes "distinct (map fst (holds s))" and "map_of (holds s) r = Some h"
  shows "held_of (s\<lparr>holds := AList.update r h' (holds s)\<rparr>) a
       = held_of s a - open_amount a h + open_amount a h'"
  using sum_list_update_present [OF assms, of "open_amount a" h'] by (simp add: held_of_def)

lemma held_of_insert:
  assumes "map_of (holds s) r = None"
  shows "held_of (s\<lparr>holds := AList.update r h (holds s)\<rparr>) a = held_of s a + open_amount a h"
proof -
  have "r \<notin> fst ` set (holds s)" using assms by (simp add: map_of_eq_None_iff)
  from sum_list_update_absent [OF this, of "open_amount a"] show ?thesis by (simp add: held_of_def)
qed

lemma settled_of_holds [simp]: "settled_of (s\<lparr>holds := hs\<rparr>) a = settled_of s a"
  by (simp add: settled_of_def)

lemma held_of_accounts [simp]: "held_of (s\<lparr>accounts := m\<rparr>) a = held_of s a"
  by (simp add: held_of_def)

lemma available_post:
  assumes "kstep s (KPost e) s'" and "a \<noteq> SYSTEM_ACCOUNT"
  shows "available_of s' a = available_of s a + (if account_id e = a then delta_credits e else 0)"
  using assms by (auto simp: available_of_def elim!: kstep_postE)

lemma available_transfer:
  assumes "kstep s (KTransfer src dest amt) s'"
  shows "available_of s' a = available_of s a - (if src = a then amt else 0) + (if dest = a then amt else 0)"
  using assms by (auto simp: available_of_def elim!: kstep_transferE)

lemma available_account:
  assumes "kstep s (KAccount acc) s'"
  shows "available_of s' a = available_of s a"
  using assms by (cases rule: kstep.cases) (simp add: available_of_def settled_of_new)

lemma available_hold:
  assumes "kstep s (KHold r h) s'"
  shows "available_of s' a = available_of s a - (if hold_account h = a then hold_amount h else 0)"
  using assms
  by (cases rule: kstep.cases)
     (auto simp: available_of_def held_of_insert open_amount_def open_against_def)

lemma available_extend:
  assumes "kstep s (KExtend r) s'" and "ledger_inv s"
  shows "available_of s' a = available_of s a"
  using assms
  by (cases rule: kstep.cases)
     (auto simp: available_of_def held_of_update [OF ledger_inv_keys(2)] open_amount_def open_against_def)

lemma available_settle:
  assumes "kstep s (KSettle r) s'" and "ledger_inv s" and "map_of (holds s) r = Some h"
  shows "available_of s' a = available_of s a + (if hold_account h = a then hold_amount h else 0)"
  using assms
  by (cases rule: kstep.cases)
     (auto simp: available_of_def held_of_update [OF ledger_inv_keys(2)] open_amount_def open_against_def)

lemma available_release:
  assumes "kstep s (KRelease r) s'" and "ledger_inv s"
  shows "available_of s a \<le> available_of s' a"
proof -
  from assms(1) obtain h where h: "map_of (holds s) r = Some h"
    and s': "s' = s\<lparr>holds := AList.update r (h\<lparr>hold_status := Voided\<rparr>) (holds s)\<rparr>"
    by (cases rule: kstep.cases) auto
  have "0 < hold_amount h" using assms(2) h by (auto simp: ledger_inv_def holds_ok_def)
  then show ?thesis unfolding s'
    by (simp add: available_of_def held_of_update [OF ledger_inv_keys(2) [OF assms(2)] h]
          open_amount_def open_against_def)
qed

text \<open>Releases and positive refunds never lower what is available.\<close>

lemma available_vr_label:
  assumes "kstep s l s'" and "vr_label l" and "ledger_inv s" and "a \<noteq> SYSTEM_ACCOUNT"
  shows "available_of s a \<le> available_of s' a"
  using assms(2) unfolding vr_label_def
proof
  assume "\<exists>r. l = KRelease r"
  then show ?thesis using assms(1,3) by (auto dest: available_release)
next
  assume "\<exists>e. l = KPost e \<and> 0 < delta_credits e \<and> entry_type e = Refund \<and> reverses_entry_id e \<noteq> None"
  then show ?thesis using assms(1,4) by (auto dest: available_post [OF _ assms(4)])
qed

lemma available_vr_labels:
  assumes "ktrace s ls s'" and "\<forall>l \<in> set ls. vr_label l" and "ledger_inv s" and "a \<noteq> SYSTEM_ACCOUNT"
  shows "available_of s a \<le> available_of s' a"
  using assms
proof (induction rule: ktrace.induct)
  case (kt_cons s l s' ls s'')
  from available_vr_label [OF kt_cons.hyps(1)] kt_cons.prems have "available_of s a \<le> available_of s' a"
    by simp
  also have "\<dots> \<le> available_of s'' a" using kt_cons kstep_inv by auto
  finally show ?case .
qed simp

section \<open>The guarantee\<close>

definition spends_within :: "state \<Rightarrow> account_id \<Rightarrow> request \<Rightarrow> bool" where
  "spends_within s a q = (case q of
      RCharge c \<Rightarrow> charge_account c \<noteq> a
    | RSettle x \<Rightarrow> (case map_of (holds s) (settle_reservation_id x) of
        None \<Rightarrow> True
      | Some h \<Rightarrow> hold_account h = a \<longrightarrow> settle_actual x \<le> hold_amount h)
    | _ \<Rightarrow> True)"

definition guarded :: "state \<Rightarrow> account_id \<Rightarrow> bool" where
  "guarded s a = (case map_of (accounts s) a of None \<Rightarrow> False | Some r \<Rightarrow> acct_no_overdraft (row_account r))"

lemma guarded_has_account: "guarded s a \<Longrightarrow> has_account s a"
  by (auto simp: guarded_def has_account_def split: option.splits)

lemma ktrace_guarded: "ktrace s ls s' \<Longrightarrow> guarded s a \<Longrightarrow> guarded s' a"
  by (auto simp: guarded_def dest: ktrace_row_account split: option.splits)

lemma reserve_no_overdraft:
  assumes "exact_sums D" and "guarded s a" and "0 \<le> available_of s a" and "reserve D s x = Some (s', y)"
  shows "0 \<le> available_of s' a"
  using assms(4)
proof (rule reserve_cases [OF assms(1)])
  fix row h
  assume row: "map_of (accounts s) (rsv_account x) = Some row"
    and st: "kstep s (KHold (rsv_reservation_id x) h) s'"
    and h: "hold_account h = rsv_account x" "hold_amount h = rsv_amount x"
    and hard: "rsv_limit x = Hard \<or> acct_no_overdraft (row_account row) \<Longrightarrow>
       rsv_amount x \<le> available_of s (rsv_account x)"
  show ?thesis
  proof (cases "rsv_account x = a")
    case True
    with assms(2) row hard have "rsv_amount x \<le> available_of s a" by (simp add: guarded_def)
    with available_hold [OF st, of a] h True show ?thesis by simp
  next
    case False
    with available_hold [OF st, of a] h assms(3) show ?thesis by simp
  qed
qed (use assms(3) in simp)

lemma settle_no_overdraft:
  assumes "exact_sums D" and "fresh_ids E 0 (Suc k) s" and "ledger_inv s" and "a \<noteq> SYSTEM_ACCOUNT"
    and "0 \<le> available_of s a" and "spends_within s a (RSettle x)" and "settle D E s x = Some (s', y)"
  shows "0 \<le> available_of s' a"
  using assms(7)
proof (rule settle_cases [OF assms(1,2)])
  fix h e s1
  assume h: "map_of (holds s) (settle_reservation_id x) = Some h"
    and st1: "kstep s (KPost e) s1" and st2: "kstep s1 (KSettle (settle_reservation_id x)) s'"
    and e: "account_id e = hold_account h" "delta_credits e = - settle_actual x"
  have "map_of (holds s1) (settle_reservation_id x) = Some h"
    using st1 h by (auto elim!: kstep_postE)
  with available_settle [OF st2 kstep_inv [OF st1 assms(3)], of h a] available_post [OF st1 assms(4)]
    assms(5,6) e h
  show ?thesis by (auto simp: spends_within_def split: if_splits)
qed (use assms(5) in simp)

lemma open_lease_no_overdraft:
  assumes "exact_sums D" and "fresh_ids E 0 (3 + k) s" and "guarded s a" and "0 \<le> available_of s a"
    and "open_lease D E s x = Some (s', y)"
  shows "0 \<le> available_of s' a"
  using assms(5)
proof (rule open_lease_cases [OF assms(1,2)])
  fix row child s1
  assume row: "map_of (accounts s) (lease_parent x) = Some row"
    and st: "kstep s (KAccount child) s1" "kstep s1 (KTransfer (lease_parent x) (acct_id child) (lease_amount x)) s'"
    and pos: "0 < lease_amount x" and fr: "\<not> has_account s (acct_id child)"
    and lim: "acct_no_overdraft (row_account row) \<Longrightarrow> lease_amount x \<le> available_of s (lease_parent x)"
  have "acct_id child \<noteq> a" using fr guarded_has_account [OF assms(3)] by auto
  with available_transfer [OF st(2), of a] available_account [OF st(1), of a] row lim assms(3,4)
  show ?thesis by (auto simp: guarded_def split: if_splits)
qed (use assms(4) in simp)

lemma exec_no_overdraft:
  assumes "exact_sums D" and "fresh E s" and "ledger_inv s" and "a \<noteq> SYSTEM_ACCOUNT"
    and "guarded s a" and "0 \<le> available_of s a" and "spends_within s a q"
    and "exec D E s q = Some (s', r)"
  shows "0 \<le> available_of s' a"
proof -
  obtain k1 k2 k3 where k: "fresh_ids E 0 (Suc k1) s" "fresh_ids E 0 (2 + k2) s" "fresh_ids E 0 (3 + k3) s"
    using assms(2) id_budget_forms [of s] by metis
  note post = available_post [OF _ assms(4)]
  note labels = available_vr_labels [OF _ _ assms(3,4)]
  show ?thesis
  proof (cases q)
    case (ROpenAccount x)
    with assms(6,8) show ?thesis
      by (auto simp: replying_Some available_account dest!: open_account_step [OF k(1)])
  next
    case (RBalance x)
    with assms(6,8) show ?thesis by (auto simp: replying_Some dest!: balance_keeps_state)
  next
    case (RGrant x)
    with assms(6,8) show ?thesis
      by (auto simp: replying_Some grant_post_def grant_entry_def Option.bind_eq_Some_conv
               dest!: grant.refines [OF assms(1) k(1)] post)
  next
    case (RRefund x)
    with assms(6,8) show ?thesis
      by (auto simp: replying_Some refund_post_def refund_entry_def Option.bind_eq_Some_conv
               dest!: refund.refines [OF assms(1) k(1)] post)
  next
    case (RReserve x)
    with assms(8) reserve_no_overdraft [OF assms(1,5,6)] show ?thesis by (auto simp: replying_Some)
  next
    case (RSettle x)
    with assms(7,8) settle_no_overdraft [OF assms(1) k(1) assms(3,4,6)] show ?thesis
      by (auto simp: replying_Some)
  next
    case (RCharge x)
    with assms(6,7,8) show ?thesis
      by (auto simp: replying_Some charge_post_def charge_entry_def spends_within_def
               Option.bind_eq_Some_conv dest!: charge.refines [OF assms(1) k(1)] post)
  next
    case (RReverseCharge x)
    with assms(8) obtain y where "reverse_charge D E s x = Some (s', y)" by (auto simp: replying_Some)
    then show ?thesis
      by (rule reverse_charge_cases [OF assms(1) k(1)]) (use assms(6) in \<open>auto dest!: post\<close>)
  next
    case (RVoid x)
    with assms(6,8) show ?thesis
      by (auto simp: replying_Some
               dest!: void_step available_release [OF _ assms(3), where a = a])
  next
    case (RVoidExpiredHolds x)
    with assms(8) obtain y where "void_expired_holds s x = Some (s', y)" by (auto simp: replying_Some)
    from void_expired_trace [OF ledger_inv_keys(2) [OF assms(3)] this] obtain ls where
      "ktrace s ls s'" "\<forall>l \<in> set ls. vr_label l" by (auto simp: vr_label_def)
    from labels [OF this] assms(6) show ?thesis by simp
  next
    case (RExtendHold x y)
    with assms(6,8) show ?thesis
      by (auto simp: replying_Some
               dest!: extend_hold_step available_extend [OF _ assms(3), where a = a])
  next
    case (RVoidRun x)
    with assms(8) obtain y where "void_run D E s x = Some (s', y)" by (auto simp: replying_Some)
    from void_run_trace [OF assms(1,2) ledger_inv_keys(2) [OF assms(3)] this] obtain ls where
      "ktrace s ls s'" "\<forall>l \<in> set ls. vr_label l" by blast
    from labels [OF this] assms(6) show ?thesis by simp
  next
    case (ROpenLease x)
    with assms(8) open_lease_no_overdraft [OF assms(1) k(3) assms(5,6)] show ?thesis
      by (auto simp: replying_Some)
  next
    case (RCloseLease x)
    with assms(8) obtain y where "close_lease D E s x = Some (s', y)" by (auto simp: replying_Some)
    then show ?thesis
      by (rule close_lease_cases [OF assms(1) k(2)])
         (use assms(6) in \<open>auto dest!: available_transfer [where a = a]\<close>)
  next
    case (REntries x)
    with assms(6,8) show ?thesis by (auto simp: replying_Some dest!: entries_of_keeps_state)
  qed
qed

text \<open>A sequence of calls, each within the reservations on \<open>a\<close> at the moment it is made.\<close>

inductive runs_within :: "deps \<Rightarrow> account_id \<Rightarrow> state \<Rightarrow> request list \<Rightarrow> state \<Rightarrow> bool" for D a where
  rw_nil: "runs_within D a s [] s"
| rw_call: "fresh E s \<Longrightarrow> spends_within s a q \<Longrightarrow> exec D E s q = Some (s', r) \<Longrightarrow>
    runs_within D a s' qs s'' \<Longrightarrow> runs_within D a s (q # qs) s''"

inductive_simps runs_within_Nil [simp]: "runs_within D a s [] s'"
inductive_simps runs_within_Cons: "runs_within D a s (q # qs) s'"

lemma runs_within_no_overdraft:
  assumes "runs_within D a s qs s'" and "exact_sums D" and "ledger_inv s" and "a \<noteq> SYSTEM_ACCOUNT"
    and "guarded s a" and "0 \<le> available_of s a"
  shows "0 \<le> available_of s' a"
  using assms
proof (induction rule: runs_within.induct)
  case (rw_call E s q s' r qs s'')
  note ex = rw_call.prems(1) and inv = rw_call.prems(2)
  have "guarded s' a"
    using exec_refines [OF ex rw_call.hyps(1) ledger_inv_keys(2) [OF inv] rw_call.hyps(3)]
      ktrace_guarded rw_call.prems(4) by blast
  then show ?case
    using rw_call.IH [OF ex exec_inv [OF ex rw_call.hyps(1) inv rw_call.hyps(3)] rw_call.prems(3)]
      exec_no_overdraft [OF ex rw_call.hyps(1) inv rw_call.prems(3,4,5) rw_call.hyps(2,3)] by blast
qed simp

end
