(* ===== verification/Ledger_Demo.thy ===== *)
theory Ledger_Demo
  imports Ledger_Overdraft
begin

text \<open>
  A worked ledger. \<open>play\<close> executes a list of calls, each with its own surroundings, and checks that
  the identifiers it draws are fresh, so that a successful play is a \<open>runs\<close> (\<open>play_runs\<close>). The
  constants after it are a small ledger with a grant, a settled hold, a direct charge and an open
  hold, all spent by one run; the properties are applied to it.
\<close>

section \<open>Executing a sequence of calls\<close>

lemma fresh_ids_upt [code]:
  "fresh_ids E n k s \<longleftrightarrow> distinct (map (new_v7 E) [n..<k]) \<and>
     list_all (\<lambda>i. \<not> list_ex (\<lambda>e. entry_id e = Id (new_v7 E i)) (entries s) \<and>
                    map_of (accounts s) (Id (new_v7 E i)) = None) [n..<k]"
proof -
  have "Id u \<notin> entry_ids s \<longleftrightarrow> \<not> list_ex (\<lambda>e. entry_id e = Id u) (entries s)" for u
    unfolding entry_ids_def list_ex_iff image_iff by (simp add: eq_commute [of "Id u"])
  then show ?thesis
    by (auto simp: fresh_ids_def distinct_map has_account_def list_all_iff)
qed

fun play :: "deps \<Rightarrow> (env \<times> request) list \<Rightarrow> state \<Rightarrow> state option" where
  "play D [] s = Some s"
| "play D ((E, q) # qs) s =
     (if fresh_ids E 0 (id_budget s) s
      then case exec D E s q of None \<Rightarrow> None | Some (s', r) \<Rightarrow> play D qs s'
      else None)"

lemma play_runs: "play D qs s = Some s' \<Longrightarrow> runs D s (map snd qs) s'"
  by (induction D qs s rule: play.induct)
     (auto split: if_splits option.splits prod.splits intro: runs.intros)

lemma replied_Ok: "map_option (isl \<circ> snd) m = Some False \<Longrightarrow> \<exists>s x. m = Some (s, Inr x)"
  by (cases m; cases "snd (the m)") auto

section \<open>A small ledger\<close>

definition demo_env :: "nat \<Rightarrow> env" where
  "demo_env k = \<lparr>new_v7 = (\<lambda>i. of_nat (100 * k + i + 1)), now_utc = (\<lambda>_. int k)\<rparr>"

definition demo_org :: org_id where
  "demo_org = Id 7"

definition demo_run :: run_id where
  "demo_run = Id 9"

definition demo_wallet :: account_id where
  "demo_wallet = Id 1"

definition demo_grant :: grant_request where
  "demo_grant = \<lparr>grant_account = demo_wallet, grant_amount = 100, grant_source = Paid_source,
     grant_idempotency_key = Some ''g1''\<rparr>"

definition demo_charge :: charge_request where
  "demo_charge = \<lparr>charge_account = demo_wallet, charge_amount = 20,
     charge_run_id = Some demo_run, charge_idempotency_key = Some ''u1''\<rparr>"

definition demo_reserve :: "uuid \<Rightarrow> credit \<Rightarrow> reserve_request" where
  "demo_reserve r amt = \<lparr>rsv_account = demo_wallet, rsv_reservation_id = ReservationId r,
     rsv_amount = amt, rsv_limit = Hard, rsv_expires_at = Some 50, rsv_run_id = Some demo_run\<rparr>"

definition demo_settle :: settle_request where
  "demo_settle = \<lparr>settle_reservation_id = ReservationId 1, settle_actual = 30\<rparr>"

definition demo_open :: "(env \<times> request) list" where
  "demo_open =
     [(demo_env 0, ROpenAccount \<lparr>na_org_id = demo_org, na_scope = Org, na_no_overdraft = True,
        na_parent_id = None\<rparr>),
      (demo_env 1, RGrant demo_grant)]"

definition demo_spend :: "(env \<times> request) list" where
  "demo_spend =
     [(demo_env 2, RReserve (demo_reserve 1 40)),
      (demo_env 3, RSettle demo_settle),
      (demo_env 4, RCharge demo_charge),
      (demo_env 5, RReserve (demo_reserve 2 10))]"

definition demo_row :: "credit \<Rightarrow> account_row" where
  "demo_row c = \<lparr>row_account = \<lparr>acct_id = demo_wallet, acct_org_id = demo_org, acct_scope = Org,
     acct_no_overdraft = True, acct_parent_id = None\<rparr>, row_settled = c\<rparr>"

definition demo_funded :: state where
  "demo_funded = \<lparr>
     accounts = [(SYSTEM_ACCOUNT, system_row\<lparr>row_settled := - 100\<rparr>), (demo_wallet, demo_row 100)],
     holds = [], entries = [grant_entry (demo_env 1) demo_grant 100]\<rparr>"

definition demo_hold :: "credit \<Rightarrow> hold" where
  "demo_hold amt = \<lparr>hold_account = demo_wallet, hold_amount = amt, hold_status = Open,
     hold_settle_entry = None, hold_expires_at = Some 50, hold_run_id = Some demo_run\<rparr>"

definition demo_spent :: state where
  "demo_spent = \<lparr>
     accounts = [(SYSTEM_ACCOUNT, system_row\<lparr>row_settled := - 50\<rparr>), (demo_wallet, demo_row 50)],
     holds = [(ReservationId 1, (demo_hold 40)\<lparr>hold_status := Settled,
                                   hold_settle_entry := Some (Id 301)\<rparr>),
              (ReservationId 2, demo_hold 10)],
     entries = [grant_entry (demo_env 1) demo_grant 100,
                settle_entry (demo_env 3) demo_settle demo_wallet 70,
                charge_entry (demo_env 4) demo_charge 50]\<rparr>"

text \<open>The funded wallet, fully reserved.\<close>

definition demo_maxed :: state where
  "demo_maxed = demo_funded\<lparr>holds := [(ReservationId 3, demo_hold 100)]\<rparr>"

lemma demo_open_plays: "play exact_deps demo_open new_ledger = Some demo_funded"
  by code_simp

lemma demo_spend_plays: "play exact_deps demo_spend demo_funded = Some demo_spent"
  by code_simp

end
