(* ===== verification/Ledger_Void.thy ===== *)
theory Ledger_Void
  imports Ledger_Invariant
begin

text \<open>
  What a run void achieves (\<open>void_run\<close> of \<open>src/memory/ops.rs\<close>): how one refund changes the
  unreversed remainder of a charge, and what the two loops leave behind. \<open>vr_effect\<close> is the part of
  the contract each iteration keeps: refunds are appended, the summary counts them, no remainder
  grows and none is driven below zero.
\<close>

section \<open>Remainders\<close>

lemma charged_of_append:
  "c \<in> entry_ids s \<Longrightarrow> entries s' = entries s @ es \<Longrightarrow> charged_of s' c = charged_of s c"
  by (auto simp: charged_of_def entry_ids_def find_append find_None_iff_all split: option.split)

lemma remainder_post:
  assumes "kstep s (KPost e) s'" and "c \<in> entry_ids s"
  shows "remainder_of s' c =
           remainder_of s c - (if reverses_entry_id e = Some c then delta_credits e else 0)"
proof -
  have "entries s' = entries s @ [e]" using assms(1) by (auto elim!: kstep_postE)
  with charged_of_append [OF assms(2) this] show ?thesis
    by (simp add: remainder_of_def reversed_of_def)
qed

lemma entry_ids_post: "kstep s (KPost e) s' \<Longrightarrow> entry_ids s' = insert (entry_id e) (entry_ids s)"
  by (auto elim!: kstep_postE)

lemma remainder_of_holds [simp]: "remainder_of (s\<lparr>holds := hs\<rparr>) c = remainder_of s c"
  by (simp add: remainder_of_def charged_of_def reversed_of_def)

lemma entry_ids_holds [simp]: "entry_ids (s\<lparr>holds := hs\<rparr>) = entry_ids s"
  by (simp add: entry_ids_def)

section \<open>The contract of the loop bodies\<close>

definition vr_effect :: "run_id \<Rightarrow> vr_state \<Rightarrow> vr_state \<Rightarrow> bool" where
  "vr_effect run v v' \<longleftrightarrow> (case (v, v') of ((s, _, sm), (s', _, sm')) \<Rightarrow>
     (\<exists>es. entries s' = entries s @ es \<and>
        charges_refunded sm' = charges_refunded sm + length es \<and>
        credits_refunded sm' = credits_refunded sm + sum_list (map delta_credits es) \<and>
        (\<forall>e \<in> set es. entry_type e = Refund \<and> 0 < delta_credits e \<and> entry_run_id e = Some run \<and>
           reverses_entry_id e \<noteq> None)) \<and>
     (\<forall>c \<in> entry_ids s. remainder_of s' c \<le> remainder_of s c \<and>
        (0 \<le> remainder_of s c \<longrightarrow> 0 \<le> remainder_of s' c)))"

lemma vr_effect_refl: "vr_effect run (s, n, sm) (s, n', sm\<lparr>holds_released := k\<rparr>)"
  by (auto simp: vr_effect_def)

lemma vr_effect_trans:
  assumes "vr_effect run v v'" and "vr_effect run v' v''"
  shows "vr_effect run v v''"
proof -
  obtain s n sm s' n' sm' s'' n'' sm'' where
    v: "v = (s, n, sm)" "v' = (s', n', sm')" "v'' = (s'', n'', sm'')"
    by (metis prod_cases3)
  from assms(1) obtain es where es: "entries s' = entries s @ es"
    "charges_refunded sm' = charges_refunded sm + length es"
    "credits_refunded sm' = credits_refunded sm + sum_list (map delta_credits es)"
    "\<forall>e \<in> set es. entry_type e = Refund \<and> 0 < delta_credits e \<and> entry_run_id e = Some run \<and>
       reverses_entry_id e \<noteq> None"
    by (auto simp: vr_effect_def v)
  from assms(2) obtain fs where fs: "entries s'' = entries s' @ fs"
    "charges_refunded sm'' = charges_refunded sm' + length fs"
    "credits_refunded sm'' = credits_refunded sm' + sum_list (map delta_credits fs)"
    "\<forall>e \<in> set fs. entry_type e = Refund \<and> 0 < delta_credits e \<and> entry_run_id e = Some run \<and>
       reverses_entry_id e \<noteq> None"
    by (auto simp: vr_effect_def v)
  have "entry_ids s \<subseteq> entry_ids s'" using es(1) by (auto simp: entry_ids_def)
  then have "\<forall>c \<in> entry_ids s. remainder_of s'' c \<le> remainder_of s c \<and>
        (0 \<le> remainder_of s c \<longrightarrow> 0 \<le> remainder_of s'' c)"
    using assms by (fastforce simp: vr_effect_def v)
  with es fs show ?thesis unfolding vr_effect_def v prod.case
    by (intro conjI exI [of _ "es @ fs"]) auto
qed

lemma vr_effect_ids: "vr_effect run (s, n, sm) (s', n', sm') \<Longrightarrow> entry_ids s \<subseteq> entry_ids s'"
  by (auto simp: vr_effect_def entry_ids_def)

lemma vr_effect_remainder:
  "vr_effect run (s, n, sm) (s', n', sm') \<Longrightarrow> c \<in> entry_ids s \<Longrightarrow> remainder_of s c \<le> 0 \<Longrightarrow>
     remainder_of s' c \<le> 0"
  by (fastforce simp: vr_effect_def)

text \<open>A refund of the loop settles the account of what it reverses.\<close>

lemma vr_refund_effect:
  assumes "exact_sums D" and "fresh_ids E n k s" and "n < k" and "rv \<in> entry_ids s"
    and "vr_refund D E (s, n, sm) a rv q run key = Some (s', n', sm')"
  shows "vr_effect run (s, n, sm) (s', n', sm') \<and> remainder_of s' rv \<le> 0 \<and> holds s' = holds s \<and>
         fresh_ids E n' k s' \<and> n' \<le> Suc n \<and> holds_released sm' = holds_released sm"
  using assms(1-3,5)
proof (cases rule: vr_refund_cases)
  case whole
  then show ?thesis using assms(2) vr_effect_refl [of run s n sm n "holds_released sm"] by simp
next
  case (posted e)
  have es: "entries s' = entries s @ [e]" and hs: "holds s' = holds s"
    using posted(1) by (auto elim!: kstep_postE)
  have rem: "remainder_of s' c = remainder_of s c - (if rv = c then remainder_of s rv else 0)"
    if "c \<in> entry_ids s" for c
    using remainder_post [OF posted(1) that] posted(5,8) by auto
  have "vr_effect run (s, n, sm) (s', n', sm')"
    unfolding vr_effect_def prod.case using posted es rem
    by (intro conjI exI [of _ "[e]"]) auto
  then show ?thesis using posted hs rem [OF assms(4)] by simp
qed

section \<open>The two loops\<close>

lemma vr_charges_effect:
  assumes "exact_sums D" and "fold_opt (vr_charge D E run) (s, n, sm) cs = Some (s', n', sm')"
    and "fresh_ids E n k s" and "n + length cs \<le> k" and "fst ` set cs \<subseteq> entry_ids s"
  shows "vr_effect run (s, n, sm) (s', n', sm') \<and> (\<forall>(c, a) \<in> set cs. remainder_of s' c \<le> 0) \<and>
         holds s' = holds s \<and> holds_released sm' = holds_released sm"
  using assms(2-)
proof (induction cs arbitrary: s n sm)
  case Nil
  then show ?case using vr_effect_refl [of run s n sm n "holds_released sm"] by simp
next
  case (Cons m cs)
  obtain c a where m: "m = (c, a)" by (cases m)
  from Cons.prems(1) obtain s1 n1 sm1 where
    1: "vr_charge D E run (s, n, sm) m = Some (s1, n1, sm1)" and
    2: "fold_opt (vr_charge D E run) (s1, n1, sm1) cs = Some (s', n', sm')"
    by (auto simp: Option.bind_eq_Some_conv)
  have c: "c \<in> entry_ids s" and nk: "n < k" using Cons.prems m by auto
  note s1 = vr_refund_effect [OF assms(1) Cons.prems(2) nk c 1 [unfolded vr_charge_def m prod.case]]
  then have sub: "entry_ids s \<subseteq> entry_ids s1" by (auto dest: vr_effect_ids)
  have IH: "vr_effect run (s1, n1, sm1) (s', n', sm') \<and> (\<forall>(c, a) \<in> set cs. remainder_of s' c \<le> 0) \<and>
         holds s' = holds s1 \<and> holds_released sm' = holds_released sm1"
    using s1 Cons.prems sub by (intro Cons.IH [OF 2]) auto
  then have "remainder_of s' c \<le> 0"
    using s1 sub c by (auto intro: vr_effect_remainder)
  with IH s1 show ?case by (auto simp: m intro: vr_effect_trans)
qed

definition member_done :: "state \<Rightarrow> reservation_id \<times> hold \<Rightarrow> bool" where
  "member_done s m \<longleftrightarrow> (case m of (r, h) \<Rightarrow>
     (hold_status h = Open \<longrightarrow> map_of (holds s) r = Some (h\<lparr>hold_status := Voided\<rparr>)) \<and>
     (hold_status h = Settled \<longrightarrow> (\<exists>c. hold_settle_entry h = Some c \<and> remainder_of s c \<le> 0)))"

definition settle_posted :: "state \<Rightarrow> hold \<Rightarrow> bool" where
  "settle_posted s h \<longleftrightarrow> (hold_status h = Settled \<longrightarrow>
     (\<exists>c. hold_settle_entry h = Some c \<and> c \<in> entry_ids s))"

lemma vr_hold_effect:
  assumes "exact_sums D" and "vr_hold D E run (s, n, sm) (r, h) = Some (s', n', sm')"
    and "fresh_ids E n k s" and "n < k" and "map_of (holds s) r = Some h" and "settle_posted s h"
  shows "vr_effect run (s, n, sm) (s', n', sm') \<and> member_done s' (r, h) \<and>
         (\<forall>q. q \<noteq> r \<longrightarrow> map_of (holds s') q = map_of (holds s) q) \<and> fresh_ids E n' k s' \<and> n' \<le> Suc n \<and>
         holds_released sm' = holds_released sm + (if hold_status h = Open then 1 else 0)"
proof (cases "hold_status h")
  case Voided
  then show ?thesis using assms(2,3) vr_effect_refl [of run s n sm n "holds_released sm"]
    by (auto simp: vr_hold_def member_done_def)
next
  case Open
  then have *: "s' = s\<lparr>holds := AList.update r (h\<lparr>hold_status := Voided\<rparr>) (holds s)\<rparr>" "n' = n"
    "sm' = sm\<lparr>holds_released := Suc (holds_released sm)\<rparr>"
    using assms(2,5) by (auto simp: vr_hold_def)
  have "vr_effect run (s, n, sm) (s', n', sm')" by (auto simp: vr_effect_def *)
  moreover have "fresh_ids E n' k s'"
    using assms(3) by (simp add: * fresh_ids_def has_account_def)
  ultimately show ?thesis using Open by (simp add: member_done_def *)
next
  case Settled
  with assms(6) obtain c where c: "hold_settle_entry h = Some c" "c \<in> entry_ids s"
    by (auto simp: settle_posted_def)
  with Settled assms(2) have
    "vr_refund D E (s, n, sm) (hold_account h) c (Some r) run (run_void_refund_key D run r)
       = Some (s', n', sm')" by (simp add: vr_hold_def)
  from vr_refund_effect [OF assms(1,3,4) c(2) this] Settled c(1) show ?thesis
    by (simp add: member_done_def)
qed

lemma member_done_mono:
  assumes "member_done s m" and "vr_effect run (s, n, sm) (s', n', sm')"
    and "map_of (holds s') (fst m) = map_of (holds s) (fst m)" and "settle_posted s (snd m)"
  shows "member_done s' m"
proof -
  have "remainder_of s' c \<le> 0" if "remainder_of s c \<le> 0" "c \<in> entry_ids s" for c
    using vr_effect_remainder [OF assms(2) that(2,1)] .
  then show ?thesis using assms(1,3,4) by (auto simp: member_done_def settle_posted_def)
qed

lemma vr_holds_effect:
  assumes "exact_sums D" and "fold_opt (vr_hold D E run) (s, n, sm) ms = Some (s', n', sm')"
    and "fresh_ids E n k s" and "n + length ms \<le> k" and "distinct (map fst ms)"
    and "\<forall>(r, h) \<in> set ms. map_of (holds s) r = Some h \<and> settle_posted s h"
  shows "vr_effect run (s, n, sm) (s', n', sm') \<and> (\<forall>m \<in> set ms. member_done s' m) \<and>
         (\<forall>q. q \<notin> fst ` set ms \<longrightarrow> map_of (holds s') q = map_of (holds s) q) \<and>
         holds_released sm' =
           holds_released sm + length (filter (\<lambda>(_, h). hold_status h = Open) ms)"
  using assms(2-)
proof (induction ms arbitrary: s n sm)
  case Nil
  then show ?case using vr_effect_refl [of run s n sm n "holds_released sm"] by simp
next
  case (Cons m ms)
  obtain r h where m: "m = (r, h)" by (cases m)
  from Cons.prems(1) obtain s1 n1 sm1 where
    1: "vr_hold D E run (s, n, sm) (r, h) = Some (s1, n1, sm1)" and
    2: "fold_opt (vr_hold D E run) (s1, n1, sm1) ms = Some (s', n', sm')"
    by (auto simp: m Option.bind_eq_Some_conv)
  have nk: "n < k" and hr: "map_of (holds s) r = Some h" and sp: "settle_posted s h"
    and r: "r \<notin> fst ` set ms" using Cons.prems m by auto
  note s1 = vr_hold_effect [OF assms(1) 1 Cons.prems(2) nk hr sp]
  have sub: "entry_ids s \<subseteq> entry_ids s1" using s1 by (auto dest: vr_effect_ids)
  have mono: "settle_posted s1 h'" if "settle_posted s h'" for h'
    using that sub by (auto simp: settle_posted_def)
  have "\<forall>(q, g) \<in> set ms. map_of (holds s1) q = Some g \<and> settle_posted s1 g"
    using Cons.prems(5) s1 r mono by force
  then have IH: "vr_effect run (s1, n1, sm1) (s', n', sm') \<and> (\<forall>m \<in> set ms. member_done s' m) \<and>
         (\<forall>q. q \<notin> fst ` set ms \<longrightarrow> map_of (holds s') q = map_of (holds s1) q) \<and>
         holds_released sm' =
           holds_released sm1 + length (filter (\<lambda>(_, h). hold_status h = Open) ms)"
    using s1 Cons.prems by (intro Cons.IH [OF 2]) auto
  then have "member_done s' (r, h)"
    using member_done_mono [of s1 "(r, h)" run n1 sm1 s' n' sm'] s1 mono [OF sp] r by auto
  with IH s1 show ?case by (auto simp: m intro: vr_effect_trans)
qed

section \<open>The whole operation\<close>

lemma ledger_inv_settle_posted:
  "ledger_inv s \<Longrightarrow> map_of (holds s) r = Some h \<Longrightarrow> settle_posted s h"
  by (fastforce simp: ledger_inv_def holds_ok_def settle_posted_def settle_link_def entry_ids_def)

lemma run_members_iff:
  assumes "ledger_inv s"
  shows "(r, h) \<in> set (run_members s run) \<longleftrightarrow> map_of (holds s) r = Some h \<and> hold_run_id h = Some run"
  using ledger_inv_keys(2) [OF assms] by (auto simp: run_members_def)

lemma run_members_budget: "0 + length (run_members s run) \<le> id_budget s"
  unfolding run_members_def id_budget_def
  by (rule le_trans [of _ "length (holds s)"]) (simp_all del: One_nat_def)

lemma run_charges_ids: "fst ` set (run_charges s run) \<subseteq> entry_ids s"
  by (auto simp: run_charges_def entry_ids_def)

lemma void_run_effect:
  assumes "exact_sums D" and "fresh E s" and "ledger_inv s" and "void_run D E s run = Some (s', x)"
  obtains n sm where "x = Inr sm" "vr_effect run (s, 0, empty_summary) (s', n, sm)"
    "\<forall>m \<in> set (run_members s run). member_done s' m"
    "\<forall>(c, a) \<in> set (run_charges s run). remainder_of s' c \<le> 0"
    "\<forall>q. q \<notin> fst ` set (run_members s run) \<longrightarrow> map_of (holds s') q = map_of (holds s) q"
    "holds_released sm = length (filter (\<lambda>(_, h). hold_status h = Open) (run_members s run))"
  using assms(1,2) ledger_inv_keys(2) [OF assms(3)] assms(4)
proof (cases rule: void_run_phases)
  case (1 s1 n1 sm1 n2 sm2 ls1 ls2)
  have ms: "\<forall>(r, h) \<in> set (run_members s run). map_of (holds s) r = Some h \<and> settle_posted s h"
    using run_members_iff [OF assms(3)] ledger_inv_settle_posted [OF assms(3)] by auto
  from vr_holds_effect [OF assms(1) 1(1) assms(2) run_members_budget distinct_run_members ms]
    ledger_inv_keys(2) [OF assms(3)]
  have p1: "vr_effect run (s, 0, empty_summary) (s1, n1, sm1)"
    "\<forall>m \<in> set (run_members s run). member_done s1 m"
    "\<forall>q. q \<notin> fst ` set (run_members s run) \<longrightarrow> map_of (holds s1) q = map_of (holds s) q"
    "holds_released sm1 = length (filter (\<lambda>(_, h). hold_status h = Open) (run_members s run))"
    by (auto simp: empty_summary_def)
  have sub: "fst ` set (run_charges s run) \<subseteq> entry_ids s1"
    using run_charges_ids vr_effect_ids [OF p1(1)] by blast
  note p2 = vr_charges_effect [OF assms(1) 1(2,4,5) sub]
  have "member_done s' m" if "m \<in> set (run_members s run)" for m
  proof (rule member_done_mono)
    show "member_done s1 m" using p1(2) that by blast
    show "vr_effect run (s1, n1, sm1) (s', n2, sm2)" using p2 by blast
    show "map_of (holds s') (fst m) = map_of (holds s1) (fst m)" using p2 by simp
    show "settle_posted s1 (snd m)"
      using ms that vr_effect_ids [OF p1(1)] by (fastforce simp: settle_posted_def)
  qed
  then show ?thesis using that [of sm2 n2] 1(3) p1 p2 vr_effect_trans by auto
qed

text \<open>After a run void no hold of the run is open and nothing the run spent is left unreversed.\<close>

definition run_clear :: "state \<Rightarrow> run_id \<Rightarrow> bool" where
  "run_clear s run \<longleftrightarrow>
     list_all (\<lambda>(r, h). hold_status h \<noteq> Open \<and>
       (hold_status h = Settled \<longrightarrow>
          (case hold_settle_entry h of None \<Rightarrow> False | Some c \<Rightarrow> remainder_of s c \<le> 0)))
       (run_members s run) \<and>
     list_all (\<lambda>(c, a). remainder_of s c \<le> 0) (run_charges s run)"

lemma void_run_clears:
  assumes "exact_sums D" and "fresh E s" and "ledger_inv s" and "void_run D E s run = Some (s', x)"
  shows "run_clear s' run"
  using assms
proof (rule void_run_effect)
  fix n sm
  assume done1: "\<forall>m \<in> set (run_members s run). member_done s' m"
    and done2: "\<forall>(c, a) \<in> set (run_charges s run). remainder_of s' c \<le> 0"
    and others: "\<forall>q. q \<notin> fst ` set (run_members s run) \<longrightarrow> map_of (holds s') q = map_of (holds s) q"
  from void_run_trace [OF assms(1,2) ledger_inv_keys(2) [OF assms(3)] assms(4)]
  obtain ls where ls: "ktrace s ls s'" "\<forall>l \<in> set ls. vr_label l" by blast
  have inv': "ledger_inv s'" using ktrace_inv [OF ls(1) assms(3)] .
  have "hold_status h \<noteq> Open \<and> (hold_status h = Settled \<longrightarrow>
          (\<exists>c. hold_settle_entry h = Some c \<and> remainder_of s' c \<le> 0))"
    if "(r, h) \<in> set (run_members s' run)" for r h
  proof -
    from that have h: "map_of (holds s') r = Some h" "hold_run_id h = Some run"
      using run_members_iff [OF inv'] by auto
    have "r \<in> fst ` set (run_members s run)"
    proof (rule ccontr)
      assume "r \<notin> fst ` set (run_members s run)"
      with others h have "(r, h) \<in> set (run_members s run)"
        using run_members_iff [OF assms(3)] by auto
      with \<open>r \<notin> _\<close> show False by force
    qed
    then obtain h0 where mem: "(r, h0) \<in> set (run_members s run)" by auto
    then have h0: "map_of (holds s) r = Some h0" using run_members_iff [OF assms(3)] by blast
    from ktrace_hold_evolves [OF ls(1) h0] h(1) have ev: "hold_evolves h0 h" by auto
    from done1 mem have "member_done s' (r, h0)" by blast
    then show ?thesis using ev h(1) by (cases "hold_status h0") (auto simp: member_done_def hold_evolves_def)
  qed
  moreover have "run_charges s' run = run_charges s run" by (rule vr_label_run_charges [OF ls])
  ultimately show ?thesis
    using done2 by (fastforce simp: run_clear_def list_all_iff split: option.split)
qed

text \<open>On a run that is already clear, a void finds nothing to do.\<close>

lemma unreversed_remainder_total:
  assumes "exact_sums D" and "total_sums D"
  shows "unreversed_remainder D s c = Some (remainder_of s c)"
  using credit_sum_total [OF assms]
  by (auto simp: unreversed_remainder_def credit_sum_def dec_sub_total [OF assms] remainder_of_def
           charged_of_def reversed_of_def Let_def split: option.split)

lemma vr_refund_nothing:
  assumes "exact_sums D" and "total_sums D" and "remainder_of s c \<le> 0"
  shows "vr_refund D E (s, n, sm) a c q run key = Some (s, n, sm)"
  using assms(3) by (simp add: vr_refund_def unreversed_remainder_total [OF assms(1,2)])

lemma fold_opt_nothing: "(\<And>x. x \<in> set xs \<Longrightarrow> f b x = Some b) \<Longrightarrow> fold_opt f b xs = Some b"
  by (induction xs) simp_all

lemma void_run_nothing:
  assumes "exact_sums D" and "total_sums D" and "run_clear s run"
  shows "void_run D E s run = Some (s, Inr empty_summary)"
proof -
  have "fold_opt (vr_hold D E run) (s, 0, empty_summary) (run_members s run)
          = Some (s, 0, empty_summary)"
    using assms(3) vr_refund_nothing [OF assms(1,2)]
    by (intro fold_opt_nothing)
       (auto simp: run_clear_def vr_hold_def list_all_iff split: hold_status.split option.splits)
  moreover have "fold_opt (vr_charge D E run) (s, 0, empty_summary) (run_charges s run)
          = Some (s, 0, empty_summary)"
    using assms(3) vr_refund_nothing [OF assms(1,2)]
    by (intro fold_opt_nothing) (auto simp: run_clear_def vr_charge_def list_all_iff)
  ultimately show ?thesis by (simp add: void_run_def)
qed

end
