(* ===== verification/Ledger_Total.thy ===== *)
theory Ledger_Total
  imports Ledger_Void
begin

text \<open>
  When a call returns, and what it leaves behind when it fails. A panic in any method poisons the
  ledger's mutex for every later caller, so the absence of panics is a liveness property of the
  whole engine. With decimal sums that do not overflow and parents that exist, no call panics
  in a state that satisfies the invariant. An error never changes the state.
\<close>

section \<open>Errors change nothing\<close>

lemma settle_error: "settle D E s q = Some (s', Inl e) \<Longrightarrow> s' = s"
  by (auto simp: settle_def Let_def Option.bind_eq_Some_conv
           split: if_splits option.splits hold_status.splits)

lemma reserve_error: "reserve D s q = Some (s', Inl e) \<Longrightarrow> s' = s"
  by (auto simp: reserve_def Let_def Option.bind_eq_Some_conv
           split: if_splits option.splits)

lemma reverse_charge_error: "reverse_charge D E s q = Some (s', Inl e) \<Longrightarrow> s' = s"
  by (auto simp: reverse_charge_def Let_def Option.bind_eq_Some_conv
           split: if_splits option.splits)

lemma open_lease_error: "open_lease D E s q = Some (s', Inl e) \<Longrightarrow> s' = s"
  by (auto simp: open_lease_def Let_def Option.bind_eq_Some_conv
           split: if_splits option.splits)

lemma close_lease_error: "close_lease D E s q = Some (s', Inl e) \<Longrightarrow> s' = s"
  by (auto simp: close_lease_def Let_def Option.bind_eq_Some_conv
           split: if_splits option.splits)

lemma map_sum_Inl_iff: "Inl e = map_sum id f x \<longleftrightarrow> x = Inl e"
  by (cases x) auto

lemma exec_error:
  assumes "exec D E s q = Some (s', Inl e)"
  shows "s' = s"
  using assms
  by (cases q)
     (auto simp: replying_Some map_sum_Inl_iff
        open_account_def Let_def void_expired_holds_def void_run_def Option.bind_eq_Some_conv
        dest: balance_keeps_state entries_of_keeps_state grant.error_keeps_state
          refund.error_keeps_state charge.error_keeps_state settle_error reserve_error
          reverse_charge_error open_lease_error close_lease_error,
      auto simp: void_def extend_hold_def split: option.splits hold_status.splits)

section \<open>Balance updates return\<close>

lemma post_credit_total:
  assumes "exact_sums D" and "total_sums D" and "has_account s a"
  shows "\<exists>s' b. post_credit D s a m = Some (s', b) \<and> (\<forall>x. has_account s' x = has_account s x)"
  using assms(3)
  by (auto simp: post_credit_def system_sub_def account_add_def has_account_def
           dec_add_total [OF assms(1,2)] dec_sub_total [OF assms(1,2)] split: option.split)

lemma post_debit_total:
  assumes "exact_sums D" and "total_sums D" and "has_account s a"
  shows "\<exists>s' b. post_debit D s a m = Some (s', b)"
  using assms(3)
  by (auto simp: post_debit_def system_add_def account_sub_def has_account_def
           dec_add_total [OF assms(1,2)] dec_sub_total [OF assms(1,2)] split: option.split)

lemma post_transfer_total:
  assumes "exact_sums D" and "total_sums D" and "has_account s a" and "has_account s b"
  shows "\<exists>s'. post_transfer D i j t s a b m = Some s'"
  using assms(3,4)
  by (auto simp: post_transfer_def account_add_def account_sub_def has_account_def
           dec_add_total [OF assms(1,2)] dec_sub_total [OF assms(1,2)])

section \<open>Run voids return\<close>

lemma vr_refund_total:
  assumes "exact_sums D" and "total_sums D" and "has_account s a"
  shows "\<exists>s' n' sm'. vr_refund D E (s, n, sm) a c q run key = Some (s', n', sm') \<and>
           (\<forall>x. has_account s' x = has_account s x)"
proof (cases "0 < remainder_of s c")
  case True
  obtain s1 b where "post_credit D s a (remainder_of s c) = Some (s1, b)"
    "\<forall>x. has_account s1 x = has_account s x"
    using post_credit_total [OF assms] by blast
  then show ?thesis using True
    by (simp add: vr_refund_def unreversed_remainder_total [OF assms(1,2)] dec_add_total [OF assms(1,2)])
qed (use vr_refund_nothing [OF assms(1,2)] in auto)

lemma vr_hold_total:
  assumes "exact_sums D" and "total_sums D" and "has_account s (hold_account h)"
    and "hold_status h = Settled \<longrightarrow> hold_settle_entry h \<noteq> None"
  shows "\<exists>s' n' sm'. vr_hold D E run (s, n, sm) (r, h) = Some (s', n', sm') \<and>
           (\<forall>x. has_account s' x = has_account s x)"
  using assms(3,4) vr_refund_total [OF assms(1,2,3)]
  by (cases "hold_status h") (auto simp: vr_hold_def has_account_def split: option.split)

text \<open>A loop whose body returns and keeps what the body needs, returns.\<close>

lemma fold_opt_total:
  assumes "P b" and "\<And>x b. x \<in> set xs \<Longrightarrow> P b \<Longrightarrow> \<exists>b'. f b x = Some b' \<and> P b'"
  shows "\<exists>b'. fold_opt f b xs = Some b' \<and> P b'"
  using assms
proof (induction xs arbitrary: b)
  case (Cons x xs)
  from Cons.prems obtain b1 where "f b x = Some b1" "P b1" by force
  then show ?case using Cons.IH [of b1] Cons.prems(2) by auto
qed simp

lemma void_run_total:
  assumes "exact_sums D" and "total_sums D" and "fresh E s" and "ledger_inv s"
  shows "\<exists>s' sm. void_run D E s run = Some (s', Inr sm)"
proof -
  let ?P = "\<lambda>v::vr_state. \<forall>x. has_account (fst v) x = has_account s x"
  have mem: "has_account s (hold_account h) \<and> (hold_status h = Settled \<longrightarrow> hold_settle_entry h \<noteq> None)"
    if "(r, h) \<in> set (run_members s run)" for r h
  proof -
    have h: "map_of (holds s) r = Some h" using that run_members_iff [OF assms(4)] by blast
    moreover have "has_account s (hold_account h)"
      using h assms(4) by (auto simp: ledger_inv_def holds_ok_def)
    ultimately show ?thesis
      using ledger_inv_settle_posted [OF assms(4) h] by (auto simp: settle_posted_def)
  qed
  have "\<exists>v. fold_opt (vr_hold D E run) (s, 0, empty_summary) (run_members s run) = Some v \<and> ?P v"
  proof (rule fold_opt_total)
    fix m and v :: vr_state
    assume m: "m \<in> set (run_members s run)" and v: "?P v"
    obtain r h s2 n2 sm2 where mv: "m = (r, h)" "v = (s2, n2, sm2)" by (metis prod_cases3 surj_pair)
    with mem m v have "has_account s2 (hold_account h)"
      "hold_status h = Settled \<longrightarrow> hold_settle_entry h \<noteq> None" by auto
    from vr_hold_total [OF assms(1,2) this, of E run n2 sm2 r] v
    show "\<exists>v'. vr_hold D E run v m = Some v' \<and> ?P v'" by (auto simp: mv)
  qed simp
  then obtain s1 n1 sm1 where
    1: "fold_opt (vr_hold D E run) (s, 0, empty_summary) (run_members s run) = Some (s1, n1, sm1)"
    and acc: "\<forall>x. has_account s1 x = has_account s x" by auto
  from vr_holds_trace [OF assms(1) 1 assms(3) run_members_budget distinct_run_members [OF ledger_inv_keys(2)]
      run_members_map_of [OF ledger_inv_keys(2)]] assms(4)
  obtain ls where ls: "ktrace s ls s1" "\<forall>l \<in> set ls. vr_label l" by auto
  have chg: "has_account s a" if "(c, a) \<in> set (run_charges s run)" for c a
    using that assms(4) by (auto simp: run_charges_def ledger_inv_def entries_ok_def)
  have "\<exists>v. fold_opt (vr_charge D E run) (s1, n1, sm1) (run_charges s1 run) = Some v \<and> ?P v"
  proof (rule fold_opt_total)
    fix m and v :: vr_state
    assume m: "m \<in> set (run_charges s1 run)" and v: "?P v"
    obtain c a s2 n2 sm2 where mv: "m = (c, a)" "v = (s2, n2, sm2)" by (metis prod_cases3 surj_pair)
    with chg m v have "has_account s2 a" by (auto simp: vr_label_run_charges [OF ls])
    from vr_refund_total [OF assms(1,2) this, of E n2 sm2 c None run "run_void_charge_refund_key D run c"] v
    show "\<exists>v'. vr_charge D E run v m = Some v' \<and> ?P v'" by (auto simp: mv vr_charge_def)
  qed (use acc in simp)
  with 1 show ?thesis by (auto simp: void_run_def)
qed

section \<open>No call panics\<close>

text \<open>
  The one call that can panic without an overflow is \<open>close_lease\<close> on an account whose parent does
  not exist, and \<open>open_account\<close> accepts any \<open>parent_id\<close>. \<open>parent_known\<close> is the caller's side of it.
\<close>

definition parent_exists :: "state \<Rightarrow> account_id option \<Rightarrow> bool" where
  "parent_exists s p = (case p of None \<Rightarrow> True | Some a \<Rightarrow> has_account s a)"

definition parents_ok :: "state \<Rightarrow> bool" where
  "parents_ok s \<longleftrightarrow>
     (\<forall>a r. map_of (accounts s) a = Some r \<longrightarrow> parent_exists s (acct_parent_id (row_account r)))"

definition parent_known :: "state \<Rightarrow> request \<Rightarrow> bool" where
  "parent_known s q = (case q of ROpenAccount n \<Rightarrow> parent_exists s (na_parent_id n) | _ \<Rightarrow> True)"

lemma parent_exists_mono:
  "parent_exists s p \<Longrightarrow> (\<And>a. has_account s a \<Longrightarrow> has_account s' a) \<Longrightarrow> parent_exists s' p"
  by (auto simp: parent_exists_def split: option.splits)

lemma held_avail_total:
  assumes "exact_sums D" and "total_sums D" and "map_of (accounts s) a = Some row"
  shows "held D s a \<bind> (\<lambda>h. dec_sub D (row_settled row) h \<bind> f) = f (available_of s a)"
  using assms(3)
  by (simp add: held_total [OF assms(1,2)] dec_sub_total [OF assms(1,2)] available_of_def settled_of_def)

lemma exec_total:
  assumes "exact_sums D" and "total_sums D" and "fresh E s" and "ledger_inv s" and "parents_ok s"
  shows "exec D E s q \<noteq> None"
proof -
  note totals = dec_sub_total [OF assms(1,2)] held_total [OF assms(1,2)]
    unreversed_remainder_total [OF assms(1,2)] held_avail_total [OF assms(1,2)]
  have credit: "has_account s a \<Longrightarrow> post_credit D s a m \<noteq> None" for a m
    using post_credit_total [OF assms(1,2)] by fastforce
  have debit: "has_account s a \<Longrightarrow> post_debit D s a m \<noteq> None" for a m
    using post_debit_total [OF assms(1,2)] by fastforce
  show ?thesis
  proof (cases q)
    case (RSettle x)
    have "settle D E s x \<noteq> None"
    proof (cases "map_of (holds s) (settle_reservation_id x)")
      case (Some h)
      then have acc: "has_account s (hold_account h)" and link: "hold_status h = Settled \<longrightarrow>
          settle_link s (settle_reservation_id x) h"
        using assms(4) by (auto simp: ledger_inv_def holds_ok_def)
      have "List.find (\<lambda>e. entry_id e = i) (entries s) \<noteq> None"
        if "hold_status h = Settled" "hold_settle_entry h = Some i" for i
        using link that by (auto simp: settle_link_def find_None_iff_all)
      moreover have "hold_settle_entry h \<noteq> None" if "hold_status h = Settled"
        using link that by (auto simp: settle_link_def)
      ultimately show ?thesis using Some debit [OF acc, of "settle_actual x"]
        by (auto simp: settle_def Let_def split: hold_status.split)
    qed (simp add: settle_def)
    with RSettle show ?thesis by (simp add: replying_def)
  next
    case (RReverseCharge x)
    show ?thesis
    proof (cases "has_account s (rev_account x)")
      case True
      then obtain s1 b where
        "post_credit D s (rev_account x) (remainder_of s (rev_charge_entry_id x)) = Some (s1, b)"
        using credit [OF True] by fastforce
      with RReverseCharge show ?thesis
        by (auto simp: replying_def reverse_charge_def totals Let_def split: option.split)
    qed (simp add: RReverseCharge replying_def reverse_charge_def has_account_def)
  next
    case (RVoidRun x)
    then show ?thesis using void_run_total [OF assms(1-4)] by (force simp: replying_def)
  next
    case (ROpenLease x)
    show ?thesis
    proof (cases "map_of (accounts s) (lease_parent x)")
      case (Some row)
      have "post_transfer D i j t (s\<lparr>accounts := AList.update c r (accounts s)\<rparr>) (lease_parent x) c m
              \<noteq> None" for i j t c r m
        using post_transfer_total [OF assms(1,2), of _ "lease_parent x" c] Some
        by (fastforce simp: has_account_def)
      with ROpenLease Some show ?thesis
        by (auto simp: replying_def open_lease_def totals Let_def Option.bind_eq_Some_conv)
    qed (simp add: ROpenLease replying_def open_lease_def)
  next
    case (RCloseLease x)
    show ?thesis
    proof (cases "map_of (accounts s) x")
      case (Some row)
      have "post_transfer D i j t s x p m \<noteq> None"
        if "acct_parent_id (row_account row) = Some p" for i j t p m
        using post_transfer_total [OF assms(1,2), of s x p] Some that assms(5)
        by (fastforce simp: parents_ok_def parent_exists_def has_account_def split: option.splits)
      with RCloseLease Some show ?thesis
        by (auto simp: replying_def close_lease_def totals Option.bind_eq_Some_conv
                 split: option.split)
    qed (simp add: RCloseLease replying_def close_lease_def)
  qed (use credit debit in \<open>auto simp: replying_def open_account_def balance_def entries_of_def
         grant_def refund_def charge_def reserve_def void_def void_expired_holds_def extend_hold_def
         totals has_account_def Let_def Option.bind_eq_Some_conv
         split: option.split hold_status.split\<close>)
qed

section \<open>Parents keep existing\<close>

lemma parents_ok_row:
  assumes "parents_ok s" and "map_of (accounts s) a = Some r"
  shows "parent_exists s (acct_parent_id (row_account r))"
  using assms by (simp add: parents_ok_def)

lemma parents_ok_shift: "parents_ok s \<Longrightarrow> parents_ok (shift a d s)"
  by (auto simp: parents_ok_def map_of_shift
           intro: parent_exists_mono [where s = s] split: if_splits)

lemma parents_ok_frame:
  assumes "parents_ok s" and "accounts s' = accounts s"
  shows "parents_ok s'"
proof -
  have "parent_exists s' = parent_exists s"
    using assms(2) by (simp add: fun_eq_iff parent_exists_def has_account_def split: option.split)
  with assms show ?thesis by (simp add: parents_ok_def)
qed

lemma kstep_parents_ok:
  assumes "kstep s l s'" and "parents_ok s"
    and "\<And>acc. l = KAccount acc \<Longrightarrow> parent_exists s (acct_parent_id acc)"
  shows "parents_ok s'"
  using assms
proof (induction rule: kstep.induct)
  case (k_account s acc)
  have mono: "parent_exists s p \<Longrightarrow>
      parent_exists (s\<lparr>accounts := AList.update (acct_id acc) (account_row_new acc) (accounts s)\<rparr>) p" for p
    by (erule parent_exists_mono) (simp add: has_account_def)
  show ?case unfolding parents_ok_def
  proof (intro allI impI)
    fix a r
    assume "map_of (accounts (s\<lparr>accounts := AList.update (acct_id acc) (account_row_new acc) (accounts s)\<rparr>)) a
              = Some r"
    then have "parent_exists s (acct_parent_id (row_account r))"
      using k_account.prems parents_ok_row [OF k_account.prems(1)]
      by (auto simp: account_row_new_def split: if_splits)
    then show "parent_exists (s\<lparr>accounts := AList.update (acct_id acc) (account_row_new acc) (accounts s)\<rparr>)
                 (acct_parent_id (row_account r))" by (rule mono)
  qed
qed (auto intro: parents_ok_frame [OF parents_ok_shift [OF parents_ok_shift]] elim: parents_ok_frame)

definition opens_known :: "state \<Rightarrow> klabel \<Rightarrow> bool" where
  "opens_known s l = (case l of KAccount acc \<Rightarrow> parent_exists s (acct_parent_id acc) | _ \<Rightarrow> True)"

lemma kstep_parents_ok': "kstep s l s' \<Longrightarrow> opens_known s l \<Longrightarrow> parents_ok s \<Longrightarrow> parents_ok s'"
  by (erule kstep_parents_ok) (auto simp: opens_known_def)

lemma vr_labels_parents_ok:
  assumes "ktrace s ls s'" and "\<forall>l \<in> set ls. vr_label l" and "parents_ok s"
  shows "parents_ok s'"
  using assms(1,3,2) by (rule ktrace_preserves) (auto simp: vr_label_def opens_known_def dest: kstep_parents_ok')

lemma exec_parents_ok:
  assumes "exact_sums D" and "fresh E s" and "ledger_inv s" and "parents_ok s"
    and "parent_known s q" and "exec D E s q = Some (s', r)"
  shows "parents_ok s'"
proof -
  obtain k1 k2 k3 where k: "fresh_ids E 0 (Suc k1) s" "fresh_ids E 0 (2 + k2) s" "fresh_ids E 0 (3 + k3) s"
    using assms(2) id_budget_forms [of s] by metis
  have step: "kstep s l t \<Longrightarrow> opens_known s l \<Longrightarrow> parents_ok t" for l t
    using kstep_parents_ok' assms(4) by blast
  have dist: "distinct (map fst (holds s))" by (rule ledger_inv_keys(2) [OF assms(3)])
  note known = opens_known_def
  show ?thesis
  proof (cases q)
    case (ROpenAccount x)
    with assms(5,6) show ?thesis
      by (auto simp: replying_Some known parent_known_def dest!: open_account_step [OF k(1)] intro: step)
  next
    case (RReserve x)
    with assms(6) obtain y where "reserve D s x = Some (s', y)" by (auto simp: replying_Some)
    then show ?thesis by (rule reserve_cases [OF assms(1)]) (auto simp: known assms(4) intro: step)
  next
    case (RSettle x)
    with assms(6) obtain y where "settle D E s x = Some (s', y)" by (auto simp: replying_Some)
    then show ?thesis
      by (rule settle_cases [OF assms(1) k(1)])
         (auto simp: known assms(4) dest: kstep_parents_ok' [OF _ _ step])
  next
    case (RReverseCharge x)
    with assms(6) obtain y where "reverse_charge D E s x = Some (s', y)" by (auto simp: replying_Some)
    then show ?thesis
      by (rule reverse_charge_cases [OF assms(1) k(1)]) (auto simp: known assms(4) intro: step)
  next
    case (RVoidExpiredHolds x)
    with assms(6) obtain y where "void_expired_holds s x = Some (s', y)" by (auto simp: replying_Some)
    from void_expired_trace [OF dist this] assms(4) show ?thesis
      by (auto simp: vr_label_def intro: vr_labels_parents_ok)
  next
    case (RVoidRun x)
    with assms(6) obtain y where "void_run D E s x = Some (s', y)" by (auto simp: replying_Some)
    from void_run_trace [OF assms(1,2) dist this] assms(4) show ?thesis
      by (auto intro: vr_labels_parents_ok)
  next
    case (ROpenLease x)
    with assms(6) obtain y where "open_lease D E s x = Some (s', y)" by (auto simp: replying_Some)
    then show ?thesis
      by (rule open_lease_cases [OF assms(1) k(3)])
         (auto simp: known assms(4) parent_exists_def has_account_def dest: kstep_parents_ok' [OF _ _ step])
  next
    case (RCloseLease x)
    with assms(6) obtain y where "close_lease D E s x = Some (s', y)" by (auto simp: replying_Some)
    then show ?thesis by (rule close_lease_cases [OF assms(1) k(2)]) (auto simp: known assms(4) intro: step)
  qed (use assms(4,6) in \<open>auto simp: replying_Some known intro: step
         dest!: balance_keeps_state entries_of_keeps_state grant.refines [OF assms(1) k(1)]
           refund.refines [OF assms(1) k(1)] charge.refines [OF assms(1) k(1)] void_step extend_hold_step\<close>)
qed

text \<open>A sequence of calls in which accounts are only opened under parents that exist.\<close>

inductive runs_known :: "deps \<Rightarrow> state \<Rightarrow> request list \<Rightarrow> state \<Rightarrow> bool" for D where
  rk_nil: "runs_known D s [] s"
| rk_call: "fresh E s \<Longrightarrow> parent_known s q \<Longrightarrow> exec D E s q = Some (s', r) \<Longrightarrow>
    runs_known D s' qs s'' \<Longrightarrow> runs_known D s (q # qs) s''"

inductive_simps runs_known_Nil [simp]: "runs_known D s [] s'"
inductive_simps runs_known_Cons: "runs_known D s (q # qs) s'"

lemma runs_known_inv:
  "runs_known D s qs s' \<Longrightarrow> exact_sums D \<Longrightarrow> ledger_inv s \<Longrightarrow> parents_ok s \<Longrightarrow>
     ledger_inv s' \<and> parents_ok s'"
  by (induction rule: runs_known.induct) (auto intro: exec_inv exec_parents_ok)

lemma new_ledger_parents: "parents_ok new_ledger"
  by (simp add: parents_ok_def parent_exists_def new_ledger_def system_row_def account_row_new_def)

end
