(* ===== verification/Ledger_Props.thy ===== *)
theory Ledger_Props
  imports Ledger_Demo Ledger_Overdraft Ledger_Total
begin

text \<open>
  The properties of the in-memory ledger, stated over the operations of \<open>Ledger_Memory\<close>. Each is
  applied to the worked ledger of \<open>Ledger_Demo\<close> by its witness. The helper lemmas in the first
  section turn the branches of an operation into its effect on settled, held and available credits.
\<close>

section \<open>Effects of single operations\<close>

lemma settled_post:
  assumes "kstep s (KPost e) s'" and "a \<noteq> SYSTEM_ACCOUNT"
  shows "settled_of s' a = settled_of s a + (if account_id e = a then delta_credits e else 0)"
  using assms by (auto elim!: kstep_postE)

lemma settled_transfer:
  assumes "kstep s (KTransfer src dest amt) s'"
  shows "settled_of s' a = settled_of s a - (if src = a then amt else 0) + (if dest = a then amt else 0)"
  using assms by (auto elim!: kstep_transferE)

lemma settled_account: "kstep s (KAccount acc) s' \<Longrightarrow> settled_of s' a = settled_of s a"
  by (erule kstep.cases) (auto simp: settled_of_new)

lemma settled_hold_step:
  "kstep s l s' \<Longrightarrow> (\<exists>r. l = KSettle r \<or> l = KRelease r \<or> l = KExtend r \<or> (\<exists>h. l = KHold r h)) \<Longrightarrow>
     settled_of s' a = settled_of s a"
  by (erule kstep.cases) auto

lemma held_of_unknown:
  assumes "ledger_inv s" and "\<not> has_account s a"
  shows "held_of s a = 0"
proof -
  have "open_amount a h = 0" if "(r, h) \<in> set (holds s)" for r h
  proof -
    have "map_of (holds s) r = Some h" using that ledger_inv_keys(2) [OF assms(1)] by simp
    then have "has_account s (hold_account h)" using assms(1) by (auto simp: ledger_inv_def holds_ok_def)
    with assms(2) show ?thesis by (auto simp: open_amount_def open_against_def)
  qed
  then have "map (\<lambda>(_, h). open_amount a h) (holds s) = map (\<lambda>_. 0) (holds s)" by auto
  then show ?thesis unfolding held_of_def by (simp only: sum_list_0)
qed

lemma has_account_settled: "\<not> has_account s a \<Longrightarrow> settled_of s a = 0"
  by (simp add: settled_of_def has_account_def)

text \<open>A settled reservation answers every later settle with the entry it recorded.\<close>

lemma settled_reservation_replies:
  assumes "map_of (holds s) (settle_reservation_id x) = Some h" and "hold_status h = Settled"
    and "hold_settle_entry h = Some i" and "List.find (\<lambda>e. entry_id e = i) (entries s) = Some e"
    and "0 \<le> settle_actual x"
  shows "settle D E s x = Some (s, Inr e)"
  using assms by (simp add: settle_def)

lemma settle_recorded:
  assumes "exact_sums D" and "fresh_ids E 0 (Suc k) s" and "settle D E s x = Some (s', Inr e)"
  obtains h i where "map_of (holds s') (settle_reservation_id x) = Some h" "hold_status h = Settled"
    "hold_settle_entry h = Some i" "List.find (\<lambda>e. entry_id e = i) (entries s') = Some e"
  using assms
proof (cases rule: settle_cases)
  case same
  then show ?thesis using that by blast
next
  case (posted h e' s1)
  have "entries s1 = entries s @ [e']" "entry_id e' \<notin> entry_ids s"
    using posted(4) by (auto elim!: kstep_postE)
  moreover have "entries s' = entries s1" using posted(5) by (cases rule: kstep.cases) auto
  ultimately have "List.find (\<lambda>x. entry_id x = entry_id e') (entries s') = Some e'"
    using find_None_iff_all [of "\<lambda>x. entry_id x = entry_id e'" "entries s"]
    by (auto simp: find_append entry_ids_def image_iff)
  with posted that show ?thesis by simp
qed

text \<open>The idempotent money calls: those that carry a key, and their replies.\<close>

fun keyed_reply :: "request \<Rightarrow> reply \<Rightarrow> bool" where
  "keyed_reply (RGrant q) _ = (grant_idempotency_key q \<noteq> None)"
| "keyed_reply (RRefund q) _ = (refund_idempotency_key q \<noteq> None)"
| "keyed_reply (RCharge q) _ = (charge_idempotency_key q \<noteq> None)"
| "keyed_reply (RReverseCharge q) r = (case r of PReversal (Some _) \<Rightarrow> True | _ \<Rightarrow> False)"
| "keyed_reply _ _ = False"

lemma map_sum_Inr_iff: "Inr y = map_sum id f x \<longleftrightarrow> (\<exists>z. x = Inr z \<and> y = f z)"
  by (cases x) auto

lemma reverse_charge_replay:
  assumes "exact_sums D" and "fresh_ids E 0 (Suc k) s" and "reverse_charge D E s q = Some (s1, Inr (Some e))"
    and "entries s2 = entries s1 @ es" and "has_account s2 (rev_account q)"
  shows "reverse_charge D E' s2 q = Some (s2, Inr (Some e))"
proof -
  from assms(1-3) have "find_keyed s1 (rev_account q) (rev_idempotency_key q) = Some e"
  proof (cases rule: reverse_charge_cases)
    case (posted e')
    then have "entries s1 = entries s @ [e]" by (auto elim!: kstep_postE)
    with posted show ?thesis by (auto simp: find_keyed_def find_append)
  qed auto
  then have "find_keyed s2 (rev_account q) (rev_idempotency_key q) = Some e"
    using assms(4) by (simp add: find_keyed_def)
  with assms(5) show ?thesis by (auto simp: reverse_charge_def has_account_def)
qed

lemma keyed_replay:
  assumes "exact_sums D" and "fresh E s" and "exec D E s q = Some (s1, Inr r)" and "keyed_reply q r"
    and "entries s2 = entries s1 @ es" and "\<And>a. has_account s a \<Longrightarrow> has_account s2 a"
  shows "exec D E' s2 q = Some (s2, Inr r)"
proof -
  obtain k where k: "fresh_ids E 0 (Suc k) s" using assms(2) id_budget_forms(1) [of s] by metis
  note later = find_existing_append [OF _ assms(5)] assms(6)
  show ?thesis
  proof (cases q)
    case (RGrant x)
    then obtain e where e: "grant D E s x = Some (s1, Inr e)" "r = PEntry e"
      using assms(3) by (auto simp: replying_Some map_sum_Inr_iff)
    then show ?thesis using RGrant assms(4)
      by (auto simp: replying_Some dest!: grant.recorded intro!: grant.found later)
  next
    case (RRefund x)
    then obtain e where e: "refund D E s x = Some (s1, Inr e)" "r = PEntry e"
      using assms(3) by (auto simp: replying_Some map_sum_Inr_iff)
    then show ?thesis using RRefund assms(4)
      by (auto simp: replying_Some dest!: refund.recorded intro!: refund.found later)
  next
    case (RCharge x)
    then obtain e where e: "charge D E s x = Some (s1, Inr e)" "r = PEntry e"
      using assms(3) by (auto simp: replying_Some map_sum_Inr_iff)
    then show ?thesis using RCharge assms(4)
      by (auto simp: replying_Some dest!: charge.recorded intro!: charge.found later)
  next
    case (RReverseCharge x)
    then obtain e where e: "reverse_charge D E s x = Some (s1, Inr (Some e))" "r = PReversal (Some e)"
      using assms(3,4) by (auto simp: replying_Some map_sum_Inr_iff split: reply.splits option.splits)
    have "has_account s (rev_account x)"
      using e(1) by (auto simp: reverse_charge_def has_account_def split: if_splits)
    with e RReverseCharge reverse_charge_replay [OF assms(1) k e(1) assms(5)] assms(6) show ?thesis
      by (auto simp: replying_Some)
  qed (use assms(4) in auto)
qed

section \<open>The worked ledger\<close>

lemma demo_funded_runs: "runs exact_deps new_ledger (map snd demo_open) demo_funded"
  by (rule play_runs [OF demo_open_plays])

lemma play_append: "play D (xs @ ys) s = play D xs s \<bind> play D ys"
  by (induction D xs s rule: play.induct) (auto split: option.split)

definition rootless :: "request \<Rightarrow> bool" where
  "rootless q = (case q of ROpenAccount n \<Rightarrow> na_parent_id n = None | _ \<Rightarrow> True)"

lemma play_runs_known:
  "play D qs s = Some s' \<Longrightarrow> list_all (\<lambda>q. rootless (snd q)) qs \<Longrightarrow> runs_known D s (map snd qs) s'"
  by (induction D qs s rule: play.induct)
     (auto simp: rootless_def parent_known_def parent_exists_def
           split: if_splits option.splits prod.splits request.splits intro: runs_known.intros)

lemma demo_spent_runs: "runs exact_deps new_ledger (map snd (demo_open @ demo_spend)) demo_spent"
  by (rule play_runs) (simp add: play_append demo_open_plays demo_spend_plays)

lemma demo_inv: "ledger_inv demo_funded" "ledger_inv demo_spent"
  using runs_from_new_inv [OF _ demo_funded_runs] runs_from_new_inv [OF _ demo_spent_runs] by simp_all

lemma demo_fresh: "fresh (demo_env 6) demo_spent" "fresh (demo_env 2) demo_funded"
  by code_simp+

section \<open>Conservation and derived balances\<close>

text \<open>
  C1. Conservation. After any sequence of calls on a new ledger, \<open>net_settled\<close>, the sum of all settled
  balances including the system account's, is zero.
\<close>

theorem conservation:
  assumes "exact_sums D" and "total_sums D" and "runs D new_ledger qs s"
  shows "net_settled D s = Some 0"
  using runs_from_new_inv [OF assms(1,3)] net_settled_total [OF assms(1,2)]
  by (simp add: ledger_inv_def)

theorem conservation_witness: "net_settled exact_deps demo_spent = Some 0"
  using conservation [OF _ _ demo_spent_runs] by simp

text \<open>
  C2. Balances are derived, never asserted. After any sequence of calls, what \<open>balance\<close> reports for an
  account is exactly the sum of the entries that touch it, and its held part is exactly the sum of
  the open holds against it.
\<close>

theorem balance_is_derived:
  assumes "exact_sums D" and "total_sums D" and "runs D new_ledger qs s" and "has_account s a"
  shows "balance D s a =
           Some (s, Inr \<lparr>bal_settled = posted_to (entries s) a, bal_held = held_of s a\<rparr>)"
proof -
  from assms(4) obtain row where row: "map_of (accounts s) a = Some row" by (auto simp: has_account_def)
  moreover have "row_settled row = posted_to (entries s) a"
    using runs_from_new_inv [OF assms(1,3)] assms(4) row
    by (auto simp: ledger_inv_def derived_ok_def settled_of_def)
  ultimately show ?thesis by (simp add: balance_def held_total [OF assms(1,2)])
qed

theorem balance_is_derived_witness:
  "balance exact_deps demo_spent demo_wallet =
     Some (demo_spent, Inr \<lparr>bal_settled = posted_to (entries demo_spent) demo_wallet,
                            bal_held = held_of demo_spent demo_wallet\<rparr>) \<and>
   posted_to (entries demo_spent) demo_wallet = 50 \<and> held_of demo_spent demo_wallet = 10"
proof -
  have "has_account demo_spent demo_wallet" by code_simp
  moreover have "posted_to (entries demo_spent) demo_wallet = 50" by code_simp
  moreover have "held_of demo_spent demo_wallet = 10" by code_simp
  ultimately show ?thesis using balance_is_derived [OF _ _ demo_spent_runs] by simp
qed

text \<open>
  C3. No overdraft. Whatever calls interleave, an account opened with \<open>no_overdraft\<close> never reports
  fewer than zero available credits, as long as it is spent through reservations: nobody charges
  it directly and no settle exceeds its hold.
\<close>

theorem no_overdraft:
  assumes "exact_sums D" and "runs D new_ledger qs s" and "a \<noteq> SYSTEM_ACCOUNT"
    and "guarded s a" and "0 \<le> available_of s a" and "runs_within D a s qs' s'"
  shows "0 \<le> available_of s' a"
  using runs_within_no_overdraft [OF assms(6,1) runs_from_new_inv [OF assms(1,2)] assms(3-5)] .

theorem no_overdraft_witness: "0 \<le> available_of demo_maxed demo_wallet"
proof -
  have "exec exact_deps (demo_env 2) demo_funded (RReserve (demo_reserve 3 100)) =
     Some (demo_maxed, Inr (PReserve (Allowed (ReservationId 3))))" by code_simp
  then have "runs_within exact_deps demo_wallet demo_funded [RReserve (demo_reserve 3 100)] demo_maxed"
    using demo_fresh(2) by (auto simp: runs_within_Cons spends_within_def)
  moreover have "demo_wallet \<noteq> SYSTEM_ACCOUNT" "guarded demo_funded demo_wallet"
    "0 \<le> available_of demo_funded demo_wallet" by code_simp+
  ultimately show ?thesis
    using no_overdraft [OF _ demo_funded_runs, of demo_wallet] by simp
qed

section \<open>Refinement, invariant, history\<close>

text \<open>
  C4. Refinement. From every state a sequence of calls can reach, each call that returns is a run of
  the abstract double-entry machine: its effect is a sequence of account openings, balanced
  postings, balanced transfers and hold transitions, nothing else.
\<close>

theorem exec_simulated:
  assumes "exact_sums D" and "runs D new_ledger qs s" and "fresh E s" and "exec D E s q = Some (s', r)"
  shows "\<exists>ls. ktrace s ls s'"
  using exec_refines [OF assms(1,3) ledger_inv_keys(2) [OF runs_from_new_inv [OF assms(1,2)]] assms(4)] .

theorem exec_simulated_witness:
  "\<exists>s' r. exec exact_deps (demo_env 6) demo_spent (RVoidRun demo_run) = Some (s', r) \<and>
     (\<exists>ls. ktrace demo_spent ls s')"
proof -
  have "exec exact_deps (demo_env 6) demo_spent (RVoidRun demo_run) \<noteq> None" by code_simp
  then obtain s' r where "exec exact_deps (demo_env 6) demo_spent (RVoidRun demo_run) = Some (s', r)" by auto
  with exec_simulated [OF _ demo_spent_runs demo_fresh(1) this] show ?thesis by auto
qed

text \<open>
  Invariant. Every call, whatever it returns, preserves the ledger invariant: unique keys and
  entry ids, rows under their own id, a system account, entries between existing accounts, balances
  equal to the sum of their entries, a zero net, and settled holds that name their settle entry.
\<close>

theorem exec_preserves_invariant:
  assumes "exact_sums D" and "fresh E s" and "ledger_inv s" and "exec D E s q = Some (s', r)"
  shows "ledger_inv s'"
  using assms by (rule exec_inv)

theorem exec_preserves_invariant_witness:
  "\<exists>s' r. exec exact_deps (demo_env 6) demo_spent (RSettle (demo_settle\<lparr>settle_reservation_id :=
       ReservationId 2\<rparr>)) = Some (s', r) \<and> ledger_inv s'"
proof -
  have "exec exact_deps (demo_env 6) demo_spent (RSettle (demo_settle\<lparr>settle_reservation_id :=
       ReservationId 2\<rparr>)) \<noteq> None" by code_simp
  then obtain s' r where "exec exact_deps (demo_env 6) demo_spent (RSettle (demo_settle\<lparr>
       settle_reservation_id := ReservationId 2\<rparr>)) = Some (s', r)" by auto
  with exec_preserves_invariant [OF _ demo_fresh(1) demo_inv(2) this] show ?thesis by auto
qed

text \<open>
  C5. History is immutable. Whatever runs after a state, its entries stay as a prefix of the entries,
  every account keeps its identity, flags and parent, every hold keeps its account, amount and run,
  and a settled or voided hold never changes again.
\<close>

theorem history_is_immutable:
  assumes "exact_sums D" and "ledger_inv s" and "runs D s qs s'"
  shows "(\<exists>es. entries s' = entries s @ es) \<and>
         (\<forall>a. map_option row_account (map_of (accounts s') a) = map_option row_account (map_of (accounts s) a)
              \<or> \<not> has_account s a) \<and>
         (\<forall>r h. map_of (holds s) r = Some h \<longrightarrow> (\<exists>h'. map_of (holds s') r = Some h' \<and> hold_evolves h h'))"
proof -
  from runs_trace [OF assms(3,1,2)] obtain ls where ls: "ktrace s ls s'" ..
  then show ?thesis
    using ktrace_append_only [OF ls] ktrace_hold_evolves [OF ls] ktrace_row_account [OF ls]
    by (fastforce simp: has_account_def)
qed

theorem history_is_immutable_witness:
  "\<exists>es. entries demo_spent = entries demo_funded @ es"
proof -
  have "runs exact_deps demo_funded (map snd demo_spend) demo_spent"
    by (rule play_runs [OF demo_spend_plays])
  from history_is_immutable [OF _ demo_inv(1) this] show ?thesis by simp
qed

section \<open>Idempotency\<close>

text \<open>
  C6. Exactly once under a key. When a grant, refund, charge or reversal with an idempotency key has
  returned an entry, then after any further calls the same request returns that same entry and
  leaves the ledger unchanged, so a retry never moves credits twice.
\<close>

theorem keyed_call_is_idempotent:
  assumes "exact_sums D" and "ledger_inv s" and "fresh E s" and "exec D E s q = Some (s1, Inr r)"
    and "keyed_reply q r" and "runs D s1 qs s2"
  shows "exec D E' s2 q = Some (s2, Inr r)"
proof -
  have inv1: "ledger_inv s1" using exec_inv [OF assms(1,3,2,4)] .
  from exec_refines [OF assms(1,3) ledger_inv_keys(2) [OF assms(2)] assms(4)]
    runs_trace [OF assms(6,1) inv1] obtain ls ls' where ls: "ktrace s ls s1" "ktrace s1 ls' s2" by blast
  from ktrace_append_only [OF ls(2)] obtain es where "entries s2 = entries s1 @ es" ..
  from keyed_replay [OF assms(1,3,4,5) this] ls show ?thesis by (blast intro: ktrace_has_account)
qed

theorem keyed_call_is_idempotent_witness:
  "exec exact_deps (demo_env 9) demo_spent (RGrant demo_grant) =
     Some (demo_spent, Inr (PEntry (grant_entry (demo_env 1) demo_grant 100)))"
proof -
  let ?s0 = "new_ledger\<lparr>accounts := accounts new_ledger @ [(demo_wallet, demo_row 0)]\<rparr>"
  have "play exact_deps (take 1 demo_open) new_ledger = Some ?s0" by code_simp
  then have inv: "ledger_inv ?s0"
    using runs_from_new_inv [OF _ play_runs] by (metis exact_deps_laws(1))
  have fr: "fresh (demo_env 1) ?s0" by code_simp
  have ex: "exec exact_deps (demo_env 1) ?s0 (RGrant demo_grant) =
     Some (demo_funded, Inr (PEntry (grant_entry (demo_env 1) demo_grant 100)))" by code_simp
  have "keyed_reply (RGrant demo_grant) (PEntry (grant_entry (demo_env 1) demo_grant 100))" by code_simp
  from keyed_call_is_idempotent [OF exact_deps_laws(1) inv fr ex this play_runs [OF demo_spend_plays]]
  show ?thesis .
qed

text \<open>
  C7. A reservation settles at most once. After a settle has returned an entry, and whatever runs
  next, every settle of that reservation, with any actual amount that is not negative, returns the
  same entry and posts nothing.
\<close>

theorem settle_at_most_once:
  assumes "exact_sums D" and "ledger_inv s" and "fresh E s" and "settle D E s x = Some (s1, Inr e)"
    and "runs D s1 qs s2" and "settle_reservation_id y = settle_reservation_id x" and "0 \<le> settle_actual y"
  shows "settle D E' s2 y = Some (s2, Inr e)"
proof -
  have "exec D E s (RSettle x) = Some (s1, Inr (PEntry e))" using assms(4) by (simp add: replying_Some)
  then have inv1: "ledger_inv s1" using exec_inv [OF assms(1,3,2)] by blast
  obtain k where "fresh_ids E 0 (Suc k) s" using assms(3) id_budget_forms(1) [of s] by metis
  from settle_recorded [OF assms(1) this assms(4)] obtain h i where
    h: "map_of (holds s1) (settle_reservation_id x) = Some h" "hold_status h = Settled"
       "hold_settle_entry h = Some i" "List.find (\<lambda>e. entry_id e = i) (entries s1) = Some e" by blast
  from runs_trace [OF assms(5,1) inv1] obtain ls where ls: "ktrace s1 ls s2" ..
  from ktrace_hold_evolves [OF ls h(1)] h(2) have "map_of (holds s2) (settle_reservation_id y) = Some h"
    by (auto simp: hold_evolves_def assms(6))
  moreover have "List.find (\<lambda>e. entry_id e = i) (entries s2) = Some e"
    using ktrace_append_only [OF ls] h(4) by auto
  ultimately show ?thesis using settled_reservation_replies h assms(7) by blast
qed

theorem settle_at_most_once_witness:
  "settle exact_deps (demo_env 9) demo_spent (demo_settle\<lparr>settle_actual := 99\<rparr>) =
     Some (demo_spent, Inr (settle_entry (demo_env 3) demo_settle demo_wallet 70))"
proof -
  have "settle exact_deps (demo_env 6) demo_spent demo_settle =
     Some (demo_spent, Inr (settle_entry (demo_env 3) demo_settle demo_wallet 70))" by code_simp
  from settle_at_most_once [OF exact_deps_laws(1) demo_inv(2) demo_fresh(1) this run_nil] show ?thesis
    by simp
qed

section \<open>Voiding a run, reversing a charge\<close>



text \<open>
  A run void accounts for every credit it returns and never over-refunds. It only appends refunds
  of the run, its summary counts exactly the refunds appended, the credits they carry and the open
  holds it released, and no charge that had a non-negative remainder is refunded past zero.
\<close>

theorem void_run_accounts:
  assumes "exact_sums D" and "fresh E s" and "ledger_inv s" and "void_run D E s run = Some (s', Inr sm)"
  shows "\<exists>es. entries s' = entries s @ es \<and>
           charges_refunded sm = length es \<and> credits_refunded sm = sum_list (map delta_credits es) \<and>
           holds_released sm = length (filter (\<lambda>(_, h). hold_status h = Open) (run_members s run)) \<and>
           (\<forall>e \<in> set es. entry_type e = Refund \<and> 0 < delta_credits e \<and> entry_run_id e = Some run) \<and>
           (\<forall>c \<in> entry_ids s. 0 \<le> remainder_of s c \<longrightarrow> 0 \<le> remainder_of s' c)"
  using assms
proof (rule void_run_effect)
  fix n sm'
  assume "Inr sm = Inr sm'" and "vr_effect run (s, 0, empty_summary) (s', n, sm')"
    and "holds_released sm' = length (filter (\<lambda>(_, h). hold_status h = Open) (run_members s run))"
  then show ?thesis by (fastforce simp: vr_effect_def empty_summary_def)
qed

theorem void_run_accounts_witness:
  "\<exists>s' sm es. void_run exact_deps (demo_env 6) demo_spent demo_run = Some (s', Inr sm) \<and>
     entries s' = entries demo_spent @ es \<and> credits_refunded sm = sum_list (map delta_credits es) \<and>
     credits_refunded sm = 50 \<and> holds_released sm = 1"
proof -
  have "map_option snd (void_run exact_deps (demo_env 6) demo_spent demo_run) =
     Some (Inr \<lparr>holds_released = 1, charges_refunded = 2, credits_refunded = 50\<rparr>)" by code_simp
  then obtain s' where *: "void_run exact_deps (demo_env 6) demo_spent demo_run =
     Some (s', Inr \<lparr>holds_released = 1, charges_refunded = 2, credits_refunded = 50\<rparr>)" by auto
  from void_run_accounts [OF _ demo_fresh(1) demo_inv(2) *] * show ?thesis by auto
qed

text \<open>
  A run void is idempotent. Voiding the run again right after, with any fresh identifiers, returns
  the empty summary and changes nothing.
\<close>

theorem void_run_twice:
  assumes "exact_sums D" and "total_sums D" and "fresh E s" and "ledger_inv s"
    and "void_run D E s run = Some (s', x)"
  shows "void_run D E' s' run = Some (s', Inr empty_summary)"
  using void_run_nothing [OF assms(1,2) void_run_clears [OF assms(1,3,4,5)]] .

theorem void_run_twice_witness:
  "\<exists>s' x. void_run exact_deps (demo_env 6) demo_spent demo_run = Some (s', x) \<and> s' \<noteq> demo_spent \<and>
     void_run exact_deps (demo_env 7) s' demo_run = Some (s', Inr empty_summary)"
proof -
  have "\<not> run_clear demo_spent demo_run" "void_run exact_deps (demo_env 6) demo_spent demo_run \<noteq> None"
    by code_simp+
  then obtain s' x where *: "void_run exact_deps (demo_env 6) demo_spent demo_run = Some (s', x)" by auto
  moreover have "map_option (entries \<circ> fst) (void_run exact_deps (demo_env 6) demo_spent demo_run)
     \<noteq> Some (entries demo_spent)" by code_simp
  ultimately show ?thesis
    using void_run_twice [OF _ _ demo_fresh(1) demo_inv(2) *] by auto
qed

text \<open>
  C10. A reversal returns exactly what is left of a charge. When \<open>reverse_charge\<close> posts, it credits the
  account that was charged with the charge's unreversed remainder, which is then zero; when it
  returns nothing, or an error, no balance moved.
\<close>

theorem reverse_charge_returns_remainder:
  assumes "exact_sums D" and "fresh E s" and "reverse_charge D E s q = Some (s', r)"
    and "rev_account q \<noteq> SYSTEM_ACCOUNT"
  shows "s' = s \<or>
         (\<exists>e. r = Inr (Some e) \<and> entries s' = entries s @ [e] \<and> account_id e = rev_account q \<and>
            reverses_entry_id e = Some (rev_charge_entry_id q) \<and>
            0 < delta_credits e \<and> delta_credits e = remainder_of s (rev_charge_entry_id q) \<and>
            (\<exists>c \<in> set (entries s). entry_id c = rev_charge_entry_id q \<and> account_id c = rev_account q) \<and>
            remainder_of s' (rev_charge_entry_id q) = 0 \<and>
            settled_of s' (rev_account q) = settled_of s (rev_account q) + delta_credits e)"
proof -
  obtain k where "fresh_ids E 0 (Suc k) s" using assms(2) id_budget_forms(1) [of s] by metis
  with assms(1) show ?thesis using assms(3)
  proof (cases rule: reverse_charge_cases)
    case (posted e)
    then have "rev_charge_entry_id q \<in> entry_ids s"
      by (auto simp: entry_ids_def intro: rev_image_eqI)
    from remainder_post [OF posted(4) this] settled_post [OF posted(4) assms(4)] posted
    show ?thesis by (auto elim!: kstep_postE)
  qed auto
qed

definition demo_reversal :: reverse_charge_request where
  "demo_reversal = \<lparr>rev_account = demo_wallet, rev_charge_entry_id = Id 401, rev_run_id = None,
     rev_idempotency_key = ''amend-1''\<rparr>"

theorem reverse_charge_returns_remainder_witness:
  "\<exists>s' r. reverse_charge exact_deps (demo_env 6) demo_spent demo_reversal = Some (s', r) \<and>
     remainder_of demo_spent (Id 401) = 20 \<and> remainder_of s' (Id 401) = 0 \<and>
     settled_of s' demo_wallet = settled_of demo_spent demo_wallet + 20"
proof -
  have "reverse_charge exact_deps (demo_env 6) demo_spent demo_reversal \<noteq> None" by code_simp
  then obtain s' r where *: "reverse_charge exact_deps (demo_env 6) demo_spent demo_reversal = Some (s', r)"
    by auto
  have "map_option (length \<circ> entries \<circ> fst)
          (reverse_charge exact_deps (demo_env 6) demo_spent demo_reversal) = Some 4"
    "length (entries demo_spent) = 3" by code_simp+
  with * have "s' \<noteq> demo_spent" by auto
  moreover have "rev_account demo_reversal = demo_wallet" "rev_charge_entry_id demo_reversal = Id 401"
    "demo_wallet \<noteq> SYSTEM_ACCOUNT" "remainder_of demo_spent (Id 401) = 20" by code_simp+
  ultimately show ?thesis
    using reverse_charge_returns_remainder [OF _ demo_fresh(1) *] * by auto
qed

section \<open>Reservations and leases\<close>

text \<open>
  The admission decision. A new reservation is denied exactly when the limit is hard, or the account
  forbids overdraft, and fewer credits are available than requested; a denial changes nothing and
  reports the available and requested amounts. Otherwise the hold takes exactly the requested
  amount out of the account's available credits and touches no other account and no settled
  balance.
\<close>

theorem reserve_decides:
  assumes "exact_sums D" and "map_of (accounts s) (rsv_account q) = Some row"
    and "map_of (holds s) (rsv_reservation_id q) = None" and "reserve D s q = Some (s', Inr out)"
  shows "(if (rsv_limit q = Hard \<or> acct_no_overdraft (row_account row)) \<and>
             available_of s (rsv_account q) < rsv_amount q
          then out = Denied (available_of s (rsv_account q)) (rsv_amount q) \<and> s' = s
          else out = Allowed (rsv_reservation_id q) \<and>
               (\<forall>a. available_of s' a = available_of s a - (if a = rsv_account q then rsv_amount q else 0) \<and>
                    settled_of s' a = settled_of s a))"
proof (cases "(rsv_limit q = Hard \<or> acct_no_overdraft (row_account row)) \<and>
             available_of s (rsv_account q) < rsv_amount q")
  case True
  then show ?thesis using assms(2,3,4)
    by (auto simp: reserve_def Let_def Option.bind_eq_Some_conv available_of_def settled_of_def
             dest!: held_exact [OF assms(1)] dec_sub_exact [OF assms(1)] split: if_splits)
next
  case False
  from assms(1,4) show ?thesis
  proof (cases rule: reserve_cases)
    case same
    with False assms show ?thesis
      by (auto simp: reserve_def Let_def Option.bind_eq_Some_conv available_of_def settled_of_def
               dest!: held_exact [OF assms(1)] dec_sub_exact [OF assms(1)] split: if_splits)
  next
    case (held row' h)
    with False available_hold [OF held(3)] settled_hold_step [OF held(3)] show ?thesis by auto
  qed
qed

theorem reserve_decides_witness:
  "(\<exists>s' out. reserve exact_deps demo_spent (demo_reserve 3 41) = Some (s', Inr out) \<and>
      out = Denied 40 41) \<and>
   (\<exists>s' out. reserve exact_deps demo_spent (demo_reserve 3 40) = Some (s', Inr out) \<and>
      out = Allowed (ReservationId 3) \<and> available_of s' demo_wallet = 0)"
proof -
  have row: "map_of (accounts demo_spent) (rsv_account (demo_reserve r m)) = Some (demo_row 50)" for r m
    by (simp add: demo_spent_def demo_reserve_def demo_wallet_def SYSTEM_ACCOUNT_def nil_uuid_def)
  have av: "available_of demo_spent demo_wallet = 40" "acct_no_overdraft (row_account (demo_row 50))"
    "map_of (holds demo_spent) (ReservationId 3) = None" by code_simp+
  have "map_option (isl \<circ> snd) (reserve exact_deps demo_spent (demo_reserve 3 41)) = Some False"
    "map_option (isl \<circ> snd) (reserve exact_deps demo_spent (demo_reserve 3 40)) = Some False" by code_simp+
  then obtain s1 o1 s2 o2 where
    1: "reserve exact_deps demo_spent (demo_reserve 3 41) = Some (s1, Inr o1)" and
    2: "reserve exact_deps demo_spent (demo_reserve 3 40) = Some (s2, Inr o2)"
    by (auto dest!: replied_Ok simp del: map_option_eq_Some)
  from reserve_decides [OF _ row _ 1] reserve_decides [OF _ row _ 2] 1 2 av show ?thesis
    by (auto simp: demo_reserve_def)
qed

text \<open>
  Settling. A settle that posts charges the hold's account exactly the actual amount, releases the
  whole hold, marks it settled, and records in the entry the balance it leaves; the account's
  available credits change by the hold minus the actual.
\<close>

theorem settle_posts_actual:
  assumes "exact_sums D" and "fresh E s" and "ledger_inv s" and "settle D E s q = Some (s', Inr e)"
    and "map_of (holds s) (settle_reservation_id q) = Some h" and "hold_status h = Open"
    and "hold_account h \<noteq> SYSTEM_ACCOUNT"
  shows "settled_of s' (hold_account h) = settled_of s (hold_account h) - settle_actual q \<and>
         available_of s' (hold_account h) = available_of s (hold_account h) + hold_amount h - settle_actual q \<and>
         balance_after e = settled_of s' (hold_account h) \<and> entries s' = entries s @ [e] \<and>
         entry_type e = Settle \<and> delta_credits e = - settle_actual q \<and>
         map_option hold_status (map_of (holds s') (settle_reservation_id q)) = Some Settled"
proof -
  obtain k where "fresh_ids E 0 (Suc k) s" using assms(2) id_budget_forms(1) [of s] by metis
  with assms(1) show ?thesis using assms(4)
  proof (cases rule: settle_cases)
    case same
    with assms(5,6) show ?thesis by auto
  next
    case (posted h' e' s1)
    then have [simp]: "h' = h" "e' = e" using assms(5) by auto
    have s1: "holds s1 = holds s" "entries s1 = entries s @ [e]"
      "balance_after e = settled_of s (account_id e) + delta_credits e"
      using posted(4,7) assms(7) by (auto elim!: kstep_postE)
    moreover have "entries s' = entries s1" using posted(5) by (cases rule: kstep.cases) auto
    moreover have "settled_of s' (hold_account h) = settled_of s1 (hold_account h)"
      using settled_hold_step [OF posted(5)] by blast
    ultimately show ?thesis
      using settled_post [OF posted(4) assms(7)] available_post [OF posted(4) assms(7)]
        available_settle [OF posted(5) kstep_inv [OF posted(4) assms(3)], of h "hold_account h"]
        posted assms(5) by auto
  qed
qed

theorem settle_posts_actual_witness:
  "\<exists>s' e. settle exact_deps (demo_env 6) demo_spent (demo_settle\<lparr>settle_reservation_id := ReservationId 2\<rparr>)
       = Some (s', Inr e) \<and> settled_of s' demo_wallet = 20 \<and> balance_after e = 20"
proof -
  let ?q = "demo_settle\<lparr>settle_reservation_id := ReservationId 2\<rparr>"
  have "map_option (isl \<circ> snd) (settle exact_deps (demo_env 6) demo_spent ?q) = Some False" by code_simp
  then obtain s' e where *: "settle exact_deps (demo_env 6) demo_spent ?q = Some (s', Inr e)"
    by (auto dest!: replied_Ok simp del: map_option_eq_Some)
  have h: "map_of (holds demo_spent) (settle_reservation_id ?q) = Some (demo_hold 10)"
    by (simp add: demo_spent_def)
  have f: "hold_status (demo_hold 10) = Open" "hold_account (demo_hold 10) = demo_wallet"
    "demo_wallet \<noteq> SYSTEM_ACCOUNT" "settled_of demo_spent demo_wallet = 50"
    "settle_actual ?q = 30" by code_simp+
  from settle_posts_actual [OF _ demo_fresh(1) demo_inv(2) * h] * f show ?thesis by auto
qed

text \<open>
  What a sweep does to the hold table: which holds it reaches, how many they are, and what it takes
  out of the credits an account has locked.
\<close>

lemma expired_iff: "expired_by now h \<longleftrightarrow> (\<exists>t \<le> now. hold_expires_at h = Some t)"
  by (auto simp: expired_by_def split: option.splits)

lemma sweep_holds: "map_of (map (\<lambda>(r, h). (r, expire_hold now h)) m) r = map_option (expire_hold now) (map_of m r)"
  by (simp add: map_of_map)

lemma sweep_count:
  assumes "distinct (map fst m)"
  shows "length (filter (\<lambda>(_, h). P h) m) = card {r. \<exists>h. map_of m r = Some h \<and> P h}"
proof -
  have "{r. \<exists>h. map_of m r = Some h \<and> P h} = fst ` set (filter (\<lambda>(_, h). P h) m)"
    using assms by (force simp: map_of_eq_Some_iff)
  moreover have "distinct (map fst (filter (\<lambda>(_, h). P h) m))" using assms by (rule distinct_map_filter)
  ultimately show ?thesis by (metis distinct_card length_map set_map)
qed

lemma sweep_held:
  assumes "distinct (map fst m)"
  shows "sum_list (map (\<lambda>(_, h). open_amount a h) (map (\<lambda>(r, h). (r, expire_hold now h)) m)) +
         (\<Sum>(r, h) \<in> {(r, h). map_of m r = Some h \<and> hold_status h = Open \<and> hold_account h = a \<and>
            (\<exists>t \<le> now. hold_expires_at h = Some t)}. hold_amount h)
       = sum_list (map (\<lambda>(_, h). open_amount a h) m)"
proof -
  let ?P = "\<lambda>(r, h). hold_status h = Open \<and> hold_account h = a \<and> expired_by now h"
  have "{(r, h). map_of m r = Some h \<and> hold_status h = Open \<and> hold_account h = a \<and>
            (\<exists>t \<le> now. hold_expires_at h = Some t)} = set (filter ?P m)"
    using assms by (auto simp: map_of_eq_Some_iff expired_iff)
  moreover have "distinct (filter ?P m)" using assms by (simp add: distinct_map)
  ultimately have "(\<Sum>(r, h) \<in> {(r, h). map_of m r = Some h \<and> hold_status h = Open \<and> hold_account h = a \<and>
            (\<exists>t \<le> now. hold_expires_at h = Some t)}. hold_amount h) = sum_list (map (\<lambda>(r, h). hold_amount h) (filter ?P m))"
    by (simp only: sum.distinct_set_conv_list)
  moreover have "sum_list (map (\<lambda>(_, h). open_amount a h) (map (\<lambda>(r, h). (r, expire_hold now h)) m)) +
      sum_list (map (\<lambda>(r, h). hold_amount h) (filter ?P m)) = sum_list (map (\<lambda>(_, h). open_amount a h) m)"
  proof (induction m)
    case (Cons p m)
    obtain r h where p: "p = (r, h)" by force
    have "open_amount a (expire_hold now h) + (if ?P p then hold_amount h else 0) = open_amount a h"
      by (auto simp: p open_amount_def open_against_def expire_hold_def)
    with Cons.IH show ?case by (auto simp: p)
  qed simp
  ultimately show ?thesis by simp
qed

text \<open>
  C11. The expiry sweep. On a well-formed ledger \<open>void_expired_holds\<close> always answers. It voids the open
  holds whose expiry is at or before the given instant and no others: a hold without an expiry, one
  that expires later and one already closed are left as they were, and so are accounts and entries.
  It reports how many it voided, and each account's available credits rise by exactly the voided
  holds' amounts. Sweeping again for the same or an earlier instant voids none, and a hold extended
  past the instant before the sweep stays open through it.
\<close>

theorem expiry_sweep_is_exact:
  assumes "ledger_inv s"
  shows "\<exists>s' n. void_expired_holds s now = Some (s', Inr n) \<and>
     accounts s' = accounts s \<and> entries s' = entries s \<and>
     (\<forall>r. map_of (holds s') r = map_option (\<lambda>h.
        if hold_status h = Open \<and> (\<exists>t \<le> now. hold_expires_at h = Some t)
        then h\<lparr>hold_status := Voided\<rparr> else h) (map_of (holds s) r)) \<and>
     n = card {r. \<exists>h. map_of (holds s) r = Some h \<and> hold_status h = Open \<and>
                     (\<exists>t \<le> now. hold_expires_at h = Some t)} \<and>
     (\<forall>a. available_of s' a = available_of s a +
        (\<Sum>(r, h) \<in> {(r, h). map_of (holds s) r = Some h \<and> hold_status h = Open \<and> hold_account h = a \<and>
           (\<exists>t \<le> now. hold_expires_at h = Some t)}. hold_amount h)) \<and>
     (\<forall>now' \<le> now. void_expired_holds s' now' = Some (s', Inr 0)) \<and>
     (\<forall>r t s1. extend_hold s r t = Some (s1, Inr ()) \<and> now < t \<longrightarrow>
        (\<exists>s2 m h. void_expired_holds s1 now = Some (s2, Inr m) \<and>
           map_of (holds s2) r = Some h \<and> hold_status h = Open))"
proof -
  let ?f = "\<lambda>now (r::reservation_id, h). (r, expire_hold now h)"
  let ?s = "s\<lparr>holds := map (?f now) (holds s)\<rparr>"
  let ?n = "length (filter (\<lambda>(_, h). hold_status h = Open \<and> expired_by now h) (holds s))"
  have keys: "distinct (map fst (holds s))" using assms by (simp add: ledger_inv_def keys_ok_def)
  have run: "void_expired_holds s now = Some (?s, Inr ?n)" by (simp add: void_expired_holds_def)
  have again: "void_expired_holds ?s now' = Some (?s, Inr 0)" if "now' \<le> now" for now'
  proof -
    have "expire_hold now' (expire_hold now h) = expire_hold now h"
      "\<not> (hold_status (expire_hold now h) = Open \<and> expired_by now' (expire_hold now h))" for h
      using that by (auto simp: expire_hold_def expired_iff)
    then show ?thesis
      by (auto simp: void_expired_holds_def filter_empty_conv comp_def case_prod_unfold)
  qed
  have available: "available_of ?s a = available_of s a +
        (\<Sum>(r, h) \<in> {(r, h). map_of (holds s) r = Some h \<and> hold_status h = Open \<and> hold_account h = a \<and>
           (\<exists>t \<le> now. hold_expires_at h = Some t)}. hold_amount h)" for a
    using sweep_held [OF keys, of a now]
    by (simp add: available_of_def held_of_def settled_of_def)
  have extended: "\<exists>s2 m h. void_expired_holds s1 now = Some (s2, Inr m) \<and>
      map_of (holds s2) r = Some h \<and> hold_status h = Open"
    if "extend_hold s r t = Some (s1, Inr ()) \<and> now < t" for r t s1
  proof -
    from that obtain h where h: "map_of (holds s) r = Some h" "hold_status h = Open"
      "s1 = s\<lparr>holds := AList.update r (h\<lparr>hold_expires_at := Some t\<rparr>) (holds s)\<rparr>"
      by (auto simp: extend_hold_def split: option.splits hold_status.splits)
    moreover have "hold_status (expire_hold now (h\<lparr>hold_expires_at := Some t\<rparr>)) = Open"
      using that h(2) by (simp add: expire_hold_def expired_iff)
    ultimately show ?thesis by (simp add: void_expired_holds_def sweep_holds update_conv')
  qed
  have look: "map_of (holds ?s) r = map_option (\<lambda>h.
        if hold_status h = Open \<and> (\<exists>t \<le> now. hold_expires_at h = Some t)
        then h\<lparr>hold_status := Voided\<rparr> else h) (map_of (holds s) r)" for r
    by (simp add: sweep_holds) (simp add: expire_hold_def expired_iff cong: option.map_cong)
  have count: "?n = card {r. \<exists>h. map_of (holds s) r = Some h \<and> hold_status h = Open \<and>
                     (\<exists>t \<le> now. hold_expires_at h = Some t)}"
    using sweep_count [OF keys, of "\<lambda>h. hold_status h = Open \<and> expired_by now h"] by (simp only: expired_iff)
  show ?thesis
    by (rule exI [of _ ?s], rule exI [of _ ?n], intro conjI allI impI)
       (fact run | fact look | fact count | fact available | rule again, assumption | rule extended, assumption | simp)+
qed

theorem expiry_sweep_is_exact_witness:
  "\<exists>s'. void_expired_holds demo_spent 50 = Some (s', Inr 1) \<and>
     map_option hold_status (map_of (holds s') (ReservationId 2)) = Some Voided \<and>
     void_expired_holds s' 49 = Some (s', Inr 0)"
proof -
  obtain s' n where s': "void_expired_holds demo_spent 50 = Some (s', Inr n)"
    and h: "map_of (holds s') (ReservationId 2) = map_option (\<lambda>h.
        if hold_status h = Open \<and> (\<exists>t \<le> 50. hold_expires_at h = Some t)
        then h\<lparr>hold_status := Voided\<rparr> else h) (map_of (holds demo_spent) (ReservationId 2))"
    and again: "void_expired_holds s' 49 = Some (s', Inr 0)"
    using expiry_sweep_is_exact [OF demo_inv(2), of 50] by fastforce
  have "map_option snd (void_expired_holds demo_spent 50) = Some (Inr 1)" by code_simp
  moreover have "map_of (holds demo_spent) (ReservationId 2) = Some (demo_hold 10)"
    "hold_status (demo_hold 10) = Open" "hold_expires_at (demo_hold 10) = Some 50" by code_simp+
  ultimately show ?thesis using s' h again by auto
qed
text \<open>
  C12. A lease is a round trip. Closing a lease that was just opened returns the whole leased amount and
  restores the settled balance of every account.
\<close>

theorem lease_round_trip:
  assumes "exact_sums D" and "fresh E s" and "ledger_inv s" and "open_lease D E s q = Some (s1, Inr child)"
    and "fresh E' s1" and "close_lease D E' s1 (acct_id child) = Some (s2, r)"
  shows "r = Inr (lease_amount q) \<and> (\<forall>a. settled_of s2 a = settled_of s a \<and> held_of s2 a = held_of s a)"
proof -
  obtain k3 k2 where k: "fresh_ids E 0 (3 + k3) s" "fresh_ids E' 0 (2 + k2) s1"
    using assms(2,5) id_budget_forms [of s] id_budget_forms [of s1] by metis
  from assms(1) k(1) assms(4) obtain row s0 where
    step1: "kstep s (KAccount child) s0"
    and step2: "kstep s0 (KTransfer (lease_parent q) (acct_id child) (lease_amount q)) s1"
    and pos: "0 < lease_amount q" and new: "\<not> has_account s (acct_id child)"
    and par: "map_of (accounts s) (lease_parent q) = Some row"
    and cp: "acct_parent_id child = Some (lease_parent q)"
    by (cases rule: open_lease_cases) auto
  have ne: "lease_parent q \<noteq> acct_id child" using new par by (auto simp: has_account_def)
  note st = settled_transfer [OF step2] settled_account [OF step1]
  note av = available_transfer [OF step2] available_account [OF step1]
  have held1: "held_of s1 a = held_of s a" for a using av [of a] st [of a] by (simp add: available_of_def)
  have av1: "available_of s1 (acct_id child) = lease_amount q"
    using av [of "acct_id child"] ne has_account_settled [OF new] held_of_unknown [OF assms(3) new]
    by (simp add: available_of_def)
  have "map_of (accounts s0) (acct_id child) = Some (account_row_new child)"
    using step1 by (cases rule: kstep.cases) auto
  from kstep_row_account [OF step2 this] obtain row1 where
    row1: "map_of (accounts s1) (acct_id child) = Some row1" "row_account row1 = child"
    by (auto simp: account_row_new_def)
  from assms(1) k(2) assms(6) show ?thesis
  proof (cases rule: close_lease_cases)
    case same
    with row1 cp av1 pos assms(6) show ?thesis
      by (auto simp: close_lease_def Option.bind_eq_Some_conv split: if_splits)
  next
    case (returned parent row2)
    with row1 cp have "parent = lease_parent q" by simp
    with returned av1 available_transfer [OF returned(3)] settled_transfer [OF returned(3)] st held1 ne
    show ?thesis by (auto simp: available_of_def)
  qed
qed

definition demo_lease :: lease_request where
  "demo_lease = \<lparr>lease_parent = demo_wallet, lease_amount = 25\<rparr>"

theorem lease_round_trip_witness:
  "\<exists>s1 child s2 r. open_lease exact_deps (demo_env 6) demo_spent demo_lease = Some (s1, Inr child) \<and>
     close_lease exact_deps (demo_env 7) s1 (acct_id child) = Some (s2, r) \<and> r = Inr 25 \<and>
     settled_of s2 demo_wallet = settled_of demo_spent demo_wallet"
proof -
  have "map_option (isl \<circ> snd) (open_lease exact_deps (demo_env 6) demo_spent demo_lease) = Some False"
    by code_simp
  then obtain s1 child where
    1: "open_lease exact_deps (demo_env 6) demo_spent demo_lease = Some (s1, Inr child)"
    by (auto dest!: replied_Ok simp del: map_option_eq_Some)
  have "(case open_lease exact_deps (demo_env 6) demo_spent demo_lease of
           Some (s, Inr c) \<Rightarrow> fresh (demo_env 7) s \<and> close_lease exact_deps (demo_env 7) s (acct_id c) \<noteq> None
         | _ \<Rightarrow> False)" by code_simp
  with 1 obtain s2 r where fr: "fresh (demo_env 7) s1"
    and 2: "close_lease exact_deps (demo_env 7) s1 (acct_id child) = Some (s2, r)" by auto
  have "lease_amount demo_lease = 25" by code_simp
  with lease_round_trip [OF _ demo_fresh(1) demo_inv(2) 1 fr 2] 1 2 show ?thesis by auto
qed

section \<open>Totality and errors\<close>

text \<open>
  C13. The ledger does not panic. In every state reached by calls that open accounts only under parents
  that exist, and with decimal sums that do not overflow, every further call returns, so the mutex
  is never poisoned.
\<close>

theorem ledger_never_panics:
  assumes "exact_sums D" and "total_sums D" and "runs_known D new_ledger qs s" and "fresh E s"
  shows "\<exists>s' r. exec D E s q = Some (s', r)"
  using exec_total [OF assms(1,2,4)] runs_known_inv [OF assms(3,1) new_ledger_inv new_ledger_parents]
  by fastforce

theorem ledger_never_panics_witness:
  "\<exists>s' r. exec exact_deps (demo_env 6) demo_spent (RVoidRun demo_run) = Some (s', r)"
proof -
  have "list_all (\<lambda>q. rootless (snd q)) (demo_open @ demo_spend)" by code_simp
  then have "runs_known exact_deps new_ledger (map snd (demo_open @ demo_spend)) demo_spent"
    by (intro play_runs_known) (simp_all add: play_append demo_open_plays demo_spend_plays)
  from ledger_never_panics [OF exact_deps_laws(1,2) this demo_fresh(1)] show ?thesis .
qed

text \<open>
  C14. Errors have no effect. A call that returns an error leaves the ledger exactly as it was.
\<close>

theorem errors_change_nothing:
  assumes "exec D E s q = Some (s', Inl e)"
  shows "s' = s"
  using assms by (rule exec_error)

theorem errors_change_nothing_witness:
  "\<exists>s' e. exec exact_deps (demo_env 6) demo_spent (RVoid (ReservationId 1)) = Some (s', Inl e) \<and> s' = demo_spent"
proof -
  have "map_option snd (exec exact_deps (demo_env 6) demo_spent (RVoid (ReservationId 1))) =
     Some (Inl (ReservationClosed (ReservationId 1)))" by code_simp
  then obtain s' where "exec exact_deps (demo_env 6) demo_spent (RVoid (ReservationId 1)) =
     Some (s', Inl (ReservationClosed (ReservationId 1)))" by auto
  with errors_change_nothing [OF this] show ?thesis by auto
qed

section \<open>Two behaviours to know\<close>

text \<open>
  An unknown parent breaks the ledger later. \<open>open_account\<close> accepts a \<open>parent_id\<close> that names no
  account; once such an account holds credits, closing it as a lease panics while the mutex is
  held.
\<close>

definition demo_orphan :: "(env \<times> request) list" where
  "demo_orphan =
     [(demo_env 0, ROpenAccount \<lparr>na_org_id = demo_org, na_scope = Session, na_no_overdraft = True,
        na_parent_id = Some (Id 77)\<rparr>),
      (demo_env 1, RGrant demo_grant)]"

theorem orphan_lease_panics:
  "(case play exact_deps demo_orphan new_ledger of
      Some s \<Rightarrow> close_lease exact_deps (demo_env 2) s demo_wallet = None
    | None \<Rightarrow> False)"
  by code_simp

text \<open>
  One key space for all operations. The idempotency keys of grants, refunds and charges share one
  space per account: a grant under the key of an earlier charge returns the charge entry and
  grants nothing.
\<close>

theorem grant_under_charge_key:
  "grant exact_deps (demo_env 6) demo_spent (demo_grant\<lparr>grant_idempotency_key := Some ''u1''\<rparr>) =
     Some (demo_spent, Inr (charge_entry (demo_env 4) demo_charge 50))"
  by code_simp

end
