(* ===== verification/Backend.thy ===== *)
theory Backend
  imports Ledger_Props
begin

text \<open>
  The seam between the ledger and its clients: the \<open>LedgerBackend\<close> trait of
  \<open>crates/meter-ledger/src/backend.rs\<close>. The trait is the record \<open>ledger_ops\<close> of its methods over a
  backend's own state \<open>'l\<close>; \<open>memory_ops\<close> is \<open>impl LedgerBackend for InMemoryLedger\<close>.

  The locale \<open>ledger_backend\<close> states what a client may rely on whatever the backend: what a
  reservation, a settle, a charge, a reversal and a run void do to available credits, which calls
  are idempotent, and that a balance can be read. It is interpreted on the in-memory ledger, whose lemmas discharge the laws.
\<close>

section \<open>The trait\<close>

record 'l ledger_ops =
  be_open_account :: "env \<Rightarrow> 'l \<Rightarrow> new_account \<Rightarrow> ('l, ledger_error, ledger_account) sres"
  be_balance :: "'l \<Rightarrow> account_id \<Rightarrow> ('l, ledger_error, balance) sres"
  be_grant :: "env \<Rightarrow> 'l \<Rightarrow> grant_request \<Rightarrow> ('l, ledger_error, ledger_entry) sres"
  be_refund :: "env \<Rightarrow> 'l \<Rightarrow> refund_request \<Rightarrow> ('l, ledger_error, ledger_entry) sres"
  be_reserve :: "'l \<Rightarrow> reserve_request \<Rightarrow> ('l, ledger_error, reserve_outcome) sres"
  be_settle :: "env \<Rightarrow> 'l \<Rightarrow> settle_request \<Rightarrow> ('l, ledger_error, ledger_entry) sres"
  be_charge :: "env \<Rightarrow> 'l \<Rightarrow> charge_request \<Rightarrow> ('l, ledger_error, ledger_entry) sres"
  be_reverse_charge ::
    "env \<Rightarrow> 'l \<Rightarrow> reverse_charge_request \<Rightarrow> ('l, ledger_error, ledger_entry option) sres"
  be_void :: "'l \<Rightarrow> reservation_id \<Rightarrow> ('l, ledger_error, unit) sres"
  be_void_expired_holds :: "'l \<Rightarrow> time \<Rightarrow> ('l, ledger_error, nat) sres"
  be_extend_hold :: "'l \<Rightarrow> reservation_id \<Rightarrow> time \<Rightarrow> ('l, ledger_error, unit) sres"
  be_void_run :: "env \<Rightarrow> 'l \<Rightarrow> run_id \<Rightarrow> ('l, ledger_error, run_void_summary) sres"
  be_open_lease :: "env \<Rightarrow> 'l \<Rightarrow> lease_request \<Rightarrow> ('l, ledger_error, ledger_account) sres"
  be_close_lease :: "env \<Rightarrow> 'l \<Rightarrow> account_id \<Rightarrow> ('l, ledger_error, credit) sres"
  be_entries :: "'l \<Rightarrow> account_id \<Rightarrow> ('l, ledger_error, ledger_entry list) sres"

definition memory_ops :: "deps \<Rightarrow> state ledger_ops" where
  "memory_ops D = \<lparr>
     be_open_account = open_account, be_balance = balance D, be_grant = grant D,
     be_refund = refund D, be_reserve = reserve D, be_settle = settle D, be_charge = charge D,
     be_reverse_charge = reverse_charge D, be_void = void, be_void_expired_holds = void_expired_holds,
     be_extend_hold = extend_hold, be_void_run = void_run D, be_open_lease = open_lease D,
     be_close_lease = close_lease D, be_entries = entries_of\<rparr>"

lemma memory_ops_sel [simp]:
  "be_balance (memory_ops D) = balance D" "be_reserve (memory_ops D) = reserve D"
  "be_settle (memory_ops D) = settle D" "be_charge (memory_ops D) = charge D"
  "be_reverse_charge (memory_ops D) = reverse_charge D" "be_void (memory_ops D) = void"
  "be_void_run (memory_ops D) = void_run D"
  by (simp_all add: memory_ops_def)

section \<open>What clients rely on\<close>

text \<open>
  \<open>good\<close> is the backend's invariant, \<open>unused s u\<close> says that no account or entry has the identifier \<open>u\<close>,
  \<open>later s s'\<close> that \<open>s'\<close> is reached from \<open>s\<close> by further calls, \<open>keyed s a k\<close> that an entry of account \<open>a\<close>
  carries the idempotency key \<open>k\<close>, \<open>owns s a c\<close> that entry \<open>c\<close> is posted on account \<open>a\<close>, \<open>voidable\<close> that a
  run void finds enough fresh identifiers and \<open>clear s run\<close> that nothing of the run is left.
\<close>

locale ledger_backend =
  fixes L :: "'l ledger_ops"
    and D :: deps
    and good :: "'l \<Rightarrow> bool"
    and unused :: "'l \<Rightarrow> uuid \<Rightarrow> bool"
    and later :: "'l \<Rightarrow> 'l \<Rightarrow> bool"
    and has :: "'l \<Rightarrow> account_id \<Rightarrow> bool"
    and avail :: "'l \<Rightarrow> account_id \<Rightarrow> credit"
    and hold_at :: "'l \<Rightarrow> reservation_id \<Rightarrow> hold option"
    and remainder :: "'l \<Rightarrow> entry_id \<Rightarrow> credit"
    and keyed :: "'l \<Rightarrow> account_id \<Rightarrow> string \<Rightarrow> bool"
    and owns :: "'l \<Rightarrow> account_id \<Rightarrow> entry_id \<Rightarrow> bool"
    and voidable :: "env \<Rightarrow> 'l \<Rightarrow> bool"
    and clear :: "'l \<Rightarrow> run_id \<Rightarrow> bool"
  assumes reserve_error: "be_reserve L s q = Some (s', Inl err) \<Longrightarrow> s' = s"
    and reserve_denied: "exact_sums D \<Longrightarrow> be_reserve L s q = Some (s', Inr (Denied f m)) \<Longrightarrow>
      s' = s \<and> f = avail s (rsv_account q) \<and> m = rsv_amount q \<and> f < m"
    and reserve_allowed: "exact_sums D \<Longrightarrow> hold_at s (rsv_reservation_id q) = None \<Longrightarrow>
      be_reserve L s q = Some (s', Inr (Allowed r)) \<Longrightarrow>
      r = rsv_reservation_id q \<and> 0 < rsv_amount q \<and>
      (\<exists>h. hold_at s' r = Some h \<and> hold_account h = rsv_account q \<and> hold_amount h = rsv_amount q \<and>
           hold_status h = Open) \<and>
      (\<forall>b. avail s' b = avail s b - (if b = rsv_account q then rsv_amount q else 0)) \<and>
      (rsv_limit q = Hard \<longrightarrow> rsv_amount q \<le> avail s (rsv_account q))"
    and settle_error: "be_settle L E s x = Some (s', Inl err) \<Longrightarrow> s' = s"
    and settle_posts: "exact_sums D \<Longrightarrow> good s \<Longrightarrow> unused s (new_v7 E 0) \<Longrightarrow>
      hold_at s (settle_reservation_id x) = Some h \<Longrightarrow> hold_status h = Open \<Longrightarrow>
      hold_account h \<noteq> SYSTEM_ACCOUNT \<Longrightarrow> be_settle L E s x = Some (s', Inr e) \<Longrightarrow>
      delta_credits e = - settle_actual x \<and>
      avail s' (hold_account h) = avail s (hold_account h) + hold_amount h - settle_actual x"
    and settle_again: "exact_sums D \<Longrightarrow> good s \<Longrightarrow> unused s (new_v7 E 0) \<Longrightarrow>
      be_settle L E s x = Some (s1, Inr e) \<Longrightarrow>
      settle_reservation_id y = settle_reservation_id x \<Longrightarrow> 0 \<le> settle_actual y \<Longrightarrow>
      be_settle L E' s1 y = Some (s1, Inr e)"
    and charge_error: "be_charge L E s c = Some (s', Inl err) \<Longrightarrow> s' = s"
    and charge_again: "exact_sums D \<Longrightarrow> good s \<Longrightarrow> unused s (new_v7 E 0) \<Longrightarrow>
      be_charge L E s c = Some (s1, Inr e) \<Longrightarrow> charge_idempotency_key c = Some k \<Longrightarrow>
      later s1 s2 \<Longrightarrow> be_charge L E' s2 c = Some (s2, Inr e)"
    and charge_effect: "exact_sums D \<Longrightarrow> unused s (new_v7 E 0) \<Longrightarrow>
      be_charge L E s c = Some (s', Inr e) \<Longrightarrow> charge_idempotency_key c = Some k \<Longrightarrow>
      charge_account c \<noteq> SYSTEM_ACCOUNT \<Longrightarrow>
      (if keyed s (charge_account c) k then s' = s
       else avail s' (charge_account c) = avail s (charge_account c) - charge_amount c)"
    and reverse_error: "be_reverse_charge L E s v = Some (s', Inl err) \<Longrightarrow> s' = s"
    and reverse_effect: "exact_sums D \<Longrightarrow> unused s (new_v7 E 0) \<Longrightarrow>
      be_reverse_charge L E s v = Some (s', Inr out) \<Longrightarrow> rev_account v \<noteq> SYSTEM_ACCOUNT \<Longrightarrow>
      (if keyed s (rev_account v) (rev_idempotency_key v) \<or>
          \<not> owns s (rev_account v) (rev_charge_entry_id v) \<or> remainder s (rev_charge_entry_id v) \<le> 0
       then s' = s
       else avail s' (rev_account v) = avail s (rev_account v) + remainder s (rev_charge_entry_id v))"
    and reverse_keeps: "exact_sums D \<Longrightarrow> good s \<Longrightarrow> unused s (new_v7 E 0) \<Longrightarrow>
      be_reverse_charge L E s v = Some (s', rr) \<Longrightarrow>
      good s' \<and> (\<forall>u. unused s u \<longrightarrow> u \<noteq> new_v7 E 0 \<longrightarrow> unused s' u) \<and>
      (\<forall>a k. keyed s' a k \<longrightarrow> keyed s a k \<or> k = rev_idempotency_key v)"
    and balance_reads: "be_balance L s a = Some (s', br) \<Longrightarrow> s' = s"
    and balance_avail: "exact_sums D \<Longrightarrow> be_balance L s a = Some (s', Inr bal) \<Longrightarrow>
      has s a \<and> bal_settled bal - bal_held bal = avail s a"
    and balance_total: "exact_sums D \<Longrightarrow> total_sums D \<Longrightarrow> has s a \<Longrightarrow>
      \<exists>bal. be_balance L s a = Some (s, Inr bal)"
    and later_refl: "later s s"
    and later_has: "exact_sums D \<Longrightarrow> good s \<Longrightarrow> later s s' \<Longrightarrow> has s a \<Longrightarrow> has s' a"
    and charge_good: "exact_sums D \<Longrightarrow> good s \<Longrightarrow> unused s (new_v7 E 0) \<Longrightarrow>
      be_charge L E s c = Some (s', cr) \<Longrightarrow> good s'"
    and void_run_returns: "exact_sums D \<Longrightarrow> total_sums D \<Longrightarrow> good s \<Longrightarrow> voidable E s \<Longrightarrow>
      \<exists>s' sm. be_void_run L E s run = Some (s', Inr sm) \<and> clear s' run"
    and void_run_again: "exact_sums D \<Longrightarrow> total_sums D \<Longrightarrow> clear s run \<Longrightarrow>
      be_void_run L E s run = Some (s, Inr empty_summary)"

section \<open>The in-memory ledger is such a backend\<close>

definition unused_id :: "state \<Rightarrow> uuid \<Rightarrow> bool" where
  "unused_id s u \<longleftrightarrow> Id u \<notin> entry_ids s \<and> \<not> has_account s (Id u)"

definition keyed_entry :: "state \<Rightarrow> account_id \<Rightarrow> string \<Rightarrow> bool" where
  "keyed_entry s a k \<longleftrightarrow> find_keyed s a k \<noteq> None"

definition owned_entry :: "state \<Rightarrow> account_id \<Rightarrow> entry_id \<Rightarrow> bool" where
  "owned_entry s a c \<longleftrightarrow> list_ex (\<lambda>e. entry_id e = c \<and> account_id e = a) (entries s)"

definition reaches :: "deps \<Rightarrow> state \<Rightarrow> state \<Rightarrow> bool" where
  "reaches D s s' \<longleftrightarrow> (\<exists>qs. runs D s qs s')"

lemma unused_id_fresh: "unused_id s (new_v7 E 0) \<longleftrightarrow> fresh_ids E 0 (Suc 0) s"
  by (auto simp: unused_id_def fresh_ids_def)

lemma fresh_unused: "fresh E s \<Longrightarrow> unused_id s (new_v7 E 0)"
  using id_budget_forms(1) [of s] by (auto simp: unused_id_def fresh_ids_def)

lemma post_unused:
  "kstep s (KPost e) s' \<Longrightarrow> unused_id s u \<Longrightarrow> Id u \<noteq> entry_id e \<Longrightarrow> unused_id s' u"
  by (auto simp: unused_id_def entry_ids_def has_account_def map_of_shift elim!: kstep_postE)

lemma post_keyed:
  "kstep s (KPost e) s' \<Longrightarrow> keyed_entry s' a k \<Longrightarrow> keyed_entry s a k \<or> entry_idempotency_key e = Some k"
  by (auto simp: keyed_entry_def find_keyed_def find_append elim!: kstep_postE split: option.splits if_splits)

lemma reserve_denied_memory:
  assumes "exact_sums D" and "reserve D s q = Some (s', Inr (Denied a m))"
  shows "s' = s \<and> a = available_of s (rsv_account q) \<and> m = rsv_amount q \<and> a < m"
proof -
  from assms(2) obtain row where
    row: "map_of (accounts s) (rsv_account q) = Some row" "map_of (holds s) (rsv_reservation_id q) = None"
    by (auto simp: reserve_def Let_def split: if_splits option.splits)
  with assms(2) show ?thesis
    by (auto simp: reserve_def Let_def Option.bind_eq_Some_conv available_of_def settled_of_def
             dest!: held_exact [OF assms(1)] dec_sub_exact [OF assms(1)] split: if_splits)
qed

lemma charge_post_entry:
  "charge_post D E s c = Some (s', e) \<Longrightarrow> delta_credits e = - charge_amount c \<and>
     account_id e = charge_account c \<and> entry_id e = Id (new_v7 E 0) \<and> reverses_entry_id e = None"
  by (auto simp: charge_post_def charge_entry_def Option.bind_eq_Some_conv)

lemma charge_effect_memory:
  assumes "exact_sums D" and "unused_id s (new_v7 E 0)" and "charge D E s c = Some (s', Inr e)"
    and "charge_idempotency_key c = Some k" and "charge_account c \<noteq> SYSTEM_ACCOUNT"
  shows "if keyed_entry s (charge_account c) k then s' = s
    else available_of s' (charge_account c) = available_of s (charge_account c) - charge_amount c"
  using assms(3)
proof (cases rule: charge.branches)
  case (existing e')
  then show ?thesis using assms(4) by (simp add: keyed_entry_def find_existing_def)
next
  case (posted e')
  have st: "kstep s (KPost e') s'"
    using charge.post_step [OF assms(1) _ posted(1,4)] assms(2) by (simp add: unused_id_fresh)
  from available_post [OF st assms(5)] charge_post_entry [OF posted(4)] posted(3) assms(4) show ?thesis
    by (simp add: keyed_entry_def find_existing_def)
qed auto

lemma charge_good_memory:
  assumes "exact_sums D" and "ledger_inv s" and "unused_id s (new_v7 E 0)" and "charge D E s c = Some (s', r)"
  shows "ledger_inv s'"
  using charge.refines [OF assms(1) assms(3) [unfolded unused_id_fresh] assms(4)] assms(2)
  by (auto intro: kstep_inv)

lemma reaches_append:
  assumes "exact_sums D" and "ledger_inv s" and "reaches D s s'"
  shows "(\<exists>es. entries s' = entries s @ es) \<and> (\<forall>a. has_account s a \<longrightarrow> has_account s' a)"
proof -
  from assms obtain ls where "ktrace s ls s'" by (auto simp: reaches_def dest: runs_trace)
  then show ?thesis using ktrace_append_only ktrace_has_account by blast
qed

lemma charge_again_memory:
  assumes "exact_sums D" and "ledger_inv s" and "unused_id s (new_v7 E 0)"
    and "charge D E s c = Some (s1, Inr e)" and "charge_idempotency_key c = Some k" and "reaches D s1 s2"
  shows "charge D E' s2 c = Some (s2, Inr e)"
proof -
  from reaches_append [OF assms(1) charge_good_memory [OF assms(1-4)] assms(6)] obtain es where
    es: "entries s2 = entries s1 @ es" and has: "\<And>a. has_account s1 a \<Longrightarrow> has_account s2 a" by blast
  have "s1 = s \<or> (\<exists>l. kstep s l s1)"
    using charge.refines [OF assms(1) assms(3) [unfolded unused_id_fresh] assms(4)] by blast
  then have "has_account s (charge_account c) \<Longrightarrow> has_account s1 (charge_account c)"
    by (auto intro: kstep_has_account)
  moreover note rec = charge.recorded [OF assms(4,5)]
  ultimately have "has_account s2 (charge_account c)" using has by blast
  moreover have "find_existing s2 (charge_account c) (charge_idempotency_key c) = Some e"
    using rec find_existing_append [OF _ es] by blast
  ultimately show ?thesis using rec by (intro charge.found) simp_all
qed

lemma settle_again_memory:
  assumes "exact_sums D" and "unused_id s (new_v7 E 0)" and "settle D E s x = Some (s1, Inr e)"
    and "settle_reservation_id y = settle_reservation_id x" and "0 \<le> settle_actual y"
  shows "settle D E' s1 y = Some (s1, Inr e)"
proof -
  from settle_recorded [OF assms(1) assms(2) [unfolded unused_id_fresh] assms(3)] obtain h i where
    "map_of (holds s1) (settle_reservation_id x) = Some h" "hold_status h = Settled"
    "hold_settle_entry h = Some i" "List.find (\<lambda>e. entry_id e = i) (entries s1) = Some e" by blast
  with settled_reservation_replies assms(4,5) show ?thesis by metis
qed

lemma settle_posts_memory:
  assumes "exact_sums D" and "ledger_inv s" and "unused_id s (new_v7 E 0)"
    and "map_of (holds s) (settle_reservation_id x) = Some h" and "hold_status h = Open"
    and "hold_account h \<noteq> SYSTEM_ACCOUNT" and "settle D E s x = Some (s', Inr e)"
  shows "delta_credits e = - settle_actual x \<and>
    available_of s' (hold_account h) = available_of s (hold_account h) + hold_amount h - settle_actual x"
  using assms(1) assms(3) [unfolded unused_id_fresh] assms(7)
proof (cases rule: settle_cases)
  case same
  with assms(4,5) show ?thesis by auto
next
  case (posted h' e' s1)
  then have [simp]: "h' = h" "e' = e" using assms(4) by auto
  have "holds s1 = holds s" using posted(4) by (auto elim!: kstep_postE)
  then show ?thesis
    using available_post [OF posted(4) assms(6)] posted assms(4)
      available_settle [OF posted(5) kstep_inv [OF posted(4) assms(2)], of h "hold_account h"] by auto
qed

lemma reverse_effect_memory:
  assumes "exact_sums D" and "unused_id s (new_v7 E 0)" and "reverse_charge D E s v = Some (s', Inr out)"
    and "rev_account v \<noteq> SYSTEM_ACCOUNT"
  shows "if keyed_entry s (rev_account v) (rev_idempotency_key v) \<or>
      \<not> owned_entry s (rev_account v) (rev_charge_entry_id v) \<or> remainder_of s (rev_charge_entry_id v) \<le> 0
    then s' = s
    else available_of s' (rev_account v) = available_of s (rev_account v) + remainder_of s (rev_charge_entry_id v)"
  using assms(1) assms(2) [unfolded unused_id_fresh] assms(3)
proof (cases rule: reverse_charge_cases)
  case (posted e)
  with available_post [OF posted(4) assms(4)] show ?thesis
    by (auto simp: keyed_entry_def owned_entry_def list_ex_iff)
qed (auto simp: keyed_entry_def owned_entry_def list_ex_iff)

lemma reverse_keeps_memory:
  assumes "exact_sums D" and "ledger_inv s" and "unused_id s (new_v7 E 0)"
    and "reverse_charge D E s v = Some (s', r)"
  shows "ledger_inv s' \<and> (\<forall>u. unused_id s u \<longrightarrow> u \<noteq> new_v7 E 0 \<longrightarrow> unused_id s' u) \<and>
    (\<forall>a k. keyed_entry s' a k \<longrightarrow> keyed_entry s a k \<or> k = rev_idempotency_key v)"
  using assms(1) assms(3) [unfolded unused_id_fresh] assms(4)
proof (cases rule: reverse_charge_cases)
  case (posted e)
  from kstep_inv [OF posted(4) assms(2)] post_unused [OF posted(4)] post_keyed [OF posted(4)] posted
  show ?thesis by auto
qed (use assms(2) in auto)

lemma balance_memory:
  assumes "exact_sums D" and "balance D s a = Some (s', Inr bal)"
  shows "has_account s a \<and> bal_settled bal - bal_held bal = available_of s a"
  using assms
  by (auto simp: balance_def has_account_def available_of_def settled_of_def Option.bind_eq_Some_conv
           dest!: held_exact split: option.splits)

lemma balance_total_memory:
  assumes "exact_sums D" and "total_sums D" and "has_account s a"
  shows "\<exists>bal. balance D s a = Some (s, Inr bal)"
  using assms(3) held_total [OF assms(1,2)] by (auto simp: balance_def has_account_def)

interpretation memory: ledger_backend "memory_ops D" D ledger_inv unused_id "reaches D" has_account
  available_of "\<lambda>s. map_of (holds s)" remainder_of keyed_entry owned_entry fresh run_clear for D
proof (unfold_locales, goal_cases)
  case (3 s q s' r)
  from 3(3) have "reserve D s q = Some (s', Inr (Allowed r))" by simp
  with 3(1) show ?case
  proof (cases rule: reserve_cases)
    case same
    with 3(2) show ?thesis by auto
  next
    case (held row h)
    have "map_of (holds s') (rsv_reservation_id q) = Some h"
      using held(3) by (cases rule: kstep.cases) auto
    with held available_hold [OF held(3)] show ?thesis by auto
  qed
next
  case (16 s)
  show ?case by (auto simp: reaches_def intro: exI [of _ "[]"])
next
  case (17 s s' a)
  then show ?case using reaches_append [OF 17(1-3)] 17(4) by blast
next
  case (19 s E run)
  then obtain s' sm where "void_run D E s run = Some (s', Inr sm)"
    using void_run_total [of D E s run] by auto
  then show ?case using void_run_clears [OF 19(1,4,3)] by auto
next
  case 1
  then show ?case unfolding memory_ops_sel by (rule reserve_error)
next
  case 2
  then show ?case unfolding memory_ops_sel by (rule reserve_denied_memory)
next
  case 4
  then show ?case unfolding memory_ops_sel by (rule settle_error)
next
  case 5
  then show ?case unfolding memory_ops_sel by (rule settle_posts_memory)
next
  case 6
  from 6(1,3-6) show ?case unfolding memory_ops_sel by (rule settle_again_memory)
next
  case 7
  then show ?case unfolding memory_ops_sel by (rule charge.error_keeps_state)
next
  case 8
  then show ?case unfolding memory_ops_sel by (rule charge_again_memory)
next
  case 9
  then show ?case unfolding memory_ops_sel by (rule charge_effect_memory)
next
  case 10
  then show ?case unfolding memory_ops_sel by (rule reverse_charge_error)
next
  case 11
  then show ?case unfolding memory_ops_sel by (rule reverse_effect_memory)
next
  case 12
  then show ?case unfolding memory_ops_sel by (rule reverse_keeps_memory)
next
  case 13
  then show ?case unfolding memory_ops_sel by (rule balance_keeps_state)
next
  case 14
  then show ?case unfolding memory_ops_sel by (rule balance_memory)
next
  case 15
  then show ?case unfolding memory_ops_sel by (rule balance_total_memory)
next
  case 18
  then show ?case unfolding memory_ops_sel by (rule charge_good_memory)
next
  case 20
  then show ?case unfolding memory_ops_sel by (rule void_run_nothing)
qed

end
