(* ===== verification/Pricing_Props.thy ===== *)
theory Pricing_Props
  imports Pricing
begin

text \<open>
  Correctness of pricing. \<open>band_sum\<close> is the bracket formula that graduated pricing promises and
  \<open>volume_tier\<close> the tier that volume pricing selects; the theorems equate the loops of
  \<open>crates/meter-pricing\<close> with them for validated schedules, bound the rounding of credits, and state
  what a summary of re-rated events contains.
\<close>

section \<open>Tier schedules\<close>

fun band_sum :: "rat \<Rightarrow> price_tier list \<Rightarrow> rat \<Rightarrow> rat" where
  "band_sum lower [] q = 0"
| "band_sum lower (t # ts) q = (case up_to t of
      None \<Rightarrow> amount (tier_unit_price t) * max 0 (q - lower)
    | Some u \<Rightarrow> amount (tier_unit_price t) * max 0 (min q u - lower) + band_sum u ts q)"

fun volume_tier :: "price_tier list \<Rightarrow> rat \<Rightarrow> price_tier option" where
  "volume_tier [] q = None"
| "volume_tier (t # ts) q = (case up_to t of
      None \<Rightarrow> Some t
    | Some u \<Rightarrow> if q \<le> u then Some t else volume_tier ts q)"

definition prices_in :: "currency \<Rightarrow> price_tier list \<Rightarrow> bool" where
  "prices_in c ts = list_all (\<lambda>t. currency (tier_unit_price t) = c) ts"

definition exact_arith :: "deps \<Rightarrow> bool" where
  "exact_arith D \<longleftrightarrow> exact_sums D \<and> total_sums D \<and> exact_products D \<and> total_products D"

lemma exact_arith_ops:
  assumes "exact_arith D"
  shows "dec_add D x y = Some (x + y)" "dec_sub D x y = Some (x - y)" "dec_mul D x y = Some (x * y)"
  using assms by (simp_all add: exact_arith_def dec_add_total dec_sub_total dec_mul_total)

lemma exact_deps_arith [simp]: "exact_arith exact_deps"
  by (simp add: exact_arith_def)

lemma valid_ConsE:
  assumes "validate_tiers_from p (t # ts) = Inr ()"
  obtains (last) "up_to t = None" "ts = []"
  | (bounded) u where "up_to t = Some u" "p < u" "ts \<noteq> []" "validate_tiers_from u ts = Inr ()"
  using assms by (cases "up_to t"; cases "ts = []") (auto split: if_splits)

lemma band_sum_below:
  "validate_tiers_from lower ts = Inr () \<Longrightarrow> q \<le> lower \<Longrightarrow> band_sum lower ts q = 0"
proof (induction ts arbitrary: lower)
  case (Cons t ts)
  from Cons.prems(1) show ?case
    by (rule valid_ConsE) (use Cons in auto)
qed simp

text \<open>The loop of \<open>graduated_charge\<close> adds exactly the bands above \<open>lower\<close>.\<close>

lemma graduated_from_bands:
  assumes "exact_arith D"
  shows "validate_tiers_from lower ts = Inr () \<Longrightarrow> ts \<noteq> [] \<Longrightarrow> prices_in (currency tot) ts \<Longrightarrow>
     0 \<le> rest \<Longrightarrow> graduated_from D tot lower rest ts =
       Some (Inr (money_new (amount tot + band_sum lower ts (lower + rest)) (currency tot), 0))"
proof (induction ts arbitrary: lower tot rest)
  case (Cons t ts)
  note ops = exact_arith_ops [OF assms]
  show ?case
  proof (cases "rest = 0")
    case True
    then show ?thesis using band_sum_below [OF Cons.prems(1), of lower]
      by (simp add: money_new_def)
  next
    case False
    with Cons.prems(4) have pos: "0 < rest" by simp
    have cur: "currency (tier_unit_price t) = currency tot" "prices_in (currency tot) ts"
      using Cons.prems(3) by (auto simp: prices_in_def)
    from Cons.prems(1) show ?thesis
    proof (cases rule: valid_ConsE)
      case last
      with pos cur show ?thesis
        by (simp add: ops money_scale_by_def try_add_def ensure_same_currency_def)
    next
      case (bounded u)
      let ?qty = "min rest (u - lower)"
      let ?tot = "money_new (amount tot + amount (tier_unit_price t) * ?qty) (currency tot)"
      have "graduated_from D tot lower rest (t # ts) = graduated_from D ?tot u (rest - ?qty) ts"
        using pos bounded cur
        by (simp add: ops money_scale_by_def try_add_def ensure_same_currency_def Let_def)
      also have "\<dots> = Some (Inr (money_new (amount ?tot + band_sum u ts (u + (rest - ?qty))) (currency tot), 0))"
        using Cons.IH [OF bounded(4,3), of ?tot "rest - ?qty"] cur by (simp add: min_def)
      also have "band_sum u ts (u + (rest - ?qty)) = band_sum u ts (lower + rest)"
        using band_sum_below [OF bounded(4)] by (auto simp: min_def algebra_simps)
      finally show ?thesis using bounded pos
        by (simp add: min_def max_def algebra_simps)
    qed
  qed
qed simp

lemma graduated_charge_bands:
  assumes "exact_arith D" and "validate_tiers ts = Inr ()" and "prices_in c ts" and "0 \<le> q"
  shows "graduated_charge D ts q = Some (Inr (money_new (band_sum 0 ts q) c))"
proof -
  have ts: "ts \<noteq> []" "validate_tiers_from 0 ts = Inr ()"
    using assms(2) by (auto simp: validate_tiers_def split: if_splits)
  with assms(3) have "schedule_currency ts = Inr c"
    by (cases ts) (auto simp: schedule_currency_def prices_in_def)
  with graduated_from_bands [OF assms(1) ts(2,1), of "money_zero c" q] assms(3,4) show ?thesis
    by (simp add: graduated_charge_def)
qed

lemma volume_tier_exists:
  "validate_tiers_from p ts = Inr () \<Longrightarrow> ts \<noteq> [] \<Longrightarrow> \<exists>t. volume_tier ts q = Some t \<and> t \<in> set ts"
proof (induction ts arbitrary: p)
  case (Cons t ts)
  from Cons.prems(1) show ?case
  proof (cases rule: valid_ConsE)
    case (bounded u)
    with Cons.IH [OF bounded(4,3)] show ?thesis by auto
  qed simp
qed simp

lemma volume_charge_tier:
  "volume_charge D ts q = (case volume_tier ts q of
     None \<Rightarrow> Some (Inl InvalidTierSchedule)
   | Some t \<Rightarrow> map_option Inr (money_scale_by D (tier_unit_price t) q))"
  by (induction ts) (auto split: option.split)

text \<open>Non-negative prices make the bracket formula monotone in the quantity.\<close>

lemma band_sum_mono:
  assumes "\<forall>t \<in> set ts. 0 \<le> amount (tier_unit_price t)" and "q \<le> r"
  shows "band_sum lower ts q \<le> band_sum lower ts r"
  using assms
proof (induction ts arbitrary: lower)
  case (Cons t ts)
  then have "0 \<le> amount (tier_unit_price t)" and IH: "\<And>l. band_sum l ts q \<le> band_sum l ts r" by auto
  then show ?case using Cons.prems(2)
    by (auto intro!: add_mono mult_left_mono split: option.split)
qed simp

section \<open>Tier pricing\<close>

text \<open>
  C17. Graduated pricing is marginal pricing. For a validated schedule in one currency the charge of a
  non-negative quantity is, in that currency, the sum over the tiers of the tier's price times the
  part of the quantity that falls between the previous bound and its own; it never fails.
\<close>

theorem graduated_is_marginal:
  assumes "exact_arith D" and "validate_tiers ts = Inr ()" and "prices_in c ts" and "0 \<le> q"
  shows "graduated_charge D ts q = Some (Inr (money_new (band_sum 0 ts q) c))"
  using assms by (rule graduated_charge_bands)

definition usd :: currency where
  "usd = Currency ''USD''"

definition demo_tiers :: "price_tier list" where
  "demo_tiers = [tier_up_to 100 (money_new 3 usd), tier_up_to 500 (money_new 2 usd), tier_rest (money_new 1 usd)]"

theorem graduated_is_marginal_witness:
  "graduated_charge exact_deps demo_tiers 600 = Some (Inr (money_new 1200 usd))"
proof -
  have "validate_tiers demo_tiers = Inr ()" "prices_in usd demo_tiers" "band_sum 0 demo_tiers 600 = 1200"
    by code_simp+
  with graduated_is_marginal [of exact_deps demo_tiers usd 600] show ?thesis by simp
qed

text \<open>
  Volume pricing uses one tier. For a validated schedule every quantity is priced wholly at the unit
  price of one tier of the schedule: the first whose bound the quantity does not exceed.
\<close>

theorem volume_uses_one_tier:
  assumes "exact_arith D" and "validate_tiers ts = Inr ()"
  shows "\<exists>pre t post. ts = pre @ t # post \<and>
           (\<forall>p \<in> set pre. \<exists>u. up_to p = Some u \<and> u < q) \<and>
           (up_to t = None \<or> (\<exists>u. up_to t = Some u \<and> q \<le> u)) \<and>
           volume_charge D ts q =
             Some (Inr (money_new (amount (tier_unit_price t) * q) (currency (tier_unit_price t))))"
proof -
  have split: "volume_tier ts q = Some t \<Longrightarrow> \<exists>pre post. ts = pre @ t # post \<and>
      (\<forall>p \<in> set pre. \<exists>u. up_to p = Some u \<and> u < q) \<and>
      (up_to t = None \<or> (\<exists>u. up_to t = Some u \<and> q \<le> u))" for t
  proof (induction ts)
    case (Cons x ts)
    show ?case
    proof (cases "\<exists>u. up_to x = Some u \<and> u < q")
      case True
      with Cons.prems have "volume_tier ts q = Some t" by auto
      from Cons.IH [OF this] obtain pre post where *: "ts = pre @ t # post"
        "\<forall>p \<in> set pre. \<exists>u. up_to p = Some u \<and> u < q"
        "up_to t = None \<or> (\<exists>u. up_to t = Some u \<and> q \<le> u)" by blast
      with True show ?thesis by (intro exI [of _ "x # pre"] exI [of _ post]) auto
    next
      case False
      with Cons.prems have "x = t" "up_to t = None \<or> (\<exists>u. up_to t = Some u \<and> q \<le> u)"
        by (auto split: option.splits if_splits)
      then show ?thesis by (intro exI [of _ "[]"] exI [of _ ts]) simp
    qed
  qed simp
  have "ts \<noteq> []" "validate_tiers_from 0 ts = Inr ()"
    using assms(2) by (auto simp: validate_tiers_def split: if_splits)
  from volume_tier_exists [OF this(2,1)] obtain t where t: "volume_tier ts q = Some t" by blast
  from split [OF t] show ?thesis
    by (auto simp: volume_charge_tier t money_scale_by_def exact_arith_ops [OF assms(1)])
qed

theorem volume_uses_one_tier_witness:
  "\<exists>pre t post. demo_tiers = pre @ t # post \<and>
     volume_charge exact_deps demo_tiers 100 = Some (Inr (money_new (amount (tier_unit_price t) * 100)
       (currency (tier_unit_price t))))"
proof -
  have "validate_tiers demo_tiers = Inr ()" by code_simp
  from volume_uses_one_tier [OF _ this, of exact_deps 100] show ?thesis by auto
qed

text \<open>
  Packages cover the quantity. When the quotient is exact, package pricing charges the unit price for
  the least whole number of packages that covers the quantity.
\<close>

theorem package_covers_quantity:
  assumes "exact_arith D" and "charge_model c = Package sz" and "0 < sz" and "0 \<le> q"
    and "dec_div D q sz = Some (q / sz)" and "dec_ceil D (q / sz) = of_int \<lceil>q / sz\<rceil>"
  shows "\<exists>n::int. comp_charge D c q = Some (Inr (money_new (amount (comp_unit_price c) * of_int n)
           (currency (comp_unit_price c)))) \<and> q \<le> of_int n * sz \<and> (\<forall>k::int. q \<le> of_int k * sz \<longrightarrow> n \<le> k)"
proof (intro exI [of _ "\<lceil>q / sz\<rceil>"] conjI allI impI)
  show "comp_charge D c q = Some (Inr (money_new (amount (comp_unit_price c) * of_int \<lceil>q / sz\<rceil>)
          (currency (comp_unit_price c))))"
    using assms by (simp add: comp_charge_def package_charge_def money_scale_by_def exact_arith_ops)
  show "q \<le> of_int \<lceil>q / sz\<rceil> * sz"
    using pos_divide_le_eq [OF assms(3)] le_of_int_ceiling [of "q / sz"] by blast
  fix k :: int
  assume "q \<le> of_int k * sz"
  with assms(3) have "q / sz \<le> of_int k" by (simp add: divide_le_eq)
  then show "\<lceil>q / sz\<rceil> \<le> k" by (simp add: ceiling_le_iff)
qed

definition demo_package :: price_component where
  "demo_package = \<lparr>comp_dimension = Output, comp_modality = Text, comp_context_tier = StandardTier,
     comp_unit = Token, charge_model = Package 1000, comp_unit_price = money_new 2 usd\<rparr>"

theorem package_covers_quantity_witness:
  "\<exists>n::int. comp_charge exact_deps demo_package 2500 =
     Some (Inr (money_new (2 * of_int n) usd)) \<and> 2500 \<le> of_int n * (1000::rat)"
proof -
  have "charge_model demo_package = Package 1000" "comp_unit_price demo_package = money_new 2 usd"
    by (simp_all add: demo_package_def)
  with package_covers_quantity [of exact_deps demo_package 1000 2500] show ?thesis by auto
qed

section \<open>Rate cards\<close>

lemma card_validate_from_iff:
  "card_validate_from cur seen cs = Inr () \<longleftrightarrow>
     (\<forall>c \<in> set cs. currency (comp_unit_price c) = cur \<and> 0 \<le> amount (comp_unit_price c) \<and>
        comp_validate c = Inr () \<and> comp_cell c \<notin> set seen) \<and> distinct (map comp_cell cs)"
  by (induction cs arbitrary: seen) (auto simp: image_iff split: sum.splits if_splits)

lemma comp_matches_cell: "comp_matches c dmn m t \<longleftrightarrow> comp_cell c = (dmn, m, t)"
  by (simp add: comp_matches_def comp_cell_def)

text \<open>
  A tier schedule that covers every quantity, said without the validator: the last tier and only the
  last is open ended, and the bounds of the others rise strictly from above zero.
\<close>

definition tiers_cover :: "price_tier list \<Rightarrow> bool" where
  "tiers_cover ts \<longleftrightarrow> ts \<noteq> [] \<and> up_to (last ts) = None \<and>
     (\<exists>bounds. map up_to (butlast ts) = map Some bounds \<and> sorted_wrt (<) (0 # bounds))"

lemma validate_tiers_from_iff:
  "ts \<noteq> [] \<Longrightarrow> validate_tiers_from p ts = Inr () \<longleftrightarrow>
     up_to (last ts) = None \<and>
     (\<exists>bounds. map up_to (butlast ts) = map Some bounds \<and> sorted_wrt (<) (p # bounds))"
proof (induction ts arbitrary: p)
  case (Cons t ts)
  show ?case
  proof (cases "ts = []")
    case False
    note IH = Cons.IH [OF False]
    show ?thesis
    proof (cases "up_to t")
      case (Some u)
      have "(\<exists>bounds. map up_to (butlast (t # ts)) = map Some bounds \<and> sorted_wrt (<) (p # bounds)) \<longleftrightarrow>
         p < u \<and> (\<exists>bounds. map up_to (butlast ts) = map Some bounds \<and> sorted_wrt (<) (u # bounds))" (is "?l \<longleftrightarrow> ?r")
      proof
        assume ?l
        then show ?r using Some False by (auto simp: Cons_eq_map_conv)
      next
        assume ?r
        then obtain bs where "map up_to (butlast ts) = map Some bs" "sorted_wrt (<) (u # bs)" "p < u" by blast
        then show ?l using Some False by (intro exI [of _ "u # bs"]) auto
      qed
      then show ?thesis using Some False IH [of u] by auto
    qed (use False in \<open>auto simp: Cons_eq_map_conv\<close>)
  qed (cases "up_to t"; simp)
qed simp

lemma comp_validate_iff:
  "comp_validate c = Inr () \<longleftrightarrow> (case charge_model c of
      Standard \<Rightarrow> True | Graduated ts \<Rightarrow> tiers_cover ts | Volume ts \<Rightarrow> tiers_cover ts | Package sz \<Rightarrow> 0 < sz)"
  by (auto simp: comp_validate_def validate_tiers_def tiers_cover_def validate_tiers_from_iff simp del: sorted_wrt.simps split: charge_model.splits)


definition demo_card :: "charge_model \<Rightarrow> rate_card" where
  "demo_card m = \<lparr>card_id = Id 1, card_kind = ProviderCost, card_currency = usd, version = 1,
     card_margin = 3 / 2, components = [\<lparr>comp_dimension = Output, comp_modality = Text,
       comp_context_tier = StandardTier, comp_unit = Token, charge_model = m,
       comp_unit_price = money_new 2 usd\<rparr>]\<rparr>"

text \<open>
  Validation does not look inside tiers. A card whose tier prices are negative, or in another
  currency, passes validation; pricing with it then yields a negative cost, or fails at price time.
\<close>

definition text_usage :: "rat \<Rightarrow> usage" where
  "text_usage q = usage_with (usage_new Text StandardTier) Output q"

theorem validate_ignores_tier_prices:
  "card_validate (demo_card (Volume [tier_rest (money_new (- 5) usd)])) = Inr () \<and>
   cost exact_deps (text_usage 10) (demo_card (Volume [tier_rest (money_new (- 5) usd)])) =
     Some (Inr (money_new (- 50) usd)) \<and>
   card_validate (demo_card (Graduated [tier_rest (money_new 5 (Currency ''EUR''))])) = Inr () \<and>
   cost exact_deps (text_usage 10) (demo_card (Graduated [tier_rest (money_new 5 (Currency ''EUR''))])) =
     Some (Inl PriceCurrencyMismatch)"
  by (intro conjI; code_simp)

lemma latest_from_max:
  "latest_from b cs \<in> set (b # cs) \<and> (\<forall>c \<in> set (b # cs). version c \<le> version (latest_from b cs))"
proof (induction cs arbitrary: b)
  case (Cons c cs)
  from Cons.IH [of "if version b \<le> version c then c else b"] show ?case
    by (auto split: if_splits intro: order_trans)
qed simp

text \<open>
  Version resolution. Without a pin, pricing resolves to a card of the set whose version no other
  exceeds; with a pin, to a card of exactly that version, and to nothing only when the set has
  none.
\<close>

theorem resolve_picks_version:
  "(resolve versions None = None \<longleftrightarrow> versions = []) \<and>
   (\<forall>rc. resolve versions None = Some rc \<longrightarrow>
      rc \<in> set versions \<and> (\<forall>c \<in> set versions. version c \<le> version rc)) \<and>
   (\<forall>v rc. resolve versions (Some v) = Some rc \<longrightarrow> rc \<in> set versions \<and> version rc = v) \<and>
   (\<forall>v. resolve versions (Some v) = None \<longleftrightarrow> v \<notin> version ` set versions)"
proof (intro conjI)
  show "resolve versions None = None \<longleftrightarrow> versions = []"
    by (cases versions) (simp_all add: resolve_def latest_def)
  show "\<forall>rc. resolve versions None = Some rc \<longrightarrow>
      rc \<in> set versions \<and> (\<forall>c \<in> set versions. version c \<le> version rc)"
    using latest_from_max by (cases versions) (auto simp: resolve_def latest_def)
  show "\<forall>v rc. resolve versions (Some v) = Some rc \<longrightarrow> rc \<in> set versions \<and> version rc = v"
    by (auto simp: resolve_def dest!: find_SomeD)
  show "\<forall>v. resolve versions (Some v) = None \<longleftrightarrow> v \<notin> version ` set versions"
    unfolding resolve_def option.case find_None_iff_all by blast
qed

theorem resolve_picks_version_witness:
  "\<exists>rc. resolve [demo_card Standard, (demo_card Standard)\<lparr>version := 2\<rparr>] None = Some rc \<and> 2 \<le> version rc"
proof -
  let ?vs = "[demo_card Standard, (demo_card Standard)\<lparr>version := 2\<rparr>]"
  have "resolve ?vs None \<noteq> None" by code_simp
  then obtain rc where rc: "resolve ?vs None = Some rc" by auto
  have "(demo_card Standard)\<lparr>version := 2\<rparr> \<in> set ?vs" by simp
  with resolve_picks_version [THEN conjunct2, THEN conjunct1, rule_format, OF rc]
  have "version ((demo_card Standard)\<lparr>version := 2\<rparr>) \<le> version rc" by blast
  with rc show ?thesis by auto
qed

section \<open>Cost and credits\<close>

text \<open>The line \<open>cost\<close> adds for one metered quantity.\<close>

definition prices_line :: "deps \<Rightarrow> usage \<Rightarrow> rate_card \<Rightarrow> pricing_dimension \<times> rat \<Rightarrow> money \<Rightarrow> bool" where
  "prices_line D u rc dq line \<longleftrightarrow>
     (\<exists>c. card_component rc (fst dq) (usage_modality u) (usage_context_tier u) = Some c \<and>
          comp_charge D c (snd dq) = Some (Inr line))"

lemma cost_from_lines:
  assumes "exact_sums D"
  shows "cost_from D u rc tot qs = Some (Inr m) \<Longrightarrow>
    \<exists>lines. list_all2 (prices_line D u rc) qs lines \<and> currency m = currency tot \<and>
      (\<forall>l \<in> set lines. currency l = currency tot) \<and>
      amount m = amount tot + sum_list (map amount lines)"
proof (induction qs arbitrary: tot)
  case (Cons dq qs)
  obtain dmn q where dq: "dq = (dmn, q)" by (cases dq)
  with Cons.prems obtain c line tot' where
    c: "card_component rc dmn (usage_modality u) (usage_context_tier u) = Some c" and
    l: "comp_charge D c q = Some (Inr line)" and
    t: "try_add D tot line = Some (Inr tot')" and r: "cost_from D u rc tot' qs = Some (Inr m)"
    by (auto simp: rbind_Ok_iff map_err_Ok_iff split: option.splits)
  from Cons.IH [OF r] obtain lines where
    "list_all2 (prices_line D u rc) qs lines" "currency m = currency tot'"
    "\<forall>l \<in> set lines. currency l = currency tot'" "amount m = amount tot' + sum_list (map amount lines)"
    by blast
  moreover have "prices_line D u rc dq line" using c l dq by (simp add: prices_line_def)
  ultimately show ?case using try_add_Ok [OF t] try_add_exact [OF assms t]
    by (intro exI [of _ "line # lines"]) auto
qed simp

text \<open>
  Cost is the sum of its lines. When \<open>cost\<close> succeeds, every metered quantity was priced by the
  component its dimension, modality and context tier resolve to, every line is in the card's
  currency, and the total is exactly the sum of the lines.
\<close>

theorem cost_is_sum_of_lines:
  assumes "exact_sums D" and "cost D u rc = Some (Inr m)"
  shows "currency m = card_currency rc \<and>
         (\<exists>lines. list_all2 (prices_line D u rc) (quantities u) lines \<and>
            (\<forall>l \<in> set lines. currency l = card_currency rc) \<and> amount m = sum_list (map amount lines))"
  using cost_from_lines [OF assms(1) assms(2) [unfolded cost_def]] by auto

theorem cost_is_sum_of_lines_witness:
  "\<exists>m (lines :: money list). cost exact_deps (usage_with (text_usage 3) Output 4) (demo_card Standard) = Some (Inr m) \<and>
     amount m = 14 \<and> amount m = sum_list (map amount lines)"
proof -
  have *: "cost exact_deps (usage_with (text_usage 3) Output 4) (demo_card Standard) =
     Some (Inr (money_new 14 usd))" by code_simp
  from cost_is_sum_of_lines [OF exact_deps_laws(1) *] obtain lines :: "money list" where
    "amount (money_new 14 usd) = sum_list (map amount lines)" by blast
  with * show ?thesis by (intro exI [of _ "money_new 14 usd"] exI [of _ lines]) simp
qed

text \<open>
  C19. Credits are rounded once. The credits of a priced event differ from the exact value of its customer
  price, cost times margin over the credit value, by at most half of the fifth decimal plus the
  division's own error; the margin applies to the whole cost and no currency is ever mixed.
\<close>

theorem credits_rounded_once:
  assumes "exact_products D" and "quotient_error D e" and "rounds_to_nearest D"
    and "price_usage D u rc v = Some (Inr p)"
  shows "\<bar>credits p - amount (cogs p) * card_margin rc / amount v\<bar> \<le> e + 1 / (2 * 10 ^ 5) \<and>
         amount (customer_price p) = amount (cogs p) * card_margin rc \<and>
         currency (customer_price p) = currency (cogs p) \<and> currency v = currency (cogs p) \<and> 0 < amount v"
proof -
  from assms(4) obtain pr q where
    pr: "money_scale_by D (cogs p) (card_margin rc) = Some pr" and
    cv: "currency pr = currency v" "0 < amount v" and
    q: "dec_div D (amount pr) (amount v) = Some q" and
    p: "customer_price p = pr" "credits p = dec_round_dp D CREDIT_SCALE q"
    by (auto simp: price_usage_def apply_margin_def to_credits_def rbind_Ok_iff
             Option.bind_eq_Some_conv split: if_splits)
  have am: "amount pr = amount (cogs p) * card_margin rc" "currency pr = currency (cogs p)"
    using pr dec_mul_exact [OF assms(1)] by (auto simp: money_scale_by_Some)
  have "\<bar>q - amount pr / amount v\<bar> \<le> e" using assms(2) q by (simp add: quotient_error_def)
  moreover have "\<bar>credits p - q\<bar> \<le> 1 / (2 * 10 ^ 5)"
    using assms(3) [unfolded rounds_to_nearest_def, rule_format, of 5 q] p
    by (simp add: CREDIT_SCALE_def)
  ultimately have "\<bar>credits p - amount pr / amount v\<bar> \<le> e + 1 / (2 * 10 ^ 5)" by linarith
  then show ?thesis using am cv p by simp
qed

theorem credits_rounded_once_witness:
  "\<exists>p. price_usage exact_deps (text_usage 1) (demo_card Standard) (money_new 7 usd) = Some (Inr p) \<and>
     \<bar>credits p - 3 / 7\<bar> \<le> 1 / (2 * 10 ^ 5)"
proof -
  have "map_option (map_sum id (\<lambda>p. amount (cogs p)))
     (price_usage exact_deps (text_usage 1) (demo_card Standard) (money_new 7 usd)) = Some (Inr 2)"
    by code_simp
  then obtain p where
    p: "price_usage exact_deps (text_usage 1) (demo_card Standard) (money_new 7 usd) = Some (Inr p)"
    and c: "amount (cogs p) = 2"
    by (auto simp only: map_Ok_iff)
  have "card_margin (demo_card Standard) = 3 / 2" by (simp add: demo_card_def)
  with credits_rounded_once [OF _ _ _ p, of 0] p c show ?thesis by auto
qed

section \<open>Re-rating\<close>

definition rerated :: "deps \<Rightarrow> rate_card \<Rightarrow> rate_card \<Rightarrow> money \<Rightarrow> usage \<Rightarrow> rerate_line \<Rightarrow> bool" where
  "rerated D current proposed v u l \<longleftrightarrow>
     price_usage D u current v = Some (Inr (line_current l)) \<and>
     price_usage D u proposed v = Some (Inr (line_proposed l)) \<and>
     line_credit_delta l = credits (line_proposed l) - credits (line_current l)"

lemma rerate_event_rerated:
  assumes "exact_sums D" and "rerate_event D u current proposed v = Some (Inr l)"
  shows "rerated D current proposed v u l"
  using assms(2)
  by (auto simp: rerate_event_def rerated_def rbind_Ok_iff Option.bind_eq_Some_conv
           dest: dec_sub_exact [OF assms(1)])

lemma simulate_from_lines:
  assumes "exact_sums D"
  shows "simulate_from D current proposed v tc tp ls us = Some (Inr (tc', tp', ls')) \<Longrightarrow>
    \<exists>new. ls' = ls @ new \<and> list_all2 (rerated D current proposed v) us new \<and>
      tc' = tc + sum_list (map (credits \<circ> line_current) new) \<and>
      tp' = tp + sum_list (map (credits \<circ> line_proposed) new)"
proof (induction us arbitrary: tc tp ls)
  case (Cons u us)
  then obtain l a b where
    l: "rerate_event D u current proposed v = Some (Inr l)" and
    a: "dec_add D tc (credits (line_current l)) = Some a" and
    b: "dec_add D tp (credits (line_proposed l)) = Some b" and
    r: "simulate_from D current proposed v a b (ls @ [l]) us = Some (Inr (tc', tp', ls'))"
    by (auto simp: rbind_Ok_iff Option.bind_eq_Some_conv)
  from Cons.IH [OF r] obtain new where
    "ls' = (ls @ [l]) @ new" "list_all2 (rerated D current proposed v) us new"
    "tc' = a + sum_list (map (credits \<circ> line_current) new)"
    "tp' = b + sum_list (map (credits \<circ> line_proposed) new)" by blast
  then show ?case
    using dec_add_exact [OF assms a] dec_add_exact [OF assms b] rerate_event_rerated [OF assms l]
    by (intro exI [of _ "l # new"]) (auto simp: comp_def)
qed simp

text \<open>
  A simulation predicts what would be charged. The summary of a re-rating has one line per event, in
  order, each holding what production pricing returns for that event under either card; its totals
  are the sums of those charges and its delta is the sum of the per-event deltas.
\<close>

theorem simulation_is_faithful:
  assumes "exact_sums D" and "simulate_rerate D us current proposed v = Some (Inr r)"
  shows "event_count r = length us \<and> list_all2 (rerated D current proposed v) us (summary_lines r) \<and>
         credits_current r = sum_list (map (credits \<circ> line_current) (summary_lines r)) \<and>
         credits_proposed r = sum_list (map (credits \<circ> line_proposed) (summary_lines r)) \<and>
         credit_delta r = sum_list (map line_credit_delta (summary_lines r))"
proof -
  from assms(2) obtain tc tp ls d where
    s: "simulate_from D current proposed v 0 0 [] us = Some (Inr (tc, tp, ls))" and
    d: "dec_sub D tp tc = Some d" and
    r: "r = \<lparr>event_count = length us, credits_current = tc, credits_proposed = tp, credit_delta = d,
              summary_lines = ls\<rparr>"
    by (auto simp: simulate_rerate_def rbind_Ok_iff Option.bind_eq_Some_conv)
  from simulate_from_lines [OF assms(1) s] have ls: "list_all2 (rerated D current proposed v) us ls"
    "tc = sum_list (map (credits \<circ> line_current) ls)" "tp = sum_list (map (credits \<circ> line_proposed) ls)"
    by auto
  from ls(1) have "sum_list (map line_credit_delta ls) =
      sum_list (map (credits \<circ> line_proposed) ls) - sum_list (map (credits \<circ> line_current) ls)"
    by (induction rule: list_all2_induct) (auto simp: rerated_def)
  with ls dec_sub_exact [OF assms(1) d] r show ?thesis by simp
qed

theorem simulation_is_faithful_witness:
  "\<exists>r. simulate_rerate exact_deps [text_usage 1, text_usage 2] (demo_card Standard)
         ((demo_card Standard)\<lparr>card_margin := 2\<rparr>) (money_new 1 usd) = Some (Inr r) \<and>
       event_count r = 2 \<and> credit_delta r = sum_list (map line_credit_delta (summary_lines r)) \<and>
       credit_delta r = 3"
proof -
  let ?m = "simulate_rerate exact_deps [text_usage 1, text_usage 2] (demo_card Standard)
         ((demo_card Standard)\<lparr>card_margin := 2\<rparr>) (money_new 1 usd)"
  have "map_option (map_sum id credit_delta) ?m = Some (Inr 3)" by code_simp
  then obtain r where r: "?m = Some (Inr r)" "credit_delta r = 3"
    by (auto simp only: map_Ok_iff)
  from simulation_is_faithful [OF _ r(1)] r show ?thesis by auto
qed

end
