(* ===== verification/Enforcement.thy ===== *)
theory Enforcement
  imports Backend Pricing_Props
begin

text \<open>
  \<open>crates/meter-enforcement\<close>: price a worst-case estimate and hold it before a call, price the actual
  usage and settle it after, release a failed call. The service is generic over the ledger backend,
  so its definitions take the record of the backend's methods and its lemmas are proved in the
  locale \<open>ledger_backend\<close>; the properties instantiate them with the in-memory ledger.
\<close>

section \<open>The service\<close>

datatype reservation_policy = WorstCase

datatype enforcement_error =
    LedgerFailed ledger_error
  | PricingFailed pricing_error

record settlement =
  settlement_entry :: ledger_entry
  settlement_priced :: priced_usage

record 'l enforcement_service =
  svc_ledger :: "'l ledger_ops"
  svc_credit_value :: money

text \<open>The ledger's \<open>?\<close>: its state is kept, its error is wrapped.\<close>

definition from_ledger ::
  "('l, ledger_error, 'a) sres \<Rightarrow> ('a \<Rightarrow> 'b) \<Rightarrow> ('l, enforcement_error, 'b) sres" where
  "from_ledger m f = map_option (\<lambda>(s, r). (s, map_sum LedgerFailed f r)) m"

definition enf_reserve_usage ::
  "deps \<Rightarrow> 'l enforcement_service \<Rightarrow> 'l \<Rightarrow> account_id \<Rightarrow> reservation_id \<Rightarrow> usage \<Rightarrow> rate_card \<Rightarrow>
     limit_class \<Rightarrow> run_id option \<Rightarrow> ('l, enforcement_error, reserve_outcome) sres" where
  "enf_reserve_usage D svc s account reservation estimate rc lc run =
     (case price_usage D estimate rc (svc_credit_value svc) of
        None \<Rightarrow> None
      | Some (Inl e) \<Rightarrow> Some (s, Inl (PricingFailed e))
      | Some (Inr priced) \<Rightarrow>
          from_ledger (be_reserve (svc_ledger svc) s
            \<lparr>rsv_account = account, rsv_reservation_id = reservation, rsv_amount = credits priced,
             rsv_limit = lc, rsv_expires_at = None, rsv_run_id = run\<rparr>) id)"

definition enf_settle_usage ::
  "deps \<Rightarrow> env \<Rightarrow> 'l enforcement_service \<Rightarrow> 'l \<Rightarrow> reservation_id \<Rightarrow> usage \<Rightarrow> rate_card
     \<Rightarrow> ('l, enforcement_error, settlement) sres" where
  "enf_settle_usage D E svc s reservation actual rc =
     (case price_usage D actual rc (svc_credit_value svc) of
        None \<Rightarrow> None
      | Some (Inl e) \<Rightarrow> Some (s, Inl (PricingFailed e))
      | Some (Inr priced) \<Rightarrow>
          from_ledger (be_settle (svc_ledger svc) E s
            \<lparr>settle_reservation_id = reservation, settle_actual = credits priced\<rparr>)
            (\<lambda>entry. \<lparr>settlement_entry = entry, settlement_priced = priced\<rparr>))"

definition enf_void ::
  "'l enforcement_service \<Rightarrow> 'l \<Rightarrow> reservation_id \<Rightarrow> ('l, enforcement_error, unit) sres" where
  "enf_void svc s reservation = from_ledger (be_void (svc_ledger svc) s reservation) id"

section \<open>Correctness over any backend\<close>

lemma from_ledger_Ok:
  "from_ledger m f = Some (s, Inr y) \<longleftrightarrow> (\<exists>x. m = Some (s, Inr x) \<and> y = f x)"
  by (cases m; cases "snd (the m)") (auto simp: from_ledger_def)

lemma from_ledger_Err:
  "from_ledger m f = Some (s, Inl err) \<longleftrightarrow> (\<exists>e. m = Some (s, Inl e) \<and> err = LedgerFailed e)"
  by (cases m; cases "snd (the m)") (auto simp: from_ledger_def)

lemma enf_reserve_Ok:
  "enf_reserve_usage D svc s a r u rc lc run = Some (s', Inr out) \<longleftrightarrow>
     (\<exists>p. price_usage D u rc (svc_credit_value svc) = Some (Inr p) \<and>
        be_reserve (svc_ledger svc) s \<lparr>rsv_account = a, rsv_reservation_id = r, rsv_amount = credits p,
          rsv_limit = lc, rsv_expires_at = None, rsv_run_id = run\<rparr> = Some (s', Inr out))"
  by (auto simp: enf_reserve_usage_def from_ledger_Ok split: option.splits sum.splits)

lemma enf_settle_Ok:
  "enf_settle_usage D E svc s r u rc = Some (s', Inr st) \<longleftrightarrow>
     (\<exists>p. price_usage D u rc (svc_credit_value svc) = Some (Inr p) \<and> settlement_priced st = p \<and>
        be_settle (svc_ledger svc) E s \<lparr>settle_reservation_id = r, settle_actual = credits p\<rparr>
          = Some (s', Inr (settlement_entry st)))"
proof -
  have "st = \<lparr>settlement_entry = x, settlement_priced = p\<rparr> \<longleftrightarrow>
      settlement_entry st = x \<and> settlement_priced st = p" for x p
    by (cases st) auto
  then show ?thesis
    by (auto simp: enf_settle_usage_def from_ledger_Ok split: option.splits sum.splits)
qed

context ledger_backend
begin

lemma hard_reservation:
  assumes "exact_sums D" and "svc_ledger svc = L" and "hold_at s r = None"
    and "enf_reserve_usage D svc s a r u rc Hard run = Some (s', Inr out)"
  shows "\<exists>p. price_usage D u rc (svc_credit_value svc) = Some (Inr p) \<and>
    (out = Allowed r \<and> credits p \<le> avail s a \<and> avail s' a = avail s a - credits p \<and> 0 \<le> avail s' a \<or>
     out = Denied (avail s a) (credits p) \<and> avail s a < credits p \<and> s' = s)"
proof -
  from assms(4) obtain p where p: "price_usage D u rc (svc_credit_value svc) = Some (Inr p)"
    and b: "be_reserve L s \<lparr>rsv_account = a, rsv_reservation_id = r, rsv_amount = credits p,
          rsv_limit = Hard, rsv_expires_at = None, rsv_run_id = run\<rparr> = Some (s', Inr out)"
    by (auto simp: enf_reserve_Ok assms(2))
  show ?thesis
  proof (cases out)
    case (Allowed r')
    with reserve_allowed [OF assms(1) _ b [unfolded Allowed]] assms(3) p show ?thesis by auto
  next
    case (Denied f m)
    with reserve_denied [OF assms(1) b [unfolded Denied]] p show ?thesis by auto
  qed
qed

lemma settlement_charges_price:
  assumes "exact_sums D" and "svc_ledger svc = L" and "good s" "unused s (new_v7 E 0)"
    and "hold_at s r = Some h" and "hold_status h = Open" and "hold_account h \<noteq> SYSTEM_ACCOUNT"
    and "enf_settle_usage D E svc s r u rc = Some (s', Inr st)"
  shows "delta_credits (settlement_entry st) = - credits (settlement_priced st) \<and>
    avail s' (hold_account h) =
      avail s (hold_account h) + hold_amount h - credits (settlement_priced st)"
  using settle_posts [OF assms(1,3,4), of "\<lparr>settle_reservation_id = r,
     settle_actual = credits (settlement_priced st)\<rparr>" h s'] assms(2,5-)
  by (auto simp: enf_settle_Ok)

lemma settlement_again:
  assumes "exact_sums D" and "svc_ledger svc = L" and "good s" "unused s (new_v7 E 0)"
    and "enf_settle_usage D E svc s r u rc = Some (s1, Inr st)"
    and "price_usage D u' rc' (svc_credit_value svc) = Some (Inr p')" and "0 \<le> credits p'"
  shows "enf_settle_usage D E' svc s1 r u' rc' =
    Some (s1, Inr \<lparr>settlement_entry = settlement_entry st, settlement_priced = p'\<rparr>)"
  using settle_again [OF assms(1,3,4), of "\<lparr>settle_reservation_id = r,
      settle_actual = credits (settlement_priced st)\<rparr>" s1 "settlement_entry st"
      "\<lparr>settle_reservation_id = r, settle_actual = credits p'\<rparr>" E'] assms(2,5-)
  by (auto simp: enf_settle_Ok)

end

section \<open>The service over the in-memory ledger\<close>

definition memory_service :: "deps \<Rightarrow> money \<Rightarrow> state enforcement_service" where
  "memory_service D v = \<lparr>svc_ledger = memory_ops D, svc_credit_value = v\<rparr>"

lemma memory_service_sel [simp]:
  "svc_ledger (memory_service D v) = memory_ops D" "svc_credit_value (memory_service D v) = v"
  by (simp_all add: memory_service_def)

text \<open>
  C22. A hard limit cannot overdraft. Under a hard limit and for a reservation id not used before,
  \<open>reserve_usage\<close> either holds exactly the priced
  credits of the estimate, and only when they are available, so what remains available is not
  negative, or denies the call, reports the shortfall and changes nothing.
\<close>

theorem hard_limit_holds:
  assumes "exact_sums D" and "map_of (holds s) r = None"
    and "enf_reserve_usage D (memory_service D v) s a r u rc Hard run = Some (s', Inr out)"
  shows "\<exists>p. price_usage D u rc v = Some (Inr p) \<and>
    (out = Allowed r \<and> credits p \<le> available_of s a \<and>
       available_of s' a = available_of s a - credits p \<and> 0 \<le> available_of s' a \<or>
     out = Denied (available_of s a) (credits p) \<and> available_of s a < credits p \<and> s' = s)"
  using memory.hard_reservation [OF assms(1) _ assms(2), of "memory_service D v" a u rc run s' out] assms(3)
  by simp

theorem hard_limit_holds_witness:
  "\<exists>s' out. enf_reserve_usage exact_deps (memory_service exact_deps (money_new 1 usd)) demo_spent demo_wallet
       (ReservationId 5) (text_usage 10) (demo_card Standard) Hard None = Some (s', Inr out) \<and>
     available_of s' demo_wallet = 10"
proof -
  let ?m = "enf_reserve_usage exact_deps (memory_service exact_deps (money_new 1 usd)) demo_spent demo_wallet
       (ReservationId 5) (text_usage 10) (demo_card Standard) Hard None"
  have "map_option (isl \<circ> snd) ?m = Some False" by code_simp
  then obtain s' out where m: "?m = Some (s', Inr out)" by (auto dest!: replied_Ok simp del: map_option_eq_Some)
  have p: "map_option (map_sum id credits)
      (price_usage exact_deps (text_usage 10) (demo_card Standard) (money_new 1 usd)) = Some (Inr 30)"
    "available_of demo_spent demo_wallet = 40" "map_of (holds demo_spent) (ReservationId 5) = None"
    by code_simp+
  from p(1) obtain q where
    q: "price_usage exact_deps (text_usage 10) (demo_card Standard) (money_new 1 usd) = Some (Inr q)"
       "30 = credits q" by (auto simp only: map_Ok_iff)
  from hard_limit_holds [OF _ p(3) m] p(2) q m show ?thesis by auto
qed

text \<open>
  A settlement charges the price of the actual usage. Settling an open reservation posts exactly the
  credits the actual usage prices to, and returns the rest of the hold to the account. Settling
  the reservation again, with any usage that prices, returns the same entry and posts nothing.
\<close>

theorem settlement_is_exact:
  assumes "exact_sums D" and "ledger_inv s" and "fresh E s" and "map_of (holds s) r = Some h"
    and "hold_status h = Open" and "hold_account h \<noteq> SYSTEM_ACCOUNT"
    and "enf_settle_usage D E (memory_service D v) s r u rc = Some (s1, Inr st)"
    and "price_usage D u' rc' v = Some (Inr p')" and "0 \<le> credits p'"
  shows "delta_credits (settlement_entry st) = - credits (settlement_priced st) \<and>
    available_of s1 (hold_account h) =
      available_of s (hold_account h) + hold_amount h - credits (settlement_priced st) \<and>
    enf_settle_usage D E' (memory_service D v) s1 r u' rc' =
      Some (s1, Inr \<lparr>settlement_entry = settlement_entry st, settlement_priced = p'\<rparr>)"
proof -
  have svc: "svc_ledger (memory_service D v) = memory_ops D" and un: "unused_id s (new_v7 E 0)"
    and p': "price_usage D u' rc' (svc_credit_value (memory_service D v)) = Some (Inr p')"
    using fresh_unused [OF assms(3)] assms(8) by simp_all
  from memory.settlement_charges_price [OF assms(1) svc assms(2) un assms(4-7)]
    memory.settlement_again [OF assms(1) svc assms(2) un assms(7) p' assms(9)] show ?thesis by blast
qed

theorem settlement_is_exact_witness:
  "\<exists>s1 st. enf_settle_usage exact_deps (demo_env 6) (memory_service exact_deps (money_new 1 usd)) demo_spent
       (ReservationId 2) (text_usage 2) (demo_card Standard) = Some (s1, Inr st) \<and>
     delta_credits (settlement_entry st) = - 6 \<and> available_of s1 demo_wallet = 44"
proof -
  let ?m = "enf_settle_usage exact_deps (demo_env 6) (memory_service exact_deps (money_new 1 usd)) demo_spent
       (ReservationId 2) (text_usage 2) (demo_card Standard)"
  have "map_option (\<lambda>x. map_sum id (\<lambda>x. credits (settlement_priced x)) (snd x)) ?m = Some (Inr 6)"
    by code_simp
  then obtain s1 st where m: "?m = Some (s1, Inr st)" "credits (settlement_priced st) = 6"
    by (auto simp only: map_reply_Ok_iff)
  have f: "hold_status (demo_hold 10) = Open" "hold_account (demo_hold 10) = demo_wallet"
    "hold_account (demo_hold 10) \<noteq> SYSTEM_ACCOUNT" "hold_amount (demo_hold 10) = 10"
    "available_of demo_spent demo_wallet = 40" by code_simp+
  have h: "map_of (holds demo_spent) (ReservationId 2) = Some (demo_hold 10)" by (simp add: demo_spent_def)
  have "map_option (map_sum id credits)
      (price_usage exact_deps (text_usage 2) (demo_card Standard) (money_new 1 usd)) = Some (Inr 6)"
    by code_simp
  then obtain p where p: "price_usage exact_deps (text_usage 2) (demo_card Standard) (money_new 1 usd) =
      Some (Inr p)" and c: "6 = credits p" by (auto simp only: map_Ok_iff)
  have pos: "0 \<le> credits p" using c by simp
  from settlement_is_exact [OF _ demo_inv(2) demo_fresh(1) h f(1,3) m(1) p pos] m f show ?thesis by auto
qed

end
