(* ===== verification/Rate_Cards.thy ===== *)
theory Rate_Cards
  imports Pricing_Props
begin

text \<open>
  \<open>crates/meter-ratecards\<close>: the curated catalog of provider prices (USD per token), the rate card
  built from an entry, and the lookup by model id. A decimal literal is its value as a fraction.
  The fresh card id comes from the surroundings of the call.
\<close>

section \<open>The catalog\<close>

record model_catalog_entry =
  provider :: string
  model_id :: string
  input_per_token :: rat
  cache_read_per_token :: rat
  cache_write_per_token :: rat
  output_per_token :: rat

definition token_component :: "pricing_dimension \<Rightarrow> rat \<Rightarrow> price_component" where
  "token_component dmn price = \<lparr>comp_dimension = dmn, comp_modality = Text,
     comp_context_tier = StandardTier, comp_unit = Token, charge_model = Standard,
     comp_unit_price = money_new price (Currency ''USD'')\<rparr>"

definition provider_cost_card :: "env \<Rightarrow> model_catalog_entry \<Rightarrow> rate_card option" where
  "provider_cost_card E e = (case currency_new ''USD'' of
      Inl _ \<Rightarrow> None
    | Inr c \<Rightarrow> Some \<lparr>card_id = Id (new_v7 E 0), card_kind = ProviderCost, card_currency = c,
        version = 1, card_margin = margin_none,
        components =
          [token_component InputUncached (input_per_token e),
           token_component CacheRead (cache_read_per_token e),
           token_component CacheWrite (cache_write_per_token e),
           token_component Output (output_per_token e)]\<rparr>)"

definition catalog :: "model_catalog_entry list" where
  "catalog = [
     \<lparr>provider = ''anthropic'', model_id = ''claude-opus-4-8'', input_per_token = 15 / 1000000,
      cache_read_per_token = 15 / 10000000, cache_write_per_token = 1875 / 100000000, output_per_token = 75 / 1000000\<rparr>,
     \<lparr>provider = ''anthropic'', model_id = ''claude-sonnet-4-6'', input_per_token = 3 / 1000000,
      cache_read_per_token = 3 / 10000000, cache_write_per_token = 375 / 100000000, output_per_token = 15 / 1000000\<rparr>,
     \<lparr>provider = ''anthropic'', model_id = ''claude-haiku-4-5'', input_per_token = 1 / 1000000,
      cache_read_per_token = 1 / 10000000, cache_write_per_token = 125 / 100000000, output_per_token = 5 / 1000000\<rparr>,
     \<lparr>provider = ''openai'', model_id = ''gpt-5'', input_per_token = 125 / 100000000,
      cache_read_per_token = 125 / 1000000000, cache_write_per_token = 125 / 100000000, output_per_token = 1 / 100000\<rparr>,
     \<lparr>provider = ''openai'', model_id = ''gpt-5-mini'', input_per_token = 25 / 100000000,
      cache_read_per_token = 25 / 1000000000, cache_write_per_token = 25 / 100000000, output_per_token = 2 / 1000000\<rparr>,
     \<lparr>provider = ''google'', model_id = ''gemini-2.5-pro'', input_per_token = 125 / 100000000,
      cache_read_per_token = 31 / 100000000, cache_write_per_token = 125 / 100000000, output_per_token = 1 / 100000\<rparr>,
     \<lparr>provider = ''google'', model_id = ''gemini-2.5-flash'', input_per_token = 3 / 10000000,
      cache_read_per_token = 75 / 1000000000, cache_write_per_token = 3 / 10000000, output_per_token = 25 / 10000000\<rparr>,
     \<lparr>provider = ''deepseek'', model_id = ''deepseek-chat'', input_per_token = 27 / 100000000,
      cache_read_per_token = 7 / 100000000, cache_write_per_token = 27 / 100000000, output_per_token = 11 / 10000000\<rparr>,
     \<lparr>provider = ''deepseek'', model_id = ''deepseek-reasoner'', input_per_token = 55 / 100000000,
      cache_read_per_token = 14 / 100000000, cache_write_per_token = 55 / 100000000, output_per_token = 219 / 100000000\<rparr>,
     \<lparr>provider = ''alibaba'', model_id = ''qwen-max'', input_per_token = 16 / 10000000,
      cache_read_per_token = 16 / 10000000, cache_write_per_token = 16 / 10000000, output_per_token = 64 / 10000000\<rparr>,
     \<lparr>provider = ''alibaba'', model_id = ''qwen-plus'', input_per_token = 4 / 10000000,
      cache_read_per_token = 4 / 10000000, cache_write_per_token = 4 / 10000000, output_per_token = 12 / 10000000\<rparr>]"

definition find_model :: "string \<Rightarrow> model_catalog_entry option" where
  "find_model m = List.find (\<lambda>e. model_id e = m) catalog"

text \<open>\<open>rate_card_for\<close>: the outer option is the panic of \<open>expect\<close>, the inner one an unknown model.\<close>

definition rate_card_for :: "env \<Rightarrow> string \<Rightarrow> rate_card option option" where
  "rate_card_for E m = (case find_model m of
      None \<Rightarrow> Some None
    | Some e \<Rightarrow> map_option Some (provider_cost_card E e))"

section \<open>Every catalog entry prices\<close>

lemma provider_cost_card_eq:
  "provider_cost_card E e = Some \<lparr>card_id = Id (new_v7 E 0), card_kind = ProviderCost,
     card_currency = usd, version = 1, card_margin = 1,
     components = [token_component InputUncached (input_per_token e),
       token_component CacheRead (cache_read_per_token e),
       token_component CacheWrite (cache_write_per_token e),
       token_component Output (output_per_token e)]\<rparr>"
proof -
  have "currency_new ''USD'' = Inr usd" by code_simp
  then show ?thesis by (simp add: provider_cost_card_def margin_none_def)
qed

definition token_usage :: "rat \<Rightarrow> rat \<Rightarrow> rat \<Rightarrow> rat \<Rightarrow> usage" where
  "token_usage i r w out = \<lparr>usage_modality = Text, usage_context_tier = StandardTier,
     quantities = [(InputUncached, i), (CacheRead, r), (CacheWrite, w), (Output, out)]\<rparr>"

lemma catalog_prices_nonneg:
  "list_all (\<lambda>e. 0 \<le> input_per_token e \<and> 0 \<le> cache_read_per_token e \<and>
     0 \<le> cache_write_per_token e \<and> 0 \<le> output_per_token e) catalog"
  by code_simp

lemma catalog_models_distinct: "distinct (map model_id catalog)"
  by code_simp

text \<open>
  The catalog is sound. Every catalog entry is found under its own model id, its card is built without
  a panic and passes validation, and pricing input, cache and output tokens with it costs exactly
  the four quantities times their per-token prices.
\<close>

theorem catalog_is_sound:
  assumes "exact_arith D" and "e \<in> set catalog" and "0 \<le> i" "0 \<le> r" "0 \<le> w" "0 \<le> out"
  shows "\<exists>rc. rate_card_for E (model_id e) = Some (Some rc) \<and> card_validate rc = Inr () \<and>
     cost D (token_usage i r w out) rc = Some (Inr (money_new
       (input_per_token e * i + cache_read_per_token e * r + cache_write_per_token e * w +
        output_per_token e * out) usd))"
proof -
  have "find_model (model_id e) = Some e"
    using find_unique [OF catalog_models_distinct assms(2)] by (simp add: find_model_def)
  moreover have "0 \<le> input_per_token e \<and> 0 \<le> cache_read_per_token e \<and>
     0 \<le> cache_write_per_token e \<and> 0 \<le> output_per_token e"
    using catalog_prices_nonneg assms(2) by (auto simp: list_all_iff)
  moreover have "max x 0 = x" if "0 \<le> x" for x :: rat using that by (simp add: max_def)
  ultimately show ?thesis using assms(3-)
    by (simp add: rate_card_for_def provider_cost_card_eq card_validate_def token_component_def
          comp_validate_def comp_cell_def cost_def token_usage_def card_component_def comp_matches_def
          comp_charge_def money_scale_by_def try_add_def ensure_same_currency_def usd_def
          exact_arith_ops [OF assms(1)])
qed

theorem catalog_is_sound_witness:
  "\<exists>rc. rate_card_for \<lparr>new_v7 = (\<lambda>_. 5), now_utc = (\<lambda>_. 0)\<rparr> ''gpt-5'' = Some (Some rc) \<and>
     cost exact_deps (token_usage 1000 0 0 200) rc = Some (Inr (money_new (13 / 4000) usd))"
proof -
  let ?e = "\<lparr>provider = ''openai'', model_id = ''gpt-5'', input_per_token = 125 / 100000000,
      cache_read_per_token = 125 / 1000000000, cache_write_per_token = 125 / 100000000,
      output_per_token = 1 / 100000\<rparr>"
  have "?e \<in> set catalog" by code_simp
  from catalog_is_sound [OF exact_deps_arith this, of 1000 0 0 200 "\<lparr>new_v7 = (\<lambda>_. 5), now_utc = (\<lambda>_. 0)\<rparr>"]
  show ?thesis by auto
qed

end
