(* ===== verification/Events.thy ===== *)
theory Events
  imports Core
begin

text \<open>
  \<open>crates/meter-event\<close>: usage events, the requests that record and amend them, the content-addressed
  identifiers, and the in-memory event store, the oracle of the \<open>EventStore\<close> trait. The store is the
  list of event versions in insertion order; its mutex makes each method one atomic step.

  \<open>event_step\<close> is the abstract life of a store: versions are appended under fresh ids and only their
  status moves, from recorded to amended or voided. Every method is a run of such steps.
\<close>

section \<open>The event model\<close>

datatype json =
    JNull | JBool bool | JNumber rat | JString string | JArray "json list" | JObject "(string \<times> json) list"

datatype event_status = Recorded | Amended | VoidedEvent

record event =
  event_id :: event_id
  event_org_id :: org_id
  event_idempotency_key :: string
  event_time :: time
  meter :: string
  event_account_id :: account_id
  event_run_id :: "run_id option"
  properties :: json
  event_status :: event_status
  supersedes :: "event_id option"
  event_created_at :: time

datatype event_error =
    EventNotFound event_id
  | EventVoided event_id
  | EventBackend string

record record_event =
  rec_org_id :: org_id
  rec_idempotency_key :: string
  rec_event_time :: time
  rec_meter :: string
  rec_account_id :: account_id
  rec_run_id :: "run_id option"
  rec_properties :: json

record amend_event =
  amend_event_id :: event_id
  amend_properties :: json
  amend_idempotency_key :: "string option"

definition idempotent_event_id :: "deps \<Rightarrow> org_id \<Rightarrow> string \<Rightarrow> event_id" where
  "idempotent_event_id D org key = deterministic D (as_uuid org) key"

definition into_event :: "deps \<Rightarrow> time \<Rightarrow> record_event \<Rightarrow> event" where
  "into_event D now req = \<lparr>
     event_id = idempotent_event_id D (rec_org_id req) (rec_idempotency_key req),
     event_org_id = rec_org_id req, event_idempotency_key = rec_idempotency_key req,
     event_time = rec_event_time req, meter = rec_meter req, event_account_id = rec_account_id req,
     event_run_id = rec_run_id req, properties = rec_properties req, event_status = Recorded,
     supersedes = None, event_created_at = now\<rparr>"

definition into_amended_event :: "deps \<Rightarrow> env \<Rightarrow> amend_event \<Rightarrow> event \<Rightarrow> event" where
  "into_amended_event D E req original =
     (let amend_key = event_idempotency_key original @ ''::amend::'' @
            (case amend_idempotency_key req of Some key \<Rightarrow> key | None \<Rightarrow> uuid_str D (new_v7 E 0))
      in \<lparr>event_id = idempotent_event_id D (event_org_id original) amend_key,
          event_org_id = event_org_id original, event_idempotency_key = amend_key,
          event_time = event_time original, meter = meter original,
          event_account_id = event_account_id original, event_run_id = event_run_id original,
          properties = amend_properties req, event_status = Recorded,
          supersedes = Some (event_id original), event_created_at = now_utc E 0\<rparr>)"

section \<open>The in-memory store\<close>

type_synonym event_store = "event list"

definition find_event :: "event_store \<Rightarrow> event_id \<Rightarrow> event option" where
  "find_event es i = List.find (\<lambda>e. event_id e = i) es"

definition record_locked :: "deps \<Rightarrow> time \<Rightarrow> event_store \<Rightarrow> record_event \<Rightarrow> event_store \<times> event" where
  "record_locked D now es req =
     (let e = into_event D now req in
      case find_event es (event_id e) of
        Some existing \<Rightarrow> (es, existing)
      | None \<Rightarrow> (es @ [e], e))"

definition record_one :: "deps \<Rightarrow> env \<Rightarrow> event_store \<Rightarrow> record_event \<Rightarrow> event_store \<times> (event_error + event)"
where
  "record_one D E es req = (case record_locked D (now_utc E 0) es req of (es', e) \<Rightarrow> (es', Inr e))"

fun record_all :: "deps \<Rightarrow> env \<Rightarrow> nat \<Rightarrow> event_store \<Rightarrow> record_event list \<Rightarrow> event_store \<times> event list" where
  "record_all D E n es [] = (es, [])"
| "record_all D E n es (req # reqs) =
     (case record_locked D (now_utc E n) es req of (es1, e) \<Rightarrow>
      case record_all D E (Suc n) es1 reqs of (es2, out) \<Rightarrow> (es2, e # out))"

definition record_batch ::
  "deps \<Rightarrow> env \<Rightarrow> event_store \<Rightarrow> record_event list \<Rightarrow> event_store \<times> (event_error + event list)" where
  "record_batch D E es reqs = (case record_all D E 0 es reqs of (es', out) \<Rightarrow> (es', Inr out))"

definition get_event :: "event_store \<Rightarrow> event_id \<Rightarrow> event_error + event" where
  "get_event es i = (case find_event es i of None \<Rightarrow> Inl (EventNotFound i) | Some e \<Rightarrow> Inr e)"

definition list_for_account :: "event_store \<Rightarrow> account_id \<Rightarrow> event_error + event list" where
  "list_for_account es a =
     Inr (filter (\<lambda>e. event_account_id e = a \<and> event_status e = Recorded) es)"

text \<open>\<open>iter_mut().find(\<dots>)\<close>: only the first version with the id is marked.\<close>

fun mark_amended :: "event_id \<Rightarrow> event_store \<Rightarrow> event_store" where
  "mark_amended i [] = []"
| "mark_amended i (e # es) =
     (if event_id e = i then e\<lparr>event_status := Amended\<rparr> # es else e # mark_amended i es)"

definition amend ::
  "deps \<Rightarrow> env \<Rightarrow> event_store \<Rightarrow> amend_event \<Rightarrow> event_store \<times> (event_error + event)" where
  "amend D E es req = (case find_event es (amend_event_id req) of
      None \<Rightarrow> (es, Inl (EventNotFound (amend_event_id req)))
    | Some original \<Rightarrow>
        if event_status original = VoidedEvent then (es, Inl (EventVoided (amend_event_id req)))
        else let amended = into_amended_event D E req original in
          case find_event es (event_id amended) of
            Some existing \<Rightarrow> (es, Inr existing)
          | None \<Rightarrow> (mark_amended (event_id original) es @ [amended], Inr amended))"

definition live_in_run :: "run_id \<Rightarrow> event \<Rightarrow> bool" where
  "live_in_run run e = (event_run_id e = Some run \<and> event_status e = Recorded)"

definition event_void_run :: "event_store \<Rightarrow> run_id \<Rightarrow> event_store \<times> (event_error + nat)" where
  "event_void_run es run =
     (map (\<lambda>e. if live_in_run run e then e\<lparr>event_status := VoidedEvent\<rparr> else e) es,
      Inr (length (filter (live_in_run run) es)))"

section \<open>The abstract life of a store\<close>

datatype event_label = LAppend event | LAmend event_id | LVoid event_id

inductive event_step :: "event_store \<Rightarrow> event_label \<Rightarrow> event_store \<Rightarrow> bool" where
  e_append: "event_id e \<notin> event_id ` set es \<Longrightarrow> event_status e = Recorded \<Longrightarrow>
     event_step es (LAppend e) (es @ [e])"
| e_amend: "event_status e \<noteq> VoidedEvent \<Longrightarrow>
     event_step (pre @ e # post) (LAmend (event_id e)) (pre @ e\<lparr>event_status := Amended\<rparr> # post)"
| e_void: "event_status e = Recorded \<Longrightarrow>
     event_step (pre @ e # post) (LVoid (event_id e)) (pre @ e\<lparr>event_status := VoidedEvent\<rparr> # post)"

inductive event_trace :: "event_store \<Rightarrow> event_label list \<Rightarrow> event_store \<Rightarrow> bool" where
  et_nil: "event_trace es [] es"
| et_cons: "event_step es l es' \<Longrightarrow> event_trace es' ls es'' \<Longrightarrow> event_trace es (l # ls) es''"

inductive_simps event_trace_Nil [simp]: "event_trace es [] es'"

lemma event_trace_single: "event_step es l es' \<Longrightarrow> event_trace es [l] es'"
  by (blast intro: event_trace.intros)

lemma event_trace_append:
  "event_trace es ls es' \<Longrightarrow> event_trace es' ms es'' \<Longrightarrow> event_trace es (ls @ ms) es''"
  by (induction rule: event_trace.induct) (auto intro: event_trace.intros)

definition event_reach :: "event_store \<Rightarrow> event_store \<Rightarrow> bool" where
  "event_reach es es' \<longleftrightarrow> (\<exists>ls. event_trace es ls es')"

lemma event_reach_refl [simp, intro]: "event_reach es es"
  unfolding event_reach_def by (intro exI [of _ "[]"]) simp

lemma event_reach_step: "event_step es l es' \<Longrightarrow> event_reach es es'"
  unfolding event_reach_def by (blast intro: event_trace_single)

lemma event_reach_trans: "event_reach es es' \<Longrightarrow> event_reach es' es'' \<Longrightarrow> event_reach es es''"
  unfolding event_reach_def by (blast intro: event_trace_append)

text \<open>An event is fixed once recorded, except for its status, and a voided event stays voided.\<close>

definition event_evolves :: "event \<Rightarrow> event \<Rightarrow> bool" where
  "event_evolves e e' \<longleftrightarrow> e' = e\<lparr>event_status := event_status e'\<rparr> \<and>
     (event_status e = VoidedEvent \<longrightarrow> event_status e' = VoidedEvent) \<and>
     (event_status e = Amended \<longrightarrow> event_status e' = Amended)"

lemma event_evolves_refl: "event_evolves e e"
  by (simp add: event_evolves_def)

lemma event_evolves_trans: "event_evolves e e' \<Longrightarrow> event_evolves e' e'' \<Longrightarrow> event_evolves e e''"
  unfolding event_evolves_def by (metis event.update_convs(9) event.surjective)

lemma event_evolves_all_refl: "list_all2 event_evolves es es"
  by (induction es) (simp_all add: event_evolves_refl)

lemma event_step_evolves:
  assumes "event_step es l es'"
  shows "\<exists>old new. es' = old @ new \<and> list_all2 event_evolves es old \<and>
           (\<forall>e \<in> set new. event_id e \<notin> event_id ` set es)"
  using assms
proof (cases rule: event_step.cases)
  case (e_append e)
  then show ?thesis using event_evolves_all_refl by (intro exI [of _ es] exI [of _ "[e]"]) auto
next
  case (e_amend e pre post)
  then have "list_all2 event_evolves es es'"
    by (auto simp: event_evolves_def event_evolves_all_refl intro!: list_all2_appendI)
  then show ?thesis by (intro exI [of _ es'] exI [of _ "[]"]) simp
next
  case (e_void e pre post)
  then have "list_all2 event_evolves es es'"
    by (auto simp: event_evolves_def event_evolves_all_refl intro!: list_all2_appendI)
  then show ?thesis by (intro exI [of _ es'] exI [of _ "[]"]) simp
qed

lemma event_evolves_ids: "list_all2 event_evolves es es' \<Longrightarrow> map event_id es' = map event_id es"
  by (induction rule: list_all2_induct) (auto simp: event_evolves_def, metis event.select_convs(1) event.update_convs(9) event.surjective)

end
