(* ===== verification/Events_Props.thy ===== *)
theory Events_Props
  imports Events
begin

text \<open>
  The event store's guarantees: every method is a run of the abstract steps, versions are immutable
  apart from their status, ids are unique, a superseded version is never live, recording is
  idempotent on its key, and voiding a run leaves no live event of the run.
\<close>

section \<open>Methods as runs of steps\<close>

datatype event_request =
    ERecord record_event
  | EBatch "record_event list"
  | EAmend amend_event
  | EVoidRun run_id

fun event_exec :: "deps \<Rightarrow> env \<Rightarrow> event_store \<Rightarrow> event_request \<Rightarrow> event_store" where
  "event_exec D E es (ERecord q) = fst (record_one D E es q)"
| "event_exec D E es (EBatch qs) = fst (record_batch D E es qs)"
| "event_exec D E es (EAmend q) = fst (amend D E es q)"
| "event_exec D E es (EVoidRun run) = fst (event_void_run es run)"

fun event_play :: "deps \<Rightarrow> event_store \<Rightarrow> (env \<times> event_request) list \<Rightarrow> event_store" where
  "event_play D es [] = es"
| "event_play D es ((E, q) # qs) = event_play D (event_exec D E es q) qs"

lemma find_event_None: "find_event es i = None \<longleftrightarrow> i \<notin> event_id ` set es"
  unfolding find_event_def find_None_iff_all by blast

lemma find_event_Some: "find_event es i = Some e \<Longrightarrow> e \<in> set es \<and> event_id e = i"
  by (auto simp: find_event_def dest: find_SomeD)

lemma into_event_status [simp]:
  "event_status (into_event D now q) = Recorded"
  "event_status (into_amended_event D E r e) = Recorded"
  "supersedes (into_event D now q) = None"
  "supersedes (into_amended_event D E r e) = Some (event_id e)"
  by (simp_all add: into_event_def into_amended_event_def Let_def)

lemma record_locked_cases:
  obtains (existing) e where "find_event es (idempotent_event_id D (rec_org_id q) (rec_idempotency_key q)) = Some e"
      "record_locked D now es q = (es, e)"
  | (fresh) "find_event es (idempotent_event_id D (rec_org_id q) (rec_idempotency_key q)) = None"
      "record_locked D now es q = (es @ [into_event D now q], into_event D now q)"
proof -
  have "event_id (into_event D now q) = idempotent_event_id D (rec_org_id q) (rec_idempotency_key q)"
    by (simp add: into_event_def)
  then show ?thesis using that by (cases "find_event es (event_id (into_event D now q))")
      (auto simp: record_locked_def Let_def)
qed

lemma record_locked_reach: "event_reach es (fst (record_locked D now es q))"
proof (cases rule: record_locked_cases [of es D q now])
  case existing
  then show ?thesis by simp
next
  case fresh
  then have "event_step es (LAppend (into_event D now q)) (es @ [into_event D now q])"
    by (intro e_append) (auto simp: find_event_None into_event_def)
  then show ?thesis using fresh by (auto intro: event_reach_step)
qed

lemma record_all_reach: "event_reach es (fst (record_all D E n es qs))"
proof (induction qs arbitrary: n es)
  case (Cons q qs)
  obtain es1 e where r: "record_locked D (now_utc E n) es q = (es1, e)"
    by (cases "record_locked D (now_utc E n) es q")
  have "event_reach es es1" using record_locked_reach [of es D "now_utc E n" q] r by simp
  from event_reach_trans [OF this Cons.IH] r show ?case
    by (metis (no_types, lifting) case_prod_unfold fst_conv record_all.simps(2))
qed simp

lemma mark_amended_split:
  "find_event es i = Some e \<Longrightarrow>
     \<exists>pre post. es = pre @ e # post \<and> mark_amended i es = pre @ e\<lparr>event_status := Amended\<rparr> # post"
proof (induction es)
  case (Cons x es)
  show ?case
  proof (cases "event_id x = i")
    case True
    with Cons.prems show ?thesis by (intro exI [of _ "[]"] exI [of _ es]) (simp add: find_event_def)
  next
    case False
    with Cons.prems have "find_event es i = Some e" by (simp add: find_event_def)
    from Cons.IH [OF this] obtain pre post where
      "es = pre @ e # post" "mark_amended i es = pre @ e\<lparr>event_status := Amended\<rparr> # post" by blast
    with False show ?thesis by (intro exI [of _ "x # pre"] exI [of _ post]) simp
  qed
qed (simp add: find_event_def)

lemma amend_cases:
  obtains (refused) "fst (amend D E es q) = es"
  | (amended) e pre post where "find_event es (amend_event_id q) = Some e" "event_status e \<noteq> VoidedEvent"
      "es = pre @ e # post" "event_id (into_amended_event D E q e) \<notin> event_id ` set es"
      "amend D E es q = (pre @ e\<lparr>event_status := Amended\<rparr> # post @ [into_amended_event D E q e],
         Inr (into_amended_event D E q e))"
proof (cases "find_event es (amend_event_id q)")
  case None
  then show ?thesis using refused by (simp add: amend_def)
next
  case (Some e)
  then have id: "event_id e = amend_event_id q" by (auto dest: find_event_Some)
  from mark_amended_split [OF Some] obtain pre post where
    m: "es = pre @ e # post" "mark_amended (amend_event_id q) es = pre @ e\<lparr>event_status := Amended\<rparr> # post"
    by blast
  show ?thesis
  proof (cases "event_status e = VoidedEvent \<or> find_event es (event_id (into_amended_event D E q e)) \<noteq> None")
    case True
    then show ?thesis using refused Some by (auto simp: amend_def Let_def)
  next
    case False
    then have new: "find_event es (event_id (into_amended_event D E q e)) = None"
      and st: "event_status e \<noteq> VoidedEvent" by simp_all
    have "amend D E es q = (pre @ e\<lparr>event_status := Amended\<rparr> # post @ [into_amended_event D E q e],
         Inr (into_amended_event D E q e))"
      using Some m(2) id new st by (simp add: amend_def Let_def)
    then show ?thesis by (rule amended [OF Some st m(1) new [unfolded find_event_None]])
  qed
qed

lemma amend_reach: "event_reach es (fst (amend D E es q))"
proof (cases rule: amend_cases [of D E es q])
  case refused
  then show ?thesis by simp
next
  case (amended e pre post)
  let ?mid = "pre @ e\<lparr>event_status := Amended\<rparr> # post"
  have "event_step es (LAmend (event_id e)) ?mid" using amended by (auto intro: e_amend)
  moreover have "event_step ?mid (LAppend (into_amended_event D E q e)) (?mid @ [into_amended_event D E q e])"
    using amended(3,4) by (intro e_append) auto
  ultimately have "event_reach es (?mid @ [into_amended_event D E q e])"
    by (blast intro: event_reach_step event_reach_trans)
  then show ?thesis using amended(5) by simp
qed

definition void_live :: "run_id \<Rightarrow> event \<Rightarrow> event" where
  "void_live run e = (if live_in_run run e then e\<lparr>event_status := VoidedEvent\<rparr> else e)"

lemma event_void_run_eq:
  "event_void_run es run = (map (void_live run) es, Inr (length (filter (live_in_run run) es)))"
  by (simp add: event_void_run_def void_live_def [abs_def])

lemma void_run_reach_from: "event_reach (pre @ es) (pre @ map (void_live run) es)"
proof (induction es arbitrary: pre)
  case (Cons e es)
  have "event_reach (pre @ e # es) (pre @ void_live run e # es)"
    using e_void [of e pre es] by (auto simp: void_live_def live_in_run_def intro: event_reach_step)
  from event_reach_trans [OF this] Cons.IH [of "pre @ [void_live run e]"] show ?case by simp
qed simp

lemma event_exec_reach: "event_reach es (event_exec D E es q)"
proof (cases q)
  case (ERecord x)
  then show ?thesis using record_locked_reach [of es D "now_utc E 0" x]
    by (simp add: record_one_def case_prod_unfold)
next
  case (EBatch x)
  then show ?thesis using record_all_reach [of es D E 0 x]
    by (simp add: record_batch_def case_prod_unfold)
next
  case (EAmend x)
  then show ?thesis using amend_reach [of es D E x] by simp
next
  case (EVoidRun x)
  then show ?thesis using void_run_reach_from [of "[]" es x] by (simp add: event_void_run_eq)
qed

lemma event_play_reach: "event_reach es (event_play D es qs)"
proof (induction D es qs rule: event_play.induct)
  case (2 D es E q qs)
  from event_reach_trans [OF event_exec_reach 2] show ?case by simp
qed simp

lemma list_all2_evolves_trans:
  "list_all2 event_evolves es es' \<Longrightarrow> list_all2 event_evolves es' es'' \<Longrightarrow> list_all2 event_evolves es es''"
  using list_all2_trans [of event_evolves event_evolves event_evolves] event_evolves_trans by blast

lemma event_trace_evolves:
  "event_trace es ls es' \<Longrightarrow> \<exists>old new. es' = old @ new \<and> list_all2 event_evolves es old"
proof (induction rule: event_trace.induct)
  case (et_nil es)
  then show ?case using event_evolves_all_refl by (intro exI [of _ es] exI [of _ "[]"]) simp
next
  case (et_cons es l es' ls es'')
  from event_step_evolves [OF et_cons.hyps(1)] obtain o1 n1 where
    1: "es' = o1 @ n1" "list_all2 event_evolves es o1" by blast
  from et_cons.IH obtain o2 n2 where 2: "es'' = o2 @ n2" "list_all2 event_evolves es' o2" by blast
  from 2(2) 1(1) obtain u v where "o2 = u @ v" "list_all2 event_evolves o1 u"
    by (auto simp: list_all2_append1)
  with 1 2 show ?case by (intro exI [of _ u] exI [of _ "v @ n2"]) (auto intro: list_all2_evolves_trans)
qed


lemma event_play_evolves:
  "\<exists>old new. event_play D es qs = old @ new \<and> list_all2 event_evolves es old"
  using event_play_reach event_trace_evolves unfolding event_reach_def by blast

lemma find_event_evolves:
  assumes "list_all2 event_evolves es old" and "find_event es i = Some e"
  shows "\<exists>e'. find_event (old @ new) i = Some e' \<and> event_evolves e e'"
  using assms
proof (induction rule: list_all2_induct)
  case (Cons x xs y ys)
  have "event_id y = event_id x"
    using Cons.hyps(1) by (metis event_evolves_def event.select_convs(1) event.surjective event.update_convs(9))
  with Cons show ?case by (auto simp: find_event_def split: if_splits)
qed (simp add: find_event_def)

section \<open>The invariant\<close>

text \<open>
  Ids are unique; a version that another supersedes is amended, and an amended version is
  superseded by some other.
\<close>

definition event_inv :: "event_store \<Rightarrow> bool" where
  "event_inv es \<longleftrightarrow> distinct (map event_id es) \<and>
     (\<forall>e \<in> set es. \<forall>i. supersedes e = Some i \<longrightarrow>
        (\<exists>x \<in> set es. event_id x = i \<and> event_status x = Amended)) \<and>
     (\<forall>x \<in> set es. event_status x = Amended \<longrightarrow> (\<exists>e \<in> set es. supersedes e = Some (event_id x)))"

lemma event_inv_append:
  "event_inv es \<Longrightarrow> event_id e \<notin> event_id ` set es \<Longrightarrow> supersedes e = None \<Longrightarrow>
     event_status e = Recorded \<Longrightarrow> event_inv (es @ [e])"
  unfolding event_inv_def by auto

lemma record_locked_inv: "event_inv es \<Longrightarrow> event_inv (fst (record_locked D now es q))"
proof (cases rule: record_locked_cases [of es D q now])
  case fresh
  assume "event_inv es"
  with fresh show ?thesis
    by (auto simp: find_event_None into_event_def intro!: event_inv_append)
qed simp

lemma record_all_inv: "event_inv es \<Longrightarrow> event_inv (fst (record_all D E n es qs))"
proof (induction qs arbitrary: n es)
  case (Cons q qs)
  then show ?case using record_locked_inv [OF Cons.prems, of D "now_utc E n" q]
    by (simp add: case_prod_unfold)
qed simp

lemma amend_inv:
  assumes "event_inv es"
  shows "event_inv (fst (amend D E es q))"
proof (cases rule: amend_cases [of D E es q])
  case refused
  then show ?thesis using assms by simp
next
  case (amended e pre post)
  define a where "a = into_amended_event D E q e"
  define e' where "e' = e\<lparr>event_status := Amended\<rparr>"
  let ?es = "pre @ e' # post @ [a]"
  have e': "event_id e' = event_id e" "supersedes e' = supersedes e" "event_status e' = Amended"
    by (simp_all add: e'_def)
  have a: "supersedes a = Some (event_id e)" "event_status a = Recorded" by (simp_all add: a_def)
  have old: "\<And>x. x \<in> set es \<Longrightarrow> x \<noteq> e \<Longrightarrow> x \<in> set ?es" using amended(3) by auto
  have "distinct (map event_id ?es)"
    using assms amended(3,4) by (auto simp: event_inv_def a_def e')
  moreover have "\<exists>y \<in> set ?es. event_id y = i \<and> event_status y = Amended"
    if x: "x \<in> set ?es" "supersedes x = Some i" for x i
  proof (cases "x = a")
    case True
    with x a e' show ?thesis by auto
  next
    case False
    with x(1) amended(3) have "x = e' \<or> x \<in> set es" by auto
    then obtain z where "z \<in> set es" "supersedes z = Some i"
      using x(2) e'(2) amended(3) by (metis in_set_conv_decomp)
    then obtain y where y: "y \<in> set es" "event_id y = i" "event_status y = Amended"
      using assms unfolding event_inv_def by blast
    show ?thesis
    proof (cases "y = e")
      case True
      with y e' show ?thesis by (intro bexI [of _ e']) auto
    next
      case False
      with y old show ?thesis by blast
    qed
  qed
  moreover have "\<exists>y \<in> set ?es. supersedes y = Some (event_id x)"
    if x: "x \<in> set ?es" "event_status x = Amended" for x
  proof (cases "event_id x = event_id e")
    case True
    with a show ?thesis by auto
  next
    case False
    with x a e' amended(3) have "x \<in> set es" by auto
    then obtain y where y: "y \<in> set es" "supersedes y = Some (event_id x)"
      using assms x(2) unfolding event_inv_def by blast
    show ?thesis
    proof (cases "y = e")
      case True
      with y e' show ?thesis by (intro bexI [of _ e']) auto
    next
      case False
      with y old show ?thesis by blast
    qed
  qed
  ultimately show ?thesis using amended(5) unfolding event_inv_def a_def e'_def by simp
qed

lemma void_live_fields [simp]:
  "event_id (void_live run e) = event_id e" "supersedes (void_live run e) = supersedes e"
  "event_status (void_live run e) = Amended \<longleftrightarrow> event_status e = Amended"
  by (auto simp: void_live_def live_in_run_def)

lemma void_run_inv: "event_inv es \<Longrightarrow> event_inv (map (void_live run) es)"
  by (auto simp: event_inv_def comp_def)

lemma event_exec_inv: "event_inv es \<Longrightarrow> event_inv (event_exec D E es q)"
  using record_locked_inv [of es D "now_utc E 0"] record_all_inv [of es D E 0] amend_inv [of es D E]
    void_run_inv [of es]
  by (cases q) (simp_all add: record_one_def record_batch_def event_void_run_eq case_prod_unfold)

lemma event_play_inv: "event_inv es \<Longrightarrow> event_inv (event_play D es qs)"
  by (induction D es qs rule: event_play.induct) (simp_all add: event_exec_inv)

section \<open>Properties\<close>

text \<open>
  C20. Lineage. In every store that calls can produce, event ids are unique, every version that another
  supersedes is marked amended, and every amended version is superseded by a stored one; so what
  \<open>list_for_account\<close> returns never contains a superseded or voided version.
\<close>

theorem event_lineage:
  "event_inv (event_play D [] qs) \<and>
   (\<forall>a live. list_for_account (event_play D [] qs) a = Inr live \<longrightarrow>
      (\<forall>e \<in> set live. event_status e = Recorded \<and>
         (\<forall>x \<in> set (event_play D [] qs). supersedes x \<noteq> Some (event_id e))))"
proof -
  let ?es = "event_play D [] qs"
  have inv: "event_inv ?es" by (rule event_play_inv) (simp add: event_inv_def)
  have "supersedes x \<noteq> Some (event_id e)"
    if e: "e \<in> set ?es" "event_status e = Recorded" and x: "x \<in> set ?es" for e x
  proof
    assume "supersedes x = Some (event_id e)"
    then obtain y where y: "y \<in> set ?es" "event_id y = event_id e" "event_status y = Amended"
      using inv x unfolding event_inv_def by blast
    have "distinct (map event_id ?es)" using inv by (simp add: event_inv_def)
    with y(1,2) e(1) have "y = e" by (metis distinct_map inj_onD)
    with y(3) e(2) show False by simp
  qed
  with inv show ?thesis by (auto simp: list_for_account_def)
qed

definition demo_record :: "string \<Rightarrow> record_event" where
  "demo_record key = \<lparr>rec_org_id = Id 7, rec_idempotency_key = key, rec_event_time = 3,
     rec_meter = ''tokens'', rec_account_id = Id 1, rec_run_id = Some (Id 9), rec_properties = JNull\<rparr>"

definition demo_amend :: "event_id \<Rightarrow> string \<Rightarrow> amend_event" where
  "demo_amend i key = \<lparr>amend_event_id = i, amend_properties = JBool True, amend_idempotency_key = Some key\<rparr>"

definition event_env :: env where
  "event_env = \<lparr>new_v7 = (\<lambda>i. of_nat (900 + i)), now_utc = (\<lambda>i. int i)\<rparr>"

definition demo_event_id :: event_id where
  "demo_event_id = idempotent_event_id exact_deps (Id 7) ''k''"

definition demo_store :: event_store where
  "demo_store = event_play exact_deps []
     [(event_env, ERecord (demo_record ''k'')), (event_env, EAmend (demo_amend demo_event_id ''fix''))]"

theorem event_lineage_witness:
  "\<exists>live. list_for_account demo_store (Id 1) = Inr live \<and> length live = 1 \<and>
     list_all (\<lambda>e. list_all (\<lambda>x. supersedes x \<noteq> Some (event_id e)) demo_store) live"
proof -
  have "(case list_for_account demo_store (Id 1) of Inr l \<Rightarrow> length l = 1 | _ \<Rightarrow> False)" by code_simp
  then obtain live where l: "list_for_account demo_store (Id 1) = Inr live" "length live = 1"
    by (cases "list_for_account demo_store (Id 1)") auto
  then show ?thesis
    using event_lineage [of exact_deps "[(event_env, ERecord (demo_record ''k'')),
       (event_env, EAmend (demo_amend demo_event_id ''fix''))]"]
    unfolding demo_store_def by (auto simp: list_all_iff)
qed

text \<open>
  Recording is exactly once and history is immutable. Once an event is stored, whatever calls follow,
  its version stays with every field but the status unchanged, an amended version stays amended and
  a voided one voided; recording the same organization and key again returns that version and
  stores nothing.
\<close>

theorem record_exactly_once:
  assumes "record_one D E es q = (es1, Inr e)" and "es2 = event_play D es1 qs"
  shows "\<exists>e'. record_one D E' es2 q = (es2, Inr e') \<and> event_evolves e e'"
proof -
  let ?i = "idempotent_event_id D (rec_org_id q) (rec_idempotency_key q)"
  have "find_event es1 ?i = Some e"
    using assms(1)
    by (cases rule: record_locked_cases [of es D q "now_utc E 0"])
       (auto simp: record_one_def find_event_def into_event_def find_append)
  moreover from event_play_evolves [of D es1 qs] obtain old new where
    "es2 = old @ new" "list_all2 event_evolves es1 old" using assms(2) by blast
  ultimately obtain e' where "find_event es2 ?i = Some e'" "event_evolves e e'"
    using find_event_evolves by blast
  then show ?thesis by (auto simp: record_one_def record_locked_def into_event_def Let_def)
qed

theorem record_exactly_once_witness:
  "\<exists>e'. record_one exact_deps event_env demo_store (demo_record ''k'') = (demo_store, Inr e') \<and>
     event_evolves (into_event exact_deps 0 (demo_record ''k'')) e'"
proof -
  have "record_one exact_deps event_env [] (demo_record ''k'') =
     ([into_event exact_deps 0 (demo_record ''k'')], Inr (into_event exact_deps 0 (demo_record ''k'')))"
    by code_simp
  moreover have "demo_store = event_play exact_deps [into_event exact_deps 0 (demo_record ''k'')]
     [(event_env, EAmend (demo_amend demo_event_id ''fix''))]" by code_simp
  ultimately show ?thesis by (rule record_exactly_once)
qed

text \<open>Reading a store by id, where the ids are unique.\<close>

lemma get_event_iff: "get_event es i = Inr e \<longleftrightarrow> find_event es i = Some e"
  by (simp add: get_event_def split: option.splits)

lemma find_event_iff: "distinct (map event_id es) \<Longrightarrow> find_event es i = Some e \<longleftrightarrow> e \<in> set es \<and> event_id e = i"
  by (induction es) (auto simp: find_event_def)

lemma find_void_live: "find_event (map (void_live run) es) i = map_option (void_live run) (find_event es i)"
  by (induction es) (simp_all add: find_event_def)

lemma count_events:
  assumes "distinct (map event_id es)"
  shows "length (filter P es) = card {i. \<exists>e. get_event es i = Inr e \<and> P e}"
proof -
  have "{i. \<exists>e. get_event es i = Inr e \<and> P e} = event_id ` set (filter P es)"
    using assms by (auto simp: get_event_iff find_event_iff)
  moreover have "distinct (map event_id (filter P es))" using assms by (rule distinct_map_filter)
  ultimately show ?thesis by (metis distinct_card length_map set_map)
qed

lemma voided_stays:
  assumes "find_event es i = Some e" and "event_status e = VoidedEvent"
  shows "find_event (event_play D es qs) i = Some e"
proof -
  from event_play_evolves [of D es qs] obtain old new where
    "event_play D es qs = old @ new" "list_all2 event_evolves es old" by blast
  with find_event_evolves [OF this(2) assms(1), of new] obtain e' where
    e': "find_event (event_play D es qs) i = Some e'" "event_evolves e e'" by auto
  then have "e' = e" using assms(2) unfolding event_evolves_def
    by (metis event.surjective event.update_convs(9))
  with e'(1) show ?thesis by simp
qed

text \<open>
  C21. Voiding a run of events. In every store that calls can produce, the call reports the number of
  recorded events of the run and voids each of them; events of other runs, events of no run and
  superseded versions read back as before. The accounts' listings lose exactly the run's events. A
  voided event stays voided and otherwise unchanged through any later calls, an amendment of it is
  refused and changes nothing, and voiding the run again reports zero and changes nothing.
\<close>

theorem event_void_run_exact:
  assumes "es = event_play D [] qs"
  shows "\<exists>es' n. event_void_run es run = (es', Inr n) \<and>
     n = card {i. \<exists>e. get_event es i = Inr e \<and> event_run_id e = Some run \<and> event_status e = Recorded} \<and>
     (\<forall>i. get_event es' i = map_sum id (\<lambda>e.
        if event_run_id e = Some run \<and> event_status e = Recorded
        then e\<lparr>event_status := VoidedEvent\<rparr> else e) (get_event es i)) \<and>
     (\<forall>a. list_for_account es' a =
        map_sum id (filter (\<lambda>e. event_run_id e \<noteq> Some run)) (list_for_account es a)) \<and>
     (\<forall>i e. get_event es i = Inr e \<and> event_run_id e = Some run \<and> event_status e = Recorded \<longrightarrow>
        (\<forall>later. get_event (event_play D es' later) i = Inr (e\<lparr>event_status := VoidedEvent\<rparr>)) \<and>
        (\<forall>E q. amend_event_id q = i \<longrightarrow> amend D E es' q = (es', Inl (EventVoided i)))) \<and>
     event_void_run es' run = (es', Inr 0)"
proof -
  let ?v = "void_live run" let ?es = "map ?v es"
  have keys: "distinct (map event_id es)"
    using event_play_inv [of "[]" D qs] assms by (simp add: event_inv_def)
  have dead: "\<not> live_in_run run (?v e)" "?v (?v e) = ?v e" for e
    by (simp_all add: void_live_def live_in_run_def)
  have look: "get_event ?es i = map_sum id (\<lambda>e. if event_run_id e = Some run \<and> event_status e = Recorded
        then e\<lparr>event_status := VoidedEvent\<rparr> else e) (get_event es i)" for i
    by (simp add: get_event_def find_void_live void_live_def live_in_run_def split: option.splits)
  have run: "event_void_run es run = (?es, Inr (length (filter (live_in_run run) es)))"
    by (rule event_void_run_eq)
  have count: "length (filter (live_in_run run) es) = card {i. \<exists>e. get_event es i = Inr e \<and>
      event_run_id e = Some run \<and> event_status e = Recorded}"
    using count_events [OF keys, of "live_in_run run"] by (simp add: live_in_run_def)
  have listed: "list_for_account ?es a =
      map_sum id (filter (\<lambda>e. event_run_id e \<noteq> Some run)) (list_for_account es a)" for a
    unfolding list_for_account_def
    by (induction es) (auto simp: void_live_def live_in_run_def)
  have voided: "(\<forall>later. get_event (event_play D ?es later) i = Inr (e\<lparr>event_status := VoidedEvent\<rparr>)) \<and>
        (\<forall>E q. amend_event_id q = i \<longrightarrow> amend D E ?es q = (?es, Inl (EventVoided i)))"
    if "get_event es i = Inr e \<and> event_run_id e = Some run \<and> event_status e = Recorded" for i e
  proof -
    have at: "find_event ?es i = Some (e\<lparr>event_status := VoidedEvent\<rparr>)"
      using that by (simp add: get_event_iff find_void_live void_live_def live_in_run_def)
    from voided_stays [OF this] show ?thesis by (simp add: get_event_iff at amend_def)
  qed
  have again: "event_void_run ?es run = (?es, Inr 0)" by (simp add: event_void_run_eq dead)
  show ?thesis
    by (rule exI [of _ ?es], rule exI [of _ "length (filter (live_in_run run) es)"], intro conjI)
       (fact run, fact count, simp add: look, simp add: listed, use voided in blast, fact again)
qed

theorem event_void_run_exact_witness:
  "\<exists>es'. event_void_run demo_store (Id 9) = (es', Inr 1) \<and> event_void_run es' (Id 9) = (es', Inr 0) \<and>
     list_for_account es' (Id 1) = Inr [] \<and>
     amend exact_deps event_env es' (demo_amend (event_id (demo_store ! 1)) ''late'') =
       (es', Inl (EventVoided (event_id (demo_store ! 1)))) \<and>
     fst (event_void_run demo_store (Id 8)) = demo_store"
proof -
  let ?e = "demo_store ! 1"
  have store: "demo_store = event_play exact_deps [] [(event_env, ERecord (demo_record ''k'')),
      (event_env, EAmend (demo_amend demo_event_id ''fix''))]" by (simp add: demo_store_def)
  obtain es' n where es': "event_void_run demo_store (Id 9) = (es', Inr n)" "event_void_run es' (Id 9) = (es', Inr 0)"
    and l: "list_for_account es' (Id 1) =
        map_sum id (filter (\<lambda>e. event_run_id e \<noteq> Some (Id 9))) (list_for_account demo_store (Id 1))"
    and v: "get_event demo_store (event_id ?e) = Inr ?e \<and> event_run_id ?e = Some (Id 9) \<and> event_status ?e = Recorded \<longrightarrow>
       amend exact_deps event_env es' (demo_amend (event_id ?e) ''late'') = (es', Inl (EventVoided (event_id ?e)))"
    using event_void_run_exact [OF store, of "Id 9"] by (fastforce simp: demo_amend_def)
  have "get_event demo_store (event_id ?e) = Inr ?e" "event_run_id ?e = Some (Id 9)" "event_status ?e = Recorded"
    "snd (event_void_run demo_store (Id 9)) = Inr 1"
    "map_sum id (filter (\<lambda>e. event_run_id e \<noteq> Some (Id 9))) (list_for_account demo_store (Id 1)) = Inr []"
    "fst (event_void_run demo_store (Id 8)) = demo_store" by code_simp+
  with es' l v show ?thesis by auto
qed
text \<open>
  Amending a superseded version forks the event. Amending the original a second time under another
  key is accepted although the original is already amended, and leaves two live versions of one
  event, which both count as usage.
\<close>

theorem amend_of_amended_forks:
  "case amend exact_deps event_env demo_store (demo_amend demo_event_id ''other'') of
     (es, Inr e) \<Rightarrow> list_for_account es (Id 1) = Inr [last demo_store, e] \<and>
       supersedes (last demo_store) = Some demo_event_id \<and> supersedes e = Some demo_event_id
   | _ \<Rightarrow> False"
  by code_simp

end
