(* ===== verification/Event_Backend.thy ===== *)
theory Event_Backend
  imports Events_Props
begin

text \<open>
  The seam between the event store and its clients: the methods of the \<open>EventStore\<close> trait
  (\<open>crates/meter-event/src/store.rs\<close>) as a record over a store's own state. \<open>memory_events\<close> is \<open>impl EventStore for InMemoryEventStore\<close>. The locale \<open>event_backend\<close> states what
  the handlers rely on, over a lookup of stored versions by id; the in-memory store interprets it.
\<close>

section \<open>The trait\<close>

record 'x event_ops =
  ev_record :: "env \<Rightarrow> 'x \<Rightarrow> record_event \<Rightarrow> ('x, event_error, event) sres"
  ev_record_batch :: "env \<Rightarrow> 'x \<Rightarrow> record_event list \<Rightarrow> ('x, event_error, event list) sres"
  ev_get :: "'x \<Rightarrow> event_id \<Rightarrow> ('x, event_error, event) sres"
  ev_list_for_account :: "'x \<Rightarrow> account_id \<Rightarrow> ('x, event_error, event list) sres"
  ev_amend :: "env \<Rightarrow> 'x \<Rightarrow> amend_event \<Rightarrow> ('x, event_error, event) sres"
  ev_void_run :: "'x \<Rightarrow> run_id \<Rightarrow> ('x, event_error, nat) sres"

definition memory_events :: "deps \<Rightarrow> event_store event_ops" where
  "memory_events D = \<lparr>
     ev_record = (\<lambda>E x q. Some (record_one D E x q)),
     ev_record_batch = (\<lambda>E x qs. Some (record_batch D E x qs)),
     ev_get = (\<lambda>x i. Some (x, get_event x i)),
     ev_list_for_account = (\<lambda>x a. Some (x, list_for_account x a)),
     ev_amend = (\<lambda>E x q. Some (amend D E x q)),
     ev_void_run = (\<lambda>x run. Some (event_void_run x run))\<rparr>"

lemma memory_events_sel [simp]:
  "ev_record (memory_events D) E x q = Some (record_one D E x q)"
  "ev_record_batch (memory_events D) E x qs = Some (record_batch D E x qs)"
  "ev_get (memory_events D) x i = Some (x, get_event x i)"
  "ev_list_for_account (memory_events D) x a = Some (x, list_for_account x a)"
  "ev_amend (memory_events D) E x p = Some (amend D E x p)"
  "ev_void_run (memory_events D) x run = Some (event_void_run x run)"
  by (simp_all add: memory_events_def)

section \<open>What clients rely on\<close>

definition recorded_id :: "deps \<Rightarrow> record_event \<Rightarrow> event_id" where
  "recorded_id D q = idempotent_event_id D (rec_org_id q) (rec_idempotency_key q)"

definition amended_version_id :: "deps \<Rightarrow> event \<Rightarrow> string \<Rightarrow> event_id" where
  "amended_version_id D original k =
     idempotent_event_id D (event_org_id original) (event_idempotency_key original @ ''::amend::'' @ k)"

locale event_backend =
  fixes X :: "'x event_ops"
    and D :: deps
    and lookup :: "'x \<Rightarrow> event_id \<Rightarrow> event option"
    and after :: "'x \<Rightarrow> 'x \<Rightarrow> bool"
  assumes get_reads: "ev_get X x i =
      Some (x, case lookup x i of None \<Rightarrow> Inl (EventNotFound i) | Some e \<Rightarrow> Inr e)"
    and lookup_id: "lookup x i = Some e \<Longrightarrow> event_id e = i"
    and record_stores: "ev_record X E x q = Some (x', Inr e) \<Longrightarrow> lookup x' (recorded_id D q) = Some e"
    and record_new: "lookup x (recorded_id D q) = None \<Longrightarrow> ev_record X E x q = Some (x', Inr e) \<Longrightarrow>
      e = into_event D (now_utc E 0) q"
    and record_again: "lookup x (recorded_id D q) = Some e \<Longrightarrow> ev_record X E x q = Some (x, Inr e)"
    and after_refl: "after x x"
    and lookup_after: "after x x' \<Longrightarrow> lookup x i = Some e \<Longrightarrow>
      \<exists>e'. lookup x' i = Some e' \<and> event_evolves e e'"
    and amend_supersedes: "lookup x (amend_event_id p) = Some original \<Longrightarrow>
      event_status original = Recorded \<Longrightarrow> amend_idempotency_key p = Some k \<Longrightarrow>
      lookup x (amended_version_id D original k) = None \<Longrightarrow>
      \<exists>x'. ev_amend X E x p = Some (x', Inr (into_amended_event D E p original)) \<and>
        lookup x' (amend_event_id p) = Some (original\<lparr>event_status := Amended\<rparr>) \<and>
        lookup x' (amended_version_id D original k) = Some (into_amended_event D E p original)"
    and void_run_kills: "\<exists>x' n. ev_void_run X x run = Some (x', Inr n) \<and>
      (\<forall>i. lookup x' i = map_option (void_live run) (lookup x i)) \<and>
      ev_void_run X x' run = Some (x', Inr 0)"

section \<open>The in-memory store is such a store\<close>

definition plays :: "deps \<Rightarrow> event_store \<Rightarrow> event_store \<Rightarrow> bool" where
  "plays D es es' \<longleftrightarrow> (\<exists>qs. es' = event_play D es qs)"

lemma find_mark_amended:
  "find_event (mark_amended i es) j =
     (if j = i then map_option (\<lambda>e. e\<lparr>event_status := Amended\<rparr>) (find_event es j) else find_event es j)"
  by (induction es) (auto simp: find_event_def)

lemma find_event_append:
  "find_event (es @ es') i = (case find_event es i of None \<Rightarrow> find_event es' i | Some e \<Rightarrow> Some e)"
  by (simp add: find_event_def find_append split: option.split)

lemma into_amended_event_id:
  "amend_idempotency_key p = Some k \<Longrightarrow>
     event_id (into_amended_event D E p original) = amended_version_id D original k"
  by (simp add: into_amended_event_def amended_version_id_def Let_def)

lemma memory_record_stores:
  "record_one D E x q = (x', Inr e) \<Longrightarrow> find_event x' (recorded_id D q) = Some e"
  by (cases rule: record_locked_cases [of x D q "now_utc E 0"])
     (auto simp: record_one_def recorded_id_def into_event_def find_append find_event_def)

lemma memory_amend:
  assumes "find_event x (amend_event_id p) = Some original" and "event_status original = Recorded"
    and "amend_idempotency_key p = Some k" and "find_event x (amended_version_id D original k) = None"
  shows "\<exists>x'. amend D E x p = (x', Inr (into_amended_event D E p original)) \<and>
    find_event x' (amend_event_id p) = Some (original\<lparr>event_status := Amended\<rparr>) \<and>
    find_event x' (amended_version_id D original k) = Some (into_amended_event D E p original)"
proof -
  have i: "event_id original = amend_event_id p" using find_event_Some [OF assms(1)] by simp
  have ne: "amended_version_id D original k \<noteq> amend_event_id p" using assms(1,4) by auto
  note id = into_amended_event_id [OF assms(3), of D E original]
  have "amend D E x p = (mark_amended (amend_event_id p) x @ [into_amended_event D E p original],
     Inr (into_amended_event D E p original))"
    using assms by (simp add: amend_def Let_def id i)
  with assms(1,4) ne show ?thesis
    by (auto simp: find_event_append find_mark_amended) (simp add: find_event_def id)
qed

interpretation memory_store: event_backend "memory_events D" D find_event "plays D" for D
proof (unfold_locales, goal_cases)
  case (1 x i)
  show ?case by (simp add: get_event_def)
next
  case (2 x i e)
  then show ?case using find_event_Some by blast
next
  case (3 E x q x' e)
  then show ?case using memory_record_stores [of D E x q x' e] by simp
next
  case (4 x q E x' e)
  then show ?case
    by (auto simp: record_one_def record_locked_def recorded_id_def into_event_def Let_def)
next
  case (5 x q e E)
  then show ?case
    by (simp add: record_one_def record_locked_def recorded_id_def into_event_def Let_def)
next
  case (6 x)
  show ?case by (auto simp: plays_def intro: exI [of _ "[]"])
next
  case (7 x x' i e)
  then obtain qs where "x' = event_play D x qs" by (auto simp: plays_def)
  with event_play_evolves [of D x qs] obtain old new where
    "x' = old @ new" "list_all2 event_evolves x old" by blast
  with 7(2) find_event_evolves show ?case by blast
next
  case (8 x p original k E)
  then show ?case using memory_amend [of x p original k D E] by simp
next
  case (9 x run)
  have "void_live run (void_live run e) = void_live run e" "\<not> live_in_run run (void_live run e)" for e
    by (simp_all add: void_live_def live_in_run_def)
  then show ?case by (simp add: event_void_run_eq find_void_live comp_def)
qed

end
