(* ===== verification/Api.thy ===== *)
theory Api
  imports Enforcement Rate_Cards Event_Backend
begin

text \<open>
  \<open>crates/meter-api\<close>: the request handlers that compose pricing, the ledger and the event store. Errors
  and their HTTP statuses (\<open>src/error.rs\<close>), request bodies (\<open>src/dto.rs\<close>), rate-card resolution
  (\<open>src/cards.rs\<close>), the metering loop (\<open>src/routes/usage.rs\<close>), killing a run (\<open>src/routes/events.rs\<close>) and
  budget status (\<open>src/routes/budgets.rs\<close>).

  A handler works on the pair of the ledger's and the event store's state. The code's \<open>AppState\<close> holds the
  Postgres ledger and the ClickHouse store, and the handlers call them through the methods of the
  \<open>LedgerBackend\<close> and \<open>EventStore\<close> traits; the model takes the two sets of methods as parameters, and its
  theorems put in the in-memory stores, which those two simulate as far as \<open>Pg_Props\<close> and \<open>Ch_Props\<close> say. A handler is not
  atomic: each store call is one step, and an
  error after a step leaves the effect of the step. \<open>E k\<close> are the surroundings of the \<open>k\<close>-th store call,
  \<open>E 0\<close> those of the handler itself. JSON objects are association lists.
\<close>

section \<open>Errors\<close>

datatype api_error =
    ApiLedger ledger_error
  | ApiEvent event_error
  | ApiStatus nat string string

definition not_found :: "string \<Rightarrow> api_error" where
  "not_found message = ApiStatus 404 ''not_found'' message"

definition unprocessable :: "string \<Rightarrow> api_error" where
  "unprocessable message = ApiStatus 422 ''unprocessable'' message"

definition ledger_status :: "ledger_error \<Rightarrow> nat \<times> string" where
  "ledger_status e = (case e of
      AccountNotFound _ \<Rightarrow> (404, ''not_found'')
    | ReservationNotFound _ \<Rightarrow> (404, ''not_found'')
    | ReservationClosed _ \<Rightarrow> (409, ''conflict'')
    | NonPositiveAmount \<Rightarrow> (400, ''bad_request'')
    | NotALease _ \<Rightarrow> (400, ''bad_request'')
    | InsufficientFunds _ _ \<Rightarrow> (409, ''insufficient_funds'')
    | Backend _ \<Rightarrow> (500, ''internal''))"

definition event_error_status :: "event_error \<Rightarrow> nat \<times> string" where
  "event_error_status e = (case e of
      EventNotFound _ \<Rightarrow> (404, ''not_found'')
    | EventVoided _ \<Rightarrow> (409, ''conflict'')
    | EventBackend _ \<Rightarrow> (500, ''internal''))"

text \<open>The status and error code of a response; the message text is not modelled here.\<close>

definition into_response :: "api_error \<Rightarrow> nat \<times> string" where
  "into_response e = (case e of
      ApiLedger le \<Rightarrow> ledger_status le
    | ApiEvent ee \<Rightarrow> event_error_status ee
    | ApiStatus status cd _ \<Rightarrow> (status, cd))"

section \<open>Request bodies\<close>

record usage_dimensions =
  input_uncached :: "64 word"
  cache_read :: "64 word"
  cache_write :: "64 word"
  output_tokens :: "64 word"
  reasoning :: "64 word"

definition to_usage :: "usage_dimensions \<Rightarrow> usage" where
  "to_usage dims = foldl (\<lambda>u (dmn, q). if 0 < q then usage_with u dmn (of_int (uint q)) else u)
     (usage_new Text StandardTier)
     [(InputUncached, input_uncached dims), (CacheRead, cache_read dims),
      (CacheWrite, cache_write dims), (Output, output_tokens dims)]"

record meter_usage_body =
  mu_org_id :: org_id
  mu_account :: account_id
  mu_model :: string
  mu_idempotency_key :: string
  mu_run_id :: "run_id option"
  mu_usage :: usage_dimensions
  mu_rate_card_id :: "string option"
  mu_tags :: json
  mu_burnable :: bool

record reserve_usage_body =
  ru_account :: account_id
  ru_reservation_id :: reservation_id
  ru_model :: string
  ru_estimate :: usage_dimensions
  ru_limit :: limit_class
  ru_rate_card_id :: "string option"
  ru_run_id :: "run_id option"

record settle_usage_body =
  su_model :: string
  su_actual :: usage_dimensions
  su_rate_card_id :: "string option"

record amend_usage_body =
  au_usage :: usage_dimensions
  au_model :: "string option"
  au_rate_card_id :: "string option"
  au_idempotency_key :: string

section \<open>The stores behind the handlers\<close>

record rate_card_record =
  rcr_id :: uuid
  rcr_version :: "32 word"
  rcr_kind :: string
  rcr_currency :: string
  rcr_margin :: rat
  rcr_components :: json

text \<open>
  \<open>app_ledger\<close> and \<open>app_events\<close> stand for the fields of \<open>AppState\<close>. \<open>app_latest_card\<close> is what \<open>PgConfig::latest_rate_card\<close> reads and \<open>app_parse_components\<close> the derived
  deserialiser of the component list, with its error text.
\<close>

record ('l, 'x) app_state =
  app_ledger :: "'l ledger_ops"
  app_events :: "'x event_ops"
  app_credit_value :: money
  app_latest_card :: "uuid \<Rightarrow> ledger_error + rate_card_record option"
  app_parse_components :: "json \<Rightarrow> string + price_component list"

definition on_ledger :: "'x \<Rightarrow> ('l, ledger_error, 'a) sres \<Rightarrow> ('l \<times> 'x, api_error, 'a) sres" where
  "on_ledger x m = map_option (\<lambda>(l, r). ((l, x), map_sum ApiLedger id r)) m"

definition on_events :: "'l \<Rightarrow> ('x, event_error, 'a) sres \<Rightarrow> ('l \<times> 'x, api_error, 'a) sres" where
  "on_events l m = map_option (\<lambda>(x, r). ((l, x), map_sum ApiEvent id r)) m"

definition pure :: "'w \<Rightarrow> (api_error, 'a) res \<Rightarrow> ('w, api_error, 'a) sres" where
  "pure w m = map_option (\<lambda>r. (w, r)) m"

section \<open>Which card prices\<close>

definition kind_from_str :: "string \<Rightarrow> api_error + rate_card_kind" where
  "kind_from_str k =
     (if k = ''provider_cost'' then Inr ProviderCost
      else if k = ''customer'' then Inr Customer
      else Inl (unprocessable (''unknown rate card kind: '' @ k)))"

text \<open>Rust's \<open>Debug\<close> of a string: quoted, with quotes, backslashes and control characters escaped.\<close>

definition hex_digit :: "nat \<Rightarrow> char" where
  "hex_digit n = (if n < 10 then char_of (48 + n) else char_of (87 + n))"

definition char_debug :: "char \<Rightarrow> string" where
  "char_debug c =
     (if c = CHR 0x22 \<or> c = CHR 0x5C then [CHR 0x5C, c]
      else if c = CHR 0x0A then [CHR 0x5C, CHR ''n'']
      else if c = CHR 0x0D then [CHR 0x5C, CHR ''r'']
      else if c = CHR 0x09 then [CHR 0x5C, CHR ''t'']
      else if c = CHR 0x00 then [CHR 0x5C, CHR ''0'']
      else let n = (of_char c :: nat) in
        if n < 16 then [CHR 0x5C] @ ''u{'' @ [hex_digit n] @ ''}''
        else if n < 32 \<or> n = 127
        then [CHR 0x5C] @ ''u{'' @ [hex_digit (n div 16), hex_digit (n mod 16)] @ ''}''
        else [c])"

definition str_debug :: "string \<Rightarrow> string" where
  "str_debug s = [CHR 0x22] @ concat (map char_debug s) @ [CHR 0x22]"

definition money_error_text :: "money_error \<Rightarrow> string" where
  "money_error_text e = (case e of
      CurrencyMismatch l r \<Rightarrow> ''currency mismatch: '' @ code l @ '' vs '' @ code r
    | InvalidCurrency c \<Rightarrow> ''invalid currency code: '' @ str_debug c)"

definition rate_card_from_record ::
  "('l, 'x) app_state \<Rightarrow> rate_card_record \<Rightarrow> api_error + rate_card" where
  "rate_card_from_record app rec = (case currency_new (rcr_currency rec) of
      Inl e \<Rightarrow> Inl (unprocessable (''rate card currency: '' @ money_error_text e))
    | Inr cur \<Rightarrow> (case app_parse_components app (rcr_components rec) of
        Inl e \<Rightarrow> Inl (unprocessable (''rate card components: '' @ e))
      | Inr comps \<Rightarrow>
          if sint (rcr_version rec) < 0
          then Inl (unprocessable ''rate card version out of range'')
          else (case kind_from_str (rcr_kind rec) of
            Inl e \<Rightarrow> Inl e
          | Inr kind \<Rightarrow> Inr \<lparr>card_id = Id (rcr_id rec), card_kind = kind, card_currency = cur,
              version = rcr_version rec, card_margin = rcr_margin rec, components = comps\<rparr>)))"

definition load_stored_card :: "deps \<Rightarrow> ('l, 'x) app_state \<Rightarrow> uuid \<Rightarrow> api_error + rate_card" where
  "load_stored_card D app i = (case app_latest_card app i of
      Inl e \<Rightarrow> Inl (ApiLedger e)
    | Inr None \<Rightarrow> Inl (not_found (''unknown rate card: '' @ uuid_str D i))
    | Inr (Some rec) \<Rightarrow> rate_card_from_record app rec)"

definition resolve_card ::
  "deps \<Rightarrow> env \<Rightarrow> ('l, 'x) app_state \<Rightarrow> string \<Rightarrow> string option \<Rightarrow> (api_error, rate_card) res" where
  "resolve_card D E app model rate_card_id = (case rate_card_id of
      None \<Rightarrow> do {
        found \<leftarrow> rate_card_for E model;
        Some (case found of None \<Rightarrow> Inl (not_found (''unknown model: '' @ model)) | Some rc \<Rightarrow> Inr rc) }
    | Some i \<Rightarrow> (case uuid_parse D i of
        None \<Rightarrow> Some (Inl (unprocessable (''invalid rate_card_id: '' @ i)))
      | Some u \<Rightarrow> Some (load_stored_card D app u)))"

definition dimension_debug :: "pricing_dimension \<Rightarrow> string" where
  "dimension_debug d = (case d of
      InputUncached \<Rightarrow> ''InputUncached'' | CacheRead \<Rightarrow> ''CacheRead'' | CacheWrite \<Rightarrow> ''CacheWrite''
    | Output \<Rightarrow> ''Output'' | ReasoningOutput \<Rightarrow> ''ReasoningOutput'' | ToolCall \<Rightarrow> ''ToolCall''
    | WebSearch \<Rightarrow> ''WebSearch'')"

definition pricing_error_text :: "pricing_error \<Rightarrow> string" where
  "pricing_error_text e = (case e of
      NoComponent d \<Rightarrow> ''no price component for dimension '' @ dimension_debug d @
        '' at the given modality and context tier''
    | PriceCurrencyMismatch \<Rightarrow> ''currency mismatch in pricing''
    | NonPositiveCreditValue \<Rightarrow> ''credit value must be positive''
    | InvalidTierSchedule \<Rightarrow>
        ''invalid tier schedule: must be ascending and end with an unbounded tier''
    | InvalidPackageSize \<Rightarrow> ''invalid package size: must be positive''
    | NegativePrice d \<Rightarrow> ''negative unit price for dimension '' @ dimension_debug d
    | DuplicateComponent d \<Rightarrow> ''duplicate price component for dimension '' @ dimension_debug d)"

definition priced_or_error ::
  "deps \<Rightarrow> ('l, 'x) app_state \<Rightarrow> usage_dimensions \<Rightarrow> rate_card \<Rightarrow> (api_error, priced_usage) res" where
  "priced_or_error D app dims rc =
     map_err (\<lambda>e. unprocessable (''pricing: '' @ pricing_error_text e))
       (price_usage D (to_usage dims) rc (app_credit_value app))"

section \<open>The metering loop\<close>

definition pricing_source :: "string option \<Rightarrow> string" where
  "pricing_source rate_card_id = (case rate_card_id of Some _ \<Rightarrow> ''synced'' | None \<Rightarrow> ''catalog'')"

text \<open>\<open>entry(key).or_insert(value)\<close> for every tag.\<close>

fun or_insert_all :: "(string \<times> json) list \<Rightarrow> (string \<times> json) list \<Rightarrow> (string \<times> json) list" where
  "or_insert_all base [] = base"
| "or_insert_all base ((k, v) # tags) =
     or_insert_all (if map_of base k = None then base @ [(k, v)] else base) tags"

definition merge_tags :: "json \<Rightarrow> json \<Rightarrow> json" where
  "merge_tags base tags = (case (base, tags) of
      (JObject base_map, JObject tag_map) \<Rightarrow> JObject (or_insert_all base_map tag_map)
    | _ \<Rightarrow> base)"

definition burned_credits :: "bool \<Rightarrow> credit \<Rightarrow> credit" where
  "burned_credits burnable priced = (if burnable then priced else 0)"

definition opt_str :: "string option \<Rightarrow> json" where
  "opt_str o' = (case o' of None \<Rightarrow> JNull | Some s \<Rightarrow> JString s)"

definition tokens_json :: "64 word \<Rightarrow> json" where
  "tokens_json w = JNumber (of_int (uint w))"

text \<open>The properties \<open>meter_usage\<close> and \<open>amend_usage\<close> record with a priced event.\<close>

definition usage_properties ::
  "deps \<Rightarrow> string \<Rightarrow> usage_dimensions \<Rightarrow> priced_usage \<Rightarrow> credit \<Rightarrow> bool \<Rightarrow> string option \<Rightarrow> string option
     \<Rightarrow> rate_card \<Rightarrow> (string \<times> json) list" where
  "usage_properties D model dims priced burned burnable charge_id rate_card_id rc =
     [(''model'', JString model),
      (''input_uncached'', tokens_json (input_uncached dims)),
      (''cache_read'', tokens_json (cache_read dims)),
      (''cache_write'', tokens_json (cache_write dims)),
      (''output'', tokens_json (output_tokens dims)),
      (''reasoning'', tokens_json (reasoning dims)),
      (''cogs_usd'', JString (dec_str D (amount (cogs priced)))),
      (''credits'', JString (dec_str D burned)),
      (''priced_credits'', JString (dec_str D (credits priced))),
      (''burnable'', JBool burnable),
      (''charge_entry_id'', opt_str charge_id),
      (''rate_card_id'', opt_str rate_card_id),
      (''rate_card_version'', JNumber (of_int (uint (version rc)))),
      (''priced_via'', JString (pricing_source rate_card_id))]"

record meter_usage_result =
  mr_credits :: string
  mr_priced_credits :: string
  mr_cogs_usd :: string
  mr_customer_price_usd :: string
  mr_event_id :: string
  mr_charged :: bool
  mr_settled :: string
  mr_available :: string

text \<open>The ledger call both handlers make for burned credits, returning the text of the entry id.\<close>

definition charge_burned ::
  "deps \<Rightarrow> env \<Rightarrow> ('l, 'x) app_state \<Rightarrow> 'l \<times> 'x \<Rightarrow> account_id \<Rightarrow> credit \<Rightarrow> run_id option \<Rightarrow> string
     \<Rightarrow> ('l \<times> 'x, api_error, string option) sres" where
  "charge_burned D E app w account burned run key = (case w of (l, x) \<Rightarrow>
     if is_positive burned
     then sbind (on_ledger x (be_charge (app_ledger app) E l
            \<lparr>charge_account = account, charge_amount = burned, charge_run_id = run,
             charge_idempotency_key = Some key\<rparr>))
            (\<lambda>w' e. Some (w', Inr (Some (uuid_str D (as_uuid (entry_id e))))))
     else Some (w, Inr None))"

definition meter_usage ::
  "deps \<Rightarrow> (nat \<Rightarrow> env) \<Rightarrow> ('l, 'x) app_state \<Rightarrow> 'l \<times> 'x \<Rightarrow> meter_usage_body
     \<Rightarrow> ('l \<times> 'x, api_error, meter_usage_result) sres" where
  "meter_usage D E app w body =
     sbind (pure w (resolve_card D (E 0) app (mu_model body) (mu_rate_card_id body))) (\<lambda>w rc.
     sbind (pure w (priced_or_error D app (mu_usage body) rc)) (\<lambda>w priced.
     let burned = burned_credits (mu_burnable body) (credits priced) in
     sbind (charge_burned D (E 1) app w (mu_account body) burned (mu_run_id body)
              (mu_idempotency_key body @ ''::charge'')) (\<lambda>w charge_id.
     sbind (on_events (fst w) (ev_record (app_events app) (E 2) (snd w)
              \<lparr>rec_org_id = mu_org_id body,
               rec_idempotency_key = mu_idempotency_key body @ ''::event'',
               rec_event_time = now_utc (E 0) 0, rec_meter = ''tokens'',
               rec_account_id = mu_account body, rec_run_id = mu_run_id body,
               rec_properties = merge_tags
                 (JObject (usage_properties D (mu_model body) (mu_usage body) priced burned
                    (mu_burnable body) charge_id (mu_rate_card_id body) rc))
                 (mu_tags body)\<rparr>)) (\<lambda>w event.
     sbind (on_ledger (snd w) (be_balance (app_ledger app) (fst w) (mu_account body))) (\<lambda>w bal.
       do { av \<leftarrow> available D bal;
            Some (w, Inr \<lparr>mr_credits = dec_str D burned,
              mr_priced_credits = dec_str D (credits priced),
              mr_cogs_usd = dec_str D (amount (cogs priced)),
              mr_customer_price_usd = dec_str D (amount (customer_price priced)),
              mr_event_id = uuid_str D (as_uuid (event_id event)),
              mr_charged = is_positive burned,
              mr_settled = dec_str D (bal_settled bal),
              mr_available = dec_str D av\<rparr>) })))))"

record reserve_usage_result =
  rr_outcome :: reserve_outcome
  rr_reserved_credits :: string

definition reserve_usage ::
  "deps \<Rightarrow> (nat \<Rightarrow> env) \<Rightarrow> ('l, 'x) app_state \<Rightarrow> 'l \<times> 'x \<Rightarrow> reserve_usage_body
     \<Rightarrow> ('l \<times> 'x, api_error, reserve_usage_result) sres" where
  "reserve_usage D E app w body =
     sbind (pure w (resolve_card D (E 0) app (ru_model body) (ru_rate_card_id body))) (\<lambda>w rc.
     sbind (pure w (priced_or_error D app (ru_estimate body) rc)) (\<lambda>w priced.
     sbind (on_ledger (snd w) (be_reserve (app_ledger app) (fst w)
              \<lparr>rsv_account = ru_account body, rsv_reservation_id = ru_reservation_id body,
               rsv_amount = credits priced, rsv_limit = ru_limit body, rsv_expires_at = None,
               rsv_run_id = ru_run_id body\<rparr>)) (\<lambda>w outcome.
       Some (w, Inr \<lparr>rr_outcome = outcome,
                     rr_reserved_credits = dec_str D (credits priced)\<rparr>))))"

record settle_usage_result =
  sr_credits_charged :: string
  sr_balance_after :: string

definition settle_usage ::
  "deps \<Rightarrow> (nat \<Rightarrow> env) \<Rightarrow> ('l, 'x) app_state \<Rightarrow> 'l \<times> 'x \<Rightarrow> uuid \<Rightarrow> settle_usage_body
     \<Rightarrow> ('l \<times> 'x, api_error, settle_usage_result) sres" where
  "settle_usage D E app w i body =
     sbind (pure w (resolve_card D (E 0) app (su_model body) (su_rate_card_id body))) (\<lambda>w rc.
     sbind (pure w (priced_or_error D app (su_actual body) rc)) (\<lambda>w priced.
     sbind (on_ledger (snd w) (be_settle (app_ledger app) (E 1) (fst w)
              \<lparr>settle_reservation_id = ReservationId i, settle_actual = credits priced\<rparr>)) (\<lambda>w entry.
       Some (w, Inr \<lparr>sr_credits_charged = dec_str D (credits priced),
                     sr_balance_after = dec_str D (balance_after entry)\<rparr>))))"

section \<open>Amending a priced event\<close>

definition event_prop :: "event \<Rightarrow> string \<Rightarrow> json option" where
  "event_prop e key = (case properties e of JObject m \<Rightarrow> map_of m key | _ \<Rightarrow> None)"

definition is_engine_priced :: "event \<Rightarrow> bool" where
  "is_engine_priced e = (case event_prop e ''priced_via'' of None \<Rightarrow> False | Some v \<Rightarrow> v \<noteq> JNull)"

definition prop_str :: "event \<Rightarrow> string \<Rightarrow> string option" where
  "prop_str e key = (case event_prop e key of Some (JString s) \<Rightarrow> Some s | _ \<Rightarrow> None)"

definition recorded_credits :: "deps \<Rightarrow> event \<Rightarrow> credit" where
  "recorded_credits D e = (case prop_str e ''credits'' of
      None \<Rightarrow> 0
    | Some raw \<Rightarrow> (case dec_parse D raw of None \<Rightarrow> 0 | Some c \<Rightarrow> c))"

definition recorded_charge_entry :: "deps \<Rightarrow> event \<Rightarrow> entry_id option" where
  "recorded_charge_entry D e =
     prop_str e ''charge_entry_id'' \<bind> (\<lambda>raw. map_option Id (uuid_parse D raw))"

record amend_usage_result =
  ar_event_id :: string
  ar_credits :: string
  ar_priced_credits :: string
  ar_delta :: string
  ar_settled :: string
  ar_available :: string

text \<open>The tail both success paths share: read the balance and report.\<close>

definition amend_reply ::
  "deps \<Rightarrow> ('l, 'x) app_state \<Rightarrow> 'l \<times> 'x \<Rightarrow> account_id \<Rightarrow> event \<Rightarrow> credit \<Rightarrow> credit \<Rightarrow> string
     \<Rightarrow> ('l \<times> 'x, api_error, amend_usage_result) sres" where
  "amend_reply D app w account event new_burned old_burned priced_text =
     sbind (on_ledger (snd w) (be_balance (app_ledger app) (fst w) account)) (\<lambda>w bal.
       do { delta \<leftarrow> dec_sub D new_burned old_burned;
            av \<leftarrow> available D bal;
            Some (w, Inr \<lparr>ar_event_id = uuid_str D (as_uuid (event_id event)),
              ar_credits = dec_str D new_burned, ar_priced_credits = priced_text,
              ar_delta = dec_str D delta, ar_settled = dec_str D (bal_settled bal),
              ar_available = dec_str D av\<rparr>) })"

definition reverse_recorded ::
  "deps \<Rightarrow> env \<Rightarrow> ('l, 'x) app_state \<Rightarrow> 'l \<times> 'x \<Rightarrow> account_id \<Rightarrow> entry_id option \<Rightarrow> run_id option \<Rightarrow> string
     \<Rightarrow> ('l \<times> 'x, api_error, unit) sres" where
  "reverse_recorded D E app w account charge_id run key = (case charge_id of
      None \<Rightarrow> Some (w, Inr ())
    | Some c \<Rightarrow> sbind (on_ledger (snd w) (be_reverse_charge (app_ledger app) E (fst w)
          \<lparr>rev_account = account, rev_charge_entry_id = c, rev_run_id = run,
           rev_idempotency_key = key\<rparr>)) (\<lambda>w _. Some (w, Inr ())))"

text \<open>The original's burnable flag, which an amendment cannot change.\<close>

definition amend_burnable :: "event \<Rightarrow> bool" where
  "amend_burnable original = (case event_prop original ''burnable'' of Some (JBool b) \<Rightarrow> b | _ \<Rightarrow> True)"

text \<open>
  Record the new version and report. When the event was voided in the meantime, the charge just
  posted is reversed.
\<close>

definition amend_record ::
  "deps \<Rightarrow> (nat \<Rightarrow> env) \<Rightarrow> ('l, 'x) app_state \<Rightarrow> 'l \<times> 'x \<Rightarrow> event \<Rightarrow> amend_event \<Rightarrow> string \<Rightarrow> credit
     \<Rightarrow> string option \<Rightarrow> string \<Rightarrow> ('l \<times> 'x, api_error, amend_usage_result) sres" where
  "amend_record D E app w original req scope new_burned charge_id priced_text =
     (case ev_amend (app_events app) (E 3) (snd w) req of
        None \<Rightarrow> None
      | Some (x, Inr event) \<Rightarrow>
          amend_reply D app (fst w, x) (event_account_id original) event new_burned
            (recorded_credits D original) priced_text
      | Some (x, Inl (EventVoided _)) \<Rightarrow>
          sbind (reverse_recorded D (E 4) app (fst w, x) (event_account_id original)
                   (charge_id \<bind> (\<lambda>raw. map_option Id (uuid_parse D raw))) (event_run_id original)
                   (scope @ ''::amend-compensate'')) (\<lambda>w _.
            Some (w, Inl (unprocessable
              ''event was voided concurrently; the amendment was aborted and its charge reversed'')))
      | Some (x, Inl other) \<Rightarrow> Some ((fst w, x), Inl (ApiEvent other)))"

text \<open>The part of \<open>amend_usage\<close> after its checks: re-price, reverse, charge, record, report.\<close>

definition amend_apply ::
  "deps \<Rightarrow> (nat \<Rightarrow> env) \<Rightarrow> ('l, 'x) app_state \<Rightarrow> 'l \<times> 'x \<Rightarrow> event \<Rightarrow> event_id \<Rightarrow> amend_usage_body
     \<Rightarrow> string \<Rightarrow> ('l \<times> 'x, api_error, amend_usage_result) sres" where
  "amend_apply D E app w original amended_id body model =
     (let rate_card_id = (case au_rate_card_id body of Some i \<Rightarrow> Some i | None \<Rightarrow> prop_str original ''rate_card_id'');
          burnable = amend_burnable original;
          account = event_account_id original; run = event_run_id original;
          scope = uuid_str D (as_uuid amended_id) in
      sbind (pure w (resolve_card D (E 0) app model rate_card_id)) (\<lambda>w rc.
      sbind (pure w (priced_or_error D app (au_usage body) rc)) (\<lambda>w priced.
      let new_burned = burned_credits burnable (credits priced) in
      sbind (reverse_recorded D (E 1) app w account (recorded_charge_entry D original) run
               (scope @ ''::amend-reverse'')) (\<lambda>w _.
      sbind (charge_burned D (E 2) app w account new_burned run (scope @ ''::amend-charge'')) (\<lambda>w charge_id.
        amend_record D E app w original
          \<lparr>amend_event_id = event_id original,
           amend_properties = JObject (usage_properties D model (au_usage body) priced new_burned
              burnable charge_id rate_card_id rc @
              [(''amends'', JString (uuid_str D (as_uuid (event_id original))))]),
           amend_idempotency_key = Some (au_idempotency_key body)\<rparr>
          scope new_burned charge_id (dec_str D (credits priced)))))))"

definition amend_usage ::
  "deps \<Rightarrow> (nat \<Rightarrow> env) \<Rightarrow> ('l, 'x) app_state \<Rightarrow> 'l \<times> 'x \<Rightarrow> uuid \<Rightarrow> amend_usage_body
     \<Rightarrow> ('l \<times> 'x, api_error, amend_usage_result) sres" where
  "amend_usage D E app w i body =
     sbind (on_events (fst w) (ev_get (app_events app) (snd w) (Id i))) (\<lambda>w original.
     if event_status original = VoidedEvent
     then Some (w, Inl (unprocessable
       ''event is voided; a voided run's events cannot be amended (would re-charge a dead run)''))
     else if \<not> is_engine_priced original
     then Some (w, Inl (unprocessable
       ''not an engine-priced usage event; only POST /v1/usage events can be amended''))
     else let amended_id = idempotent_event_id D (event_org_id original)
            (event_idempotency_key original @ ''::amend::'' @ au_idempotency_key body) in
       case ev_get (app_events app) (snd w) amended_id of
         None \<Rightarrow> None
       | Some (x, Inr existing) \<Rightarrow>
           amend_reply D app (fst w, x) (event_account_id original) existing
             (recorded_credits D existing) (recorded_credits D original)
             (case prop_str existing ''priced_credits'' of None \<Rightarrow> [] | Some t \<Rightarrow> t)
       | Some (x, Inl _) \<Rightarrow>
           if event_status original \<noteq> Recorded
           then Some ((fst w, x), Inl (unprocessable
             ''event is superseded; amend its current version instead''))
           else (case (case au_model body of Some m \<Rightarrow> Some m | None \<Rightarrow> prop_str original ''model'') of
             None \<Rightarrow> Some ((fst w, x), Inl (unprocessable
               ''original event has no model to re-price against''))
           | Some model \<Rightarrow> amend_apply D E app (fst w, x) original amended_id body model))"

section \<open>Killing a run\<close>

record void_run_response =
  vv_events_voided :: nat
  vv_holds_released :: nat
  vv_charges_refunded :: nat
  vv_credits_refunded :: credit

definition api_void_run ::
  "(nat \<Rightarrow> env) \<Rightarrow> ('l, 'x) app_state \<Rightarrow> 'l \<times> 'x \<Rightarrow> uuid \<Rightarrow> ('l \<times> 'x, api_error, void_run_response) sres" where
  "api_void_run E app w i =
     sbind (on_events (fst w) (ev_void_run (app_events app) (snd w) (Id i))) (\<lambda>w n.
     sbind (on_ledger (snd w) (be_void_run (app_ledger app) (E 1) (fst w) (Id i))) (\<lambda>w sm.
       Some (w, Inr \<lparr>vv_events_voided = n, vv_holds_released = holds_released sm,
         vv_charges_refunded = charges_refunded sm, vv_credits_refunded = credits_refunded sm\<rparr>)))"

section \<open>Budgets\<close>

definition WARNING_RATIO :: rat where
  "WARNING_RATIO = 8 / 10"

definition classify :: "deps \<Rightarrow> rat \<Rightarrow> rat \<Rightarrow> (rat \<times> string) option" where
  "classify D used limit =
     (if limit = 0 \<or> limit < 0 then Some (0, ''ok'')
      else do {
        q \<leftarrow> dec_div D used limit;
        let ratio = dec_round_dp D 4 q;
        if limit \<le> used then Some (ratio, ''exceeded'')
        else do {
          threshold \<leftarrow> dec_mul D limit WARNING_RATIO;
          if threshold \<le> used then Some (ratio, ''warning'') else Some (ratio, ''ok'') } })"

text \<open>What \<open>PgLedger::period_usage\<close> (\<open>crates/meter-store-pg/src/report.rs\<close>) returns.\<close>

record period_usage =
  total_credits :: credit
  entry_count :: nat

end
