(* ===== verification/Api_Props.thy ===== *)
theory Api_Props
  imports Api
begin

text \<open>
  What the request handlers promise: a metered call charges exactly its price and records it once,
  an amendment moves exactly the difference, a killed run stays dead. The lemmas are proved in the
  locale \<open>metering\<close>, the union of the ledger's and the event store's contracts, and instantiated with the
  in-memory stores.
\<close>

section \<open>Unfolding a handler that succeeds\<close>

lemma pure_Ok_iff: "pure w m = Some (w', Inr a) \<longleftrightarrow> w' = w \<and> m = Some (Inr a)"
  by (auto simp: pure_def)

lemma on_ledger_Ok_iff: "on_ledger x m = Some (w, Inr a) \<longleftrightarrow> snd w = x \<and> m = Some (fst w, Inr a)"
  by (cases m; cases "snd (the m)"; cases w) (auto simp: on_ledger_def)

lemma on_events_Ok_iff: "on_events l m = Some (w, Inr a) \<longleftrightarrow> fst w = l \<and> m = Some (snd w, Inr a)"
  by (cases m; cases "snd (the m)"; cases w) (auto simp: on_events_def)

lemmas handler_Ok = sbind_Ok_iff pure_Ok_iff on_ledger_Ok_iff on_events_Ok_iff

lemma charge_burned_cases:
  assumes "charge_burned D E app (l, x) a b run key = Some (w, Inr cid)"
  obtains (free) "\<not> 0 < b" "w = (l, x)" "cid = None"
  | (charged) l' e where "0 < b" "w = (l', x)" "cid = Some (uuid_str D (as_uuid (entry_id e)))"
      "be_charge (app_ledger app) E l \<lparr>charge_account = a, charge_amount = b, charge_run_id = run,
         charge_idempotency_key = Some key\<rparr> = Some (l', Inr e)"
  using assms
  by (cases w) (auto simp: charge_burned_def is_positive_def handler_Ok split: if_splits)

lemma charge_burned_keeps:
  "charge_burned D E app (l, x) a b run key = Some ((l', x'), Inr cid) \<Longrightarrow> x' = x"
  by (erule charge_burned_cases) auto

section \<open>Pricing does not depend on the card's id\<close>

lemma cost_from_card_id: "cost_from D u (rc\<lparr>card_id := i\<rparr>) acc qs = cost_from D u rc acc qs"
proof (induction qs arbitrary: acc)
  case (Cons q qs)
  then show ?case by (cases q) (simp add: card_component_def cong: option.case_cong)
qed simp

lemma priced_card_id: "priced_or_error D app u (rc\<lparr>card_id := i\<rparr>) = priced_or_error D app u rc"
  by (simp add: priced_or_error_def price_usage_def cost_def cost_from_card_id)

text \<open>Resolving again finds the same card, up to the id a catalog card is given.\<close>

lemma resolve_card_again:
  assumes "resolve_card D E app model card_ref = Some (Inr rc)"
  shows "\<exists>i. resolve_card D E' app model card_ref = Some (Inr (rc\<lparr>card_id := i\<rparr>))"
proof (cases card_ref)
  case None
  with assms obtain e where e: "find_model model = Some e" "provider_cost_card E e = Some rc"
    by (auto simp: resolve_card_def rate_card_for_def Option.bind_eq_Some_conv split: option.splits)
  then have "provider_cost_card E' e = Some (rc\<lparr>card_id := Id (new_v7 E' 0)\<rparr>)"
    by (auto simp: provider_cost_card_eq)
  with None e(1) show ?thesis by (auto simp: resolve_card_def rate_card_for_def)
next
  case (Some u)
  with assms show ?thesis by (auto simp: resolve_card_def intro!: exI [of _ "card_id rc"] split: option.splits)
qed

lemma map_of_or_insert: "map_of base k = Some v \<Longrightarrow> map_of (or_insert_all base tags) k = Some v"
  by (induction base tags rule: or_insert_all.induct) (auto simp: map_add_Some_iff)

text \<open>Caller tags never change a property the handler records itself.\<close>

lemma merged_prop:
  "map_of base k = Some v \<Longrightarrow> properties e = merge_tags (JObject base) tags \<Longrightarrow> event_prop e k = Some v"
  by (cases tags) (auto simp: merge_tags_def event_prop_def map_of_or_insert)

lemma void_live_dead: "\<not> live_in_run run (void_live run e)"
  by (simp add: void_live_def live_in_run_def)

section \<open>The handlers over any pair of stores\<close>

locale metering =
  ledger_backend L D good unused later has avail hold_at remainder keyed owns voidable clear +
  event_backend X D lookup after
  for L :: "'l ledger_ops" and D :: deps and good unused later has avail hold_at remainder keyed owns
    voidable clear and X :: "'x event_ops" and lookup after
begin

definition over :: "('l, 'x) app_state \<Rightarrow> bool" where
  "over app \<longleftrightarrow> app_ledger app = L \<and> app_events app = X"

definition usage_record :: "(nat \<Rightarrow> env) \<Rightarrow> meter_usage_body \<Rightarrow> rate_card \<Rightarrow> priced_usage \<Rightarrow> string option \<Rightarrow> record_event"
where
  "usage_record E body rc priced cid =
     \<lparr>rec_org_id = mu_org_id body, rec_idempotency_key = mu_idempotency_key body @ ''::event'',
      rec_event_time = now_utc (E 0) 0, rec_meter = ''tokens'', rec_account_id = mu_account body,
      rec_run_id = mu_run_id body,
      rec_properties = merge_tags
        (JObject (usage_properties D (mu_model body) (mu_usage body) priced
           (burned_credits (mu_burnable body) (credits priced)) (mu_burnable body) cid
           (mu_rate_card_id body) rc)) (mu_tags body)\<rparr>"

lemma meter_usage_Ok:
  assumes "over app" and "meter_usage D E app (l, x) body = Some ((l', x'), Inr r)"
  obtains rc priced cid event bal av where
    "resolve_card D (E 0) app (mu_model body) (mu_rate_card_id body) = Some (Inr rc)"
    "priced_or_error D app (mu_usage body) rc = Some (Inr priced)"
    "charge_burned D (E 1) app (l, x) (mu_account body) (burned_credits (mu_burnable body) (credits priced))
       (mu_run_id body) (mu_idempotency_key body @ ''::charge'') = Some ((l', x), Inr cid)"
    "ev_record X (E 2) x (usage_record E body rc priced cid) = Some (x', Inr event)"
    "be_balance L l' (mu_account body) = Some (l', Inr bal)" "available D bal = Some av"
    "r = \<lparr>mr_credits = dec_str D (burned_credits (mu_burnable body) (credits priced)),
          mr_priced_credits = dec_str D (credits priced), mr_cogs_usd = dec_str D (amount (cogs priced)),
          mr_customer_price_usd = dec_str D (amount (customer_price priced)),
          mr_event_id = uuid_str D (as_uuid (event_id event)),
          mr_charged = is_positive (burned_credits (mu_burnable body) (credits priced)),
          mr_settled = dec_str D (bal_settled bal), mr_available = dec_str D av\<rparr>"
proof -
  from assms obtain rc priced l1 x1 cid event bal av where
    res: "resolve_card D (E 0) app (mu_model body) (mu_rate_card_id body) = Some (Inr rc)"
    "priced_or_error D app (mu_usage body) rc = Some (Inr priced)" and
    chg: "charge_burned D (E 1) app (l, x) (mu_account body)
       (burned_credits (mu_burnable body) (credits priced)) (mu_run_id body)
       (mu_idempotency_key body @ ''::charge'') = Some ((l1, x1), Inr cid)" and
    rec: "ev_record X (E 2) x1 (usage_record E body rc priced cid) = Some (x', Inr event)" and
    bal: "be_balance L l1 (mu_account body) = Some (l', Inr bal)" "available D bal = Some av" and
    r: "r = \<lparr>mr_credits = dec_str D (burned_credits (mu_burnable body) (credits priced)),
          mr_priced_credits = dec_str D (credits priced), mr_cogs_usd = dec_str D (amount (cogs priced)),
          mr_customer_price_usd = dec_str D (amount (customer_price priced)),
          mr_event_id = uuid_str D (as_uuid (event_id event)),
          mr_charged = is_positive (burned_credits (mu_burnable body) (credits priced)),
          mr_settled = dec_str D (bal_settled bal), mr_available = dec_str D av\<rparr>"
    by (auto simp: meter_usage_def handler_Ok Let_def Option.bind_eq_Some_conv over_def usage_record_def)
  have "x1 = x" "l1 = l'" using charge_burned_keeps [OF chg] balance_reads [OF bal(1)] by auto
  with res chg rec bal r show ?thesis by (intro that) simp_all
qed

lemma charge_burned_good:
  assumes "exact_sums D" and "over app" and "good l" and "unused l (new_v7 E 0)"
    and "charge_burned D E app (l, x) a b run key = Some ((l', x'), Inr cid)"
  shows "good l'"
  using assms(5) by (cases rule: charge_burned_cases) (use assms charge_good in \<open>auto simp: over_def\<close>)

lemma charge_burned_again:
  assumes "exact_sums D" and "over app" and "good l" and "unused l (new_v7 E 0)"
    and "charge_burned D E app (l, x) a b run key = Some ((l1, x'), Inr cid)" and "later l1 l2"
  shows "charge_burned D E' app (l2, y) a b run key = Some ((l2, y), Inr cid)"
  using assms(5)
proof (cases rule: charge_burned_cases)
  case free
  then show ?thesis by (simp add: charge_burned_def is_positive_def)
next
  case (charged l' e)
  with charge_again [OF assms(1,3,4), of _ l1 e key l2 E'] assms(2,6) show ?thesis
    by (auto simp: charge_burned_def is_positive_def over_def on_ledger_def)
qed

lemma charge_burned_moves:
  assumes "exact_sums D" and "over app" and "unused l (new_v7 E 0)" and "a \<noteq> SYSTEM_ACCOUNT"
    and "charge_burned D E app (l, x) a b run key = Some ((l', x'), Inr cid)" and "\<not> keyed l a key"
  shows "(if 0 < b then avail l' a = avail l a - b else l' = l)"
  using assms(5)
proof (cases rule: charge_burned_cases)
  case (charged l'' e)
  with charge_effect [OF assms(1,3) _ _ ] assms(2,4,6) show ?thesis by (fastforce simp: over_def)
qed simp

lemma available_total: "exact_sums D \<Longrightarrow> total_sums D \<Longrightarrow> \<exists>av. available D bal = Some av"
  by (simp add: available_def dec_sub_total)

text \<open>A retry, after whatever else happened, changes nothing and reports the same charge and event.\<close>

lemma meter_usage_again:
  assumes "exact_sums D" and "total_sums D" and "over app" and "good l" and "unused l (new_v7 (E 1) 0)"
    and "meter_usage D E app (l, x) body = Some ((l1, x1), Inr r)" and "later l1 l2" and "after x1 x2"
  shows "\<exists>r'. meter_usage D E' app (l2, x2) body = Some ((l2, x2), Inr r') \<and>
    r' = r\<lparr>mr_settled := mr_settled r', mr_available := mr_available r'\<rparr>"
  using assms(3,6)
proof (rule meter_usage_Ok)
  fix rc priced cid event bal av
  assume ok: "resolve_card D (E 0) app (mu_model body) (mu_rate_card_id body) = Some (Inr rc)"
    "priced_or_error D app (mu_usage body) rc = Some (Inr priced)"
    "charge_burned D (E 1) app (l, x) (mu_account body) (burned_credits (mu_burnable body) (credits priced))
       (mu_run_id body) (mu_idempotency_key body @ ''::charge'') = Some ((l1, x), Inr cid)"
    "ev_record X (E 2) x (usage_record E body rc priced cid) = Some (x1, Inr event)"
    "be_balance L l1 (mu_account body) = Some (l1, Inr bal)"
    and r: "r = \<lparr>mr_credits = dec_str D (burned_credits (mu_burnable body) (credits priced)),
          mr_priced_credits = dec_str D (credits priced), mr_cogs_usd = dec_str D (amount (cogs priced)),
          mr_customer_price_usd = dec_str D (amount (customer_price priced)),
          mr_event_id = uuid_str D (as_uuid (event_id event)),
          mr_charged = is_positive (burned_credits (mu_burnable body) (credits priced)),
          mr_settled = dec_str D (bal_settled bal), mr_available = dec_str D av\<rparr>"
  obtain i where rc: "resolve_card D (E' 0) app (mu_model body) (mu_rate_card_id body)
      = Some (Inr (rc\<lparr>card_id := i\<rparr>))" using resolve_card_again [OF ok(1)] by blast
  note chg = charge_burned_again [OF assms(1,3,4,5) ok(3) assms(7), of "E' 1" x2]
  have "has l1 (mu_account body)" using balance_avail [OF assms(1) ok(5)] by blast
  then have "has l2 (mu_account body)"
    using later_has [OF assms(1) charge_burned_good [OF assms(1,3,4,5) ok(3)] assms(7)] by blast
  then obtain bal' av' where bal: "be_balance L l2 (mu_account body) = Some (l2, Inr bal')"
    "available D bal' = Some av'"
    using balance_total [OF assms(1,2)] available_total [OF assms(1,2)] by blast
  have same: "recorded_id D (usage_record F body rc' priced cid) = recorded_id D (usage_record E body rc priced cid)"
    for F rc' by (simp add: recorded_id_def usage_record_def)
  obtain event' where ev: "lookup x2 (recorded_id D (usage_record E body rc priced cid)) = Some event'"
    using lookup_after [OF assms(8) record_stores [OF ok(4)]] by blast
  have id: "event_id event' = event_id event"
    using lookup_id [OF ev] lookup_id [OF record_stores [OF ok(4)]] by simp
  have "ev_record X (E' 2) x2 (usage_record E' body (rc\<lparr>card_id := i\<rparr>) priced cid) = Some (x2, Inr event')"
    using record_again ev same by metis
  then show ?thesis
    using rc ok(2) chg bal assms(3) r id
    by (auto simp: meter_usage_def pure_def priced_card_id on_events_def on_ledger_def over_def
          usage_record_def Let_def)
qed

text \<open>A first call charges the priced credits, or nothing, and records what it charged.\<close>

lemma meter_usage_first:
  assumes "exact_sums D" and "over app" and "unused l (new_v7 (E 1) 0)"
    and "mu_account body \<noteq> SYSTEM_ACCOUNT"
    and "meter_usage D E app (l, x) body = Some ((l1, x1), Inr r)"
    and "\<not> keyed l (mu_account body) (mu_idempotency_key body @ ''::charge'')"
    and "lookup x (idempotent_event_id D (mu_org_id body) (mu_idempotency_key body @ ''::event'')) = None"
  shows "\<exists>rc priced e. resolve_card D (E 0) app (mu_model body) (mu_rate_card_id body) = Some (Inr rc) \<and>
    price_usage D (to_usage (mu_usage body)) rc (app_credit_value app) = Some (Inr priced) \<and>
    (let b = burned_credits (mu_burnable body) (credits priced) in
      (if 0 < b then avail l1 (mu_account body) = avail l (mu_account body) - b else l1 = l) \<and>
      lookup x1 (idempotent_event_id D (mu_org_id body) (mu_idempotency_key body @ ''::event'')) = Some e \<and>
      event_account_id e = mu_account body \<and> event_run_id e = mu_run_id body \<and>
      event_status e = Recorded \<and>
      event_prop e ''credits'' = Some (JString (dec_str D b)) \<and>
      event_prop e ''priced_credits'' = Some (JString (dec_str D (credits priced))) \<and>
      mr_credits r = dec_str D b \<and> mr_event_id r = uuid_str D (as_uuid (event_id e)))"
  using assms(2,5)
proof (rule meter_usage_Ok)
  fix rc priced cid event bal av
  assume ok: "resolve_card D (E 0) app (mu_model body) (mu_rate_card_id body) = Some (Inr rc)"
    "priced_or_error D app (mu_usage body) rc = Some (Inr priced)"
    "charge_burned D (E 1) app (l, x) (mu_account body) (burned_credits (mu_burnable body) (credits priced))
       (mu_run_id body) (mu_idempotency_key body @ ''::charge'') = Some ((l1, x), Inr cid)"
    "ev_record X (E 2) x (usage_record E body rc priced cid) = Some (x1, Inr event)"
    and r: "r = \<lparr>mr_credits = dec_str D (burned_credits (mu_burnable body) (credits priced)),
          mr_priced_credits = dec_str D (credits priced), mr_cogs_usd = dec_str D (amount (cogs priced)),
          mr_customer_price_usd = dec_str D (amount (customer_price priced)),
          mr_event_id = uuid_str D (as_uuid (event_id event)),
          mr_charged = is_positive (burned_credits (mu_burnable body) (credits priced)),
          mr_settled = dec_str D (bal_settled bal), mr_available = dec_str D av\<rparr>"
  have rid: "recorded_id D (usage_record E body rc priced cid) =
     idempotent_event_id D (mu_org_id body) (mu_idempotency_key body @ ''::event'')"
    by (simp add: recorded_id_def usage_record_def)
  have e: "event = into_event D (now_utc (E 2) 0) (usage_record E body rc priced cid)"
    using record_new [OF _ ok(4)] assms(7) rid by simp
  have "price_usage D (to_usage (mu_usage body)) rc (app_credit_value app) = Some (Inr priced)"
    using ok(2) by (simp add: priced_or_error_def map_err_Ok_iff)
  moreover have "event_prop event k = Some v"
    if "map_of (usage_properties D (mu_model body) (mu_usage body) priced
           (burned_credits (mu_burnable body) (credits priced)) (mu_burnable body) cid
           (mu_rate_card_id body) rc) k = Some v" for k v
    using that by (rule merged_prop) (simp add: e into_event_def usage_record_def)
  ultimately show ?thesis
    using ok(1) charge_burned_moves [OF assms(1-4) ok(3) assms(6)] record_stores [OF ok(4)] rid r
    by (intro exI [of _ rc] exI [of _ priced] exI [of _ event])
       (simp add: Let_def usage_properties_def, simp add: e into_event_def usage_record_def)
qed

section \<open>A killed run\<close>

text \<open>\<open>amend_usage\<close> on a version that is not live never changes a store.\<close>

lemma amend_reply_keeps:
  assumes "over app" and "amend_reply D app w a e nb ob t = Some (w', r)"
  shows "w' = w"
proof -
  obtain l x where w: "w = (l, x)" by (cases w)
  show ?thesis
    using assms balance_reads
    by (fastforce simp: w amend_reply_def over_def on_ledger_def sbind_def Option.bind_eq_Some_conv
             split: option.splits sum.splits prod.splits)
qed

lemma amend_usage_dead:
  assumes "over app" and "lookup x (Id i) = Some e" and "event_status e \<noteq> Recorded"
    and "amend_usage D E app (l, x) i body = Some (w, r)"
  shows "w = (l, x)"
  using assms(4) amend_reply_keeps [OF assms(1)] assms(1-3)
  by (auto simp: amend_usage_def over_def get_reads on_events_def Let_def split: if_splits option.splits)

lemma void_run_is_final:
  assumes "exact_sums D" and "total_sums D" and "over app" and "good l" and "voidable (E 1) l"
  shows "\<exists>l' x' r. api_void_run E app (l, x) i = Some ((l', x'), Inr r) \<and> clear l' (Id i) \<and>
    (\<forall>j e. lookup x' j = Some e \<longrightarrow> \<not> live_in_run (Id i) e) \<and>
    api_void_run E' app (l', x') i = Some ((l', x'), Inr \<lparr>vv_events_voided = 0, vv_holds_released = 0,
      vv_charges_refunded = 0, vv_credits_refunded = 0\<rparr>) \<and>
    (\<forall>j e F body w y. lookup x' (Id j) = Some e \<longrightarrow> event_run_id e = Some (Id i) \<longrightarrow>
       amend_usage D F app (l', x') j body = Some (w, y) \<longrightarrow> w = (l', x'))"
proof -
  from void_run_kills [of x "Id i"] obtain x' n where
    x': "ev_void_run X x (Id i) = Some (x', Inr n)" "\<forall>j. lookup x' j = map_option (void_live (Id i)) (lookup x j)"
    "ev_void_run X x' (Id i) = Some (x', Inr 0)" by blast
  from void_run_returns [OF assms(1,2,4,5)] obtain l' sm where
    l': "be_void_run L (E 1) l (Id i) = Some (l', Inr sm)" "clear l' (Id i)" by blast
  have dead: "\<not> live_in_run (Id i) e" if "lookup x' j = Some e" for j e
    using x'(2) that void_live_dead by auto
  then have "w = (l', x')" if "lookup x' (Id j) = Some e" "event_run_id e = Some (Id i)"
      "amend_usage D F app (l', x') j body = Some (w, y)" for j e F body w y
    using amend_usage_dead [OF assms(3) that(1) _ that(3)] that(1,2) by (auto simp: live_in_run_def)
  moreover have "api_void_run E' app (l', x') i = Some ((l', x'), Inr \<lparr>vv_events_voided = 0,
      vv_holds_released = 0, vv_charges_refunded = 0, vv_credits_refunded = 0\<rparr>)"
    using void_run_again [OF assms(1,2) l'(2)] x'(3) assms(3)
    by (simp add: api_void_run_def over_def on_events_def on_ledger_def empty_summary_def)
  moreover have "\<exists>r. api_void_run E app (l, x) i = Some ((l', x'), Inr r)"
    using l'(1) x'(1) assms(3) by (simp add: api_void_run_def over_def on_events_def on_ledger_def)
  ultimately show ?thesis using l'(2) dead by blast
qed

section \<open>Amending a priced event\<close>

abbreviation amend_scope :: "event \<Rightarrow> amend_usage_body \<Rightarrow> string" where
  "amend_scope original body \<equiv>
     uuid_str D (as_uuid (amended_version_id D original (au_idempotency_key body)))"

lemma amend_usage_applies:
  assumes "over app" and "lookup x (Id i) = Some original" and "event_status original = Recorded"
    and "lookup x (amended_version_id D original (au_idempotency_key body)) = None"
    and "amend_usage D E app (l, x) i body = Some (w, Inr r)"
  shows "is_engine_priced original \<and> (\<exists>model.
    (case au_model body of Some m \<Rightarrow> Some m | None \<Rightarrow> prop_str original ''model'') = Some model \<and>
    amend_apply D E app (l, x) original
    (amended_version_id D original (au_idempotency_key body)) body model = Some (w, Inr r))"
  using assms
  by (auto simp: amend_usage_def over_def get_reads on_events_def Let_def amended_version_id_def
           split: if_splits option.splits)

lemma amend_reply_Ok:
  assumes "exact_sums D" and "over app" and "amend_reply D app (l, x) a e nb ob t = Some (w, Inr r)"
  shows "w = (l, x) \<and> has l a \<and> (\<exists>av st. 
    r = \<lparr>ar_event_id = uuid_str D (as_uuid (event_id e)), ar_credits = dec_str D nb,
         ar_priced_credits = t, ar_delta = dec_str D (nb - ob), ar_settled = st, ar_available = av\<rparr>)"
proof -
  from assms(2,3) obtain bal l' dl av where
    b: "be_balance L l a = Some (l', Inr bal)" "dec_sub D nb ob = Some dl" "w = (l', x)"
    "r = \<lparr>ar_event_id = uuid_str D (as_uuid (event_id e)), ar_credits = dec_str D nb,
         ar_priced_credits = t, ar_delta = dec_str D dl, ar_settled = dec_str D (bal_settled bal),
         ar_available = dec_str D av\<rparr>"
    by (cases w) (auto simp: amend_reply_def handler_Ok over_def Option.bind_eq_Some_conv)
  with balance_reads [OF b(1)] balance_avail [OF assms(1) b(1)] dec_sub_exact [OF assms(1) b(2)]
  show ?thesis by auto
qed

lemma reverse_recorded_keeps:
  assumes "over app" and "reverse_recorded D E app (l, x) a c run key = Some (w, Inr u)"
  shows "snd w = x"
  using assms(2) by (auto simp: reverse_recorded_def handler_Ok split: option.splits)

lemma amend_apply_Ok:
  assumes "exact_sums D" and "over app" and "lookup x (event_id original) = Some original"
    and "event_status original = Recorded"
    and "lookup x (amended_version_id D original (au_idempotency_key body)) = None"
    and "amend_apply D E app (l, x) original (amended_version_id D original (au_idempotency_key body)) body model
       = Some ((l', x'), Inr r)"
  obtains rc priced l1 cid event st av where
    "resolve_card D (E 0) app model (case au_rate_card_id body of Some j \<Rightarrow> Some j | None \<Rightarrow> prop_str original ''rate_card_id'')
       = Some (Inr rc)"
    "priced_or_error D app (au_usage body) rc = Some (Inr priced)"
    "reverse_recorded D (E 1) app (l, x) (event_account_id original) (recorded_charge_entry D original)
       (event_run_id original) (amend_scope original body @ ''::amend-reverse'') = Some ((l1, x), Inr ())"
    "charge_burned D (E 2) app (l1, x) (event_account_id original)
       (burned_credits (amend_burnable original) (credits priced)) (event_run_id original)
       (amend_scope original body @ ''::amend-charge'') = Some ((l', x), Inr cid)"
    "lookup x' (event_id original) = Some (original\<lparr>event_status := Amended\<rparr>)"
    "lookup x' (amended_version_id D original (au_idempotency_key body)) = Some event"
    "event_prop event ''credits'' =
       Some (JString (dec_str D (burned_credits (amend_burnable original) (credits priced))))"
    "event_prop event ''priced_credits'' = Some (JString (dec_str D (credits priced)))"
    "has l' (event_account_id original)"
    "r = \<lparr>ar_event_id = uuid_str D (as_uuid (event_id event)),
          ar_credits = dec_str D (burned_credits (amend_burnable original) (credits priced)),
          ar_priced_credits = dec_str D (credits priced),
          ar_delta = dec_str D (burned_credits (amend_burnable original) (credits priced) -
            recorded_credits D original), ar_settled = st, ar_available = av\<rparr>"
proof -
  let ?a = "event_account_id original" and ?k = "au_idempotency_key body"
  let ?rcid = "case au_rate_card_id body of Some j \<Rightarrow> Some j | None \<Rightarrow> prop_str original ''rate_card_id''"
  from assms(2,6) obtain rc priced w1 u w2 cid where
    card: "resolve_card D (E 0) app model ?rcid = Some (Inr rc)" and
    p: "priced_or_error D app (au_usage body) rc = Some (Inr priced)" and
    rev: "reverse_recorded D (E 1) app (l, x) ?a (recorded_charge_entry D original) (event_run_id original)
       (amend_scope original body @ ''::amend-reverse'') = Some (w1, Inr u)" and
    chg: "charge_burned D (E 2) app w1 ?a (burned_credits (amend_burnable original) (credits priced))
       (event_run_id original) (amend_scope original body @ ''::amend-charge'') = Some (w2, Inr cid)" and
    rest: "amend_record D E app w2 original
          \<lparr>amend_event_id = event_id original,
           amend_properties = JObject (usage_properties D model (au_usage body) priced
              (burned_credits (amend_burnable original) (credits priced)) (amend_burnable original) cid ?rcid rc @
              [(''amends'', JString (uuid_str D (as_uuid (event_id original))))]),
           amend_idempotency_key = Some ?k\<rparr>
          (amend_scope original body) (burned_credits (amend_burnable original) (credits priced)) cid
          (dec_str D (credits priced)) = Some ((l', x'), Inr r)"
    by (simp only: amend_apply_def handler_Ok Let_def) blast
  obtain l1 where w1: "w1 = (l1, x)" using reverse_recorded_keeps [OF assms(2) rev] by (cases w1) auto
  obtain l2 where w2: "w2 = (l2, x)" using charge_burned_keeps [of D "E 2" app l1 x] chg w1 by (cases w2) auto
  let ?req = "\<lparr>amend_event_id = event_id original,
           amend_properties = JObject (usage_properties D model (au_usage body) priced
              (burned_credits (amend_burnable original) (credits priced)) (amend_burnable original) cid ?rcid rc @
              [(''amends'', JString (uuid_str D (as_uuid (event_id original))))]),
           amend_idempotency_key = Some ?k\<rparr>"
  let ?e = "into_amended_event D (E 3) ?req original"
  from amend_supersedes [of x ?req original ?k "E 3"] assms(3-5) obtain y where
    y: "ev_amend X (E 3) x ?req = Some (y, Inr ?e)"
      "lookup y (event_id original) = Some (original\<lparr>event_status := Amended\<rparr>)"
      "lookup y (amended_version_id D original ?k) = Some ?e" by auto
  have "amend_reply D app (l2, y) ?a ?e (burned_credits (amend_burnable original) (credits priced))
      (recorded_credits D original) (dec_str D (credits priced)) = Some ((l', x'), Inr r)"
    using rest y(1) w2 assms(2) by (simp add: amend_record_def over_def)
  note reply = amend_reply_Ok [OF assms(1,2) this]
  have props: "event_prop ?e ''credits'' =
       Some (JString (dec_str D (burned_credits (amend_burnable original) (credits priced))))"
    "event_prop ?e ''priced_credits'' = Some (JString (dec_str D (credits priced)))"
    by (simp_all add: event_prop_def into_amended_event_def Let_def usage_properties_def)
  from reply rev chg y(2,3) w1 w2 props p card show ?thesis by (auto intro!: that)
qed

lemma reverse_recorded_moves:
  assumes "exact_sums D" and "over app" and "good l" and "unused l (new_v7 E 0)"
    and "reverse_recorded D E app (l, x) a c run key = Some ((l', x'), Inr u)"
  shows "good l' \<and> (\<forall>v. unused l v \<longrightarrow> v \<noteq> new_v7 E 0 \<longrightarrow> unused l' v) \<and>
    (\<forall>b k. keyed l' b k \<longrightarrow> keyed l b k \<or> k = key) \<and>
    (\<forall>i. a \<noteq> SYSTEM_ACCOUNT \<longrightarrow> c = Some i \<longrightarrow> \<not> keyed l a key \<longrightarrow> owns l a i \<longrightarrow> 0 < remainder l i \<longrightarrow>
       avail l' a = avail l a + remainder l i)"
proof (cases c)
  case None
  with assms show ?thesis by (simp add: reverse_recorded_def)
next
  case (Some i)
  with assms(2,5) obtain out where
    rev: "be_reverse_charge L E l \<lparr>rev_account = a, rev_charge_entry_id = i, rev_run_id = run,
       rev_idempotency_key = key\<rparr> = Some (l', Inr out)"
    by (auto simp: reverse_recorded_def handler_Ok over_def)
  from reverse_keeps [OF assms(1,3,4) rev] reverse_effect [OF assms(1,4) rev] Some
  show ?thesis by auto
qed

text \<open>A first amendment of an intact charge moves exactly the difference.\<close>

lemma amend_usage_first:
  assumes "exact_sums D" and "over app" and "good l"
    and "unused l (new_v7 (E 1) 0)" "unused l (new_v7 (E 2) 0)" "new_v7 (E 2) 0 \<noteq> new_v7 (E 1) 0"
    and "lookup x (Id i) = Some original" and "event_status original = Recorded"
    and "event_account_id original \<noteq> SYSTEM_ACCOUNT"
    and "lookup x (amended_version_id D original (au_idempotency_key body)) = None"
    and "\<not> keyed l (event_account_id original) (amend_scope original body @ ''::amend-reverse'')"
    and "\<not> keyed l (event_account_id original) (amend_scope original body @ ''::amend-charge'')"
    and "recorded_charge_entry D original = Some c" and "owns l (event_account_id original) c"
    and "remainder l c = recorded_credits D original" and "0 < recorded_credits D original"
    and "amend_usage D E app (l, x) i body = Some ((l', x'), Inr r)"
  shows "\<exists>model rc priced e.
    (case au_model body of Some m \<Rightarrow> Some m | None \<Rightarrow> prop_str original ''model'') = Some model \<and>
    resolve_card D (E 0) app model (case au_rate_card_id body of Some j \<Rightarrow> Some j | None \<Rightarrow> prop_str original ''rate_card_id'')
      = Some (Inr rc) \<and>
    priced_or_error D app (au_usage body) rc = Some (Inr priced) \<and>
    (let b = burned_credits (amend_burnable original) (credits priced) in
     avail l' (event_account_id original) =
       avail l (event_account_id original) - (max b 0 - recorded_credits D original) \<and>
     ar_delta r = dec_str D (b - recorded_credits D original) \<and> ar_credits r = dec_str D b \<and>
     lookup x' (Id i) = Some (original\<lparr>event_status := Amended\<rparr>) \<and>
     lookup x' (amended_version_id D original (au_idempotency_key body)) = Some e \<and>
     event_prop e ''credits'' = Some (JString (dec_str D b)))"
proof -
  have i: "event_id original = Id i" using lookup_id [OF assms(7)] .
  from amend_usage_applies [OF assms(2,7,8,10,17)] obtain model where
    model: "(case au_model body of Some m \<Rightarrow> Some m | None \<Rightarrow> prop_str original ''model'') = Some model" and
    app: "amend_apply D E app (l, x) original (amended_version_id D original (au_idempotency_key body))
       body model = Some ((l', x'), Inr r)" by blast
  show ?thesis
  proof (rule amend_apply_Ok [OF assms(1,2) _ assms(8,10) app])
    show "lookup x (event_id original) = Some original" using assms(7) i by simp
  next
    fix rc and priced :: priced_usage and l1 cid event st av
    let ?b = "burned_credits (amend_burnable original) (credits priced)" and ?a = "event_account_id original"
    assume card: "resolve_card D (E 0) app model (case au_rate_card_id body of Some j \<Rightarrow> Some j | None \<Rightarrow> prop_str original ''rate_card_id'')
         = Some (Inr rc)"
      and p: "priced_or_error D app (au_usage body) rc = Some (Inr priced)"
      and rev: "reverse_recorded D (E 1) app (l, x) ?a (recorded_charge_entry D original)
        (event_run_id original) (amend_scope original body @ ''::amend-reverse'') = Some ((l1, x), Inr ())"
      and chg: "charge_burned D (E 2) app (l1, x) ?a ?b (event_run_id original)
        (amend_scope original body @ ''::amend-charge'') = Some ((l', x), Inr cid)"
      and ev: "lookup x' (event_id original) = Some (original\<lparr>event_status := Amended\<rparr>)"
        "lookup x' (amended_version_id D original (au_idempotency_key body)) = Some event"
        "event_prop event ''credits'' = Some (JString (dec_str D ?b))"
      and r: "r = \<lparr>ar_event_id = uuid_str D (as_uuid (event_id event)), ar_credits = dec_str D ?b,
          ar_priced_credits = dec_str D (credits priced),
          ar_delta = dec_str D (?b - recorded_credits D original), ar_settled = st, ar_available = av\<rparr>"
    note moved = reverse_recorded_moves [OF assms(1-4) rev]
    have un: "unused l1 (new_v7 (E 2) 0)" using moved assms(5,6) by blast
    have nk: "\<not> keyed l1 ?a (amend_scope original body @ ''::amend-charge'')" using moved assms(12) by auto
    have "avail l1 ?a = avail l ?a + recorded_credits D original"
      using moved assms(9,11,13-16) by (metis (no_types))
    with charge_burned_moves [OF assms(1,2) un assms(9) chg nk]
    have "avail l' ?a = avail l ?a - (max ?b 0 - recorded_credits D original)"
      by (auto simp: max_def split: if_splits)
    with model card p ev r i show ?thesis by (auto simp: Let_def)
  qed
qed

lemma amend_usage_good:
  assumes "exact_sums D" and "over app" and "good l"
    and "unused l (new_v7 (E 1) 0)" "unused l (new_v7 (E 2) 0)" "new_v7 (E 2) 0 \<noteq> new_v7 (E 1) 0"
    and "lookup x (Id i) = Some original" and "event_status original = Recorded"
    and "lookup x (amended_version_id D original (au_idempotency_key body)) = None"
    and "amend_usage D E app (l, x) i body = Some ((l', x'), Inr r)"
  shows "good l'"
proof -
  from amend_usage_applies [OF assms(2,7-10)] obtain model where
    app: "amend_apply D E app (l, x) original (amended_version_id D original (au_idempotency_key body))
       body model = Some ((l', x'), Inr r)" by blast
  have found: "lookup x (event_id original) = Some original" using assms(7) lookup_id [OF assms(7)] by simp
  show ?thesis
  proof (rule amend_apply_Ok [OF assms(1,2) found assms(8,9) app])
    fix rc and priced :: priced_usage and l1 cid
    assume rev: "reverse_recorded D (E 1) app (l, x) (event_account_id original)
        (recorded_charge_entry D original) (event_run_id original)
        (amend_scope original body @ ''::amend-reverse'') = Some ((l1, x), Inr ())"
      and chg: "charge_burned D (E 2) app (l1, x) (event_account_id original)
        (burned_credits (amend_burnable original) (credits priced)) (event_run_id original)
        (amend_scope original body @ ''::amend-charge'') = Some ((l', x), Inr cid)"
    from reverse_recorded_moves [OF assms(1-4) rev] assms(5,6) have "good l1" "unused l1 (new_v7 (E 2) 0)"
      by blast+
    from charge_burned_good [OF assms(1,2) this chg] show "good l'" .
  qed
qed

lemma amend_reply_total:
  assumes "exact_sums D" and "total_sums D" and "over app" and "has l a"
  shows "\<exists>st av. amend_reply D app (l, x) a e nb ob t = Some ((l, x), Inr
    \<lparr>ar_event_id = uuid_str D (as_uuid (event_id e)), ar_credits = dec_str D nb,
     ar_priced_credits = t, ar_delta = dec_str D (nb - ob), ar_settled = st, ar_available = av\<rparr>)"
proof -
  obtain bal where "be_balance L l a = Some (l, Inr bal)" using balance_total [OF assms(1,2,4)] by blast
  with available_total [OF assms(1,2), of bal] assms(3) dec_sub_total [OF assms(1,2), of nb ob]
  show ?thesis by (auto simp: amend_reply_def over_def on_ledger_def)
qed

text \<open>A retry of a successful amendment finds its version, posts nothing and reports the same.\<close>

lemma amend_usage_again:
  assumes "exact_sums D" and "total_sums D" and "text_roundtrip D" and "over app"
    and "lookup x (Id i) = Some original" and "event_status original = Recorded"
    and "lookup x (amended_version_id D original (au_idempotency_key body)) = None"
    and "amend_usage D E app (l, x) i body = Some ((l1, x1), Inr r)"
    and "\<And>a. has l1 a \<Longrightarrow> has l2 a" and "after x1 x2"
  shows "\<exists>r'. amend_usage D E' app (l2, x2) i body = Some ((l2, x2), Inr r') \<and>
    r' = r\<lparr>ar_settled := ar_settled r', ar_available := ar_available r'\<rparr>"
proof -
  let ?v = "amended_version_id D original (au_idempotency_key body)" and ?a = "event_account_id original"
  have i: "event_id original = Id i" using lookup_id [OF assms(5)] .
  from amend_usage_applies [OF assms(4-8)] obtain model where
    priced: "is_engine_priced original" and
    app: "amend_apply D E app (l, x) original ?v body model = Some ((l1, x1), Inr r)" by blast
  show ?thesis
  proof (rule amend_apply_Ok [OF assms(1,4) _ assms(6,7) app])
    show "lookup x (event_id original) = Some original" using assms(5) i by simp
  next
    fix rc and priced' :: priced_usage and l0 cid event st av
    let ?b = "burned_credits (amend_burnable original) (credits priced')"
    assume ev: "lookup x1 (event_id original) = Some (original\<lparr>event_status := Amended\<rparr>)"
        "lookup x1 ?v = Some event" "event_prop event ''credits'' = Some (JString (dec_str D ?b))"
        "event_prop event ''priced_credits'' = Some (JString (dec_str D (credits priced')))"
      and has: "has l1 ?a"
      and r: "r = \<lparr>ar_event_id = uuid_str D (as_uuid (event_id event)), ar_credits = dec_str D ?b,
          ar_priced_credits = dec_str D (credits priced'),
          ar_delta = dec_str D (?b - recorded_credits D original), ar_settled = st, ar_available = av\<rparr>"
    from lookup_after [OF assms(10) ev(1)] i obtain o2 where
      o2: "lookup x2 (Id i) = Some o2" "event_evolves (original\<lparr>event_status := Amended\<rparr>) o2" by auto
    then have o2_eq: "o2 = original\<lparr>event_status := Amended\<rparr>" by (simp add: event_evolves_def) metis
    from lookup_after [OF assms(10) ev(2)] obtain e2 where
      e2: "lookup x2 ?v = Some e2" "event_evolves event e2" by blast
    then have props: "event_prop e2 k = event_prop event k" and id: "event_id e2 = event_id event" for k
      by (metis event_evolves_def event_prop_def event.simps(1,8) event.surjective event.update_convs(9))+
    have rc: "recorded_credits D e2 = ?b"
      using assms(3) by (simp add: recorded_credits_def prop_str_def props ev(3) text_roundtrip_def)
    obtain st' av' where "amend_reply D app (l2, x2) ?a e2 ?b (recorded_credits D original)
        (dec_str D (credits priced')) = Some ((l2, x2), Inr \<lparr>ar_event_id = uuid_str D (as_uuid (event_id e2)),
          ar_credits = dec_str D ?b, ar_priced_credits = dec_str D (credits priced'),
          ar_delta = dec_str D (?b - recorded_credits D original), ar_settled = st', ar_available = av'\<rparr>)"
      using amend_reply_total [OF assms(1,2,4) assms(9) [OF has]] by blast
    moreover have "recorded_credits D o2 = recorded_credits D original" "is_engine_priced o2"
      "event_account_id o2 = ?a"
      "idempotent_event_id D (event_org_id o2) (event_idempotency_key o2 @ ''::amend::'' @ au_idempotency_key body) = ?v"
      using priced by (simp_all add: o2_eq recorded_credits_def prop_str_def event_prop_def is_engine_priced_def
            amended_version_id_def)
    moreover have "event_status o2 = Amended" by (simp add: o2_eq)
    ultimately show ?thesis
      using o2(1) e2(1) assms(4) r rc id props ev(4)
      by (simp add: amend_usage_def over_def get_reads on_events_def prop_str_def Let_def)
  qed
qed

end

interpretation memory_metering: metering "memory_ops D" D ledger_inv unused_id "reaches D" has_account
  available_of "\<lambda>s. map_of (holds s)" remainder_of keyed_entry owned_entry fresh run_clear
  "memory_events D" find_event "plays D" for D
  by unfold_locales

section \<open>The handlers over the in-memory stores\<close>

definition memory_app ::
  "deps \<Rightarrow> money \<Rightarrow> (uuid \<Rightarrow> ledger_error + rate_card_record option) \<Rightarrow> (json \<Rightarrow> string + price_component list)
     \<Rightarrow> (state, event_store) app_state" where
  "memory_app D v cards parse = \<lparr>app_ledger = memory_ops D, app_events = memory_events D,
     app_credit_value = v, app_latest_card = cards, app_parse_components = parse\<rparr>"

lemma memory_app_over: "memory_metering.over D (memory_app D v cards parse)"
  by (simp add: memory_metering.over_def memory_app_def)

lemma memory_app_value [simp]: "app_credit_value (memory_app D v cards parse) = v"
  by (simp add: memory_app_def)

definition demo_app :: "(state, event_store) app_state" where
  "demo_app = memory_app exact_deps (money_new (1 / 10) usd) (\<lambda>_. Inr None) (\<lambda>_. Inr [])"

definition demo_envs :: "nat \<Rightarrow> nat \<Rightarrow> env" where
  "demo_envs n k = demo_env (n + k)"

definition demo_dims :: "64 word \<Rightarrow> usage_dimensions" where
  "demo_dims n = \<lparr>input_uncached = 0, cache_read = 0, cache_write = 0, output_tokens = n, reasoning = 0\<rparr>"

definition demo_usage :: meter_usage_body where
  "demo_usage = \<lparr>mu_org_id = demo_org, mu_account = demo_wallet, mu_model = ''gpt-5'',
     mu_idempotency_key = ''m'', mu_run_id = Some demo_run, mu_usage = demo_dims 100000,
     mu_rate_card_id = None, mu_tags = JObject [(''credits'', JString ''0'')], mu_burnable = True\<rparr>"

lemma demo_metered:
  "map_option (\<lambda>x. map_sum id mr_credits (snd x))
     (meter_usage exact_deps (demo_envs 10) demo_app (demo_funded, []) demo_usage) = Some (Inr ''1111111111/1'')"
  by code_simp

lemma demo_unused: "unused_id demo_funded (new_v7 (demo_envs 10 1) 0)" "demo_wallet \<noteq> SYSTEM_ACCOUNT"
  "mu_account demo_usage = demo_wallet" "available_of demo_funded demo_wallet = 100"
  by (simp_all add: unused_id_fresh del: One_nat_def) code_simp+

text \<open>
  Reasoning tokens are accepted and recorded but never priced: \<open>to_usage\<close> leaves them out, although
  \<open>ReasoningOutput\<close> is a priceable dimension.
\<close>

lemma reasoning_is_free: "priced_or_error D app (dims\<lparr>reasoning := n\<rparr>) rc = priced_or_error D app dims rc"
  by (simp add: priced_or_error_def to_usage_def)

text \<open>
  C23. A metered call charges its price. Over the in-memory stores, the first successful \<open>POST /v1/usage\<close> under a key takes exactly
  the credits the usage prices to out of the account's available credits, or leaves the ledger
  untouched when the usage is not burnable or prices to nothing, and stores one live event of the
  account and run whose recorded credits are what was charged, whatever tags the caller sends.
\<close>

theorem meter_usage_charges_price:
  assumes "exact_sums D" and "unused_id l (new_v7 (E 1) 0)" and "mu_account body \<noteq> SYSTEM_ACCOUNT"
    and "meter_usage D E (memory_app D v cards parse) (l, x) body = Some ((l1, x1), Inr r)"
    and "find_keyed l (mu_account body) (mu_idempotency_key body @ ''::charge'') = None"
    and "find_event x (idempotent_event_id D (mu_org_id body) (mu_idempotency_key body @ ''::event'')) = None"
  shows "\<exists>rc priced e. resolve_card D (E 0) (memory_app D v cards parse) (mu_model body)
        (mu_rate_card_id body) = Some (Inr rc) \<and>
    price_usage D (to_usage (mu_usage body)) rc v = Some (Inr priced) \<and>
    (let b = burned_credits (mu_burnable body) (credits priced) in
      (if 0 < b then available_of l1 (mu_account body) = available_of l (mu_account body) - b else l1 = l) \<and>
      find_event x1 (idempotent_event_id D (mu_org_id body) (mu_idempotency_key body @ ''::event'')) = Some e \<and>
      event_account_id e = mu_account body \<and> event_run_id e = mu_run_id body \<and>
      event_status e = Recorded \<and>
      event_prop e ''credits'' = Some (JString (dec_str D b)) \<and>
      event_prop e ''priced_credits'' = Some (JString (dec_str D (credits priced))) \<and>
      mr_credits r = dec_str D b \<and> mr_event_id r = uuid_str D (as_uuid (event_id e)))"
  using memory_metering.meter_usage_first [OF assms(1) memory_app_over assms(2-4) _ assms(6)] assms(5)
  by (simp add: keyed_entry_def)

theorem meter_usage_charges_price_witness:
  "\<exists>w r. meter_usage exact_deps (demo_envs 10) demo_app (demo_funded, []) demo_usage = Some (w, Inr r) \<and>
     available_of (fst w) demo_wallet = 90 \<and> mr_credits r = ''1111111111/1''"
proof -
  from demo_metered obtain w r where
    m: "meter_usage exact_deps (demo_envs 10) demo_app (demo_funded, []) demo_usage = Some (w, Inr r)"
    "mr_credits r = ''1111111111/1''" by (auto simp only: map_reply_Ok_iff)
  have k: "find_keyed demo_funded (mu_account demo_usage) (mu_idempotency_key demo_usage @ ''::charge'') = None"
    "find_event [] (idempotent_event_id exact_deps (mu_org_id demo_usage)
       (mu_idempotency_key demo_usage @ ''::event'')) = None" by code_simp+
  have m': "meter_usage exact_deps (demo_envs 10) (memory_app exact_deps (money_new (1 / 10) usd)
      (\<lambda>_. Inr None) (\<lambda>_. Inr [])) (demo_funded, []) demo_usage = Some ((fst w, snd w), Inr r)"
    using m(1) by (simp add: demo_app_def)
  have a: "mu_account demo_usage \<noteq> SYSTEM_ACCOUNT" using demo_unused(2,3) by simp
  from meter_usage_charges_price [OF exact_deps_laws(1) demo_unused(1) a m' k] obtain priced :: priced_usage where
    "if 0 < burned_credits (mu_burnable demo_usage) (credits priced)
     then available_of (fst w) (mu_account demo_usage) = available_of demo_funded (mu_account demo_usage) -
       burned_credits (mu_burnable demo_usage) (credits priced) else fst w = demo_funded"
    "mr_credits r = dec_str exact_deps (burned_credits (mu_burnable demo_usage) (credits priced))"
    unfolding Let_def by blast
  then obtain b where
    b: "if 0 < b then available_of (fst w) demo_wallet = available_of demo_funded demo_wallet - b
        else fst w = demo_funded" "mr_credits r = rat_text b" unfolding demo_unused(3) exact_deps_sel by blast
  have "rat_of_text ''1111111111/1'' = Some 10" by code_simp
  with m(2) b(2) rat_text_roundtrip [of b] have "b = 10" by simp
  with b(1) demo_unused(4) m show ?thesis by auto
qed

text \<open>
  C24. Metering is exactly once. Over the in-memory stores, whatever ledger and event calls follow a successful \<open>POST /v1/usage\<close>, a
  retry with the same body changes neither store and reports the same credits, cost, event and
  charge; only the balance it reads is current.
\<close>

theorem meter_usage_exactly_once:
  assumes "exact_sums D" and "total_sums D" and "ledger_inv l" and "unused_id l (new_v7 (E 1) 0)"
    and "meter_usage D E (memory_app D v cards parse) (l, x) body = Some ((l1, x1), Inr r)"
    and "runs D l1 qs l2"
  shows "\<exists>r'. meter_usage D E' (memory_app D v cards parse) (l2, event_play D x1 es) body
      = Some ((l2, event_play D x1 es), Inr r') \<and>
    r' = r\<lparr>mr_settled := mr_settled r', mr_available := mr_available r'\<rparr>"
proof -
  have "reaches D l1 l2" "plays D x1 (event_play D x1 es)" using assms(6) by (auto simp: reaches_def plays_def)
  from memory_metering.meter_usage_again [OF assms(1,2) memory_app_over assms(3-5) this] show ?thesis .
qed

theorem meter_usage_exactly_once_witness:
  "\<exists>l1 x1 r r'. meter_usage exact_deps (demo_envs 10) demo_app (demo_funded, []) demo_usage
       = Some ((l1, x1), Inr r) \<and>
     meter_usage exact_deps (demo_envs 20) demo_app (l1, x1) demo_usage = Some ((l1, x1), Inr r') \<and>
     mr_event_id r' = mr_event_id r \<and> mr_credits r' = ''1111111111/1''"
proof -
  from demo_metered obtain l1 x1 r where
    m: "meter_usage exact_deps (demo_envs 10) demo_app (demo_funded, []) demo_usage = Some ((l1, x1), Inr r)"
    "mr_credits r = ''1111111111/1''" by (auto simp only: map_reply_Ok_iff split_paired_Ex)
  from meter_usage_exactly_once [OF _ _ demo_inv(1) demo_unused(1) m(1) [unfolded demo_app_def],
      of "[]" l1 "demo_envs 20" "[]", folded demo_app_def]
  obtain r' where r': "meter_usage exact_deps (demo_envs 20) demo_app (l1, x1) demo_usage = Some ((l1, x1), Inr r')"
    "r' = r\<lparr>mr_settled := mr_settled r', mr_available := mr_available r'\<rparr>" by auto
  have "mr_event_id r' = mr_event_id r" "mr_credits r' = mr_credits r"
    by (subst r'(2), simp)+
  with m r'(1) show ?thesis by auto
qed



text \<open>
  C26. An amendment moves the difference. Over the in-memory stores, the first successful
  \<open>amend_usage\<close> of a live event whose charge is intact re-prices the corrected usage on one card: the
  one the request's card id names, else the event's own card id, else the catalog card of the
  request's model, else of the event's. The account's available credits change by the old burned
  credits minus the new ones, where a negative new price charges nothing and so counts as zero. The
  reply reports the new burned credits and their difference from the old ones (for a negative price
  the signed figure, not the movement), the event is marked amended and one new version that records
  the new credits is stored.
\<close>

theorem amend_usage_moves_difference:
  assumes "exact_sums D" and "ledger_inv l" and "unused_id l (new_v7 (E 1) 0)" "unused_id l (new_v7 (E 2) 0)"
      "new_v7 (E 2) 0 \<noteq> new_v7 (E 1) 0"
    and "find_event x (Id i) = Some original" and "event_status original = Recorded"
    and "event_account_id original \<noteq> SYSTEM_ACCOUNT"
    and "find_event x (amended_version_id D original (au_idempotency_key body)) = None"
    and "find_keyed l (event_account_id original)
       (uuid_str D (as_uuid (amended_version_id D original (au_idempotency_key body))) @ ''::amend-reverse'') = None"
    and "find_keyed l (event_account_id original)
       (uuid_str D (as_uuid (amended_version_id D original (au_idempotency_key body))) @ ''::amend-charge'') = None"
    and "recorded_charge_entry D original = Some c" and "owned_entry l (event_account_id original) c"
    and "remainder_of l c = recorded_credits D original" and "0 < recorded_credits D original"
    and "amend_usage D E (memory_app D v cards parse) (l, x) i body = Some ((l', x'), Inr r)"
  shows "\<exists>model rc priced e.
    (case au_model body of Some m \<Rightarrow> Some m | None \<Rightarrow> prop_str original ''model'') = Some model \<and>
    resolve_card D (E 0) (memory_app D v cards parse) model
      (case au_rate_card_id body of Some j \<Rightarrow> Some j | None \<Rightarrow> prop_str original ''rate_card_id'')
      = Some (Inr rc) \<and>
    price_usage D (to_usage (au_usage body)) rc v = Some (Inr priced) \<and>
    (let b = burned_credits (amend_burnable original) (credits priced) in
     available_of l' (event_account_id original) =
       available_of l (event_account_id original) - (max b 0 - recorded_credits D original) \<and>
     ar_delta r = dec_str D (b - recorded_credits D original) \<and> ar_credits r = dec_str D b \<and>
     find_event x' (Id i) = Some (original\<lparr>event_status := Amended\<rparr>) \<and>
     find_event x' (amended_version_id D original (au_idempotency_key body)) = Some e \<and>
     event_prop e ''credits'' = Some (JString (dec_str D b)))"
  using memory_metering.amend_usage_first [OF assms(1) memory_app_over assms(2-9) _ _ assms(12-16)] assms(10,11)
  by (simp add: keyed_entry_def priced_or_error_def map_err_Ok_iff)

text \<open>The stores after the metered call of the worked example, and its event.\<close>

definition demo_event :: event where
  "demo_event = \<lparr>event_id = Id 779, event_org_id = demo_org, event_idempotency_key = ''m::event'',
     event_time = 10, meter = ''tokens'', event_account_id = demo_wallet, event_run_id = Some demo_run,
     properties = JObject
       [(''model'', JString ''gpt-5''), (''input_uncached'', JNumber 0), (''cache_read'', JNumber 0),
        (''cache_write'', JNumber 0), (''output'', JNumber 100000), (''reasoning'', JNumber 0),
        (''cogs_usd'', JString ''1/1''), (''credits'', JString ''1111111111/1''),
        (''priced_credits'', JString ''1111111111/1''), (''burnable'', JBool True),
        (''charge_entry_id'', JString (replicate 14 (CHR 0x00) @ [CHR 0x04, CHR 0x4D])),
        (''rate_card_id'', JNull), (''rate_card_version'', JNumber 1), (''priced_via'', JString ''catalog'')],
     event_status = Recorded, supersedes = None, event_created_at = 12\<rparr>"

definition demo_paid_charge :: charge_request where
  "demo_paid_charge = \<lparr>charge_account = demo_wallet, charge_amount = 10, charge_run_id = Some demo_run,
     charge_idempotency_key = Some ''m::charge''\<rparr>"

definition demo_paid :: "state \<times> event_store" where
  "demo_paid = (\<lparr>accounts = [(SYSTEM_ACCOUNT, system_row\<lparr>row_settled := - 90\<rparr>), (demo_wallet, demo_row 90)],
     holds = [], entries = [grant_entry (demo_env 1) demo_grant 100,
       charge_entry (demo_env 11) demo_paid_charge 90]\<rparr>, [demo_event])"

definition demo_amendment :: amend_usage_body where
  "demo_amendment = \<lparr>au_usage = demo_dims 200000, au_model = None, au_rate_card_id = None,
     au_idempotency_key = ''x''\<rparr>"

lemma demo_paid_inv: "ledger_inv (fst demo_paid)"
proof -
  have "play exact_deps [(demo_env 11, RCharge demo_paid_charge)] demo_funded = Some (fst demo_paid)"
    by code_simp
  from runs_inv [OF play_runs [OF this]] demo_inv(1) show ?thesis by simp
qed

lemma demo_paid_facts:
  "unused_id (fst demo_paid) (new_v7 (demo_envs 20 1) 0)"
  "unused_id (fst demo_paid) (new_v7 (demo_envs 20 2) 0)"
  by (simp_all add: unused_id_fresh del: One_nat_def) code_simp+

lemma demo_paid_reached:
  "map_option fst (meter_usage exact_deps (demo_envs 10) demo_app (demo_funded, []) demo_usage) = Some demo_paid"
  by code_simp

lemma demo_event_facts:
  "find_event (snd demo_paid) (Id 779) = Some demo_event"
  "event_status demo_event = Recorded" "event_account_id demo_event = demo_wallet"
  "find_event (snd demo_paid)
     (amended_version_id exact_deps demo_event (au_idempotency_key demo_amendment)) = None"
  by code_simp+

lemma demo_charge_facts:
  "find_keyed (fst demo_paid) demo_wallet (uuid_str exact_deps (as_uuid (amended_version_id exact_deps
     demo_event (au_idempotency_key demo_amendment))) @ ''::amend-reverse'') = None"
  "find_keyed (fst demo_paid) demo_wallet (uuid_str exact_deps (as_uuid (amended_version_id exact_deps
     demo_event (au_idempotency_key demo_amendment))) @ ''::amend-charge'') = None"
  "recorded_charge_entry exact_deps demo_event = Some (Id 1101)"
  "owned_entry (fst demo_paid) demo_wallet (Id 1101)"
  "remainder_of (fst demo_paid) (Id 1101) = recorded_credits exact_deps demo_event"
  "recorded_credits exact_deps demo_event = 10" "available_of (fst demo_paid) demo_wallet = 90"
  by code_simp+

lemma demo_amended:
  "map_option (\<lambda>x. map_sum id ar_delta (snd x))
     (amend_usage exact_deps (demo_envs 20) demo_app (fst demo_paid, snd demo_paid)
        779 demo_amendment) = Some (Inr ''1111111111/1'')"
  by code_simp

theorem amend_usage_moves_difference_witness:
  "\<exists>w r. amend_usage exact_deps (demo_envs 20) demo_app (fst demo_paid, snd demo_paid)
       779 demo_amendment = Some (w, Inr r) \<and>
     available_of (fst w) demo_wallet = 80 \<and> ar_delta r = ''1111111111/1''"
proof -
  from demo_amended obtain w r where
    m: "amend_usage exact_deps (demo_envs 20) demo_app (fst demo_paid, snd demo_paid)
       779 demo_amendment = Some (w, Inr r)"
    "ar_delta r = ''1111111111/1''" by (auto simp only: map_reply_Ok_iff)
  have m': "amend_usage exact_deps (demo_envs 20) (memory_app exact_deps (money_new (1 / 10) usd)
      (\<lambda>_. Inr None) (\<lambda>_. Inr [])) (fst demo_paid, snd demo_paid) 779
      demo_amendment = Some ((fst w, snd w), Inr r)"
    using m(1) by (simp add: demo_app_def)
  have d: "new_v7 (demo_envs 20 2) 0 \<noteq> new_v7 (demo_envs 20 1) 0" by code_simp
  from amend_usage_moves_difference [OF _ demo_paid_inv demo_paid_facts d demo_event_facts(1,2) _
      demo_event_facts(4) _ _ demo_charge_facts(3) _ demo_charge_facts(5) _ m']
    demo_event_facts(3) demo_charge_facts(1,2,4,6) demo_unused(2)
  obtain priced :: priced_usage where
    "available_of (fst w) demo_wallet = available_of (fst demo_paid) demo_wallet -
       (max (burned_credits (amend_burnable demo_event) (credits priced)) 0 - 10)"
    "ar_delta r = rat_text (burned_credits (amend_burnable demo_event) (credits priced) - 10)"
    by (auto simp: Let_def)
  then obtain b where b: "available_of (fst w) demo_wallet = 90 - (max b 0 - 10)" "ar_delta r = rat_text (b - 10)"
    unfolding demo_charge_facts(7) by blast
  have "rat_of_text ''1111111111/1'' = Some 10" by code_simp
  with m(2) b(2) rat_text_roundtrip [of "b - 10"] have "b = 20" by simp
  with b(1) m show ?thesis by auto
qed

text \<open>
  C27. Amending is exactly once. Over the in-memory stores, after a successful \<open>amend_usage\<close> and any further ledger and event calls, a
  retry with the same body changes neither store and reports the same version, credits and
  difference.
\<close>

theorem amend_usage_exactly_once:
  assumes "exact_sums D" and "total_sums D" and "text_roundtrip D"
    and "ledger_inv l" and "unused_id l (new_v7 (E 1) 0)" "unused_id l (new_v7 (E 2) 0)"
      "new_v7 (E 2) 0 \<noteq> new_v7 (E 1) 0"
    and "find_event x (Id i) = Some original" and "event_status original = Recorded"
    and "find_event x (amended_version_id D original (au_idempotency_key body)) = None"
    and "amend_usage D E (memory_app D v cards parse) (l, x) i body = Some ((l1, x1), Inr r)"
    and "runs D l1 qs l2"
  shows "\<exists>r'. amend_usage D E' (memory_app D v cards parse) (l2, event_play D x1 es) i body
      = Some ((l2, event_play D x1 es), Inr r') \<and>
    r' = r\<lparr>ar_settled := ar_settled r', ar_available := ar_available r'\<rparr>"
proof -
  have l: "reaches D l1 l2" and x: "plays D x1 (event_play D x1 es)"
    using assms(12) by (auto simp: reaches_def plays_def)
  note inv = memory_metering.amend_usage_good [OF assms(1) memory_app_over assms(4-11)]
  have "has_account l1 a \<Longrightarrow> has_account l2 a" for a using reaches_append [OF assms(1) inv l] by blast
  from memory_metering.amend_usage_again [OF assms(1-3) memory_app_over assms(8-11) this x] show ?thesis .
qed

theorem amend_usage_exactly_once_witness:
  "\<exists>l1 x1 r r'. amend_usage exact_deps (demo_envs 20) demo_app (fst demo_paid, snd demo_paid)
       779 demo_amendment = Some ((l1, x1), Inr r) \<and>
     amend_usage exact_deps (demo_envs 30) demo_app (l1, x1) 779 demo_amendment
       = Some ((l1, x1), Inr r') \<and> ar_delta r' = ''1111111111/1''"
proof -
  from demo_amended obtain l1 x1 r where
    m: "amend_usage exact_deps (demo_envs 20) demo_app (fst demo_paid, snd demo_paid)
       779 demo_amendment = Some ((l1, x1), Inr r)"
    "ar_delta r = ''1111111111/1''" by (auto simp only: map_reply_Ok_iff split_paired_Ex)
  have d: "new_v7 (demo_envs 20 2) 0 \<noteq> new_v7 (demo_envs 20 1) 0" by code_simp
  from amend_usage_exactly_once [OF _ _ _ demo_paid_inv demo_paid_facts d demo_event_facts(1,2,4)
      m(1) [unfolded demo_app_def],
      of "[]" l1 "demo_envs 30" "[]", folded demo_app_def]
  obtain r' where r': "amend_usage exact_deps (demo_envs 30) demo_app (l1, x1) 779
      demo_amendment = Some ((l1, x1), Inr r')"
    "r' = r\<lparr>ar_settled := ar_settled r', ar_available := ar_available r'\<rparr>" by auto
  have "ar_delta r' = ar_delta r" by (subst r'(2), simp)
  with m r'(1) show ?thesis by auto
qed

end
