(* ===== verification/Ch_Tables.thy ===== *)
theory Ch_Tables
  imports Events_Props
begin

text \<open>
  The ClickHouse event store of \<open>crates/meter-store-ch\<close>: the schema (\<open>src/schema.rs\<close>), the store
  (\<open>src/lib.rs\<close>) and its \<open>EventStore\<close> implementation (\<open>src/event_store.rs\<close>).

  A table is the list of inserted rows. \<open>events\<close> is a \<open>ReplacingMergeTree(version)\<close>, so an insert never
  changes a row; \<open>final_rows\<close> is what a read with \<open>FINAL\<close> sees, the highest version of each key. The
  materialized views fire on every insert into \<open>events\<close> and append to the rollups, and since a
  \<open>SummingMergeTree\<close> is only ever read through \<open>sum()\<close> the list of contributions stands for it.

  What belongs to ClickHouse and \<open>serde_json\<close> is the parameter \<open>ch\<close>: the text of a JSON value and its
  parser, the extraction functions of the SQL, the storage of a time in milliseconds, the day of a
  time and its text, the order of UUIDs, and the faults of the calls. A row's token counts wrap at 64 bits
  and so do the reported ones; the sums between them are integers, which is the same modulo \<open>2^64\<close>. Credits
  are rationals: the rounding of \<open>Float64\<close> sums is not represented, and the comparison of \<open>reconcile\<close>, which
  allows for it, finds less drift here than it may there. The version counter is a 64-bit word.
\<close>

section \<open>Tables\<close>

record ch_row =
  cr_id :: uuid
  cr_org_id :: uuid
  cr_idempotency_key :: string
  cr_event_time :: time
  cr_meter :: string
  cr_account_id :: uuid
  cr_run_id :: "uuid option"
  cr_properties :: string
  cr_status :: string
  cr_supersedes :: "uuid option"
  cr_created_at :: time
  cr_version :: "64 word"

record rollup_row =
  ru_org_id :: uuid
  ru_meter :: string
  ru_model :: string
  ru_day :: int
  ru_events :: int
  ru_input_tokens :: int
  ru_output_tokens :: int
  ru_credits :: rat

record field_row =
  fu_org_id :: uuid
  fu_field_name :: string
  fu_field_value :: string
  fu_day :: int
  fu_events :: int
  fu_credits :: rat

datatype ingest_mode = ExactlyOnce | Append

record ch =
  json_text :: "json \<Rightarrow> string"
  json_parse :: "string \<Rightarrow> string + json"
  extract_string :: "string \<Rightarrow> string \<Rightarrow> string"
  extract_uint :: "string \<Rightarrow> string \<Rightarrow> nat"
  to_float :: "string \<Rightarrow> rat"
  to_date :: "time \<Rightarrow> int"
  date_text :: "int \<Rightarrow> string"
  uuid_rank :: "uuid \<Rightarrow> nat"
  to_millis :: "time \<Rightarrow> time"
  ch_fault :: "nat \<Rightarrow> fault option"

record ch_store =
  ch_events :: "ch_row list"
  ch_rollup :: "rollup_row list"
  ch_fields :: "field_row list"
  ch_version_seq :: "64 word"
  ch_calls :: nat

definition ch_new :: "64 word \<Rightarrow> ch_store" where
  "ch_new seed = \<lparr>ch_events = [], ch_rollup = [], ch_fields = [], ch_version_seq = seed, ch_calls = 0\<rparr>"

text \<open>\<open>ChStore::new\<close>: the version counter starts at the clock, in microseconds.\<close>

definition version_seed :: "time \<Rightarrow> 64 word" where
  "version_seed now = (let micros = now div 1000 in if 0 \<le> micros \<and> micros < 2 ^ 64 then of_int micros else 0)"

definition ch_open :: "env \<Rightarrow> ch_store" where
  "ch_open E = ch_new (version_seed (now_utc E 0))"

text \<open>
  Named hypotheses: the text of a JSON value parses back to it, and storing a stored time changes
  nothing.
\<close>

definition json_roundtrip :: "ch \<Rightarrow> bool" where
  "json_roundtrip P \<longleftrightarrow> (\<forall>j. json_parse P (json_text P j) = Inr j)"

definition millis_stable :: "ch \<Rightarrow> bool" where
  "millis_stable P \<longleftrightarrow> (\<forall>t. to_millis P (to_millis P t) = to_millis P t)"

section \<open>Calls\<close>

text \<open>One message to the server: a query, a command or the end of an insert. \<open>ChError\<close> is its text.\<close>

definition ch_call :: "ch \<Rightarrow> (ch_store \<Rightarrow> ch_store \<times> 'a) \<Rightarrow> ch_store \<Rightarrow> (ch_store, string, 'a) sres" where
  "ch_call P f x = (let x1 = x\<lparr>ch_calls := Suc (ch_calls x)\<rparr> in
     case ch_fault P (ch_calls x) of
       None \<Rightarrow> (case f x1 of (y, a) \<Rightarrow> Some (y, Inr a))
     | Some (Refused m) \<Rightarrow> Some (x1, Inl m)
     | Some (AckLost m) \<Rightarrow> Some (fst (f x1), Inl m))"

definition ch_query :: "ch \<Rightarrow> (ch_store \<Rightarrow> 'a) \<Rightarrow> ch_store \<Rightarrow> (ch_store, string, 'a) sres" where
  "ch_query P f = ch_call P (\<lambda>x. (x, f x))"

text \<open>\<open>map_err(backend)\<close>\<close>

definition backend :: "('s, string, 'a) sres \<Rightarrow> ('s, event_error, 'a) sres" where
  "backend m = map_option (map_prod id (map_sum EventBackend id)) m"

section \<open>The schema\<close>

text \<open>\<open>ORDER BY (org_id, id)\<close>, the key under which \<open>FINAL\<close> keeps the highest version.\<close>

definition same_key :: "ch_row \<Rightarrow> ch_row \<Rightarrow> bool" where
  "same_key a b = (cr_org_id a = cr_org_id b \<and> cr_id a = cr_id b)"

fun place :: "ch_row \<Rightarrow> ch_row list \<Rightarrow> ch_row list" where
  "place r [] = [r]"
| "place r (a # as) =
     (if same_key a r then (if cr_version a \<le> cr_version r then r else a) # as else a # place r as)"

definition final_rows :: "ch_row list \<Rightarrow> ch_row list" where
  "final_rows rows = fold place rows []"

definition sign_of :: "ch_row \<Rightarrow> int" where
  "sign_of r = (if cr_status r = ''recorded'' then 1 else - 1)"

definition row_model :: "ch \<Rightarrow> ch_row \<Rightarrow> string" where
  "row_model P r = extract_string P (cr_properties r) ''model''"

text \<open>\<open>toInt64\<close> of a sum of \<open>UInt64\<close> columns: both wrap.\<close>

definition to_int64 :: "nat \<Rightarrow> int" where
  "to_int64 n = sint (of_nat n :: 64 word)"

definition row_input :: "ch \<Rightarrow> ch_row \<Rightarrow> int" where
  "row_input P r = to_int64 (extract_uint P (cr_properties r) ''input_uncached'' +
     extract_uint P (cr_properties r) ''cache_read'' + extract_uint P (cr_properties r) ''cache_write'')"

definition row_output :: "ch \<Rightarrow> ch_row \<Rightarrow> int" where
  "row_output P r = to_int64 (extract_uint P (cr_properties r) ''output'' + extract_uint P (cr_properties r) ''reasoning'')"

definition row_credits :: "ch \<Rightarrow> ch_row \<Rightarrow> rat" where
  "row_credits P r = to_float P (extract_string P (cr_properties r) ''credits'')"

definition usage_rollup_mv :: "ch \<Rightarrow> ch_row \<Rightarrow> rollup_row" where
  "usage_rollup_mv P r = \<lparr>ru_org_id = cr_org_id r, ru_meter = cr_meter r, ru_model = row_model P r,
     ru_day = to_date P (cr_event_time r), ru_events = sign_of r,
     ru_input_tokens = sign_of r * row_input P r, ru_output_tokens = sign_of r * row_output P r,
     ru_credits = of_int (sign_of r) * row_credits P r\<rparr>"

definition PROMOTED_FIELDS :: "string list" where
  "PROMOTED_FIELDS = [''team'', ''feature'', ''customer'', ''environment'']"

text \<open>\<open>ARRAY JOIN arrayFilter(x -> x.2 != '', \<dots>)\<close>\<close>

definition promoted_fields :: "ch \<Rightarrow> ch_row \<Rightarrow> (string \<times> string) list" where
  "promoted_fields P r = filter (\<lambda>x. snd x \<noteq> [])
     (map (\<lambda>f. (f, extract_string P (cr_properties r) f)) PROMOTED_FIELDS)"

definition field_usage_rollup_mv :: "ch \<Rightarrow> ch_row \<Rightarrow> field_row list" where
  "field_usage_rollup_mv P r = map (\<lambda>(f, v). \<lparr>fu_org_id = cr_org_id r, fu_field_name = f, fu_field_value = v,
     fu_day = to_date P (cr_event_time r), fu_events = sign_of r,
     fu_credits = of_int (sign_of r) * row_credits P r\<rparr>) (promoted_fields P r)"

definition insert_rows :: "ch \<Rightarrow> ch_row list \<Rightarrow> ch_store \<Rightarrow> ch_store" where
  "insert_rows P rows x = x\<lparr>ch_events := ch_events x @ rows,
     ch_rollup := ch_rollup x @ map (usage_rollup_mv P) rows,
     ch_fields := ch_fields x @ concat (map (field_usage_rollup_mv P) rows)\<rparr>"

section \<open>Rows and events\<close>

definition status_to_str :: "event_status \<Rightarrow> string" where
  "status_to_str st = (case st of Recorded \<Rightarrow> ''recorded'' | Amended \<Rightarrow> ''amended'' | VoidedEvent \<Rightarrow> ''voided'')"

definition status_from_str :: "string \<Rightarrow> event_status" where
  "status_from_str v = (if v = ''amended'' then Amended else if v = ''voided'' then VoidedEvent else Recorded)"

definition row_to_event :: "ch \<Rightarrow> ch_row \<Rightarrow> event_error + event" where
  "row_to_event P r = (case json_parse P (cr_properties r) of
      Inl m \<Rightarrow> Inl (EventBackend m)
    | Inr props \<Rightarrow> Inr \<lparr>event_id = Id (cr_id r), event_org_id = Id (cr_org_id r),
        event_idempotency_key = cr_idempotency_key r, event_time = cr_event_time r, meter = cr_meter r,
        event_account_id = Id (cr_account_id r), event_run_id = map_option Id (cr_run_id r),
        properties = props, event_status = status_from_str (cr_status r),
        supersedes = map_option Id (cr_supersedes r), event_created_at = cr_created_at r\<rparr>)"

definition row_of_event :: "ch \<Rightarrow> 64 word \<Rightarrow> event \<Rightarrow> ch_row" where
  "row_of_event P v e = \<lparr>cr_id = as_uuid (event_id e), cr_org_id = as_uuid (event_org_id e),
     cr_idempotency_key = event_idempotency_key e, cr_event_time = to_millis P (event_time e),
     cr_meter = meter e, cr_account_id = as_uuid (event_account_id e),
     cr_run_id = map_option as_uuid (event_run_id e), cr_properties = json_text P (properties e),
     cr_status = status_to_str (event_status e), cr_supersedes = map_option as_uuid (supersedes e),
     cr_created_at = to_millis P (event_created_at e), cr_version = v\<rparr>"

text \<open>\<open>event_to_row\<close>: the row takes the next version, \<open>fetch_add(1)\<close>.\<close>

definition event_to_row :: "ch \<Rightarrow> event \<Rightarrow> ch_store \<Rightarrow> ch_store \<times> ch_row" where
  "event_to_row P e x =
     (x\<lparr>ch_version_seq := ch_version_seq x + 1\<rparr>, row_of_event P (ch_version_seq x) e)"

definition insert_event :: "ch \<Rightarrow> event \<Rightarrow> ch_store \<Rightarrow> (ch_store, event_error, unit) sres" where
  "insert_event P e x = (case event_to_row P e x of (x1, row) \<Rightarrow>
     backend (ch_call P (\<lambda>x. (insert_rows P [row] x, ())) x1))"

section \<open>Known identifiers\<close>

fun chunks :: "nat \<Rightarrow> 'a list \<Rightarrow> 'a list list" where
  "chunks n [] = []"
| "chunks n (x # xs) = (x # take n xs) # chunks n (drop n xs)"

text \<open>The ids of a batch under their organizations, in order of first appearance.\<close>

fun by_org :: "event list \<Rightarrow> (uuid \<times> uuid list) list" where
  "by_org [] = []"
| "by_org (e # es) = (as_uuid (event_org_id e),
     as_uuid (event_id e) # map (as_uuid \<circ> event_id) (filter (\<lambda>x. event_org_id x = event_org_id e) es)) #
     by_org (filter (\<lambda>x. event_org_id x \<noteq> event_org_id e) es)"

definition CHUNK :: nat where
  "CHUNK = 4000"

definition select_ids :: "uuid \<Rightarrow> uuid list \<Rightarrow> ch_store \<Rightarrow> uuid list" where
  "select_ids org ids x =
     map cr_id (filter (\<lambda>r. cr_org_id r = org \<and> cr_id r \<in> set ids) (ch_events x))"

definition existing_ids :: "ch \<Rightarrow> event list \<Rightarrow> ch_store \<Rightarrow> (ch_store, event_error, uuid list) sres" where
  "existing_ids P events x = fold_calls (\<lambda>x found (org, chunk).
       sbind (backend (ch_query P (select_ids org chunk) x)) (\<lambda>x ids. Some (x, Inr (found @ ids))))
     x [] (concat (map (\<lambda>(org, ids). map (Pair org) (chunks (CHUNK - 1) ids)) (by_org events)))"

section \<open>The methods of the store\<close>

fun into_events :: "deps \<Rightarrow> env \<Rightarrow> nat \<Rightarrow> record_event list \<Rightarrow> event list" where
  "into_events D E n [] = []"
| "into_events D E n (q # qs) = into_event D (now_utc E n) q # into_events D E (Suc n) qs"

text \<open>The rows of the one insert: what is neither stored nor earlier in the batch.\<close>

fun fresh_rows :: "ch \<Rightarrow> uuid list \<Rightarrow> uuid list \<Rightarrow> ch_store \<Rightarrow> event list \<Rightarrow> ch_store \<times> ch_row list" where
  "fresh_rows P existing seen x [] = (x, [])"
| "fresh_rows P existing seen x (e # es) =
     (if as_uuid (event_id e) \<in> set existing \<or> as_uuid (event_id e) \<in> set seen
      then fresh_rows P existing seen x es
      else case event_to_row P e x of (x1, row) \<Rightarrow>
        case fresh_rows P existing (as_uuid (event_id e) # seen) x1 es of (x2, rows) \<Rightarrow> (x2, row # rows))"

definition ch_record_batch ::
  "deps \<Rightarrow> ch \<Rightarrow> ingest_mode \<Rightarrow> env \<Rightarrow> ch_store \<Rightarrow> record_event list \<Rightarrow> (ch_store, event_error, event list) sres" where
  "ch_record_batch D P mode E x reqs =
     (if reqs = [] then Some (x, Inr [])
      else let events = into_events D E 0 reqs in
        sbind (case mode of Append \<Rightarrow> Some (x, Inr []) | ExactlyOnce \<Rightarrow> existing_ids P events x) (\<lambda>x existing.
        case fresh_rows P existing [] x events of (x, rows) \<Rightarrow>
          if rows = [] then Some (x, Inr events)
          else sbind (backend (ch_call P (\<lambda>x. (insert_rows P rows x, ())) x)) (\<lambda>x _. Some (x, Inr events))))"

definition ch_record ::
  "deps \<Rightarrow> ch \<Rightarrow> ingest_mode \<Rightarrow> env \<Rightarrow> ch_store \<Rightarrow> record_event \<Rightarrow> (ch_store, event_error, event) sres" where
  "ch_record D P mode E x req =
     sbind (ch_record_batch D P mode E x [req]) (\<lambda>x events.
       Some (x, case rev events of [] \<Rightarrow> Inl (EventBackend ''record produced no event'') | e # _ \<Rightarrow> Inr e))"

definition select_by_id :: "uuid \<Rightarrow> ch_store \<Rightarrow> ch_row option" where
  "select_by_id i x = List.find (\<lambda>r. cr_id r = i) (final_rows (ch_events x))"

definition ch_get :: "ch \<Rightarrow> ch_store \<Rightarrow> event_id \<Rightarrow> (ch_store, event_error, event) sres" where
  "ch_get P x i = sbind (backend (ch_query P (select_by_id (as_uuid i)) x)) (\<lambda>x found.
     Some (x, case found of None \<Rightarrow> Inl (EventNotFound i) | Some row \<Rightarrow> row_to_event P row))"

fun rows_to_events :: "ch \<Rightarrow> ch_row list \<Rightarrow> event_error + event list" where
  "rows_to_events P [] = Inr []"
| "rows_to_events P (r # rs) = (case row_to_event P r of
      Inl e \<Rightarrow> Inl e | Inr x \<Rightarrow> map_sum id (Cons x) (rows_to_events P rs))"

definition select_for_account :: "ch \<Rightarrow> uuid \<Rightarrow> ch_store \<Rightarrow> ch_row list" where
  "select_for_account P a x = sort_key cr_event_time (sort_key (\<lambda>r. uuid_rank P (cr_id r))
     (filter (\<lambda>r. cr_account_id r = a \<and> cr_status r = ''recorded'') (final_rows (ch_events x))))"

definition ch_list_for_account :: "ch \<Rightarrow> ch_store \<Rightarrow> account_id \<Rightarrow> (ch_store, event_error, event list) sres" where
  "ch_list_for_account P x a = sbind (backend (ch_query P (select_for_account P (as_uuid a)) x)) (\<lambda>x rows.
     Some (x, rows_to_events P rows))"

definition ch_amend :: "deps \<Rightarrow> ch \<Rightarrow> env \<Rightarrow> ch_store \<Rightarrow> amend_event \<Rightarrow> (ch_store, event_error, event) sres" where
  "ch_amend D P E x req =
     sbind (ch_get P x (amend_event_id req)) (\<lambda>x original.
     if event_status original = VoidedEvent then Some (x, Inl (EventVoided (amend_event_id req)))
     else let amended = into_amended_event D E req original in
       sbind (existing_ids P [amended] x) (\<lambda>x known.
       if as_uuid (event_id amended) \<in> set known then ch_get P x (event_id amended)
       else
         sbind (insert_event P (original\<lparr>event_status := Amended\<rparr>) x) (\<lambda>x _.
         sbind (insert_event P amended x) (\<lambda>x _. Some (x, Inr amended)))))"

definition select_for_run :: "uuid \<Rightarrow> ch_store \<Rightarrow> ch_row list" where
  "select_for_run run x =
     filter (\<lambda>r. cr_run_id r = Some run \<and> cr_status r = ''recorded'') (final_rows (ch_events x))"

definition ch_void_row :: "ch \<Rightarrow> ch_store \<Rightarrow> nat \<Rightarrow> ch_row \<Rightarrow> (ch_store, event_error, nat) sres" where
  "ch_void_row P x voided row = (case row_to_event P row of
      Inl e \<Rightarrow> Some (x, Inl e)
    | Inr event \<Rightarrow> sbind (insert_event P (event\<lparr>event_status := VoidedEvent\<rparr>) x) (\<lambda>x _.
        Some (x, Inr (Suc voided))))"

definition ch_void_run :: "ch \<Rightarrow> ch_store \<Rightarrow> run_id \<Rightarrow> (ch_store, event_error, nat) sres" where
  "ch_void_run P x run = sbind (backend (ch_query P (select_for_run (as_uuid run)) x)) (\<lambda>x rows.
     fold_calls (ch_void_row P) x 0 rows)"

end
