(* ===== verification/Ch_Usage.thy ===== *)
theory Ch_Usage
  imports Ch_Tables "HOL-Library.Char_ord" "HOL-Library.List_Lexorder"
begin

text \<open>
  The analytics of the ClickHouse store (\<open>crates/meter-store-ch/src/lib.rs\<close>): the reads of the
  rollups, the scan of the live events they stand for, the reconciliation of the two and the rebuild.
  The rows of a query without an order, and rows its order leaves tied, come in table order.
\<close>

section \<open>Grouping\<close>

definition group_by :: "('a \<Rightarrow> 'k) \<Rightarrow> 'a list \<Rightarrow> ('k \<times> 'a list) list" where
  "group_by f xs = map (\<lambda>k. (k, filter (\<lambda>x. f x = k) xs)) (remdups (map f xs))"

text \<open>\<open>FROM events FINAL WHERE org_id = ? AND status = 'recorded'\<close>\<close>

definition live_rows :: "ch_store \<Rightarrow> ch_row list" where
  "live_rows x = filter (\<lambda>r. cr_status r = ''recorded'') (final_rows (ch_events x))"

definition org_live :: "uuid \<Rightarrow> ch_store \<Rightarrow> ch_row list" where
  "org_live org x = filter (\<lambda>r. cr_org_id r = org) (live_rows x)"

text \<open>\<open>ORDER BY credits DESC\<close>, stable.\<close>

definition by_credits :: "('a \<Rightarrow> rat) \<Rightarrow> 'a list \<Rightarrow> 'a list" where
  "by_credits f xs = sort_key (\<lambda>x. - f x) xs"

section \<open>Reads\<close>

record model_usage =
  mu_model :: string
  mu_events :: "64 word"
  mu_input_tokens :: "64 word"
  mu_output_tokens :: "64 word"
  mu_credits :: rat

record field_usage =
  fld_dimension :: string
  fld_events :: "64 word"
  fld_credits :: rat

record day_usage =
  day_day :: string
  day_events :: "64 word"
  day_credits :: rat

definition sum_of :: "('a \<Rightarrow> 'b::comm_monoid_add) \<Rightarrow> 'a list \<Rightarrow> 'b" where
  "sum_of f xs = sum_list (map f xs)"

definition usage_by_model :: "ch \<Rightarrow> ch_store \<Rightarrow> uuid \<Rightarrow> (ch_store, string, model_usage list) sres" where
  "usage_by_model P x org = ch_query P (\<lambda>x. by_credits mu_credits
     (map (\<lambda>(m, us). \<lparr>mu_model = m, mu_events = of_int (sum_of ru_events us),
          mu_input_tokens = of_int (sum_of ru_input_tokens us),
          mu_output_tokens = of_int (sum_of ru_output_tokens us), mu_credits = sum_of ru_credits us\<rparr>)
       (filter (\<lambda>(m, us). 0 < sum_of ru_events us)
         (group_by ru_model (filter (\<lambda>u. ru_org_id u = org \<and> ru_model u \<noteq> []) (ch_rollup x)))))) x"

definition usage_by_day :: "ch \<Rightarrow> ch_store \<Rightarrow> uuid \<Rightarrow> (ch_store, string, day_usage list) sres" where
  "usage_by_day P x org = ch_query P (\<lambda>x. sort_key day_day
     (map (\<lambda>(d, us). \<lparr>day_day = d, day_events = of_int (sum_of ru_events us), day_credits = sum_of ru_credits us\<rparr>)
       (filter (\<lambda>(d, us). 0 < sum_of ru_events us)
         (group_by (\<lambda>u. date_text P (ru_day u)) (filter (\<lambda>u. ru_org_id u = org) (ch_rollup x)))))) x"

definition event_count_ch :: "ch \<Rightarrow> ch_store \<Rightarrow> uuid \<Rightarrow> (ch_store, string, 64 word) sres" where
  "event_count_ch P x org = ch_query P (\<lambda>x.
     of_int (sum_of ru_events (filter (\<lambda>u. ru_org_id u = org) (ch_rollup x)))) x"

definition is_promoted_field :: "string \<Rightarrow> bool" where
  "is_promoted_field f = (f \<in> set PROMOTED_FIELDS)"

text \<open>\<open>ORDER BY credits DESC, events DESC\<close>\<close>

definition by_burndown :: "field_usage list \<Rightarrow> field_usage list" where
  "by_burndown us = by_credits fld_credits (sort_key (\<lambda>u. - uint (fld_events u)) us)"

definition usage_by_promoted_field ::
  "ch \<Rightarrow> ch_store \<Rightarrow> uuid \<Rightarrow> string \<Rightarrow> (ch_store, string, field_usage list) sres" where
  "usage_by_promoted_field P x org f = ch_query P (\<lambda>x. by_burndown
     (map (\<lambda>(v, us). \<lparr>fld_dimension = v, fld_events = of_int (sum_of fu_events us), fld_credits = sum_of fu_credits us\<rparr>)
       (filter (\<lambda>(v, us). 0 < sum_of fu_events us)
         (group_by fu_field_value (filter (\<lambda>u. fu_org_id u = org \<and> fu_field_name u = f) (ch_fields x)))))) x"

definition usage_by_field ::
  "ch \<Rightarrow> ch_store \<Rightarrow> uuid \<Rightarrow> string \<Rightarrow> (ch_store, string, field_usage list) sres" where
  "usage_by_field P x org f =
     (if is_promoted_field f then usage_by_promoted_field P x org f
      else ch_query P (\<lambda>x. by_burndown
        (map (\<lambda>(v, rs). \<lparr>fld_dimension = v, fld_events = of_nat (length rs), fld_credits = sum_of (row_credits P) rs\<rparr>)
          (filter (\<lambda>(v, rs). v \<noteq> [])
            (group_by (\<lambda>r. extract_string P (cr_properties r) f) (org_live org x))))) x)"

section \<open>Reconciliation\<close>

record aggregate =
  ag_key :: string
  ag_events :: int
  ag_credits :: rat

record rollup_drift =
  drift_scope :: string
  drift_dimension :: string
  drift_rollup_events :: int
  drift_scan_events :: int
  drift_rollup_credits :: rat
  drift_scan_credits :: rat

text \<open>One side of the \<open>BTreeMap\<close> entry of a key: the last aggregate wins, an absent one is zero.\<close>

definition agg_side :: "aggregate list \<Rightarrow> string \<Rightarrow> int \<times> rat" where
  "agg_side as k = (case List.find (\<lambda>a. ag_key a = k) (rev as) of
      None \<Rightarrow> (0, 0) | Some a \<Rightarrow> (ag_events a, ag_credits a))"

definition diff_aggregates :: "string \<Rightarrow> aggregate list \<Rightarrow> aggregate list \<Rightarrow> rollup_drift list" where
  "diff_aggregates scope rollup scan =
     concat (map (\<lambda>k. case (agg_side rollup k, agg_side scan k) of ((re, rc), (se, sc)) \<Rightarrow>
         if re \<noteq> se \<or> 1 / 1000000 < \<bar>rc - sc\<bar>
         then [\<lparr>drift_scope = scope, drift_dimension = k, drift_rollup_events = re, drift_scan_events = se,
                drift_rollup_credits = rc, drift_scan_credits = sc\<rparr>] else [])
       (sort (remdups (map ag_key rollup @ map ag_key scan))))"

definition scan_by :: "ch \<Rightarrow> (ch_row \<Rightarrow> string) \<Rightarrow> uuid \<Rightarrow> ch_store \<Rightarrow> aggregate list" where
  "scan_by P f org x = map (\<lambda>(k, rs). \<lparr>ag_key = k, ag_events = int (length rs), ag_credits = sum_of (row_credits P) rs\<rparr>)
     (group_by f (filter (\<lambda>r. f r \<noteq> []) (org_live org x)))"

definition reconcile_model_rollup :: "ch \<Rightarrow> ch_store \<Rightarrow> uuid \<Rightarrow> (ch_store, string, rollup_drift list) sres" where
  "reconcile_model_rollup P x org =
     sbind (ch_query P (\<lambda>x. map (\<lambda>(m, us). \<lparr>ag_key = m, ag_events = sum_of ru_events us, ag_credits = sum_of ru_credits us\<rparr>)
       (group_by ru_model (filter (\<lambda>u. ru_org_id u = org \<and> ru_model u \<noteq> []) (ch_rollup x)))) x) (\<lambda>x rollup.
     sbind (ch_query P (scan_by P (row_model P) org) x) (\<lambda>x scan.
       Some (x, Inr (diff_aggregates ''model'' rollup scan))))"

definition reconcile_field_rollup ::
  "ch \<Rightarrow> ch_store \<Rightarrow> uuid \<Rightarrow> string \<Rightarrow> (ch_store, string, rollup_drift list) sres" where
  "reconcile_field_rollup P x org f =
     sbind (ch_query P (\<lambda>x. map (\<lambda>(v, us). \<lparr>ag_key = v, ag_events = sum_of fu_events us, ag_credits = sum_of fu_credits us\<rparr>)
       (group_by fu_field_value (filter (\<lambda>u. fu_org_id u = org \<and> fu_field_name u = f) (ch_fields x)))) x) (\<lambda>x rollup.
     sbind (ch_query P (scan_by P (\<lambda>r. extract_string P (cr_properties r) f) org) x) (\<lambda>x scan.
       Some (x, Inr (diff_aggregates f rollup scan))))"

definition reconcile_rollups :: "ch \<Rightarrow> ch_store \<Rightarrow> uuid \<Rightarrow> (ch_store, string, rollup_drift list) sres" where
  "reconcile_rollups P x org =
     sbind (reconcile_model_rollup P x org) (\<lambda>x drift.
       fold_calls (\<lambda>x drift f. sbind (reconcile_field_rollup P x org f) (\<lambda>x more. Some (x, Inr (drift @ more))))
         x drift PROMOTED_FIELDS)"

section \<open>Rebuild\<close>

definition live_rollup :: "ch \<Rightarrow> uuid \<Rightarrow> ch_store \<Rightarrow> rollup_row list" where
  "live_rollup P org x = map (\<lambda>((mt, md, d), rs). \<lparr>ru_org_id = org, ru_meter = mt, ru_model = md, ru_day = d,
       ru_events = int (length rs), ru_input_tokens = sum_of (row_input P) rs,
       ru_output_tokens = sum_of (row_output P) rs, ru_credits = sum_of (row_credits P) rs\<rparr>)
     (group_by (\<lambda>r. (cr_meter r, row_model P r, to_date P (cr_event_time r))) (org_live org x))"

text \<open>The \<open>ARRAY JOIN\<close>: one pair of a row and a promoted field it carries.\<close>

definition fanned :: "ch \<Rightarrow> ch_row list \<Rightarrow> (ch_row \<times> string \<times> string) list" where
  "fanned P rs = concat (map (\<lambda>r. map (Pair r) (promoted_fields P r)) rs)"

definition live_fields :: "ch \<Rightarrow> uuid \<Rightarrow> ch_store \<Rightarrow> field_row list" where
  "live_fields P org x = map (\<lambda>((f, v, d), rs). \<lparr>fu_org_id = org, fu_field_name = f, fu_field_value = v, fu_day = d,
       fu_events = int (length rs), fu_credits = sum_of (row_credits P \<circ> fst) rs\<rparr>)
     (group_by (\<lambda>(r, f, v). (f, v, to_date P (cr_event_time r))) (fanned P (org_live org x)))"

definition rebuild_rollups :: "ch \<Rightarrow> ch_store \<Rightarrow> uuid \<Rightarrow> (ch_store, string, unit) sres" where
  "rebuild_rollups P x org =
     sbind (ch_call P (\<lambda>x. (x\<lparr>ch_rollup := filter (\<lambda>u. ru_org_id u \<noteq> org) (ch_rollup x)\<rparr>, ())) x) (\<lambda>x _.
     sbind (ch_call P (\<lambda>x. (x\<lparr>ch_fields := filter (\<lambda>u. fu_org_id u \<noteq> org) (ch_fields x)\<rparr>, ())) x) (\<lambda>x _.
     sbind (ch_call P (\<lambda>x. (x\<lparr>ch_rollup := ch_rollup x @ live_rollup P org x\<rparr>, ())) x) (\<lambda>x _.
       ch_call P (\<lambda>x. (x\<lparr>ch_fields := ch_fields x @ live_fields P org x\<rparr>, ())) x)))"

end
