(* ===== verification/Ch_Steps.thy ===== *)
theory Ch_Steps
  imports Ch_Usage
begin

text \<open>
  The life of the ClickHouse tables. \<open>ch_step\<close> is what one insert may do: nothing that matters, a
  first row under a new key, or a newer row that takes a live event out of the count. Every method
  of the store is a run of such steps, whatever calls fail, as long as the version counter does not
  wrap and no amend addresses a version that is amended already (\<open>orderly\<close>).
\<close>

section \<open>Reads with FINAL\<close>

definition row_key :: "ch_row \<Rightarrow> uuid \<times> uuid" where
  "row_key r = (cr_org_id r, cr_id r)"

lemma same_key_iff: "same_key a b \<longleftrightarrow> row_key a = row_key b"
  by (simp add: same_key_def row_key_def)

lemma final_rows_Nil [simp]: "final_rows [] = []"
  by (simp add: final_rows_def)

lemma final_rows_snoc [simp]: "final_rows (rows @ [r]) = place r (final_rows rows)"
  by (simp add: final_rows_def)

lemma place_keys:
  "map row_key (place r as) = (if row_key r \<in> row_key ` set as then map row_key as else map row_key as @ [row_key r])"
  by (induction as) (auto simp: same_key_iff)

lemma place_fresh: "row_key r \<notin> row_key ` set as \<Longrightarrow> place r as = as @ [r]"
  by (induction as) (auto simp: same_key_iff)

lemma place_newer:
  "row_key a = row_key r \<Longrightarrow> cr_version a \<le> cr_version r \<Longrightarrow> row_key r \<notin> row_key ` set pre \<Longrightarrow>
     place r (pre @ a # post) = pre @ r # post"
  by (induction pre) (auto simp: same_key_iff)

lemma place_subset: "set (place r as) \<subseteq> insert r (set as)"
  by (induction as) auto

lemma final_rows_subset: "set (final_rows rows) \<subseteq> set rows"
  by (induction rows rule: rev_induct) (use place_subset in fastforce)+

lemma final_rows_keys:
  "distinct (map row_key (final_rows rows)) \<and> row_key ` set (final_rows rows) = row_key ` set rows"
proof (induction rows rule: rev_induct)
  case (snoc r rows)
  have "row_key ` set (place r (final_rows rows)) = set (map row_key (place r (final_rows rows)))" by simp
  with snoc show ?case by (auto simp: place_keys)
qed simp

lemmas final_rows_distinct = final_rows_keys [THEN conjunct1]
lemmas final_rows_key_set = final_rows_keys [THEN conjunct2]

lemma final_rows_fresh:
  "row_key r \<notin> row_key ` set rows \<Longrightarrow> final_rows (rows @ [r]) = final_rows rows @ [r]"
  by (simp add: place_fresh final_rows_key_set)

lemma final_rows_newer:
  assumes "final_rows rows = pre @ a # post" and "row_key a = row_key r" and "cr_version a \<le> cr_version r"
  shows "final_rows (rows @ [r]) = pre @ r # post"
  using final_rows_distinct [of rows] assms place_newer [of a r pre post] by simp

section \<open>Steps\<close>

text \<open>A row some event was stored as.\<close>

definition stored_row :: "ch \<Rightarrow> ch_row \<Rightarrow> bool" where
  "stored_row P r \<longleftrightarrow> (\<exists>v e. r = row_of_event P v e)"

definition ch_inv :: "ch \<Rightarrow> ch_store \<Rightarrow> bool" where
  "ch_inv P x \<longleftrightarrow> (\<forall>r \<in> set (ch_events x). stored_row P r \<and> cr_version r < ch_version_seq x)"

definition turned :: "event_status \<Rightarrow> 64 word \<Rightarrow> ch_row \<Rightarrow> ch_row" where
  "turned st v r = r\<lparr>cr_status := status_to_str st, cr_version := v\<rparr>"

inductive ch_step :: "ch \<Rightarrow> ch_store \<Rightarrow> ch_store \<Rightarrow> bool" for P where
  cs_idle: "ch_version_seq x \<le> v \<Longrightarrow> ch_step P x (x\<lparr>ch_version_seq := v, ch_calls := n\<rparr>)"
| cs_append: "row_key r \<notin> row_key ` set (ch_events x) \<Longrightarrow> stored_row P r \<Longrightarrow> cr_status r = ''recorded'' \<Longrightarrow>
     cr_version r < ch_version_seq x \<Longrightarrow> ch_step P x (insert_rows P [r] x)"
| cs_turn: "r \<in> set (live_rows x) \<Longrightarrow> st \<noteq> Recorded \<Longrightarrow> cr_version r < v \<Longrightarrow> v < ch_version_seq x \<Longrightarrow>
     ch_step P x (insert_rows P [turned st v r] x)"

abbreviation ch_steps :: "ch \<Rightarrow> ch_store \<Rightarrow> ch_store \<Rightarrow> bool" where
  "ch_steps P \<equiv> (ch_step P)\<^sup>*\<^sup>*"

lemma turned_sel [simp]:
  "cr_id (turned st v r) = cr_id r" "cr_org_id (turned st v r) = cr_org_id r"
  "cr_event_time (turned st v r) = cr_event_time r" "cr_meter (turned st v r) = cr_meter r"
  "cr_properties (turned st v r) = cr_properties r" "cr_status (turned st v r) = status_to_str st"
  "cr_version (turned st v r) = v" "row_key (turned st v r) = row_key r"
  "cr_run_id (turned st v r) = cr_run_id r" "cr_account_id (turned st v r) = cr_account_id r"
  by (simp_all add: turned_def row_key_def)

lemma status_to_str_recorded [simp]: "status_to_str st = ''recorded'' \<longleftrightarrow> st = Recorded"
  by (cases st) (simp_all add: status_to_str_def)

lemma status_round [simp]: "status_from_str (status_to_str st) = st"
  by (cases st) (simp_all add: status_to_str_def status_from_str_def)

lemma turned_row_of_event:
  "turned st v (row_of_event P w e) = row_of_event P v (e\<lparr>event_status := st\<rparr>)"
  by (simp add: turned_def row_of_event_def)

lemma stored_row_turned: "stored_row P r \<Longrightarrow> stored_row P (turned st v r)"
  unfolding stored_row_def using turned_row_of_event by blast

lemma insert_rows_sel [simp]:
  "ch_events (insert_rows P rows x) = ch_events x @ rows"
  "ch_version_seq (insert_rows P rows x) = ch_version_seq x"
  "ch_calls (insert_rows P rows x) = ch_calls x"
  by (simp_all add: insert_rows_def)

lemma insert_rows_Cons: "insert_rows P (r # rs) x = insert_rows P rs (insert_rows P [r] x)"
  by (simp add: insert_rows_def)

lemma live_rows_subset: "set (live_rows x) \<subseteq> set (ch_events x)"
  using final_rows_subset [of "ch_events x"] by (auto simp: live_rows_def)

lemma ch_step_inv: "ch_step P x y \<Longrightarrow> ch_inv P x \<Longrightarrow> ch_inv P y"
proof (induction rule: ch_step.induct)
  case (cs_turn r x st v)
  then have "stored_row P r" using live_rows_subset [of x] by (auto simp: ch_inv_def)
  with cs_turn show ?case by (auto simp: ch_inv_def stored_row_turned)
qed (auto simp: ch_inv_def)

lemma ch_steps_inv: "ch_steps P x y \<Longrightarrow> ch_inv P x \<Longrightarrow> ch_inv P y"
  by (induction rule: rtranclp_induct) (auto intro: ch_step_inv)

lemma ch_inv_new [simp]: "ch_inv P (ch_new seed)"
  by (simp add: ch_inv_def ch_new_def)

text \<open>What a step does to the live rows.\<close>

lemma live_rows_append:
  "row_key r \<notin> row_key ` set (ch_events x) \<Longrightarrow> cr_status r = ''recorded'' \<Longrightarrow>
     live_rows (insert_rows P [r] x) = live_rows x @ [r]"
  by (simp add: live_rows_def place_fresh final_rows_key_set)

lemma live_rows_turn:
  assumes "r \<in> set (live_rows x)" and "st \<noteq> Recorded" and "cr_version r \<le> v"
  obtains pre post where "live_rows x = pre @ r # post"
    and "live_rows (insert_rows P [turned st v r] x) = pre @ post"
proof -
  have rec: "cr_status r = ''recorded''" "r \<in> set (final_rows (ch_events x))"
    using assms(1) by (simp_all add: live_rows_def)
  from rec(2) obtain as bs where f: "final_rows (ch_events x) = as @ r # bs" by (auto dest: split_list)
  then have "final_rows (ch_events x @ [turned st v r]) = as @ turned st v r # bs"
    using assms(3) by (intro final_rows_newer) simp_all
  with f rec(1) assms(2) that [of "filter (\<lambda>r. cr_status r = ''recorded'') as" "filter (\<lambda>r. cr_status r = ''recorded'') bs"]
  show ?thesis by (simp add: live_rows_def)
qed

end
