(* ===== verification/Ch_Rollup.thy ===== *)
theory Ch_Rollup
  imports Ch_Steps
begin

text \<open>
  The rollups against the events. A rollup column is a list of contributions under keys; \<open>rollup\<close>
  states what the materialized views promise of it and shows that the column then agrees, for every
  set of keys, with what the live rows contribute. It holds of the six summed columns of the two
  rollup tables.
\<close>

section \<open>Sums over groups\<close>

lemma sum_of_simps [simp]:
  "sum_of f [] = 0" "sum_of f (x # xs) = f x + sum_of f xs" "sum_of f (xs @ ys) = sum_of f xs + sum_of f ys"
  by (simp_all add: sum_of_def)

lemma sum_of_filter: "sum_of f (filter Q xs) = sum_of (\<lambda>x. if Q x then f x else 0) xs"
  by (induction xs) simp_all

lemma sum_of_concat_map: "sum_of f (concat (map g xs)) = sum_of (\<lambda>x. sum_of f (g x)) xs"
  by (induction xs) simp_all

lemma sum_of_map [simp]: "sum_of f (map g xs) = sum_of (\<lambda>x. f (g x)) xs"
  by (simp add: sum_of_def comp_def)

lemma sum_of_cong: "(\<And>x. x \<in> set xs \<Longrightarrow> f x = g x) \<Longrightarrow> sum_of f xs = sum_of g xs"
  by (induction xs) simp_all

lemma sum_of_zero: "(\<And>x. x \<in> set xs \<Longrightarrow> f x = 0) \<Longrightarrow> sum_of f xs = 0"
  by (induction xs) simp_all

lemma sum_of_1: "sum_of (\<lambda>_. 1) xs = int (length xs)"
  by (induction xs) simp_all

lemma sum_of_over_keys:
  fixes f :: "'a \<Rightarrow> 'v::comm_monoid_add"
  shows "finite S \<Longrightarrow> g ` set xs \<subseteq> S \<Longrightarrow> (\<Sum>k\<in>S. sum_of f (filter (\<lambda>x. g x = k) xs)) = sum_of f xs"
proof (induction xs)
  case (Cons x xs)
  have "(\<Sum>k\<in>S. sum_of f (filter (\<lambda>x. g x = k) (x # xs))) =
          (\<Sum>k\<in>S. (if g x = k then f x else 0) + sum_of f (filter (\<lambda>x. g x = k) xs))"
    by (intro sum.cong) simp_all
  with Cons show ?case by (simp add: sum.distrib)
qed simp

text \<open>Summing the sums of the groups sums everything.\<close>

lemma sum_group_by:
  fixes f :: "'a \<Rightarrow> 'v::comm_monoid_add"
  shows "sum_of (\<lambda>(k, rs). sum_of f rs) (group_by g xs) = sum_of f xs"
proof -
  have "sum_of (\<lambda>(k, rs). sum_of f rs) (group_by g xs) = (\<Sum>k\<in>g ` set xs. sum_of f (filter (\<lambda>x. g x = k) xs))"
    by (simp add: group_by_def sum_of_def comp_def sum_list_distinct_conv_sum_set)
  then show ?thesis by (simp add: sum_of_over_keys)
qed

lemma sum_group_by_where:
  fixes f :: "'a \<Rightarrow> 'v::comm_monoid_add"
  shows "sum_of (\<lambda>(k, rs). if Q k then sum_of f rs else 0) (group_by g xs) =
         sum_of (\<lambda>x. if Q (g x) then f x else 0) xs"
proof -
  have "sum_of (\<lambda>(k, rs). if Q k then sum_of f rs else 0) (group_by g xs) =
        sum_of (\<lambda>(k, rs). sum_of (\<lambda>x. if Q (g x) then f x else 0) rs) (group_by g xs)"
    by (auto simp: group_by_def sum_of_filter intro!: sum_of_cong sum_of_zero)
  then show ?thesis by (simp add: sum_group_by)
qed

section \<open>The contract of a rollup column\<close>

text \<open>A set of keys within an organization.\<close>

definition org_keys :: "uuid \<Rightarrow> (uuid \<times> 'k \<Rightarrow> bool) \<Rightarrow> bool" where
  "org_keys org Q \<longleftrightarrow> (\<forall>k. Q k \<longrightarrow> fst k = org)"

lemma org_keysD: "org_keys org Q \<Longrightarrow> Q k \<Longrightarrow> fst k = org"
  unfolding org_keys_def by blast

locale rollup =
  fixes P :: ch
    and table :: "ch_store \<Rightarrow> 'r list"
    and mv :: "ch_row \<Rightarrow> 'r list"
    and key :: "'r \<Rightarrow> uuid \<times> 'k"
    and col :: "'r \<Rightarrow> 'v::ab_group_add"
  assumes table_insert: "table (insert_rows P rows x) = table x @ concat (map mv rows)"
    and table_idle: "table (x\<lparr>ch_version_seq := v, ch_calls := n\<rparr>) = table x"
    and mv_org: "u \<in> set (mv r) \<Longrightarrow> fst (key u) = cr_org_id r"
    and mv_turned: "cr_status r = ''recorded'' \<Longrightarrow> st \<noteq> Recorded \<Longrightarrow>
      sum_of (\<lambda>u. if Q (key u) then col u else 0) (mv (turned st v r)) =
      - sum_of (\<lambda>u. if Q (key u) then col u else 0) (mv r)"
begin

definition summed :: "(uuid \<times> 'k \<Rightarrow> bool) \<Rightarrow> 'r list \<Rightarrow> 'v" where
  "summed Q rows = sum_of (\<lambda>u. if Q (key u) then col u else 0) rows"

definition from_live :: "(uuid \<times> 'k \<Rightarrow> bool) \<Rightarrow> ch_row list \<Rightarrow> 'v" where
  "from_live Q rs = sum_of (\<lambda>r. summed Q (mv r)) rs"

definition tracks :: "uuid \<Rightarrow> ch_store \<Rightarrow> bool" where
  "tracks org x \<longleftrightarrow> (\<forall>Q. org_keys org Q \<longrightarrow> summed Q (table x) = from_live Q (live_rows x))"

lemma tracksD: "tracks org x \<Longrightarrow> org_keys org Q \<Longrightarrow> summed Q (table x) = from_live Q (live_rows x)"
  by (simp add: tracks_def)

lemma summed_append [simp]: "summed Q (us @ vs) = summed Q us + summed Q vs"
  by (simp add: summed_def)

lemma from_live_simps [simp]:
  "from_live Q (rs @ ss) = from_live Q rs + from_live Q ss"
  "from_live Q (r # rs) = summed Q (mv r) + from_live Q rs" "from_live Q [] = 0"
  by (simp_all add: from_live_def)

lemma summed_insert [simp]: "summed Q (table (insert_rows P [r] x)) = summed Q (table x) + summed Q (mv r)"
  by (simp add: table_insert)

lemma step_tracks: "ch_step P x y \<Longrightarrow> tracks org x \<Longrightarrow> tracks org y"
proof (induction rule: ch_step.induct)
  case (cs_idle x v n)
  then show ?case by (simp add: tracks_def table_idle live_rows_def)
next
  case (cs_append r x)
  then show ?case by (simp add: tracks_def live_rows_append)
next
  case (cs_turn r x st v)
  from cs_turn.hyps obtain pre post where
    l: "live_rows x = pre @ r # post" "live_rows (insert_rows P [turned st v r] x) = pre @ post"
    using live_rows_turn [of r x st v P] less_imp_le by metis
  have "cr_status r = ''recorded''" using cs_turn.hyps(1) by (simp add: live_rows_def)
  then have "summed Q (mv (turned st v r)) = - summed Q (mv r)" for Q
    using mv_turned cs_turn.hyps(2) unfolding summed_def by blast
  with cs_turn.prems l show ?case by (simp add: tracks_def)
qed

lemma steps_track: "ch_steps P x y \<Longrightarrow> tracks org x \<Longrightarrow> tracks org y"
  by (induction rule: rtranclp_induct) (auto intro: step_tracks)

lemma empty_tracks: "table x = [] \<Longrightarrow> ch_events x = [] \<Longrightarrow> tracks org x"
  by (simp add: tracks_def summed_def live_rows_def)

text \<open>The rows of other organizations contribute nothing under a key of this one.\<close>

lemma summed_mv_other: "org_keys org Q \<Longrightarrow> cr_org_id r \<noteq> org \<Longrightarrow> summed Q (mv r) = 0"
  unfolding summed_def by (rule sum_of_zero) (metis mv_org org_keysD)

lemma from_live_org:
  assumes "org_keys org Q"
  shows "from_live Q (org_live org x) = from_live Q (live_rows x)"
  using summed_mv_other [OF assms] by (auto simp: org_live_def from_live_def sum_of_filter intro!: sum_of_cong)

end

text \<open>A rollup that can be rebuilt from the live rows of an organization.\<close>

locale rebuildable = rollup +
  fixes live :: "uuid \<Rightarrow> ch_store \<Rightarrow> 'a list"
  assumes live_events: "ch_events y = ch_events x \<Longrightarrow> live org y = live org x"
    and live_sums: "org_keys org Q \<Longrightarrow>
      sum_of (\<lambda>u. if Q (key u) then col u else 0) (live org x) =
      sum_of (\<lambda>r. sum_of (\<lambda>u. if Q (key u) then col u else 0) (mv r)) (org_live org x)"
begin

lemma rebuilt_tracks:
  assumes "ch_events y = ch_events x" and "table y = filter (\<lambda>u. fst (key u) \<noteq> org) us @ live org x"
  shows "tracks org y"
proof -
  have "summed Q (table y) = from_live Q (live_rows y)" if Q: "org_keys org Q" for Q
  proof -
    have "summed Q (filter (\<lambda>u. fst (key u) \<noteq> org) us) = 0"
      unfolding summed_def by (rule sum_of_zero) (metis (mono_tags, lifting) org_keysD [OF Q] mem_Collect_eq set_filter)
    then have "summed Q (table y) = from_live Q (org_live org x)"
      using live_sums [OF Q, of x] by (simp add: assms(2) summed_def from_live_def)
    with from_live_org [OF Q, of x] assms(1) show ?thesis by (simp add: live_rows_def)
  qed
  then show ?thesis by (simp add: tracks_def)
qed

end

section \<open>The columns\<close>

definition usage_key :: "rollup_row \<Rightarrow> uuid \<times> string \<times> string \<times> int" where
  "usage_key u = (ru_org_id u, ru_meter u, ru_model u, ru_day u)"

definition field_key :: "field_row \<Rightarrow> uuid \<times> string \<times> string \<times> int" where
  "field_key u = (fu_org_id u, fu_field_name u, fu_field_value u, fu_day u)"

lemma sum_of_uminus: "sum_of (\<lambda>x. - f x) xs = - sum_of f (xs :: 'a list)" for f :: "'a \<Rightarrow> 'v::ab_group_add"
  by (induction xs) simp_all

lemma row_turned [simp]:
  "row_model P (turned st v r) = row_model P r" "row_input P (turned st v r) = row_input P r"
  "row_output P (turned st v r) = row_output P r" "row_credits P (turned st v r) = row_credits P r"
  "promoted_fields P (turned st v r) = promoted_fields P r"
  by (simp_all add: row_model_def row_input_def row_output_def row_credits_def promoted_fields_def)

lemma sign_of_turned: "st \<noteq> Recorded \<Longrightarrow> sign_of (turned st v r) = - 1"
  by (simp add: sign_of_def)

lemma org_live_row: "r \<in> set (org_live org x) \<Longrightarrow> sign_of r = 1 \<and> cr_org_id r = org"
  by (simp add: org_live_def live_rows_def sign_of_def)

lemma live_rollup_sums:
  assumes "\<And>mt md d rs. col \<lparr>ru_org_id = org, ru_meter = mt, ru_model = md, ru_day = d,
       ru_events = int (length rs), ru_input_tokens = sum_of (row_input P) rs,
       ru_output_tokens = sum_of (row_output P) rs, ru_credits = sum_of (row_credits P) rs\<rparr> = sum_of f rs"
    and "\<And>r. sign_of r = 1 \<Longrightarrow> col (usage_rollup_mv P r) = f r"
  shows "sum_of (\<lambda>u. if Q (usage_key u) then col u else 0) (live_rollup P org x) =
    sum_of (\<lambda>r. if Q (usage_key (usage_rollup_mv P r)) then col (usage_rollup_mv P r) else 0) (org_live org x)"
proof -
  have "sum_of (\<lambda>u. if Q (usage_key u) then col u else 0) (live_rollup P org x) =
      sum_of (\<lambda>(k, rs). if Q (org, k) then sum_of f rs else 0)
        (group_by (\<lambda>r. (cr_meter r, row_model P r, to_date P (cr_event_time r))) (org_live org x))"
    unfolding live_rollup_def sum_of_map by (rule sum_of_cong) (auto simp: usage_key_def assms(1))
  also have "\<dots> = sum_of (\<lambda>r. if Q (org, cr_meter r, row_model P r, to_date P (cr_event_time r)) then f r else 0)
      (org_live org x)" by (rule sum_group_by_where)
  also have "\<dots> = sum_of (\<lambda>r. if Q (usage_key (usage_rollup_mv P r)) then col (usage_rollup_mv P r) else 0)
      (org_live org x)"
    by (rule sum_of_cong) (auto simp: usage_key_def usage_rollup_mv_def dest!: org_live_row simp flip: assms(2))
  finally show ?thesis .
qed

lemma live_fields_sums:
  assumes "\<And>n v d (rs :: (ch_row \<times> string \<times> string) list). col \<lparr>fu_org_id = org, fu_field_name = n, fu_field_value = v, fu_day = d,
       fu_events = int (length rs), fu_credits = sum_of (row_credits P \<circ> fst) rs\<rparr> = sum_of (f \<circ> fst) rs"
    and "\<And>r org n v d. col \<lparr>fu_org_id = org, fu_field_name = n, fu_field_value = v,
       fu_day = d, fu_events = 1, fu_credits = row_credits P r\<rparr> = f r"
  shows "sum_of (\<lambda>u. if Q (field_key u) then col u else 0) (live_fields P org x) =
    sum_of (\<lambda>r. sum_of (\<lambda>u. if Q (field_key u) then col u else 0) (field_usage_rollup_mv P r)) (org_live org x)"
proof -
  have "sum_of (\<lambda>u. if Q (field_key u) then col u else 0) (live_fields P org x) =
      sum_of (\<lambda>(k, rs). if Q (org, k) then sum_of (f \<circ> fst) rs else 0)
        (group_by (\<lambda>(r, n, v). (n, v, to_date P (cr_event_time r))) (fanned P (org_live org x)))"
    unfolding live_fields_def sum_of_map by (rule sum_of_cong) (auto simp: field_key_def assms(1))
  also have "\<dots> = sum_of (\<lambda>y. if Q (org, (\<lambda>(r, n, v). (n, v, to_date P (cr_event_time r))) y) then (f \<circ> fst) y else 0)
      (fanned P (org_live org x))" by (rule sum_group_by_where)
  also have "\<dots> = sum_of (\<lambda>r. sum_of (\<lambda>u. if Q (field_key u) then col u else 0) (field_usage_rollup_mv P r))
      (org_live org x)"
    unfolding fanned_def sum_of_concat_map field_usage_rollup_mv_def sum_of_map
    by (intro sum_of_cong) (auto simp: field_key_def assms(2) dest!: org_live_row)
  finally show ?thesis .
qed

text \<open>One proof of the contract for the columns of each table: a column that sums \<open>f\<close> with the sign.\<close>

lemma usage_column:
  assumes sums: "\<And>org mt md d rs. col \<lparr>ru_org_id = org, ru_meter = mt, ru_model = md, ru_day = d,
       ru_events = int (length rs), ru_input_tokens = sum_of (row_input P) rs,
       ru_output_tokens = sum_of (row_output P) rs, ru_credits = sum_of (row_credits P) rs\<rparr> = sum_of f rs"
    and signed: "\<And>r. sign_of r = 1 \<Longrightarrow> col (usage_rollup_mv P r) = f r"
    and unsigned: "\<And>r. sign_of r = - 1 \<Longrightarrow> col (usage_rollup_mv P r) = - f r"
    and content: "\<And>r st v. f (turned st v r) = f r"
  shows "rebuildable P ch_rollup (\<lambda>r. [usage_rollup_mv P r]) usage_key col (live_rollup P)"
proof (unfold_locales, goal_cases)
  case (4 r st Q v)
  then show ?case by (simp add: usage_key_def signed unsigned sign_of_turned content sign_of_def)
      (simp add: usage_rollup_mv_def)
next
  case (6 org Q x)
  then show ?case by (simp add: live_rollup_sums [OF sums signed])
qed (simp_all add: insert_rows_def usage_key_def usage_rollup_mv_def live_rollup_def org_live_def live_rows_def)

lemma field_column:
  assumes sums: "\<And>org n v d (rs :: (ch_row \<times> string \<times> string) list).
       col \<lparr>fu_org_id = org, fu_field_name = n, fu_field_value = v, fu_day = d,
         fu_events = int (length rs), fu_credits = sum_of (row_credits P \<circ> fst) rs\<rparr> = sum_of (f \<circ> fst) rs"
    and signed: "\<And>org n v d r. col \<lparr>fu_org_id = org, fu_field_name = n, fu_field_value = v,
       fu_day = d, fu_events = 1, fu_credits = row_credits P r\<rparr> = f r"
    and unsigned: "\<And>org n v d r. col \<lparr>fu_org_id = org, fu_field_name = n, fu_field_value = v,
       fu_day = d, fu_events = - 1, fu_credits = - row_credits P r\<rparr> = - f r"
    and content: "\<And>r st v. f (turned st v r) = f r"
  shows "rebuildable P ch_fields (field_usage_rollup_mv P) field_key col (live_fields P)"
proof (unfold_locales, goal_cases)
  case (4 r st Q v)
  then have "sign_of r = 1" "sign_of (turned st v r) = - 1" by (simp_all add: sign_of_def)
  then show ?case
    by (auto simp: field_usage_rollup_mv_def field_key_def signed unsigned content
        simp flip: sum_of_uminus intro!: sum_of_cong)
next
  case (6 org Q x)
  then show ?case by (simp add: live_fields_sums [OF sums signed])
qed (auto simp: insert_rows_def field_key_def field_usage_rollup_mv_def live_fields_def org_live_def live_rows_def)

lemma length_sum_of: "int (length rs) = sum_of ((\<lambda>_. 1) \<circ> g) rs"
  by (induction rs) simp_all

interpretation usage_events: rebuildable P ch_rollup "\<lambda>r. [usage_rollup_mv P r]" usage_key ru_events "live_rollup P" for P
  by (rule usage_column [where f = "\<lambda>_. 1"]) (simp_all add: usage_rollup_mv_def sum_of_1)

interpretation usage_input: rebuildable P ch_rollup "\<lambda>r. [usage_rollup_mv P r]" usage_key ru_input_tokens "live_rollup P" for P
  by (rule usage_column [where f = "row_input P"]) (simp_all add: usage_rollup_mv_def)

interpretation usage_output: rebuildable P ch_rollup "\<lambda>r. [usage_rollup_mv P r]" usage_key ru_output_tokens "live_rollup P" for P
  by (rule usage_column [where f = "row_output P"]) (simp_all add: usage_rollup_mv_def)

interpretation usage_credits: rebuildable P ch_rollup "\<lambda>r. [usage_rollup_mv P r]" usage_key ru_credits "live_rollup P" for P
  by (rule usage_column [where f = "row_credits P"]) (simp_all add: usage_rollup_mv_def)

interpretation field_events: rebuildable P ch_fields "field_usage_rollup_mv P" field_key fu_events "live_fields P" for P
  by (rule field_column [where f = "\<lambda>_. 1"]) (simp_all add: length_sum_of)

interpretation field_credits: rebuildable P ch_fields "field_usage_rollup_mv P" field_key fu_credits "live_fields P" for P
  by (rule field_column [where f = "row_credits P"]) simp_all

end
