(* ===== verification/Ch_Reads.thy ===== *)
theory Ch_Reads
  imports Ch_Rollup
begin

text \<open>
  What the analytics return while the rollups agree with the live events: nothing to reconcile, and
  reads that equal a scan of the events.
\<close>

section \<open>Calls that are answered\<close>

text \<open>From this state on no call fails.\<close>

definition quiet :: "ch \<Rightarrow> ch_store \<Rightarrow> bool" where
  "quiet P x \<longleftrightarrow> (\<forall>n \<ge> ch_calls x. ch_fault P n = None)"

lemma quiet_call:
  "quiet P x \<Longrightarrow> ch_call P f x = (case f (x\<lparr>ch_calls := Suc (ch_calls x)\<rparr>) of (y, a) \<Rightarrow> Some (y, Inr a))"
  by (simp add: ch_call_def quiet_def)

lemma quiet_query:
  "quiet P x \<Longrightarrow> ch_query P f x =
     Some (x\<lparr>ch_calls := Suc (ch_calls x)\<rparr>, Inr (f (x\<lparr>ch_calls := Suc (ch_calls x)\<rparr>)))"
  by (simp add: ch_query_def quiet_call)

lemma quiet_later [simp]: "quiet P x \<Longrightarrow> ch_calls x \<le> ch_calls y \<Longrightarrow> quiet P y"
  by (simp add: quiet_def)

lemma tables_calls [simp]:
  "live_rows (x\<lparr>ch_calls := n\<rparr>) = live_rows x" "org_live org (x\<lparr>ch_calls := n\<rparr>) = org_live org x"
  "scan_by P f org (x\<lparr>ch_calls := n\<rparr>) = scan_by P f org x"
  by (simp_all add: live_rows_def org_live_def scan_by_def)

section \<open>Reconciliation\<close>

definition rollups_track :: "ch \<Rightarrow> uuid \<Rightarrow> ch_store \<Rightarrow> bool" where
  "rollups_track P org x \<longleftrightarrow>
     usage_events.tracks P org x \<and> usage_input.tracks P org x \<and> usage_output.tracks P org x \<and>
     usage_credits.tracks P org x \<and> field_events.tracks P org x \<and> field_credits.tracks P org x"

lemma find_rev_keyed:
  "(\<And>k. g (h k) = k) \<Longrightarrow> List.find (\<lambda>a. g a = k) (rev (map h ks)) = (if k \<in> set ks then Some (h k) else None)"
  by (induction ks) (auto simp: find_append)

lemma agg_side_groups:
  "agg_side (map (\<lambda>(k, us). \<lparr>ag_key = k, ag_events = sum_of e us, ag_credits = sum_of c us\<rparr>) (group_by f xs)) k =
     (sum_of e (filter (\<lambda>u. f u = k) xs), sum_of c (filter (\<lambda>u. f u = k) xs))"
proof -
  let ?h = "\<lambda>k. \<lparr>ag_key = k, ag_events = sum_of e (filter (\<lambda>u. f u = k) xs), ag_credits = sum_of c (filter (\<lambda>u. f u = k) xs)\<rparr>"
  have g: "map (\<lambda>(k, us). \<lparr>ag_key = k, ag_events = sum_of e us, ag_credits = sum_of c us\<rparr>) (group_by f xs) =
      map ?h (remdups (map f xs))" by (simp add: group_by_def)
  have "filter (\<lambda>u. f u = k) xs = []" if "k \<notin> f ` set xs" using that by (auto simp: filter_empty_conv)
  then show ?thesis unfolding g agg_side_def find_rev_keyed [of ag_key ?h, simplified] by auto
qed

lemma diff_aggregates_none:
  "(\<And>k. agg_side as k = agg_side bs k) \<Longrightarrow> diff_aggregates scope as bs = []"
  by (auto simp: diff_aggregates_def split: prod.splits)

lemma scan_by_sums:
  "scan_by P f org x = map (\<lambda>(k, us). \<lparr>ag_key = k, ag_events = sum_of (\<lambda>_. 1) us, ag_credits = sum_of (row_credits P) us\<rparr>)
     (group_by f (filter (\<lambda>r. f r \<noteq> []) (org_live org x)))"
  by (simp add: scan_by_def sum_of_1)

text \<open>A rollup side and a scan side agree on a model.\<close>

definition model_keys :: "uuid \<Rightarrow> string \<Rightarrow> uuid \<times> string \<times> string \<times> int \<Rightarrow> bool" where
  "model_keys org m = (\<lambda>(g, mt, md, d). g = org \<and> md = m)"

definition field_keys :: "uuid \<Rightarrow> string \<Rightarrow> string \<Rightarrow> uuid \<times> string \<times> string \<times> int \<Rightarrow> bool" where
  "field_keys org f v = (\<lambda>(g, n, w, d). g = org \<and> n = f \<and> w = v)"

lemma keys_in_org [simp]: "org_keys org (model_keys org m)" "org_keys org (field_keys org f v)"
  by (auto simp: org_keys_def model_keys_def field_keys_def)

lemma usage_model_sum:
  assumes "rebuildable P ch_rollup (\<lambda>r. [usage_rollup_mv P r]) usage_key col (live_rollup P)"
    and "rollup.tracks ch_rollup (\<lambda>r. [usage_rollup_mv P r]) usage_key col org x"
    and "\<And>r. sign_of r = 1 \<Longrightarrow> col (usage_rollup_mv P r) = f r"
  shows "sum_of col (filter (\<lambda>u. ru_org_id u = org \<and> ru_model u = m) (ch_rollup x)) =
    sum_of f (filter (\<lambda>r. row_model P r = m) (org_live org x))"
proof -
  note rb = rebuildable.axioms(1) [OF assms(1)]
  note defs = rollup.summed_def [OF rb] rollup.from_live_def [OF rb]
  have "sum_of col (filter (\<lambda>u. ru_org_id u = org \<and> ru_model u = m) (ch_rollup x)) =
      sum_of (\<lambda>r. sum_of (\<lambda>u. if model_keys org m (usage_key u) then col u else 0) [usage_rollup_mv P r]) (org_live org x)"
    using rollup.tracksD [OF rb assms(2) keys_in_org(1), of m] rollup.from_live_org [OF rb keys_in_org(1), of org m x]
    by (simp add: defs sum_of_filter model_keys_def usage_key_def)
  also have "\<dots> = sum_of f (filter (\<lambda>r. row_model P r = m) (org_live org x))"
    unfolding sum_of_filter
    by (rule sum_of_cong) (auto simp: model_keys_def usage_key_def usage_rollup_mv_def dest!: org_live_row simp flip: assms(3))
  finally show ?thesis .
qed

lemma promoted_sum:
  fixes c :: "'v::comm_monoid_add"
  assumes "f \<in> set PROMOTED_FIELDS"
  shows "sum_of (\<lambda>(n, w). if n = f \<and> w = v then c else 0) (promoted_fields P r) =
    (if extract_string P (cr_properties r) f = v \<and> v \<noteq> [] then c else 0)"
  using assms unfolding PROMOTED_FIELDS_def promoted_fields_def sum_of_filter
  by (auto simp: sum_of_def)

lemma field_value_sum:
  assumes "rebuildable P ch_fields (field_usage_rollup_mv P) field_key col (live_fields P)"
    and "rollup.tracks ch_fields (field_usage_rollup_mv P) field_key col org x"
    and "\<And>g n v d r. col \<lparr>fu_org_id = g, fu_field_name = n, fu_field_value = v,
       fu_day = d, fu_events = 1, fu_credits = row_credits P r\<rparr> = h r"
    and f: "f \<in> set PROMOTED_FIELDS"
  shows "sum_of col (filter (\<lambda>u. fu_org_id u = org \<and> fu_field_name u = f \<and> fu_field_value u = v) (ch_fields x)) =
    sum_of h (filter (\<lambda>r. extract_string P (cr_properties r) f = v \<and> v \<noteq> []) (org_live org x))"
proof -
  note rb = rebuildable.axioms(1) [OF assms(1)]
  note defs = rollup.summed_def [OF rb] rollup.from_live_def [OF rb]
  let ?in = "\<lambda>u. if field_keys org f v (field_key u) then col u else 0"
  have "sum_of col (filter (\<lambda>u. fu_org_id u = org \<and> fu_field_name u = f \<and> fu_field_value u = v) (ch_fields x)) =
      sum_of (\<lambda>r. sum_of ?in (field_usage_rollup_mv P r)) (org_live org x)"
    using rollup.tracksD [OF rb assms(2) keys_in_org(2), of f v] rollup.from_live_org [OF rb keys_in_org(2), of org f v x]
    by (simp add: defs sum_of_filter field_keys_def field_key_def)
  also have "\<dots> = sum_of (\<lambda>r. sum_of (\<lambda>(n, w). if n = f \<and> w = v then h r else 0) (promoted_fields P r)) (org_live org x)"
    unfolding field_usage_rollup_mv_def sum_of_map
    by (intro sum_of_cong) (auto simp: field_keys_def field_key_def assms(3) dest!: org_live_row)
  also have "\<dots> = sum_of h (filter (\<lambda>r. extract_string P (cr_properties r) f = v \<and> v \<noteq> []) (org_live org x))"
    by (simp add: promoted_sum [OF f] sum_of_filter)
  finally show ?thesis .
qed

lemma model_sums:
  assumes "rollups_track P org x"
  shows "sum_of ru_events (filter (\<lambda>u. ru_org_id u = org \<and> ru_model u = m) (ch_rollup x)) =
      int (length (filter (\<lambda>r. row_model P r = m) (org_live org x)))"
    and "sum_of ru_input_tokens (filter (\<lambda>u. ru_org_id u = org \<and> ru_model u = m) (ch_rollup x)) =
      sum_of (row_input P) (filter (\<lambda>r. row_model P r = m) (org_live org x))"
    and "sum_of ru_output_tokens (filter (\<lambda>u. ru_org_id u = org \<and> ru_model u = m) (ch_rollup x)) =
      sum_of (row_output P) (filter (\<lambda>r. row_model P r = m) (org_live org x))"
    and "sum_of ru_credits (filter (\<lambda>u. ru_org_id u = org \<and> ru_model u = m) (ch_rollup x)) =
      sum_of (row_credits P) (filter (\<lambda>r. row_model P r = m) (org_live org x))"
  using assms [unfolded rollups_track_def]
    usage_model_sum [OF usage_events.rebuildable_axioms, of P org x "\<lambda>_. 1" m, simplified sum_of_1]
    usage_model_sum [OF usage_input.rebuildable_axioms, of P org x "row_input P" m]
    usage_model_sum [OF usage_output.rebuildable_axioms, of P org x "row_output P" m]
    usage_model_sum [OF usage_credits.rebuildable_axioms, of P org x "row_credits P" m]
  by (simp_all add: usage_rollup_mv_def)

lemma field_sums:
  assumes "rollups_track P org x" and "f \<in> set PROMOTED_FIELDS"
  shows "sum_of fu_events (filter (\<lambda>u. fu_org_id u = org \<and> fu_field_name u = f \<and> fu_field_value u = v) (ch_fields x)) =
      int (length (filter (\<lambda>r. extract_string P (cr_properties r) f = v \<and> v \<noteq> []) (org_live org x)))"
    and "sum_of fu_credits (filter (\<lambda>u. fu_org_id u = org \<and> fu_field_name u = f \<and> fu_field_value u = v) (ch_fields x)) =
      sum_of (row_credits P) (filter (\<lambda>r. extract_string P (cr_properties r) f = v \<and> v \<noteq> []) (org_live org x))"
  using assms(1) [unfolded rollups_track_def]
    field_value_sum [OF field_events.rebuildable_axioms, of P org x "\<lambda>_. 1" f v, OF _ _ assms(2), simplified sum_of_1]
    field_value_sum [OF field_credits.rebuildable_axioms, of P org x "row_credits P" f v, OF _ _ assms(2)]
  by simp_all

text \<open>Nothing to reconcile.\<close>

lemma reconcile_model_none:
  assumes "quiet P x" and "rollups_track P org x"
  shows "reconcile_model_rollup P x org = Some (x\<lparr>ch_calls := ch_calls x + 2\<rparr>, Inr [])"
proof -
  have "diff_aggregates ''model'' (map (\<lambda>(m, us). \<lparr>ag_key = m, ag_events = sum_of ru_events us, ag_credits = sum_of ru_credits us\<rparr>)
       (group_by ru_model (filter (\<lambda>u. ru_org_id u = org \<and> ru_model u \<noteq> []) (ch_rollup x)))) (scan_by P (row_model P) org x) = []"
  proof (rule diff_aggregates_none, unfold scan_by_sums agg_side_groups filter_filter, goal_cases)
    case (1 k)
    show ?case using model_sums [OF assms(2), of k]
      by (cases "k = []") (simp_all add: sum_of_1 conj_ac cong: conj_cong)
  qed
  then show ?thesis using assms(1) by (simp add: reconcile_model_rollup_def quiet_query)
qed

lemma reconcile_field_none:
  assumes "quiet P x" and "rollups_track P org x" and f: "f \<in> set PROMOTED_FIELDS"
  shows "reconcile_field_rollup P x org f = Some (x\<lparr>ch_calls := ch_calls x + 2\<rparr>, Inr [])"
proof -
  have "diff_aggregates f (map (\<lambda>(v, us). \<lparr>ag_key = v, ag_events = sum_of fu_events us, ag_credits = sum_of fu_credits us\<rparr>)
       (group_by fu_field_value (filter (\<lambda>u. fu_org_id u = org \<and> fu_field_name u = f) (ch_fields x))))
     (scan_by P (\<lambda>r. extract_string P (cr_properties r) f) org x) = []"
  proof (rule diff_aggregates_none, unfold scan_by_sums agg_side_groups filter_filter, goal_cases)
    case (1 k)
    show ?case using field_sums [OF assms(2) f, of k]
      by (cases "k = []") (simp_all add: sum_of_1 conj_ac cong: conj_cong)
  qed
  then show ?thesis using assms(1) by (simp add: reconcile_field_rollup_def quiet_query)
qed

lemma rollups_track_calls [simp]: "rollups_track P org (x\<lparr>ch_calls := n\<rparr>) = rollups_track P org x"
  by (simp add: rollups_track_def usage_events.tracks_def usage_input.tracks_def usage_output.tracks_def
      usage_credits.tracks_def field_events.tracks_def field_credits.tracks_def)

lemma reconcile_none:
  assumes "quiet P x" and "rollups_track P org x"
  shows "\<exists>n. reconcile_rollups P x org = Some (x\<lparr>ch_calls := n\<rparr>, Inr [])"
proof -
  have "fold_calls (\<lambda>x drift f. sbind (reconcile_field_rollup P x org f) (\<lambda>x more. Some (x, Inr (drift @ more))))
      (x\<lparr>ch_calls := n\<rparr>) [] fs = Some (x\<lparr>ch_calls := n + 2 * length fs\<rparr>, Inr [])"
    if "ch_calls x \<le> n" "set fs \<subseteq> set PROMOTED_FIELDS" for fs n
    using that
  proof (induction fs arbitrary: n)
    case (Cons f fs)
    then show ?case using assms reconcile_field_none [of P "x\<lparr>ch_calls := n\<rparr>" org f] Cons.IH [of "n + 2"]
      by simp
  qed simp
  from this [of "ch_calls x + 2" PROMOTED_FIELDS] show ?thesis
    unfolding reconcile_rollups_def reconcile_model_none [OF assms] sbind_simps by auto
qed

section \<open>Rebuild\<close>

lemma rebuild_reply:
  assumes "quiet P x"
  shows "rebuild_rollups P x org = Some (x\<lparr>
      ch_rollup := filter (\<lambda>u. ru_org_id u \<noteq> org) (ch_rollup x) @ live_rollup P org x,
      ch_fields := filter (\<lambda>u. fu_org_id u \<noteq> org) (ch_fields x) @ live_fields P org x,
      ch_calls := ch_calls x + 4\<rparr>, Inr ())"
  using assms by (simp add: rebuild_rollups_def quiet_call live_rollup_def live_fields_def org_live_def live_rows_def)

lemma rebuild_tracks:
  assumes "quiet P x" and "rebuild_rollups P x org = Some (y, r)"
  shows "rollups_track P org y" and "quiet P y" and "r = Inr ()" and "ch_events y = ch_events x"
proof -
  from assms(2) [unfolded rebuild_reply [OF assms(1)]] have y: "y = x\<lparr>
      ch_rollup := filter (\<lambda>u. ru_org_id u \<noteq> org) (ch_rollup x) @ live_rollup P org x,
      ch_fields := filter (\<lambda>u. fu_org_id u \<noteq> org) (ch_fields x) @ live_fields P org x,
      ch_calls := ch_calls x + 4\<rparr>" and r: "r = Inr ()" by simp_all
  show "r = Inr ()" "ch_events y = ch_events x" "quiet P y" using r y assms(1) by simp_all
  note tracked = usage_events.rebuilt_tracks [where us = "ch_rollup x"] usage_input.rebuilt_tracks [where us = "ch_rollup x"]
    usage_output.rebuilt_tracks [where us = "ch_rollup x"] usage_credits.rebuilt_tracks [where us = "ch_rollup x"]
    field_events.rebuilt_tracks [where us = "ch_fields x"] field_credits.rebuilt_tracks [where us = "ch_fields x"]
  show "rollups_track P org y" unfolding rollups_track_def
    by (intro conjI tracked [where x = x]) (simp_all add: y usage_key_def field_key_def)
qed

section \<open>Reads\<close>

lemma group_by_set: "set (group_by f xs) = (\<lambda>k. (k, filter (\<lambda>x. f x = k) xs)) ` f ` set xs"
  by (simp add: group_by_def)

lemma org_total_events:
  assumes "rollups_track P org x"
  shows "sum_of ru_events (filter (\<lambda>u. ru_org_id u = org) (ch_rollup x)) = int (length (org_live org x))"
proof -
  let ?Q = "\<lambda>k :: uuid \<times> string \<times> string \<times> int. fst k = org"
  have Q: "org_keys org ?Q" by (simp add: org_keys_def)
  have "usage_events.tracks P org x" using assms by (simp add: rollups_track_def)
  from usage_events.tracksD [OF this Q] usage_events.from_live_org [OF Q, of P x]
  have "usage_events.summed ?Q (ch_rollup x) = usage_events.from_live P ?Q (org_live org x)" by simp
  then have "sum_of ru_events (filter (\<lambda>u. ru_org_id u = org) (ch_rollup x)) =
      sum_of (\<lambda>r. if cr_org_id r = org then sign_of r else 0) (org_live org x)"
    unfolding usage_events.summed_def usage_events.from_live_def
    by (simp add: sum_of_filter usage_key_def usage_rollup_mv_def cong: if_cong)
  also have "\<dots> = sum_of (\<lambda>_. 1) (org_live org x)"
    by (rule sum_of_cong) (auto dest!: org_live_row)
  finally show ?thesis by (simp add: sum_of_1)
qed

lemma event_count_reply:
  "quiet P x \<Longrightarrow> rollups_track P org x \<Longrightarrow>
     event_count_ch P x org = Some (x\<lparr>ch_calls := Suc (ch_calls x)\<rparr>, Inr (of_nat (length (org_live org x))))"
  by (simp add: event_count_ch_def quiet_query org_total_events)

text \<open>The usage of a model, scanned.\<close>

definition model_scan :: "ch \<Rightarrow> ch_row list \<Rightarrow> string \<Rightarrow> model_usage" where
  "model_scan P rs m = (let us = filter (\<lambda>r. row_model P r = m) rs in
     \<lparr>mu_model = m, mu_events = of_nat (length us), mu_input_tokens = of_int (sum_of (row_input P) us),
      mu_output_tokens = of_int (sum_of (row_output P) us), mu_credits = sum_of (row_credits P) us\<rparr>)"

lemma group_by_mem: "u \<in> set xs \<Longrightarrow> (f u, filter (\<lambda>x. f x = f u) xs) \<in> set (group_by f xs)"
  by (auto simp: group_by_set)

text \<open>The groups \<open>HAVING events > 0\<close>: those of the models with live events.\<close>

definition model_groups :: "ch_store \<Rightarrow> uuid \<Rightarrow> (string \<times> rollup_row list) list" where
  "model_groups x org = filter (\<lambda>(m, us). 0 < sum_of ru_events us)
     (group_by ru_model (filter (\<lambda>u. ru_org_id u = org \<and> ru_model u \<noteq> []) (ch_rollup x)))"

lemma model_groups_mem:
  "(m, us) \<in> set (model_groups x org) \<longleftrightarrow>
     us = filter (\<lambda>u. ru_org_id u = org \<and> ru_model u = m) (ch_rollup x) \<and> m \<noteq> [] \<and> 0 < sum_of ru_events us"
proof
  assume "(m, us) \<in> set (model_groups x org)"
  then show "us = filter (\<lambda>u. ru_org_id u = org \<and> ru_model u = m) (ch_rollup x) \<and> m \<noteq> [] \<and> 0 < sum_of ru_events us"
    by (auto simp: model_groups_def group_by_set conj_ac intro!: filter_cong)
next
  let ?us = "filter (\<lambda>u. ru_org_id u = org \<and> ru_model u = m) (ch_rollup x)"
  let ?all = "filter (\<lambda>u. ru_org_id u = org \<and> ru_model u \<noteq> []) (ch_rollup x)"
  assume m: "us = ?us \<and> m \<noteq> [] \<and> 0 < sum_of ru_events us"
  then have "set ?us \<noteq> {}" by (cases ?us) auto
  then obtain u where u: "u \<in> set ?all" "ru_model u = m" using m by auto
  have "filter (\<lambda>u. ru_model u = m) ?all = us" using m by (auto intro!: filter_cong)
  with group_by_mem [OF u(1), of ru_model] u(2) m show "(m, us) \<in> set (model_groups x org)"
    by (auto simp: model_groups_def)
qed

lemma model_groups_models:
  assumes "rollups_track P org x"
  shows "fst ` set (model_groups x org) = {m. m \<noteq> [] \<and> m \<in> row_model P ` set (org_live org x)}"
proof -
  have "m \<in> fst ` set (model_groups x org) \<longleftrightarrow> m \<noteq> [] \<and> filter (\<lambda>r. row_model P r = m) (org_live org x) \<noteq> []" for m
  proof -
    have "m \<in> fst ` set (model_groups x org) \<longleftrightarrow> (\<exists>us. (m, us) \<in> set (model_groups x org))" by force
    then show ?thesis by (simp add: model_groups_mem model_sums [OF assms])
  qed
  then show ?thesis by (simp add: set_eq_iff filter_empty_conv image_iff) metis
qed

lemma usage_by_model_reply:
  assumes "quiet P x" and t: "rollups_track P org x" and "usage_by_model P x org = Some (y, r)"
  obtains us where "r = Inr us" and "distinct (map mu_model us)"
    and "set us = model_scan P (org_live org x) ` {m. m \<noteq> [] \<and> m \<in> row_model P ` set (org_live org x)}"
    and "sorted (map (\<lambda>u. - mu_credits u) us)"
proof -
  define ms where "ms = map fst (model_groups x org)"
  have "map (\<lambda>(m, us). \<lparr>mu_model = m, mu_events = of_int (sum_of ru_events us), mu_input_tokens = of_int (sum_of ru_input_tokens us),
          mu_output_tokens = of_int (sum_of ru_output_tokens us), mu_credits = sum_of ru_credits us\<rparr>) (model_groups x org) =
      map (model_scan P (org_live org x)) ms"
    unfolding ms_def map_map
    by (rule map_cong) (auto simp: model_scan_def Let_def model_groups_mem model_sums [OF t])
  then have reply: "r = Inr (by_credits mu_credits (map (model_scan P (org_live org x)) ms))"
    using assms(1,3) by (simp add: usage_by_model_def quiet_query model_groups_def)
  have "distinct ms" unfolding ms_def model_groups_def group_by_def by (simp add: filter_map comp_def)
  moreover have "set ms = {m. m \<noteq> [] \<and> m \<in> row_model P ` set (org_live org x)}"
    using model_groups_models [OF t] by (simp add: ms_def)
  ultimately show ?thesis using reply
    by (intro that [of "by_credits mu_credits (map (model_scan P (org_live org x)) ms)"])
       (auto simp: by_credits_def model_scan_def Let_def distinct_map comp_def inj_on_def)
qed

end
