(* ===== verification/Ch_Methods.thy ===== *)
theory Ch_Methods
  imports Ch_Reads
begin

text \<open>
  The methods of the ClickHouse store, what they read and which steps they take. A method that fails
  half-way has still taken only such steps.
\<close>

section \<open>Calls and queries\<close>

lemma sbind_cases:
  assumes "sbind m f = Some (y, r)"
  obtains (failed) e where "m = Some (y, Inl e)" "r = Inl e"
  | (went_on) s a where "m = Some (s, Inr a)" "f s a = Some (y, r)"
  using assms by (auto simp: sbind_def split: option.splits prod.splits sum.splits)

lemma backend_iff [simp]: "backend m = Some (y, r) \<longleftrightarrow> (\<exists>r0. m = Some (y, r0) \<and> r = map_sum EventBackend id r0)"
  by (cases m) (auto simp: backend_def)

lemma backend_Ok_iff: "backend m = Some (y, Inr a) \<longleftrightarrow> m = Some (y, Inr a)"
proof -
  have "Inr a = map_sum EventBackend id r \<longleftrightarrow> r = Inr a" for r by (cases r) auto
  then show ?thesis by simp
qed

lemma ch_call_cases:
  assumes "ch_call P f x = Some (y, r)"
  obtains (refused) m where "y = x\<lparr>ch_calls := Suc (ch_calls x)\<rparr>" "r = Inl m"
  | (took_effect) "y = fst (f (x\<lparr>ch_calls := Suc (ch_calls x)\<rparr>))" "r = Inr (snd (f (x\<lparr>ch_calls := Suc (ch_calls x)\<rparr>)))"
  | (unacknowledged) m where "y = fst (f (x\<lparr>ch_calls := Suc (ch_calls x)\<rparr>))" "r = Inl m"
  using assms by (auto simp: ch_call_def Let_def split: option.splits fault.splits prod.splits)

text \<open>A read leaves the tables and the version counter alone.\<close>

definition asked :: "ch_store \<Rightarrow> ch_store \<Rightarrow> bool" where
  "asked x y \<longleftrightarrow> ch_events y = ch_events x \<and> ch_rollup y = ch_rollup x \<and> ch_fields y = ch_fields x \<and>
     ch_version_seq y = ch_version_seq x"

lemma asked_refl [simp, intro]: "asked x x"
  by (simp add: asked_def)

lemma asked_trans: "asked x y \<Longrightarrow> asked y z \<Longrightarrow> asked x z"
  by (simp add: asked_def)

lemma asked_sel:
  "asked x y \<Longrightarrow> ch_events y = ch_events x" "asked x y \<Longrightarrow> ch_version_seq y = ch_version_seq x"
  by (simp_all add: asked_def)

lemma asked_steps: "asked x y \<Longrightarrow> ch_steps P x y"
  using cs_idle [of x "ch_version_seq x" P "ch_calls y"] by (cases x; cases y) (auto simp: asked_def)

lemma ch_query_result:
  assumes "ch_query P f x = Some (y, r)"
  shows "asked x y" and "r = Inr a \<Longrightarrow> a = f y"
  using assms by (auto simp: ch_query_def asked_def elim!: ch_call_cases)

section \<open>Known identifiers\<close>

lemma chunks_set: "(\<Union>c \<in> set (chunks n xs). set c) = set xs"
proof (induction n xs rule: chunks.induct)
  case (2 n x xs)
  then show ?case by (simp, metis append_take_drop_id set_append)
qed simp

definition event_key :: "event \<Rightarrow> uuid \<times> uuid" where
  "event_key e = (as_uuid (event_org_id e), as_uuid (event_id e))"

lemma by_org_keys: "(\<Union>(org, ids) \<in> set (by_org es). Pair org ` set ids) = event_key ` set es"
proof (induction es rule: by_org.induct)
  case (2 e es)
  have "Pair (as_uuid (event_org_id e)) ` set (as_uuid (event_id e) # map (as_uuid \<circ> event_id) (filter (\<lambda>x. event_org_id x = event_org_id e) es)) =
      event_key ` set (e # filter (\<lambda>x. event_org_id x = event_org_id e) es)"
    by (auto simp: event_key_def image_iff)
  moreover have "set (e # es) = set (e # filter (\<lambda>x. event_org_id x = event_org_id e) es) \<union>
      set (filter (\<lambda>x. event_org_id x \<noteq> event_org_id e) es)" by auto
  ultimately show ?case using 2 by (simp only: by_org.simps image_Un) simp
qed simp

lemma select_ids_set: "Pair org ` set (select_ids org ids x) = Pair org ` set ids \<inter> row_key ` set (ch_events x)"
  by (auto simp: select_ids_def row_key_def image_iff)

lemma select_ids_asked: "asked x y \<Longrightarrow> select_ids org ids y = select_ids org ids x"
  by (simp add: select_ids_def asked_def)

lemma snd_of_pairs: "(\<Union>(a, c) \<in> S. f a c) = snd ` (\<Union>(a, c) \<in> S. Pair a ` f a c)"
  by force

lemma existing_fold:
  assumes "fold_calls (\<lambda>x found (org, chunk). sbind (backend (ch_query P (select_ids org chunk) x)) (\<lambda>x ids. Some (x, Inr (found @ ids))))
      x acc cs = Some (y, r)"
  shows "asked x y \<and> (\<forall>found. r = Inr found \<longrightarrow> set found = set acc \<union> (\<Union>(org, chunk) \<in> set cs. set (select_ids org chunk x)))"
  using assms
proof (induction cs arbitrary: acc x)
  case (Cons c cs)
  obtain org chunk where c: "c = (org, chunk)" by fastforce
  note prem = Cons.prems [unfolded c fold_calls.simps prod.case]
  from prem show ?case
  proof (cases rule: sbind_cases)
    case (failed e)
    then show ?thesis by (auto elim!: sbind_cases dest!: ch_query_result(1))
  next
    case (went_on s a)
    from went_on(1) obtain ids where q: "ch_query P (select_ids org chunk) x = Some (s, Inr ids)" "a = acc @ ids"
      by (auto elim!: sbind_cases simp: backend_Ok_iff simp del: backend_iff)
    from ch_query_result [OF q(1)] have s: "asked x s" "ids = select_ids org chunk x" by (simp_all add: select_ids_asked)
    from Cons.IH [OF went_on(2)] s q(2) show ?thesis by (auto simp: select_ids_asked c intro: asked_trans)
  qed
qed auto

lemma existing_ids_result:
  assumes "existing_ids P events x = Some (y, r)"
  shows "asked x y"
    and "r = Inr found \<Longrightarrow> set found = snd ` (event_key ` set events \<inter> row_key ` set (ch_events x))"
proof -
  let ?cs = "concat (map (\<lambda>(org, ids). map (Pair org) (chunks (CHUNK - 1) ids)) (by_org events))"
  note res = existing_fold [OF assms [unfolded existing_ids_def]]
  from res show "asked x y" by simp
  have "(\<Union>(org, chunk) \<in> set ?cs. set (select_ids org chunk x)) =
      snd ` (\<Union>(org, chunk) \<in> set ?cs. Pair org ` set (select_ids org chunk x))"
    by (rule snd_of_pairs)
  also have "\<dots> = snd ` ((\<Union>(org, chunk) \<in> set ?cs. Pair org ` set chunk) \<inter> row_key ` set (ch_events x))"
    by (simp add: select_ids_set case_prod_unfold)
  also have "(\<Union>(org, chunk) \<in> set ?cs. Pair org ` set chunk) =
      (\<Union>(org, ids) \<in> set (by_org events). Pair org ` (\<Union>c \<in> set (chunks (CHUNK - 1) ids). set c))"
    by (auto simp: case_prod_unfold)
  finally have hits: "(\<Union>(org, chunk) \<in> set ?cs. set (select_ids org chunk x)) =
      snd ` (event_key ` set events \<inter> row_key ` set (ch_events x))"
    by (simp add: chunks_set by_org_keys)
  assume "r = Inr found"
  with res hits show "set found = snd ` (event_key ` set events \<inter> row_key ` set (ch_events x))" by simp
qed

section \<open>Versions\<close>

text \<open>The counter can be advanced \<open>n\<close> times without wrapping.\<close>

definition room :: "ch_store \<Rightarrow> nat \<Rightarrow> bool" where
  "room x n \<longleftrightarrow> unat (ch_version_seq x) + n < 2 ^ 64"

lemma version_step:
  fixes w :: "64 word"
  assumes "unat w + n < 2 ^ 64" and "k \<le> n"
  shows "unat (w + of_nat k) = unat w + k"
proof -
  have "k < 2 ^ 64" "unat w + k < 2 ^ 64" using assms by simp_all
  then show ?thesis by (simp add: unat_word_ariths(1) unat_of_nat take_bit_eq_mod)
qed

lemma version_less:
  assumes "room x n" and "k < m" and "m \<le> n"
  shows "ch_version_seq x + of_nat k < ch_version_seq x + of_nat m"
  using assms by (simp add: word_less_nat_alt room_def version_step [of _ n])

lemma version_le: "room x n \<Longrightarrow> m \<le> n \<Longrightarrow> ch_version_seq x \<le> ch_version_seq x + of_nat m"
  by (simp add: word_le_nat_alt room_def version_step [of _ n])

lemma room_less: "room x n \<Longrightarrow> m \<le> n \<Longrightarrow> room x m"
  by (simp add: room_def)

lemma room_used: "room x (m + n) \<Longrightarrow> ch_version_seq y = ch_version_seq x + of_nat m \<Longrightarrow> room y n"
  by (simp add: room_def version_step [of _ "m + n"])

lemma room_asked: "asked x y \<Longrightarrow> room y n = room x n"
  by (simp add: room_def asked_def)

section \<open>The rows of a batch\<close>

fun fresh_events :: "uuid set \<Rightarrow> event list \<Rightarrow> event list" where
  "fresh_events known [] = []"
| "fresh_events known (e # es) =
     (if as_uuid (event_id e) \<in> known then fresh_events known es
      else e # fresh_events (insert (as_uuid (event_id e)) known) es)"

fun version_rows :: "ch \<Rightarrow> 64 word \<Rightarrow> event list \<Rightarrow> ch_row list" where
  "version_rows P v [] = []"
| "version_rows P v (e # es) = row_of_event P v e # version_rows P (v + 1) es"

lemma fresh_rows_eq:
  "fresh_rows P ex seen x es =
     (let new = fresh_events (set ex \<union> set seen) es in
      (x\<lparr>ch_version_seq := ch_version_seq x + of_nat (length new)\<rparr>, version_rows P (ch_version_seq x) new))"
  by (induction P ex seen x es rule: fresh_rows.induct) (auto simp: event_to_row_def Let_def ac_simps)

lemma fresh_events_props:
  "set (fresh_events known es) \<subseteq> set es \<and> length (fresh_events known es) \<le> length es \<and>
   distinct (map (as_uuid \<circ> event_id) (fresh_events known es)) \<and>
   (as_uuid \<circ> event_id) ` set (fresh_events known es) \<inter> known = {}"
  by (induction known es rule: fresh_events.induct) auto

lemma version_rows_length [simp]: "length (version_rows P v es) = length es"
  by (induction es arbitrary: v) simp_all

lemma version_rows_Nil_iff: "version_rows P v es = [] \<longleftrightarrow> es = []"
  by (cases es) simp_all

lemma version_rows_nth: "i < length es \<Longrightarrow> version_rows P v es ! i = row_of_event P (v + of_nat i) (es ! i)"
  by (induction es arbitrary: v i) (auto simp: nth_Cons ac_simps split: nat.splits)

lemma row_of_event_sel [simp]:
  "cr_version (row_of_event P v e) = v" "row_key (row_of_event P v e) = event_key e"
  "cr_status (row_of_event P v e) = status_to_str (event_status e)" "stored_row P (row_of_event P v e)"
  by (auto simp: row_of_event_def row_key_def event_key_def stored_row_def)

lemma version_rows_keys: "map row_key (version_rows P v es) = map event_key es"
  by (induction es arbitrary: v) simp_all

lemma insert_recorded_steps:
  assumes "distinct (map row_key rows)" and "row_key ` set rows \<inter> row_key ` set (ch_events x) = {}"
    and "\<And>r. r \<in> set rows \<Longrightarrow> stored_row P r \<and> cr_status r = ''recorded'' \<and> cr_version r < ch_version_seq x"
  shows "ch_steps P x (insert_rows P rows x)"
  using assms
proof (induction rows arbitrary: x)
  case Nil
  have "insert_rows P [] x = x" by (simp add: insert_rows_def)
  then show ?case by simp
next
  case (Cons r rows)
  have "ch_step P x (insert_rows P [r] x)" using Cons.prems(2,3) by (intro cs_append) auto
  moreover have "ch_steps P (insert_rows P [r] x) (insert_rows P rows (insert_rows P [r] x))"
    using Cons.prems by (intro Cons.IH) auto
  ultimately show ?case unfolding insert_rows_Cons [of P r rows] by simp
qed

lemma insert_new_steps:
  assumes new: "distinct (map event_key new)" "event_key ` set new \<inter> row_key ` set (ch_events x) = {}"
    and rec: "\<And>e. e \<in> set new \<Longrightarrow> event_status e = Recorded"
    and "room x (length new)"
  shows "ch_steps P x (insert_rows P (version_rows P (ch_version_seq x) new)
           (x\<lparr>ch_version_seq := ch_version_seq x + of_nat (length new), ch_calls := n\<rparr>))"
proof -
  let ?x1 = "x\<lparr>ch_version_seq := ch_version_seq x + of_nat (length new), ch_calls := n\<rparr>"
  have "ch_step P x ?x1" using version_le [OF assms(4)] by (intro cs_idle) simp
  moreover have "row_key ` set (version_rows P v new) = event_key ` set new" for v
    by (metis list.set_map version_rows_keys)
  then have "ch_steps P ?x1 (insert_rows P (version_rows P (ch_version_seq x) new) ?x1)"
    using new rec [OF nth_mem] version_less [OF assms(4)]
    by (intro insert_recorded_steps) (auto simp: version_rows_keys in_set_conv_nth version_rows_nth)
  ultimately show ?thesis by simp
qed

section \<open>Stored events\<close>

text \<open>What the store keeps of an event: its times in milliseconds.\<close>

definition kept_event :: "ch \<Rightarrow> event \<Rightarrow> event" where
  "kept_event P e = e\<lparr>event_time := to_millis P (event_time e), event_created_at := to_millis P (event_created_at e)\<rparr>"

lemma option_Id_as_uuid [simp]: "map_option Id (map_option as_uuid i) = i"
  by (cases i) simp_all

lemma row_to_event_of:
  "json_roundtrip P \<Longrightarrow> row_to_event P (row_of_event P v e) = Inr (kept_event P e)"
  by (simp add: row_to_event_def row_of_event_def kept_event_def json_roundtrip_def)

lemma row_of_kept:
  "millis_stable P \<Longrightarrow> row_of_event P v (kept_event P e) = row_of_event P v e"
  by (simp add: row_of_event_def kept_event_def millis_stable_def)

lemma kept_event_status: "kept_event P e\<lparr>event_status := st\<rparr> = kept_event P (e\<lparr>event_status := st\<rparr>)"
  by (simp add: kept_event_def)

lemma stored_row_event:
  assumes "json_roundtrip P" and "millis_stable P" and "stored_row P r" and "row_to_event P r = Inr e"
  shows "row_of_event P v (e\<lparr>event_status := st\<rparr>) = turned st v r" and "event_key e = row_key r"
    and "cr_status r = status_to_str (event_status e)"
proof -
  from assms(3) obtain w e0 where r: "r = row_of_event P w e0" by (auto simp: stored_row_def)
  with assms(1,4) have e: "e = kept_event P e0" by (simp add: row_to_event_of)
  show "row_of_event P v (e\<lparr>event_status := st\<rparr>) = turned st v r"
    by (simp add: e r kept_event_status row_of_kept [OF assms(2)] turned_row_of_event)
  show "event_key e = row_key r" "cr_status r = status_to_str (event_status e)"
    by (simp_all add: e r kept_event_def event_key_def row_of_event_def row_key_def)
qed

section \<open>Inserts and lookups\<close>

lemma insert_event_cases:
  assumes "insert_event P e x = Some (y, r)"
  obtains (refused) n m where "y = x\<lparr>ch_version_seq := ch_version_seq x + 1, ch_calls := n\<rparr>" "r = Inl m"
  | (inserted) n where "y = insert_rows P [row_of_event P (ch_version_seq x) e]
      (x\<lparr>ch_version_seq := ch_version_seq x + 1, ch_calls := n\<rparr>)" "r = Inr () \<or> (\<exists>m. r = Inl m)"
  using assms by (auto simp: insert_event_def event_to_row_def elim!: ch_call_cases)

lemma insert_recorded_event_steps:
  assumes "insert_event P e x = Some (y, r)" and "event_status e = Recorded"
    and "event_key e \<notin> row_key ` set (ch_events x)" and "room x 1"
  shows "ch_steps P x y"
  using assms(1)
proof (cases rule: insert_event_cases)
  case (refused n m)
  then show ?thesis using version_le [OF assms(4), of 1] cs_idle [of x "ch_version_seq x + 1" P n] by auto
next
  case (inserted n)
  then show ?thesis using insert_new_steps [of "[e]" x P n] assms by simp
qed

lemma insert_turned_event_steps:
  assumes "insert_event P e x = Some (y, r)" and "row_of_event P (ch_version_seq x) e = turned st (ch_version_seq x) old"
    and "old \<in> set (live_rows x)" and "st \<noteq> Recorded" and "ch_inv P x" and "room x 1"
  shows "ch_steps P x y"
proof -
  have idle: "ch_step P x (x\<lparr>ch_version_seq := ch_version_seq x + 1, ch_calls := n\<rparr>)" for n
    using version_le [OF assms(6), of 1] cs_idle [of x "ch_version_seq x + 1" P n] by auto
  have "ch_step P (x\<lparr>ch_version_seq := ch_version_seq x + 1, ch_calls := n\<rparr>)
      (insert_rows P [turned st (ch_version_seq x) old] (x\<lparr>ch_version_seq := ch_version_seq x + 1, ch_calls := n\<rparr>))" for n
    using assms(3,4,5) live_rows_subset [of x] version_less [OF assms(6), of 0 1]
    by (intro cs_turn) (auto simp: live_rows_def ch_inv_def)
  with idle assms(1,2) show ?thesis
    by (auto elim!: insert_event_cases) (meson converse_rtranclp_into_rtranclp r_into_rtranclp)+
qed

lemma ch_get_result:
  assumes "ch_get P x i = Some (y, r)"
  shows "asked x y"
    and "r = Inr e \<Longrightarrow> \<exists>row \<in> set (final_rows (ch_events x)). select_by_id (as_uuid i) x = Some row \<and>
      cr_id row = as_uuid i \<and> row_to_event P row = Inr e"
proof -
  from assms have res: "asked x y \<and> (r = Inr e \<longrightarrow> (\<exists>row. select_by_id (as_uuid i) x = Some row \<and> row_to_event P row = Inr e))"
    unfolding ch_get_def
  proof (cases rule: sbind_cases)
    case (failed m)
    then show ?thesis by (auto dest: ch_query_result(1))
  next
    case (went_on s found)
    then have "ch_query P (select_by_id (as_uuid i)) x = Some (s, Inr found)" by (simp add: backend_Ok_iff del: backend_iff)
    from ch_query_result [OF this] have "asked x s" "found = select_by_id (as_uuid i) x"
      by (simp_all add: select_by_id_def asked_def)
    with went_on(2) show ?thesis by (auto split: option.splits)
  qed
  then show "asked x y" by simp
  assume "r = Inr e"
  with res show "\<exists>row \<in> set (final_rows (ch_events x)). select_by_id (as_uuid i) x = Some row \<and>
      cr_id row = as_uuid i \<and> row_to_event P row = Inr e"
    by (auto simp: select_by_id_def dest: find_SomeD)
qed

section \<open>The methods as runs of steps\<close>

lemma into_events_props:
  "length (into_events D E n qs) = length qs \<and> (\<forall>e \<in> set (into_events D E n qs). event_status e = Recorded)"
  by (induction qs arbitrary: n) auto

lemma batch_insert_steps:
  assumes "set existing = snd ` (event_key ` set events \<inter> row_key ` set (ch_events x))"
    and "\<And>e. e \<in> set events \<Longrightarrow> event_status e = Recorded" and "room x (length events)"
  shows "ch_steps P x (insert_rows P (version_rows P (ch_version_seq x) (fresh_events (set existing) events))
     (x\<lparr>ch_version_seq := ch_version_seq x + of_nat (length (fresh_events (set existing) events)), ch_calls := n\<rparr>))"
proof (rule insert_new_steps)
  let ?new = "fresh_events (set existing) events"
  note new = fresh_events_props [of "set existing" events]
  have "map (as_uuid \<circ> event_id) ?new = map snd (map event_key ?new)" by (simp add: event_key_def)
  then show "distinct (map event_key ?new)" using new distinct_map by metis
  show "event_key ` set ?new \<inter> row_key ` set (ch_events x) = {}"
  proof (intro equals0I, elim IntE)
    fix k assume k: "k \<in> event_key ` set ?new" "k \<in> row_key ` set (ch_events x)"
    then obtain e where e: "e \<in> set ?new" "k = event_key e" by blast
    then have "snd k \<in> set existing" using k(2) new unfolding assms(1) by blast
    with e new show False by (auto simp: event_key_def)
  qed
  show "room x (length ?new)" using assms(3) new room_less by blast
qed (use assms(2) fresh_events_props in blast)

lemma record_batch_steps:
  assumes "ch_record_batch D P ExactlyOnce E x reqs = Some (y, r)" and "room x (length reqs)"
  shows "ch_steps P x y"
proof (cases "reqs = []")
  case True
  with assms show ?thesis by (simp add: ch_record_batch_def)
next
  case False
  define events where "events = into_events D E 0 reqs"
  from assms(1) False have "sbind (existing_ids P events x) (\<lambda>x existing.
        case fresh_rows P existing [] x events of (x, rows) \<Rightarrow>
          if rows = [] then Some (x, Inr events)
          else sbind (backend (ch_call P (\<lambda>x. (insert_rows P rows x, ())) x)) (\<lambda>x _. Some (x, Inr events))) = Some (y, r)"
    unfolding events_def by (simp add: ch_record_batch_def Let_def)
  then show ?thesis
  proof (cases rule: sbind_cases)
    case (failed e)
    then show ?thesis using existing_ids_result(1) asked_steps by blast
  next
    case (went_on s existing)
    note ex = existing_ids_result [OF went_on(1)]
    have ev: "length events = length reqs" "\<And>e. e \<in> set events \<Longrightarrow> event_status e = Recorded"
      using into_events_props [of D E 0 reqs] by (auto simp: events_def)
    have room: "room s (length events)" using assms(2) ev ex(1) by (simp add: room_asked)
    let ?new = "fresh_events (set existing) events"
    let ?s1 = "\<lambda>n. s\<lparr>ch_version_seq := ch_version_seq s + of_nat (length ?new), ch_calls := n\<rparr>"
    have ins: "ch_steps P s (insert_rows P (version_rows P (ch_version_seq s) ?new) (?s1 n))" for n
      using ex ev room by (intro batch_insert_steps) (simp_all add: asked_sel)
    have idle: "ch_steps P s (?s1 n)" for n
      using version_le [OF room, of "length ?new"] fresh_events_props [of "set existing" events] by (intro r_into_rtranclp cs_idle) simp
    have here: "ch_steps P s (s\<lparr>ch_version_seq := ch_version_seq s + of_nat (length ?new)\<rparr>)" using idle [of "ch_calls s"] by simp
    from went_on(2) have "ch_steps P s y" unfolding fresh_rows_eq Let_def prod.case list.set Un_empty_right
      using ins [of "Suc (ch_calls s)"] idle [of "Suc (ch_calls s)"] here
      by (auto split: if_splits elim!: sbind_cases ch_call_cases)
    with asked_steps [OF ex(1), of P] show ?thesis by simp
  qed
qed

lemma record_steps:
  assumes "ch_record D P ExactlyOnce E x req = Some (y, r)" and "room x 1"
  shows "ch_steps P x y"
  using assms(1) unfolding ch_record_def
  by (cases rule: sbind_cases) (use record_batch_steps [of D P E x "[req]"] assms(2) in auto)

text \<open>
  An amend addresses a version that is amended already, and not with the key of a stored amendment.
\<close>

definition amends_amended :: "deps \<Rightarrow> ch \<Rightarrow> env \<Rightarrow> ch_store \<Rightarrow> amend_event \<Rightarrow> bool" where
  "amends_amended D P E x req = (case select_by_id (as_uuid (amend_event_id req)) x of
      None \<Rightarrow> False
    | Some row \<Rightarrow> cr_status row = ''amended'' \<and> (case row_to_event P row of
        Inl _ \<Rightarrow> False
      | Inr original \<Rightarrow> event_key (into_amended_event D E req original) \<notin> row_key ` set (ch_events x)))"

lemma amend_writes_steps:
  assumes "sbind (insert_event P superseded x) (\<lambda>x _. sbind (insert_event P amended x) (\<lambda>x _. Some (x, Inr amended))) = Some (y, r)"
    and old: "\<And>v. row_of_event P v superseded = turned Amended v old" "old \<in> set (live_rows x)"
    and new: "event_status amended = Recorded" "event_key amended \<notin> row_key ` set (ch_events x)"
    and "ch_inv P x" and "room x 2"
  shows "ch_steps P x y"
proof -
  have first: "ch_steps P x s" if "insert_event P superseded x = Some (s, r)" for s r
    using insert_turned_event_steps [OF that old(1)] old(2) assms(6) room_less [OF assms(7)] by simp
  from assms(1) show ?thesis
  proof (cases rule: sbind_cases)
    case (failed e)
    then show ?thesis using first by blast
  next
    case (went_on s u)
    have "row_key old \<in> row_key ` set (ch_events x)" using old(2) live_rows_subset [of x] by blast
    with went_on(1) have s: "ch_version_seq s = ch_version_seq x + of_nat 1" "row_key ` set (ch_events s) = row_key ` set (ch_events x)"
      using old(1) by (auto elim!: insert_event_cases)
    from went_on(2) obtain r' where "insert_event P amended s = Some (y, r')" by (auto elim!: sbind_cases)
    then have "ch_steps P s y"
      using new s room_used [of x 1 1 s] assms(7) by (intro insert_recorded_event_steps) (simp_all add: numeral_2_eq_2)
    with first [OF went_on(1)] show ?thesis by simp
  qed
qed

lemma amend_steps:
  assumes "ch_amend D P E x req = Some (y, r)" and tidy: "\<not> amends_amended D P E x req"
    and laws: "json_roundtrip P" "millis_stable P" and inv: "ch_inv P x" and room: "room x 2"
  shows "ch_steps P x y"
  using assms(1) unfolding ch_amend_def
proof (cases rule: sbind_cases)
  case (failed e)
  then show ?thesis using ch_get_result(1) asked_steps by blast
next
  case (went_on s original)
  note got = ch_get_result [OF went_on(1)]
  define amended where "amended = into_amended_event D E req original"
  from got(2) obtain row where row: "row \<in> set (final_rows (ch_events x))" "select_by_id (as_uuid (amend_event_id req)) x = Some row"
    "row_to_event P row = Inr original" by blast
  have "stored_row P row" using row(1) final_rows_subset [of "ch_events x"] inv by (auto simp: ch_inv_def)
  note orig = stored_row_event [OF laws this row(3)]
  have live: "row \<in> set (live_rows x)"
    if "event_status original \<noteq> VoidedEvent" "event_key amended \<notin> row_key ` set (ch_events x)"
    using that row tidy orig(3) by (cases "event_status original")
      (auto simp: live_rows_def status_to_str_def amends_amended_def amended_def)
  have writes: "ch_steps P x y" if "asked x t" "event_status original \<noteq> VoidedEvent"
      "event_key amended \<notin> row_key ` set (ch_events x)"
      "sbind (insert_event P (original\<lparr>event_status := Amended\<rparr>) t) (\<lambda>x _. sbind (insert_event P amended x) (\<lambda>x _. Some (x, Inr amended))) = Some (y, r)"
    for t
  proof -
    have "live_rows t = live_rows x" "ch_inv P t" "room t 2"
      using that(1) inv room by (simp_all add: live_rows_def asked_def ch_inv_def room_def)
    then have "ch_steps P t y"
      using that live by (intro amend_writes_steps [OF that(4) orig(1)]) (simp_all add: asked_sel amended_def)
    with asked_steps [OF that(1), of P] show ?thesis by simp
  qed
  show ?thesis
  proof (cases "event_status original = VoidedEvent")
    case True
    with went_on(2) asked_steps [OF got(1)] show ?thesis by simp
  next
    case False
    with went_on(2) have "sbind (existing_ids P [amended] s) (\<lambda>x known.
       if as_uuid (event_id amended) \<in> set known then ch_get P x (event_id amended)
       else sbind (insert_event P (original\<lparr>event_status := Amended\<rparr>) x) (\<lambda>x _.
         sbind (insert_event P amended x) (\<lambda>x _. Some (x, Inr amended)))) = Some (y, r)"
      unfolding amended_def by (simp add: Let_def)
    then show ?thesis
    proof (cases rule: sbind_cases)
      case (failed e)
      from asked_steps [OF asked_trans [OF got(1) existing_ids_result(1) [OF failed(1)]]] show ?thesis .
    next
      case (went_on t known)
      note ex = existing_ids_result [OF went_on(1)]
      have xt: "asked x t" using got(1) ex(1) by (rule asked_trans)
      have fresh: "event_key amended \<notin> row_key ` set (ch_events x)" if "as_uuid (event_id amended) \<notin> set known"
        using that ex(2) [OF refl] got(1) by (auto simp: asked_sel event_key_def)
      show ?thesis
      proof (cases "as_uuid (event_id amended) \<in> set known")
        case True
        with went_on(2) have "ch_get P t (event_id amended) = Some (y, r)" by simp
        from asked_steps [OF asked_trans [OF xt ch_get_result(1) [OF this]]] show ?thesis .
      qed (use went_on(2) False xt fresh writes in simp)
    qed
  qed
qed

lemma void_row_result:
  assumes "ch_void_row P x k row = Some (s, a)" and laws: "json_roundtrip P" "millis_stable P"
    and live: "row \<in> set (live_rows x)" and inv: "ch_inv P x" and "room x 1"
  shows "ch_steps P x s"
    and "a = Inr k' \<Longrightarrow> \<exists>n. s = insert_rows P [turned VoidedEvent (ch_version_seq x) row]
           (x\<lparr>ch_version_seq := ch_version_seq x + 1, ch_calls := n\<rparr>)"
proof -
  have "stored_row P row" using live live_rows_subset [of x] inv by (auto simp: ch_inv_def)
  note orig = stored_row_event(1) [OF laws this]
  show "ch_steps P x s"
  proof (cases "row_to_event P row")
    case (Inr e)
    with assms(1) obtain a' where "insert_event P (e\<lparr>event_status := VoidedEvent\<rparr>) x = Some (s, a')"
      by (auto simp: ch_void_row_def elim!: sbind_cases)
    from insert_turned_event_steps [OF this orig [OF Inr] live _ inv assms(6)] show ?thesis by simp
  qed (use assms(1) in \<open>simp add: ch_void_row_def\<close>)
  assume "a = Inr k'"
  with assms(1) obtain e where e: "row_to_event P row = Inr e"
      "insert_event P (e\<lparr>event_status := VoidedEvent\<rparr>) x = Some (s, Inr ())"
    by (auto simp: ch_void_row_def split: sum.splits elim!: sbind_cases)
  from e(2) show "\<exists>n. s = insert_rows P [turned VoidedEvent (ch_version_seq x) row]
      (x\<lparr>ch_version_seq := ch_version_seq x + 1, ch_calls := n\<rparr>)"
    by (cases rule: insert_event_cases) (auto simp: orig [OF e(1)])
qed

lemma void_rows_steps:
  assumes "fold_calls (ch_void_row P) x k rows = Some (y, r)"
    and laws: "json_roundtrip P" "millis_stable P" and "ch_inv P x" and "room x (length rows)"
    and "set rows \<subseteq> set (live_rows x)" and "distinct rows"
  shows "ch_steps P x y"
  using assms
proof (induction rows arbitrary: x k)
  case (Cons row rows)
  have live: "row \<in> set (live_rows x)" and room: "room x 1" using Cons.prems(5,6) by (simp_all add: room_def)
  note one = void_row_result [OF _ laws live Cons.prems(4) room]
  from Cons.prems(1) [unfolded fold_calls.simps] show ?case
  proof (cases rule: sbind_cases)
    case (failed e)
    then show ?thesis using one(1) by blast
  next
    case (went_on s a)
    have xs: "ch_steps P x s" using one(1) [OF went_on(1)] .
    from one(2) [OF went_on(1)] obtain n where s: "s = insert_rows P [turned VoidedEvent (ch_version_seq x) row]
        (x\<lparr>ch_version_seq := ch_version_seq x + 1, ch_calls := n\<rparr>)" by blast
    have "cr_version row \<le> ch_version_seq x"
      using live live_rows_subset [of x] Cons.prems(4) by (auto simp: ch_inv_def intro: less_imp_le)
    then obtain pre post where "live_rows x = pre @ row # post" "live_rows s = pre @ post"
      using live_rows_turn [OF live, of VoidedEvent "ch_version_seq x" P] unfolding s by (auto simp: live_rows_def)
    then have "set rows \<subseteq> set (live_rows s)" using Cons.prems(6,7) by auto
    moreover have "room s (length rows)" using Cons.prems(5) room_used [of x 1 "length rows" s] by (simp add: s)
    ultimately have "ch_steps P s y"
      using went_on(2) Cons.prems(7) ch_steps_inv [OF xs Cons.prems(4)] laws by (intro Cons.IH) simp_all
    with xs show ?thesis by simp
  qed
qed simp

lemma void_run_steps:
  assumes "ch_void_run P x run = Some (y, r)" and laws: "json_roundtrip P" "millis_stable P" and inv: "ch_inv P x"
    and room: "room x (length (select_for_run (as_uuid run) x))"
  shows "ch_steps P x y"
  using assms(1) unfolding ch_void_run_def
proof (cases rule: sbind_cases)
  case (failed e)
  then show ?thesis using ch_query_result(1) asked_steps by fastforce
next
  case (went_on s rows)
  from went_on(1) have q: "ch_query P (select_for_run (as_uuid run)) x = Some (s, Inr rows)"
    by (simp add: backend_Ok_iff del: backend_iff)
  from ch_query_result [OF q] have s: "asked x s" "rows = select_for_run (as_uuid run) x"
    by (simp_all add: select_for_run_def asked_def)
  have "ch_steps P s y"
  proof (rule void_rows_steps [OF went_on(2) laws])
    show "ch_inv P s" "room s (length rows)" using inv room s by (simp_all add: ch_inv_def asked_def room_def)
    show "set rows \<subseteq> set (live_rows s)" "distinct rows"
      using s final_rows_distinct [of "ch_events x"]
      by (auto simp: select_for_run_def live_rows_def asked_def distinct_map)
  qed
  with asked_steps [OF s(1), of P] show ?thesis by simp
qed

section \<open>Histories\<close>

text \<open>A call on the store; the reply is dropped, and so is nothing else: no method panics.\<close>

fun ch_exec :: "deps \<Rightarrow> ch \<Rightarrow> env \<Rightarrow> ch_store \<Rightarrow> event_request \<Rightarrow> ch_store" where
  "ch_exec D P E x (ERecord q) = fst (the (ch_record D P ExactlyOnce E x q))"
| "ch_exec D P E x (EBatch qs) = fst (the (ch_record_batch D P ExactlyOnce E x qs))"
| "ch_exec D P E x (EAmend q) = fst (the (ch_amend D P E x q))"
| "ch_exec D P E x (EVoidRun run) = fst (the (ch_void_run P x run))"

fun ch_play :: "deps \<Rightarrow> ch \<Rightarrow> ch_store \<Rightarrow> (env \<times> event_request) list \<Rightarrow> ch_store" where
  "ch_play D P x [] = x"
| "ch_play D P x ((E, q) # qs) = ch_play D P (ch_exec D P E x q) qs"

fun versions_used :: "ch_store \<Rightarrow> event_request \<Rightarrow> nat" where
  "versions_used x (ERecord q) = 1"
| "versions_used x (EBatch qs) = length qs"
| "versions_used x (EAmend q) = 2"
| "versions_used x (EVoidRun run) = length (select_for_run (as_uuid run) x)"

text \<open>
  The condition on a history: at each call the counter has room, and no amend addresses a version
  that is amended already, a replay of a stored amendment apart.
\<close>

fun orderly :: "deps \<Rightarrow> ch \<Rightarrow> ch_store \<Rightarrow> (env \<times> event_request) list \<Rightarrow> bool" where
  "orderly D P x [] = True"
| "orderly D P x ((E, q) # qs) \<longleftrightarrow> room x (versions_used x q) \<and>
     (case q of EAmend r \<Rightarrow> \<not> amends_amended D P E x r | _ \<Rightarrow> True) \<and> orderly D P (ch_exec D P E x q) qs"

definition answers :: "('s, 'e, 'a) sres \<Rightarrow> bool" where
  "answers m \<longleftrightarrow> m \<noteq> None"

lemma answers_Some [simp]: "answers (Some r)"
  by (simp add: answers_def)

lemma sbind_answers [simp, intro]: "answers m \<Longrightarrow> (\<And>s a. answers (f s a)) \<Longrightarrow> answers (sbind m f)"
  by (auto simp: answers_def sbind_def split: sum.splits)

lemma fold_calls_answers: "(\<And>s b a. answers (f s b a)) \<Longrightarrow> answers (fold_calls f s b xs)"
  by (induction xs arbitrary: s b) auto

lemma calls_answer [simp]: "answers (ch_call P f x)" "answers (ch_query P g x)"
  by (auto simp: answers_def ch_query_def ch_call_def Let_def split: option.splits fault.splits prod.splits)

lemma backend_answers [simp]: "answers (backend m) = answers m"
  by (simp add: answers_def backend_def)

lemma parts_answer [simp]:
  "answers (insert_event P e x)" "answers (existing_ids P es x)" "answers (ch_get P x i)"
  unfolding insert_event_def existing_ids_def ch_get_def event_to_row_def case_prod_unfold
  by (simp_all add: fold_calls_answers)

lemma batch_answers [simp]: "answers (ch_record_batch D P mode E x reqs)"
  by (cases mode) (simp_all add: ch_record_batch_def Let_def case_prod_unfold)

lemma methods_answer [simp]:
  "answers (ch_record D P mode E x req)" "answers (ch_amend D P E x am)" "answers (ch_void_run P x run)"
  unfolding ch_record_def ch_amend_def ch_void_run_def ch_void_row_def Let_def
  by (auto intro!: fold_calls_answers split: sum.split)

lemma result_of: "answers m \<Longrightarrow> m = Some (fst (the m), snd (the m))"
  by (auto simp: answers_def)

lemma ch_exec_steps:
  assumes "json_roundtrip P" "millis_stable P" "ch_inv P x" "room x (versions_used x q)"
    and "case q of EAmend r \<Rightarrow> \<not> amends_amended D P E x r | _ \<Rightarrow> True"
  shows "ch_steps P x (ch_exec D P E x q)"
proof (cases q)
  case (ERecord r)
  then show ?thesis using record_steps [OF result_of] assms by simp
next
  case (EBatch qs)
  then show ?thesis using record_batch_steps [OF result_of] assms by simp
next
  case (EAmend r)
  then show ?thesis using amend_steps [OF result_of] assms by simp
next
  case (EVoidRun run)
  then show ?thesis using void_run_steps [OF result_of] assms by simp
qed

lemma ch_play_steps:
  assumes "json_roundtrip P" "millis_stable P" "ch_inv P x" "orderly D P x qs"
  shows "ch_steps P x (ch_play D P x qs)"
  using assms
proof (induction D P x qs rule: ch_play.induct)
  case (2 D P x E q qs)
  have "ch_steps P x (ch_exec D P E x q)" using 2(2-) by (intro ch_exec_steps) simp_all
  moreover from this have "ch_steps P (ch_exec D P E x q) (ch_play D P (ch_exec D P E x q) qs)"
    using 2(2-) by (intro "2.IH") (auto intro: ch_steps_inv)
  ultimately show ?case by simp
qed simp

lemma steps_rollups_track: "ch_steps P x y \<Longrightarrow> rollups_track P org x \<Longrightarrow> rollups_track P org y"
  unfolding rollups_track_def
  by (elim conjE, intro conjI) (erule (1) usage_events.steps_track usage_input.steps_track usage_output.steps_track
      usage_credits.steps_track field_events.steps_track field_credits.steps_track)+

lemma new_rollups_track: "rollups_track P org (ch_new seed)"
  unfolding rollups_track_def
  by (simp add: ch_new_def usage_events.empty_tracks usage_input.empty_tracks usage_output.empty_tracks
      usage_credits.empty_tracks field_events.empty_tracks field_credits.empty_tracks)

end
