(* ===== verification/Ch_Sim.thy ===== *)
theory Ch_Sim
  imports Ch_Methods "HOL-Library.Multiset"
begin

text \<open>
  The ClickHouse store against the in-memory event store. While calls are answered and event ids of
  different organizations do not collide, the latest rows are the rows of the in-memory events, one
  for one, through every method.
\<close>

section \<open>The relation\<close>

definition row_sim :: "ch \<Rightarrow> ch_row \<Rightarrow> event \<Rightarrow> bool" where
  "row_sim P r e \<longleftrightarrow> r = row_of_event P (cr_version r) e"

definition rows_sim :: "ch \<Rightarrow> ch_store \<Rightarrow> event_store \<Rightarrow> bool" where
  "rows_sim P x es \<longleftrightarrow> list_all2 (row_sim P) (final_rows (ch_events x)) es"

text \<open>Named hypothesis: content-addressed ids of different organizations differ.\<close>

definition separate :: "deps \<Rightarrow> org_id list \<Rightarrow> bool" where
  "separate D orgs \<longleftrightarrow> (\<forall>a \<in> set orgs. \<forall>b \<in> set orgs. \<forall>k l.
     idempotent_event_id D a k = idempotent_event_id D b l \<longrightarrow> a = b)"

definition addressed :: "deps \<Rightarrow> org_id list \<Rightarrow> event \<Rightarrow> bool" where
  "addressed D orgs e \<longleftrightarrow> event_org_id e \<in> set orgs \<and>
     event_id e = idempotent_event_id D (event_org_id e) (event_idempotency_key e)"

definition ch_sim :: "deps \<Rightarrow> ch \<Rightarrow> org_id list \<Rightarrow> ch_store \<Rightarrow> event_store \<Rightarrow> bool" where
  "ch_sim D P orgs x es \<longleftrightarrow> rows_sim P x es \<and> ch_inv P x \<and> list_all (addressed D orgs) es"

lemma row_sim_sel:
  assumes "row_sim P r e"
  shows "row_key r = event_key e" "cr_status r = status_to_str (event_status e)" "cr_id r = as_uuid (event_id e)"
    "cr_account_id r = as_uuid (event_account_id e)" "cr_run_id r = map_option as_uuid (event_run_id e)"
    "json_roundtrip P \<Longrightarrow> row_to_event P r = Inr (kept_event P e)"
proof -
  obtain v where r: "r = row_of_event P v e" using assms unfolding row_sim_def by blast
  show "row_key r = event_key e" "cr_status r = status_to_str (event_status e)" "cr_id r = as_uuid (event_id e)"
    "cr_account_id r = as_uuid (event_account_id e)" "cr_run_id r = map_option as_uuid (event_run_id e)"
    by (simp_all add: r, simp_all add: row_of_event_def)
  show "row_to_event P r = Inr (kept_event P e)" if "json_roundtrip P" using that by (simp add: r row_to_event_of)
qed

lemma row_sim_row_of [simp]: "row_sim P (row_of_event P v e) e"
  by (simp add: row_sim_def)

lemma rows_sim_keys: "rows_sim P x es \<Longrightarrow> map row_key (final_rows (ch_events x)) = map event_key es"
  unfolding rows_sim_def by (induction rule: list_all2_induct) (simp_all add: row_sim_sel)

lemma rows_sim_key_set: "rows_sim P x es \<Longrightarrow> row_key ` set (ch_events x) = event_key ` set es"
  by (metis rows_sim_keys final_rows_key_set list.set_map)

lemma id_uuid_eq [simp]: "as_uuid i = as_uuid j \<longleftrightarrow> i = j"
  by (cases i; cases j) simp

lemma addressed_same_org:
  "separate D orgs \<Longrightarrow> addressed D orgs a \<Longrightarrow> addressed D orgs b \<Longrightarrow> event_id a = event_id b \<Longrightarrow> event_org_id a = event_org_id b"
  unfolding separate_def addressed_def by metis

lemma ch_sim_distinct_ids:
  assumes "separate D orgs" and "ch_sim D P orgs x es"
  shows "distinct (map event_id es)"
proof -
  have keys: "distinct (map event_key es)"
    using assms(2) rows_sim_keys final_rows_distinct unfolding ch_sim_def by metis
  have "event_key a = event_key b" if "a \<in> set es" "b \<in> set es" "event_id a = event_id b" for a b
    using that addressed_same_org [OF assms(1)] assms(2) by (auto simp: ch_sim_def list_all_iff event_key_def)
  with keys show ?thesis unfolding distinct_map inj_on_def by (metis (no_types))
qed

text \<open>An id is stored for the event's own organization or not at all.\<close>

lemma known_id:
  assumes "separate D orgs" and "ch_sim D P orgs x es" and "addressed D orgs e"
  shows "event_key e \<in> row_key ` set (ch_events x) \<longleftrightarrow> event_id e \<in> event_id ` set es"
proof -
  have "event_key e = event_key a \<longleftrightarrow> event_id e = event_id a" if "a \<in> set es" for a
    using that addressed_same_org [OF assms(1) assms(3), of a] assms(2)
    by (auto simp: ch_sim_def list_all_iff event_key_def)
  moreover have "row_key ` set (ch_events x) = event_key ` set es" using assms(2) rows_sim_key_set unfolding ch_sim_def by blast
  ultimately show ?thesis by (simp add: image_iff)
qed

section \<open>What an insert does\<close>

lemma rows_sim_append:
  assumes "rows_sim P x es" and "distinct (map event_key new)" and "event_key ` set new \<inter> row_key ` set (ch_events x) = {}"
    and "ch_events y = ch_events x @ version_rows P v new"
  shows "rows_sim P y (es @ new)"
  using assms
proof (induction new arbitrary: es x v)
  case (Cons e new)
  let ?x1 = "x\<lparr>ch_events := ch_events x @ [row_of_event P v e]\<rparr>"
  have "rows_sim P ?x1 (es @ [e])"
    using Cons.prems(1,3) by (simp add: rows_sim_def place_fresh final_rows_key_set list_all2_appendI)
  from Cons.IH [OF this, of "v + 1"] Cons.prems show ?case by auto
qed (simp add: rows_sim_def)

definition set_status :: "event_status \<Rightarrow> uuid \<times> uuid \<Rightarrow> event \<Rightarrow> event" where
  "set_status st k e = (if event_key e = k then e\<lparr>event_status := st\<rparr> else e)"

lemma set_status_sel [simp]:
  "addressed D orgs (set_status st k e) = addressed D orgs e" "event_key (set_status st k e) = event_key e"
  by (simp_all add: set_status_def addressed_def event_key_def)

lemma rows_sim_turn:
  assumes sim: "rows_sim P x es" and row: "row \<in> set (final_rows (ch_events x))" and "cr_version row \<le> v"
    and "ch_events y = ch_events x @ [turned st v row]"
  shows "rows_sim P y (map (set_status st (row_key row)) es)"
proof -
  obtain as bs where f: "final_rows (ch_events x) = as @ row # bs" using row by (auto dest: split_list)
  from sim [unfolded rows_sim_def f] obtain pre e post where es: "es = pre @ e # post"
      "list_all2 (row_sim P) as pre" "row_sim P row e" "list_all2 (row_sim P) bs post"
    by (auto simp: list_all2_append1 list_all2_Cons1)
  have keys: "distinct (map event_key es)" using rows_sim_keys [OF sim] final_rows_distinct by metis
  have "event_key e = row_key row" using row_sim_sel(1) [OF es(3)] by simp
  then have "map (set_status st (row_key row)) es = pre @ e\<lparr>event_status := st\<rparr> # post"
    using keys by (auto simp: es(1) set_status_def image_iff intro!: map_idI)
  moreover have "row_sim P (turned st v row) (e\<lparr>event_status := st\<rparr>)"
    using es(3) turned_row_of_event [of st v P "cr_version row" e] by (simp add: row_sim_def)
  moreover have "final_rows (ch_events y) = as @ turned st v row # bs"
    unfolding assms(4) using f assms(3) by (intro final_rows_newer) simp_all
  ultimately show ?thesis using es by (simp add: rows_sim_def list_all2_appendI)
qed

section \<open>Recording\<close>

lemma fresh_events_cong:
  "(\<And>e. e \<in> set es \<Longrightarrow> as_uuid (event_id e) \<in> K \<longleftrightarrow> as_uuid (event_id e) \<in> L) \<Longrightarrow> fresh_events K es = fresh_events L es"
proof (induction es arbitrary: K L)
  case (Cons e es)
  let ?i = "as_uuid (event_id e)"
  have "fresh_events K es = fresh_events L es" by (rule Cons.IH) (simp add: Cons.prems)
  moreover have "fresh_events (insert ?i K) es = fresh_events (insert ?i L) es"
    by (rule Cons.IH) (simp add: Cons.prems)
  ultimately show ?case using Cons.prems by simp
qed simp

lemma snd_image_Int: "i \<in> snd ` (A \<inter> B) \<longleftrightarrow> (\<exists>k. k \<in> A \<and> k \<in> B \<and> snd k = i)"
  by force

lemma known_existing:
  assumes "separate D orgs" and "ch_sim D P orgs x es" and "\<And>e. e \<in> set events \<Longrightarrow> addressed D orgs e" and "e \<in> set events"
    and found: "set found = snd ` (event_key ` set events \<inter> row_key ` set (ch_events x))"
  shows "as_uuid (event_id e) \<in> set found \<longleftrightarrow> event_id e \<in> event_id ` set es"
proof -
  have "event_key a = event_key e" if "a \<in> set events" "event_id a = event_id e" for a
    using addressed_same_org [OF assms(1) assms(3) [OF that(1)] assms(3) [OF assms(4)] that(2)] that(2)
    by (simp add: event_key_def)
  moreover have "as_uuid (event_id e) \<in> set found \<longleftrightarrow>
      (\<exists>a. a \<in> set events \<and> event_id a = event_id e \<and> event_key a \<in> row_key ` set (ch_events x))"
  proof -
    have "as_uuid (event_id e) \<in> set found \<longleftrightarrow> (\<exists>k. k \<in> event_key ` set events \<and> k \<in> row_key ` set (ch_events x) \<and> snd k = as_uuid (event_id e))"
      unfolding found by (rule snd_image_Int)
    also have "\<dots> \<longleftrightarrow> (\<exists>a. a \<in> set events \<and> event_key a \<in> row_key ` set (ch_events x) \<and> snd (event_key a) = as_uuid (event_id e))"
      by blast
    finally show ?thesis by (simp add: event_key_def conj_ac)
  qed
  ultimately have "as_uuid (event_id e) \<in> set found \<longleftrightarrow> event_key e \<in> row_key ` set (ch_events x)"
    using assms(4) by metis
  then show ?thesis using known_id [OF assms(1,2)] assms(3,4) by simp
qed

lemma record_all_fresh:
  "fst (record_all D E n es reqs) = es @ fresh_events (as_uuid ` event_id ` set es) (into_events D E n reqs) \<and>
   map event_id (snd (record_all D E n es reqs)) = map event_id (into_events D E n reqs)"
proof (induction reqs arbitrary: n es)
  case (Cons q reqs)
  have id: "event_id (into_event D t q) = idempotent_event_id D (rec_org_id q) (rec_idempotency_key q)" for t
    by (simp add: into_event_def)
  show ?case
  proof (cases rule: record_locked_cases [of es D q "now_utc E n"])
    case (existing e)
    then have "event_id (into_event D (now_utc E n) q) \<in> event_id ` set es" "event_id e = event_id (into_event D (now_utc E n) q)"
      using find_event_Some [OF existing(1)] by (simp_all add: id image_iff) metis
    then show ?thesis using Cons.IH [of "Suc n" es] existing by (auto simp: case_prod_unfold)
  next
    case fresh
    then have "event_id (into_event D (now_utc E n) q) \<notin> event_id ` set es" by (simp add: id find_event_None)
    then show ?thesis using Cons.IH [of "Suc n" "es @ [into_event D (now_utc E n) q]"] fresh
      by (auto simp: case_prod_unfold)
  qed
qed simp

lemma existing_quiet:
  assumes "quiet P x"
  shows "\<exists>y found. existing_ids P events x = Some (y, Inr found) \<and> quiet P y"
proof -
  have "\<exists>y found. fold_calls (\<lambda>x found (org, chunk). sbind (backend (ch_query P (select_ids org chunk) x)) (\<lambda>x ids. Some (x, Inr (found @ ids))))
      x acc cs = Some (y, Inr found) \<and> quiet P y" if "quiet P x" for x acc cs
    using that
  proof (induction cs arbitrary: x acc)
    case (Cons c cs)
    obtain org chunk where c: "c = (org, chunk)" by fastforce
    let ?x1 = "x\<lparr>ch_calls := Suc (ch_calls x)\<rparr>"
    have "quiet P ?x1" using Cons.prems by simp
    from Cons.IH [OF this] Cons.prems show ?case by (simp add: c quiet_query backend_def)
  qed simp
  from this [OF assms] show ?thesis by (simp add: existing_ids_def)
qed

lemma into_events_addressed:
  "(\<And>q. q \<in> set reqs \<Longrightarrow> rec_org_id q \<in> set orgs) \<Longrightarrow> e \<in> set (into_events D E n reqs) \<Longrightarrow> addressed D orgs e"
  by (induction reqs arbitrary: n) (auto simp: addressed_def into_event_def)

lemma batch_sim:
  assumes "separate D orgs" and sim: "ch_sim D P orgs x es" and "quiet P x" and "room x (length reqs)"
    and orgs: "\<And>q. q \<in> set reqs \<Longrightarrow> rec_org_id q \<in> set orgs"
  shows "\<exists>y. ch_record_batch D P ExactlyOnce E x reqs = Some (y, Inr (into_events D E 0 reqs)) \<and>
    quiet P y \<and> ch_sim D P orgs y (fst (record_all D E 0 es reqs))"
proof (cases "reqs = []")
  case True
  with assms show ?thesis by (simp add: ch_record_batch_def)
next
  case False
  define events where "events = into_events D E 0 reqs"
  obtain s existing where s: "existing_ids P events x = Some (s, Inr existing)" "quiet P s"
    using existing_quiet [OF assms(3)] by blast
  note ex = existing_ids_result [OF s(1)]
  have addr: "addressed D orgs e" if "e \<in> set events" for e
    using that into_events_addressed [OF orgs] by (simp add: events_def)
  define new where "new = fresh_events (set existing) events"
  have "as_uuid (event_id e) \<in> set existing \<longleftrightarrow> as_uuid (event_id e) \<in> as_uuid ` event_id ` set es" if "e \<in> set events" for e
    using known_existing [OF assms(1) sim addr that ex(2)] by (simp add: image_iff)
  then have new: "new = fresh_events (as_uuid ` event_id ` set es) events"
    unfolding new_def by (rule fresh_events_cong)
  note fe = fresh_events_props [of "set existing" events, folded new_def]
  have "map (as_uuid \<circ> event_id) new = map snd (map event_key new)" by (simp add: event_key_def)
  then have dist: "distinct (map event_key new)" using fe distinct_map by metis
  have "event_key e \<notin> row_key ` set (ch_events x)" if "e \<in> set new" for e
  proof -
    have e: "e \<in> set events" "as_uuid (event_id e) \<notin> set existing" using that fe by auto
    then show ?thesis using known_existing [OF assms(1) sim addr e(1) ex(2)] known_id [OF assms(1) sim addr] by simp
  qed
  then have disj: "event_key ` set new \<inter> row_key ` set (ch_events x) = {}" by blast
  define rows where "rows = version_rows P (ch_version_seq s) new"
  define z where "z = insert_rows P rows (s\<lparr>ch_version_seq := ch_version_seq s + of_nat (length new), ch_calls := Suc (ch_calls s)\<rparr>)"
  define y where "y = (if new = [] then s\<lparr>ch_version_seq := ch_version_seq s + of_nat (length new)\<rparr> else z)"
  have ev: "ch_events y = ch_events x @ version_rows P (ch_version_seq s) new"
    using ex(1) by (simp add: y_def z_def rows_def asked_sel)
  have reply: "ch_record_batch D P ExactlyOnce E x reqs = Some (y, Inr events)"
    using False s unfolding ch_record_batch_def Let_def events_def [symmetric]
    by (simp add: fresh_rows_eq Let_def quiet_call backend_def y_def z_def rows_def version_rows_Nil_iff flip: new_def)
  moreover have "rows_sim P y (es @ new)"
    using rows_sim_append [OF _ dist disj ev] sim by (simp add: ch_sim_def)
  moreover have "ch_inv P y"
    using ch_steps_inv record_batch_steps [OF reply] assms(4) sim unfolding ch_sim_def by blast
  moreover have "quiet P y" using s(2) by (simp add: y_def z_def)
  moreover have "list_all (addressed D orgs) (es @ new)"
    using sim addr fe by (auto simp: ch_sim_def list_all_iff)
  ultimately show ?thesis
    using record_all_fresh [of D E 0 es reqs] by (simp add: events_def new ch_sim_def)
qed

section \<open>Reading\<close>

lemma find_sim:
  "list_all2 (row_sim P) rs es \<Longrightarrow>
     rel_option (row_sim P) (List.find (\<lambda>r. cr_id r = as_uuid i) rs) (find_event es i)"
  by (induction rule: list_all2_induct) (auto simp: find_event_def row_sim_sel)

lemma get_sim:
  assumes "rows_sim P x es" and "quiet P x" and "json_roundtrip P"
  shows "ch_get P x i = Some (x\<lparr>ch_calls := Suc (ch_calls x)\<rparr>, map_sum id (kept_event P) (get_event es i))"
  using find_sim [OF assms(1) [unfolded rows_sim_def], of i] assms(2,3)
  by (auto simp: ch_get_def quiet_query backend_def select_by_id_def get_event_def row_sim_sel(6) elim!: option.rel_cases)

lemma rows_to_events_map:
  "(\<And>r. r \<in> set rs \<Longrightarrow> row_to_event P r = Inr (f r)) \<Longrightarrow> rows_to_events P rs = Inr (map f rs)"
  by (induction rs) simp_all

lemma list_all2_filter:
  "list_all2 R xs ys \<Longrightarrow> (\<And>x y. R x y \<Longrightarrow> p x = q y) \<Longrightarrow> list_all2 R (filter p xs) (filter q ys)"
  by (induction rule: list_all2_induct) auto

lemma list_all2_map_eq: "list_all2 R xs ys \<Longrightarrow> (\<And>x y. R x y \<Longrightarrow> f x = g y) \<Longrightarrow> map f xs = map g ys"
  by (induction rule: list_all2_induct) auto

lemma list_sim:
  assumes "rows_sim P x es" and "quiet P x" and "json_roundtrip P" and "list_for_account es a = Inr live"
  shows "\<exists>y out. ch_list_for_account P x a = Some (y, Inr out) \<and> mset out = mset (map (kept_event P) live)"
proof -
  let ?rows = "filter (\<lambda>r. cr_account_id r = as_uuid a \<and> cr_status r = ''recorded'') (final_rows (ch_events x))"
  let ?f = "\<lambda>r. projr (row_to_event P r)"
  have live: "list_all2 (row_sim P) ?rows live"
    using assms(1,4) unfolding rows_sim_def list_for_account_def
    by (auto intro!: list_all2_filter simp: row_sim_sel)
  have "map ?f ?rows = map (kept_event P) live"
    by (rule list_all2_map_eq [OF live]) (simp add: row_sim_sel(6) assms(3))
  then have ms: "mset (map ?f (select_for_account P (as_uuid a) x)) = mset (map (kept_event P) live)"
    unfolding select_for_account_def mset_map mset_sort by (metis mset_map)
  have "row_to_event P r = Inr (?f r)" if r: "r \<in> set ?rows" for r
  proof -
    from r live obtain e where "row_sim P r e" unfolding list_all2_conv_all_nth in_set_conv_nth by blast
    then show ?thesis using assms(3) by (simp add: row_sim_sel(6))
  qed
  then have "rows_to_events P (select_for_account P (as_uuid a) x) = Inr (map ?f (select_for_account P (as_uuid a) x))"
    by (intro rows_to_events_map) (simp add: select_for_account_def)
  moreover have "select_for_account P (as_uuid a) (x\<lparr>ch_calls := n\<rparr>) = select_for_account P (as_uuid a) x" for n
    by (simp add: select_for_account_def)
  ultimately show ?thesis using ms assms(2) by (simp add: ch_list_for_account_def quiet_query backend_def)
qed

section \<open>Amending\<close>

lemma insert_event_quiet:
  "quiet P x \<Longrightarrow> insert_event P e x = Some (insert_rows P [row_of_event P (ch_version_seq x) e]
     (x\<lparr>ch_version_seq := ch_version_seq x + 1, ch_calls := Suc (ch_calls x)\<rparr>), Inr ())"
  by (simp add: insert_event_def event_to_row_def quiet_call backend_def)

lemma kept_kept [simp]: "millis_stable P \<Longrightarrow> kept_event P (kept_event P e) = kept_event P e"
  by (simp add: kept_event_def millis_stable_def)

lemma kept_sel [simp]:
  "event_status (kept_event P e) = event_status e" "event_id (kept_event P e) = event_id e"
  "event_org_id (kept_event P e) = event_org_id e" "event_idempotency_key (kept_event P e) = event_idempotency_key e"
  by (simp_all add: kept_event_def)

lemma amended_of_kept:
  "millis_stable P \<Longrightarrow> row_of_event P v (into_amended_event D E req (kept_event P e)) = row_of_event P v (into_amended_event D E req e)"
  "millis_stable P \<Longrightarrow> kept_event P (into_amended_event D E req (kept_event P e)) = kept_event P (into_amended_event D E req e)"
  "event_id (into_amended_event D E req (kept_event P e)) = event_id (into_amended_event D E req e)"
  "event_key (into_amended_event D E req (kept_event P e)) = event_key (into_amended_event D E req e)"
  by (simp_all add: row_of_event_def into_amended_event_def Let_def kept_event_def millis_stable_def event_key_def)

lemma mark_amended_map:
  assumes "distinct (map event_id es)" and "find_event es i = Some e"
  shows "mark_amended i es = map (\<lambda>a. if event_id a = i then a\<lparr>event_status := Amended\<rparr> else a) es"
proof -
  from mark_amended_split [OF assms(2)] obtain pre post where m: "es = pre @ e # post"
    "mark_amended i es = pre @ e\<lparr>event_status := Amended\<rparr> # post" by blast
  with assms find_event_Some [OF assms(2)] show ?thesis by (auto simp: image_iff intro!: map_idI [symmetric])
qed

lemma ch_sim_asked: "asked x y \<Longrightarrow> ch_sim D P orgs x es \<Longrightarrow> ch_sim D P orgs y es"
  by (simp add: ch_sim_def rows_sim_def ch_inv_def asked_def)

lemma quiet_turn:
  assumes laws: "json_roundtrip P" "millis_stable P" and sim: "rows_sim P x es" "ch_inv P x" and "quiet P x" and "room x 1"
    and row: "row \<in> set (final_rows (ch_events x))" "row_to_event P row = Inr e"
  obtains y where "insert_event P (e\<lparr>event_status := st\<rparr>) x = Some (y, Inr ())" and "quiet P y"
    and "rows_sim P y (map (set_status st (row_key row)) es)" and "ch_inv P y"
    and "ch_version_seq y = ch_version_seq x + of_nat 1" and "row_key ` set (ch_events y) = row_key ` set (ch_events x)"
    and "\<And>r. r \<in> set (final_rows (ch_events x)) \<Longrightarrow> r \<noteq> row \<Longrightarrow> r \<in> set (final_rows (ch_events y))"
proof -
  have mem: "row \<in> set (ch_events x)" using row(1) final_rows_subset by blast
  then have stored: "stored_row P row" and ver: "cr_version row \<le> ch_version_seq x"
    using sim(2) by (auto simp: ch_inv_def intro: less_imp_le)
  define y where "y = insert_rows P [turned st (ch_version_seq x) row]
     (x\<lparr>ch_version_seq := ch_version_seq x + 1, ch_calls := Suc (ch_calls x)\<rparr>)"
  have "insert_event P (e\<lparr>event_status := st\<rparr>) x = Some (y, Inr ())"
    by (simp add: insert_event_quiet [OF assms(5)] stored_row_event(1) [OF laws stored row(2)] y_def)
  moreover have "rows_sim P y (map (set_status st (row_key row)) es)"
    by (rule rows_sim_turn [OF sim(1) row(1) ver]) (simp add: y_def)
  moreover have "quiet P y" using assms(5) by (simp add: y_def)
  moreover have less: "ch_version_seq x < ch_version_seq x + 1" using version_less [OF assms(6), of 0 1] by simp
  then have "ch_inv P y" using sim(2) stored by (auto simp: y_def ch_inv_def stored_row_turned)
  moreover have "row_key ` set (ch_events y) = row_key ` set (ch_events x)" using mem by (auto simp: y_def)
  moreover obtain as bs where f: "final_rows (ch_events x) = as @ row # bs" using row(1) by (auto dest: split_list)
  then have "final_rows (ch_events y) = as @ turned st (ch_version_seq x) row # bs"
    using ver final_rows_newer [OF f] by (simp add: y_def)
  then have "r \<in> set (final_rows (ch_events y))" if "r \<in> set (final_rows (ch_events x))" "r \<noteq> row" for r
    using that f by auto
  ultimately show ?thesis using that by (simp add: y_def)
qed

lemma list_all2_right: "list_all2 R xs ys \<Longrightarrow> y \<in> set ys \<Longrightarrow> \<exists>x \<in> set xs. R x y"
  by (induction rule: list_all2_induct) auto

lemma amend_writes_sim:
  assumes sim: "ch_sim D P orgs x es" and quiet: "quiet P x" and room: "room x 2" and laws: "json_roundtrip P" "millis_stable P"
    and e: "e \<in> set es" and fresh: "event_key a \<notin> row_key ` set (ch_events x)" and a: "addressed D orgs a"
    and a': "\<And>v. row_of_event P v a' = row_of_event P v a" "event_key a' = event_key a"
  shows "\<exists>y. sbind (insert_event P (kept_event P e\<lparr>event_status := Amended\<rparr>) x)
      (\<lambda>x _. sbind (insert_event P a' x) (\<lambda>x _. Some (x, Inr a'))) = Some (y, Inr a') \<and> quiet P y \<and>
    ch_sim D P orgs y (map (set_status Amended (event_key e)) es @ [a])"
proof -
  from sim have rs: "rows_sim P x es" and inv: "ch_inv P x" by (simp_all add: ch_sim_def)
  from list_all2_right [OF rs [unfolded rows_sim_def] e] obtain row where
    row: "row \<in> set (final_rows (ch_events x))" "row_sim P row e" by blast
  have rk: "row_key row = event_key e" "row_to_event P row = Inr (kept_event P e)"
    using row_sim_sel [OF row(2)] laws(1) by simp_all
  obtain s where s: "insert_event P (kept_event P e\<lparr>event_status := Amended\<rparr>) x = Some (s, Inr ())" "quiet P s"
    "rows_sim P s (map (set_status Amended (event_key e)) es)" "ch_inv P s"
    "ch_version_seq s = ch_version_seq x + of_nat 1" "row_key ` set (ch_events s) = row_key ` set (ch_events x)"
    by (rule quiet_turn [OF laws rs inv quiet room_less [OF room] row(1) rk(2), of Amended, unfolded rk(1)]) (simp, rule that)
  define y where "y = insert_rows P [row_of_event P (ch_version_seq s) a]
     (s\<lparr>ch_version_seq := ch_version_seq s + 1, ch_calls := Suc (ch_calls s)\<rparr>)"
  have "insert_event P a' s = Some (y, Inr ())" by (simp add: insert_event_quiet [OF s(2)] a' y_def)
  moreover have "rows_sim P y (map (set_status Amended (event_key e)) es @ [a])"
    using rows_sim_append [OF s(3), of "[a]" y "ch_version_seq s"] fresh s(6) by (simp add: y_def)
  moreover have "ch_version_seq s < ch_version_seq s + 1"
    using version_less [of s 1 0 1] room_used [of x 1 1 s] room s(5) by (simp add: numeral_2_eq_2)
  then have "ch_inv P y" using s(4) by (auto simp: y_def ch_inv_def)
  moreover have "quiet P y" using s(2) by (simp add: y_def)
  ultimately show ?thesis using s(1) sim a by (simp add: ch_sim_def list_all_iff)
qed

lemma mark_amended_status:
  assumes "separate D orgs" and "ch_sim D P orgs x es" and "find_event es i = Some e"
  shows "mark_amended i es = map (set_status Amended (event_key e)) es"
proof -
  have e: "e \<in> set es" "event_id e = i" using find_event_Some [OF assms(3)] by auto
  have "(event_id a = i) = (event_key a = event_key e)" if "a \<in> set es" for a
    using addressed_same_org [OF assms(1), of a e] that e assms(2) by (auto simp: ch_sim_def list_all_iff event_key_def)
  then show ?thesis unfolding mark_amended_map [OF ch_sim_distinct_ids [OF assms(1,2)] assms(3)] set_status_def by simp
qed

lemma amended_addressed: "addressed D orgs e \<Longrightarrow> addressed D orgs (into_amended_event D E req e)"
  by (simp add: addressed_def into_amended_event_def Let_def)

lemma amend_sim:
  assumes sep: "separate D orgs" and sim: "ch_sim D P orgs x es" and quiet: "quiet P x" and room: "room x 2"
    and laws: "json_roundtrip P" "millis_stable P"
  shows "\<exists>y r. ch_amend D P E x req = Some (y, r) \<and> quiet P y \<and> ch_sim D P orgs y (fst (amend D E es req)) \<and>
    map_sum id (kept_event P) r = map_sum id (kept_event P) (snd (amend D E es req))"
proof -
  let ?x1 = "x\<lparr>ch_calls := Suc (ch_calls x)\<rparr>"
  have x1: "asked x ?x1" "quiet P ?x1" using quiet by (simp_all add: asked_def)
  have sim1: "ch_sim D P orgs ?x1 es" using ch_sim_asked [OF x1(1) sim] .
  have get: "ch_get P x (amend_event_id req) = Some (?x1, map_sum id (kept_event P) (get_event es (amend_event_id req)))"
    using get_sim quiet laws(1) sim unfolding ch_sim_def by blast
  consider (missing) "find_event es (amend_event_id req) = None"
    | (voided) e where "find_event es (amend_event_id req) = Some e" "event_status e = VoidedEvent"
    | (found) e where "find_event es (amend_event_id req) = Some e" "event_status e \<noteq> VoidedEvent" by fastforce
  then show ?thesis
  proof cases
    case missing
    then show ?thesis using get x1(2) sim1 by (simp add: ch_amend_def get_event_def amend_def)
  next
    case voided
    then show ?thesis using get x1(2) sim1 by (simp add: ch_amend_def get_event_def amend_def)
  next
    case (found e)
    define a where "a = into_amended_event D E req e"
    define a' where "a' = into_amended_event D E req (kept_event P e)"
    have ka: "\<And>v. row_of_event P v a' = row_of_event P v a" "event_key a' = event_key a" "event_id a' = event_id a"
        "kept_event P a' = kept_event P a"
      by (simp_all add: a_def a'_def amended_of_kept laws(2))
    have e: "e \<in> set es" using find_event_Some [OF found(1)] by simp
    then have "addressed D orgs e" using sim by (auto simp: ch_sim_def list_all_iff)
    then have "addressed D orgs e" "addressed D orgs (kept_event P e)" by (simp_all add: addressed_def)
    then have addr: "addressed D orgs a" "addressed D orgs a'" by (simp_all add: a_def a'_def amended_addressed)
    obtain s known where s: "existing_ids P [a'] ?x1 = Some (s, Inr known)" "quiet P s"
      using existing_quiet [OF x1(2)] by blast
    note ex = existing_ids_result [OF s(1)]
    have sims: "ch_sim D P orgs s es" using ch_sim_asked [OF ex(1) sim1] .
    have known: "as_uuid (event_id a') \<in> set known \<longleftrightarrow> event_id a \<in> event_id ` set es"
      using known_existing [OF sep sim1, of "[a']" a' known] addr(2) ex(2) ka(3) by simp
    have amend: "ch_amend D P E x req = (if as_uuid (event_id a') \<in> set known then ch_get P s (event_id a')
        else sbind (insert_event P (kept_event P e\<lparr>event_status := Amended\<rparr>) s)
          (\<lambda>x _. sbind (insert_event P a' x) (\<lambda>x _. Some (x, Inr a'))))"
      using get found s(1) unfolding a'_def by (simp add: ch_amend_def get_event_def Let_def)
    show ?thesis
    proof (cases "find_event es (event_id a)")
      case None
      then have "event_key a \<notin> row_key ` set (ch_events s)"
        using known_id [OF sep sims addr(1)] by (simp add: find_event_None)
      moreover have "room s 2" using room ex(1) x1(1) by (simp add: room_def asked_def)
      moreover have "fst (amend D E es req) = map (set_status Amended (event_key e)) es @ [a]" "snd (amend D E es req) = Inr a"
        using found None mark_amended_status [OF sep sim found(1)] find_event_Some [OF found(1)]
        by (simp_all add: amend_def Let_def flip: a_def)
      ultimately show ?thesis
        using amend_writes_sim [OF sims s(2) _ laws e _ addr(1) ka(1,2)] amend known None ka(4)
        by (auto simp: find_event_None)
    next
      case (Some old)
      then have "event_id a \<in> event_id ` set es" using find_event_None [of es "event_id a"] by auto
      moreover have "ch_get P s (event_id a') = Some (s\<lparr>ch_calls := Suc (ch_calls s)\<rparr>, Inr (kept_event P old))"
        using get_sim [of P s es "event_id a"] s(2) laws(1) sims Some by (simp add: ch_sim_def get_event_def ka(3))
      moreover have "amend D E es req = (es, Inr old)" using found Some by (simp add: amend_def Let_def flip: a_def)
      moreover have "ch_sim D P orgs (s\<lparr>ch_calls := Suc (ch_calls s)\<rparr>) es"
        using ch_sim_asked [OF _ sims] by (simp add: asked_def)
      ultimately show ?thesis using amend known s(2) laws(2) by simp
    qed
  qed
qed

section \<open>Voiding a run\<close>

lemma void_fold_sim:
  assumes laws: "json_roundtrip P" "millis_stable P" and "rows_sim P x es" "ch_inv P x" "quiet P x" "room x (length rows)"
    and "set rows \<subseteq> set (final_rows (ch_events x))" "distinct rows"
    and "\<And>r. r \<in> set rows \<Longrightarrow> \<exists>e. row_to_event P r = Inr e"
  shows "\<exists>y. fold_calls (ch_void_row P) x k rows = Some (y, Inr (k + length rows)) \<and> quiet P y \<and> ch_inv P y \<and>
    rows_sim P y (map (\<lambda>e. if event_key e \<in> row_key ` set rows then e\<lparr>event_status := VoidedEvent\<rparr> else e) es)"
  using assms(3-)
proof (induction rows arbitrary: x es k)
  case (Cons row rows)
  obtain e where e: "row_to_event P row = Inr e" using Cons.prems(7) by auto
  have room1: "room x 1" and row: "row \<in> set (final_rows (ch_events x))" using Cons.prems(4,5) by (simp_all add: room_def)
  obtain s where s: "insert_event P (e\<lparr>event_status := VoidedEvent\<rparr>) x = Some (s, Inr ())" "quiet P s"
    "rows_sim P s (map (set_status VoidedEvent (row_key row)) es)" "ch_inv P s"
    "ch_version_seq s = ch_version_seq x + of_nat 1"
    "\<And>r. r \<in> set (final_rows (ch_events x)) \<Longrightarrow> r \<noteq> row \<Longrightarrow> r \<in> set (final_rows (ch_events s))"
    by (rule quiet_turn [OF laws Cons.prems(1-3) room1 row e, of VoidedEvent]) (rule that)
  have "set rows \<subseteq> set (final_rows (ch_events s))" using Cons.prems(5,6) s(6) by auto
  moreover have "room s (length rows)" using Cons.prems(4) room_used [of x 1 "length rows" s] s(5) by simp
  ultimately obtain y where y: "fold_calls (ch_void_row P) s (Suc k) rows = Some (y, Inr (Suc k + length rows))" "quiet P y" "ch_inv P y"
    "rows_sim P y (map (\<lambda>e. if event_key e \<in> row_key ` set rows then e\<lparr>event_status := VoidedEvent\<rparr> else e)
       (map (set_status VoidedEvent (row_key row)) es))"
    using Cons.IH [OF s(3,4,2), of "Suc k"] Cons.prems(6,7) by auto
  have "(\<lambda>e. if event_key e \<in> row_key ` set rows then e\<lparr>event_status := VoidedEvent\<rparr> else e) \<circ> set_status VoidedEvent (row_key row) =
      (\<lambda>e. if event_key e \<in> row_key ` set (row # rows) then e\<lparr>event_status := VoidedEvent\<rparr> else e)"
    by (auto simp: fun_eq_iff set_status_def event_key_def)
  moreover have "ch_void_row P x k row = Some (s, Inr (Suc k))" by (simp add: ch_void_row_def e s(1))
  ultimately show ?case using y by simp
qed (simp_all add: rows_sim_def)

lemma void_sim:
  assumes sim: "ch_sim D P orgs x es" and quiet: "quiet P x" and laws: "json_roundtrip P" "millis_stable P"
    and room: "room x (length (select_for_run (as_uuid run) x))"
  shows "\<exists>y. ch_void_run P x run = Some (y, snd (event_void_run es run)) \<and> quiet P y \<and>
    ch_sim D P orgs y (fst (event_void_run es run))"
proof -
  let ?x1 = "x\<lparr>ch_calls := Suc (ch_calls x)\<rparr>" and ?rows = "select_for_run (as_uuid run) x"
  have rs: "list_all2 (row_sim P) (final_rows (ch_events x)) es" using sim by (simp add: ch_sim_def rows_sim_def)
  have live: "list_all2 (row_sim P) ?rows (filter (live_in_run run) es)" unfolding select_for_run_def
  proof (rule list_all2_filter [OF rs], goal_cases)
    case (1 r e)
    have "map_option as_uuid i = Some (as_uuid run) \<longleftrightarrow> i = Some run" for i by (cases i) auto
    then show ?case using row_sim_sel [OF 1] by (simp add: live_in_run_def)
  qed
  have "\<exists>e. row_to_event P r = Inr e" if "r \<in> set ?rows" for r
  proof -
    from that obtain i where "i < length ?rows" "r = ?rows ! i" by (auto simp: in_set_conv_nth)
    with live have "row_sim P r (filter (live_in_run run) es ! i)" by (simp add: list_all2_conv_all_nth)
    then show ?thesis using row_sim_sel(6) laws(1) by blast
  qed
  moreover have "rows_sim P ?x1 es" "ch_inv P ?x1" "quiet P ?x1" "room ?x1 (length ?rows)"
    "set ?rows \<subseteq> set (final_rows (ch_events ?x1))" "distinct ?rows"
    using sim quiet room final_rows_distinct [of "ch_events x"]
    by (auto simp: ch_sim_def rows_sim_def ch_inv_def room_def select_for_run_def distinct_map)
  ultimately obtain y where y: "fold_calls (ch_void_row P) ?x1 0 ?rows = Some (y, Inr (length ?rows))" "quiet P y" "ch_inv P y"
    "rows_sim P y (map (\<lambda>e. if event_key e \<in> row_key ` set ?rows then e\<lparr>event_status := VoidedEvent\<rparr> else e) es)"
    using void_fold_sim [OF laws, of ?x1 es ?rows 0] by auto
  have "row_key ` set ?rows = event_key ` set (filter (live_in_run run) es)"
    using list_all2_map_eq [OF live, of row_key event_key] row_sim_sel(1) by (metis list.set_map)
  moreover have "inj_on event_key (set es)"
    using rows_sim_keys final_rows_distinct sim distinct_map unfolding ch_sim_def by metis
  ultimately have mem: "event_key e \<in> row_key ` set ?rows \<longleftrightarrow> live_in_run run e" if "e \<in> set es" for e
    using that by (auto simp: inj_on_def)
  have "map (\<lambda>e. if event_key e \<in> row_key ` set ?rows then e\<lparr>event_status := VoidedEvent\<rparr> else e) es = fst (event_void_run es run)"
    using mem by (simp add: event_void_run_def)
  with y(4) have "rows_sim P y (fst (event_void_run es run))" by metis
  moreover have "list_all (addressed D orgs) (fst (event_void_run es run))"
    using sim by (auto simp: ch_sim_def event_void_run_def list_all_iff addressed_def)
  moreover have "length ?rows = length (filter (live_in_run run) es)" using live by (rule list_all2_lengthD)
  moreover have "select_for_run (as_uuid run) ?x1 = ?rows" by (simp add: select_for_run_def)
  ultimately show ?thesis using y(1-3) quiet by (simp add: ch_void_run_def quiet_query backend_def ch_sim_def event_void_run_def)
qed

section \<open>Histories\<close>

text \<open>The counter has room for every call of a history, and its records name these organizations.\<close>

fun ch_fits :: "deps \<Rightarrow> ch \<Rightarrow> ch_store \<Rightarrow> (env \<times> event_request) list \<Rightarrow> bool" where
  "ch_fits D P x [] = True"
| "ch_fits D P x ((E, q) # qs) \<longleftrightarrow> room x (versions_used x q) \<and> ch_fits D P (ch_exec D P E x q) qs"

fun for_orgs :: "org_id list \<Rightarrow> event_request \<Rightarrow> bool" where
  "for_orgs orgs (ERecord q) = (rec_org_id q \<in> set orgs)"
| "for_orgs orgs (EBatch qs) = list_all (\<lambda>q. rec_org_id q \<in> set orgs) qs"
| "for_orgs orgs (EAmend q) = True"
| "for_orgs orgs (EVoidRun run) = True"

lemma record_one_all: "fst (record_one D E es q) = fst (record_all D E 0 es [q])"
  by (simp add: record_one_def case_prod_unfold)

lemma ch_exec_sim:
  assumes "separate D orgs" and "ch_sim D P orgs x es" and "quiet P x" and "room x (versions_used x q)" and "for_orgs orgs q"
    and laws: "json_roundtrip P" "millis_stable P"
  shows "ch_sim D P orgs (ch_exec D P E x q) (event_exec D E es q) \<and> quiet P (ch_exec D P E x q)"
proof (cases q)
  case (ERecord r)
  with batch_sim [OF assms(1-3), of "[r]" E] assms(4,5) obtain y where
    y: "ch_record_batch D P ExactlyOnce E x [r] = Some (y, Inr (into_events D E 0 [r]))" "quiet P y"
      "ch_sim D P orgs y (fst (record_all D E 0 es [r]))" by auto
  then show ?thesis using ERecord record_one_all [of D E es r] by (simp add: ch_record_def)
next
  case (EBatch qs)
  with batch_sim [OF assms(1-3), of qs E] assms(4,5) show ?thesis
    by (auto simp: list_all_iff record_batch_def case_prod_unfold)
next
  case (EAmend r)
  with amend_sim [OF assms(1-3) _ laws, of E r] assms(4) show ?thesis by auto
next
  case (EVoidRun run)
  with void_sim [OF assms(2,3) laws, of run] assms(4) show ?thesis by auto
qed

lemma ch_play_sim:
  assumes "separate D orgs" and "ch_sim D P orgs x es" and "quiet P x" and "ch_fits D P x qs"
    and "list_all (for_orgs orgs \<circ> snd) qs" and laws: "json_roundtrip P" "millis_stable P"
  shows "ch_sim D P orgs (ch_play D P x qs) (event_play D es qs) \<and> quiet P (ch_play D P x qs)"
  using assms(2-5)
proof (induction qs arbitrary: x es)
  case (Cons p qs)
  obtain E q where p: "p = (E, q)" by fastforce
  from ch_exec_sim [OF assms(1) Cons.prems(1,2) _ _ laws, of q E] Cons.prems(3,4)
  have "ch_sim D P orgs (ch_exec D P E x q) (event_exec D E es q)" "quiet P (ch_exec D P E x q)" by (simp_all add: p)
  from Cons.IH [OF this] Cons.prems(3,4) show ?case by (simp add: p)
qed simp

lemma ch_sim_new [simp]: "ch_sim D P orgs (ch_new seed) []"
  by (simp add: ch_sim_def rows_sim_def ch_inv_def ch_new_def)

end
