(* ===== verification/Ch_Demo.thy ===== *)
theory Ch_Demo
  imports Ch_Sim "HOL-Library.Countable"
begin

text \<open>
  A reference instance of the ClickHouse parameter for the witnesses: every JSON value has its own
  text (JSON values are countable), the extraction functions answer with fixed values, times are
  kept in milliseconds, and the calls fail as a schedule says.
\<close>

instance json :: countable
  by countable_datatype

definition demo_ch :: "(nat \<Rightarrow> fault option) \<Rightarrow> ch" where
  "demo_ch f = \<lparr>json_text = (\<lambda>j. replicate (to_nat j) (CHR ''i'')), json_parse = (\<lambda>s. Inr (from_nat (length s))),
     extract_string = (\<lambda>s k. if k = ''model'' then ''gpt'' else if k = ''credits'' then ''2'' else if k = ''team'' then ''core'' else []),
     extract_uint = (\<lambda>s k. if k = ''output'' then 7 else 0), to_float = (\<lambda>s. of_nat (length s)),
     to_date = (\<lambda>t. t div 86400000000000), date_text = (\<lambda>d. replicate (nat d) (CHR ''d'')), uuid_rank = unat, to_millis = (\<lambda>t. t div 1000000 * 1000000), ch_fault = f\<rparr>"

lemma demo_json [simp]: "json_parse (demo_ch f) (json_text (demo_ch f) j) = Inr j"
  by (simp add: demo_ch_def)

lemma demo_laws [simp]: "json_roundtrip (demo_ch f)" "millis_stable (demo_ch f)" "ch_fault (demo_ch f) = f"
  by (simp_all add: json_roundtrip_def millis_stable_def, simp_all add: demo_ch_def)

text \<open>Schedules: no call fails; the given call is refused.\<close>

definition all_well :: "nat \<Rightarrow> fault option" where
  "all_well n = None"

definition refuse_call :: "nat \<Rightarrow> nat \<Rightarrow> fault option" where
  "refuse_call k n = (if n = k then Some (Refused ''down'') else None)"

lemma demo_ids [simp]:
  "idempotent_event_id exact_deps (Id 7) ''k'' = Id 115"
  "idempotent_event_id exact_deps (Id 7) ''k::amend::fix'' = Id 1191"
  "idempotent_event_id exact_deps (Id 7) ''k::amend::other'' = Id 1410"
  by code_simp+

lemma demo_extract [simp]:
  "extract_string (demo_ch f) s ''model'' = ''gpt''" "extract_string (demo_ch f) s ''credits'' = ''2''"
  "extract_string (demo_ch f) s ''team'' = ''core''" "extract_string (demo_ch f) s ''feature'' = []"
  "extract_string (demo_ch f) s ''customer'' = []" "extract_string (demo_ch f) s ''environment'' = []"
  "to_float (demo_ch f) ''2'' = 1" "to_date (demo_ch f) t = t div 86400000000000"
  "extract_uint (demo_ch f) s ''output'' = 7"
  by (simp_all add: demo_ch_def)

lemmas demo_calls = ch_record_def ch_record_batch_def existing_ids_def ch_query_def ch_call_def select_ids_def backend_def
  refuse_call_def all_well_def fresh_rows_eq Let_def row_of_event_def insert_event_def event_to_row_def ch_amend_def ch_get_def
  select_by_id_def final_rows_def same_key_def row_to_event_def into_event_def into_amended_event_def demo_record_def
  demo_amend_def event_env_def room_def amends_amended_def event_key_def row_key_def status_to_str_def status_from_str_def
  ch_new_def insert_rows_def CHUNK_def demo_event_id_def ch_void_run_def ch_void_row_def select_for_run_def

lemmas demo_reads = reconcile_model_rollup_def reconcile_field_rollup_def group_by_def scan_by_def diff_aggregates_def agg_side_def
  sum_of_def row_model_def row_credits_def usage_rollup_mv_def sign_of_def org_live_def live_rows_def

text \<open>A record whose first attempt is refused, its retry, and an amendment.\<close>

definition demo_history :: "(env \<times> event_request) list" where
  "demo_history = [(event_env, ERecord (demo_record ''k'')), (event_env, ERecord (demo_record ''k'')),
     (event_env, EAmend (demo_amend demo_event_id ''fix''))]"

definition demo_clickhouse :: ch where
  "demo_clickhouse = demo_ch (refuse_call 1)"

definition demo_tables :: ch_store where
  "demo_tables = ch_play exact_deps demo_clickhouse (ch_new 5) demo_history"

lemma demo_clickhouse_laws: "json_roundtrip demo_clickhouse" "millis_stable demo_clickhouse"
  by (simp_all add: demo_clickhouse_def)

lemma demo_orderly: "orderly exact_deps demo_clickhouse (ch_new 5) demo_history"
  by (simp add: demo_clickhouse_def demo_history_def demo_calls)

lemma demo_quiet: "quiet demo_clickhouse demo_tables"
  by (simp add: demo_clickhouse_def demo_tables_def demo_history_def demo_calls quiet_def)

lemma demo_live: "length (org_live 7 demo_tables) = 1"
  by (simp add: demo_clickhouse_def demo_tables_def demo_history_def demo_calls org_live_def live_rows_def)

end
