(* ===== verification/Ch_Props.thy ===== *)
theory Ch_Props
  imports Ch_Demo
begin

text \<open>
  What the ClickHouse event store guarantees, and three places where it does less than the in-memory
  store or than its comments say.
\<close>

section \<open>Properties\<close>

text \<open>
  C37. The rollups count exactly the live events. After any history of exactly-once ingests, amends and
  run voids, whichever calls failed on the way, refused or unacknowledged, reconciling the rollups
  finds no drift and \<open>event_count\<close> is the number of live events, as long as no amend addressed a
  version already amended and the version counter did not wrap. The event counts are exact; that the
  credits show no drift is for exact sums, where the code sums \<open>Float64\<close> and compares within 1e-6.
\<close>

theorem rollup_tracks_events:
  assumes "json_roundtrip P" and "millis_stable P" and "orderly D P (ch_new seed) qs"
    and "quiet P (ch_play D P (ch_new seed) qs)"
  shows "\<exists>y z. reconcile_rollups P (ch_play D P (ch_new seed) qs) org = Some (y, Inr []) \<and>
    event_count_ch P (ch_play D P (ch_new seed) qs) org =
      Some (z, Inr (of_nat (length (org_live org (ch_play D P (ch_new seed) qs)))))"
proof -
  have "rollups_track P org (ch_play D P (ch_new seed) qs)"
    using steps_rollups_track [OF ch_play_steps new_rollups_track] assms(1-3) by simp
  with reconcile_none event_count_reply assms(4) show ?thesis by blast
qed

theorem rollup_tracks_events_witness:
  "\<exists>y z. reconcile_rollups demo_clickhouse demo_tables 7 = Some (y, Inr []) \<and> event_count_ch demo_clickhouse demo_tables 7 = Some (z, Inr 1)"
  using rollup_tracks_events [OF demo_clickhouse_laws demo_orderly demo_quiet [unfolded demo_tables_def], of 7]
  unfolding demo_tables_def [symmetric] demo_live of_nat_1 .

text \<open>
  C38. A model report read off the rollup counts what a scan of the events counts. After such a history
  \<open>usage_by_model\<close> lists each model that has live events of the organization exactly once, with the
  number of those events and the sums of their input and output tokens, modulo \<open>2^64\<close> as the columns
  are. The lines come in the order of the credits they report, largest first. Those credits are
  \<open>Float64\<close> sums in the code, which can differ from a scan in the last digits, and nothing else is claimed
  of them.
\<close>

theorem usage_by_model_is_scan:
  assumes "json_roundtrip P" and "millis_stable P" and "orderly D P (ch_new seed) qs"
    and "quiet P (ch_play D P (ch_new seed) qs)"
  shows "\<exists>y us. usage_by_model P (ch_play D P (ch_new seed) qs) org = Some (y, Inr us) \<and> distinct (map mu_model us) \<and>
    (\<lambda>u. (mu_model u, mu_events u, mu_input_tokens u, mu_output_tokens u)) ` set us =
    (\<lambda>m. let rows = filter (\<lambda>r. row_model P r = m) (org_live org (ch_play D P (ch_new seed) qs)) in
       (m, of_nat (length rows), of_int (sum_list (map (row_input P) rows)), of_int (sum_list (map (row_output P) rows)))) `
      {m. m \<noteq> [] \<and> m \<in> row_model P ` set (org_live org (ch_play D P (ch_new seed) qs))} \<and>
    sorted (map (\<lambda>u. - mu_credits u) us)"
proof -
  let ?x = "ch_play D P (ch_new seed) qs"
  have t: "rollups_track P org ?x"
    using steps_rollups_track [OF ch_play_steps new_rollups_track] assms(1-3) by simp
  obtain y r where reply: "usage_by_model P ?x org = Some (y, r)" using assms(4) by (simp add: usage_by_model_def quiet_query)
  show ?thesis
    by (rule usage_by_model_reply [OF assms(4) t reply])
       (use reply in \<open>auto simp: image_image model_scan_def Let_def sum_of_def\<close>)
qed

theorem usage_by_model_is_scan_witness:
  "\<exists>y us. usage_by_model demo_clickhouse demo_tables 7 = Some (y, Inr us) \<and>
     (\<lambda>u. (mu_model u, mu_events u, mu_input_tokens u, mu_output_tokens u)) ` set us = {(''gpt'', 1, 0, 7)}"
proof -
  obtain y us where us: "usage_by_model demo_clickhouse demo_tables 7 = Some (y, Inr us)"
    "(\<lambda>u. (mu_model u, mu_events u, mu_input_tokens u, mu_output_tokens u)) ` set us =
     (\<lambda>m. let rows = filter (\<lambda>r. row_model demo_clickhouse r = m) (org_live 7 demo_tables) in
       (m, of_nat (length rows), of_int (sum_list (map (row_input demo_clickhouse) rows)),
        of_int (sum_list (map (row_output demo_clickhouse) rows)))) `
      {m. m \<noteq> [] \<and> m \<in> row_model demo_clickhouse ` set (org_live 7 demo_tables)}"
    using usage_by_model_is_scan [OF demo_clickhouse_laws demo_orderly demo_quiet [unfolded demo_tables_def], of 7]
    unfolding demo_tables_def [symmetric] by blast
  obtain r where r: "org_live 7 demo_tables = [r]" using demo_live by (cases "org_live 7 demo_tables") auto
  have f: "row_model demo_clickhouse r = ''gpt''" "row_input demo_clickhouse r = 0" "row_output demo_clickhouse r = 7"
    by (simp_all add: row_model_def row_input_def row_output_def to_int64_def demo_clickhouse_def) (simp_all add: demo_ch_def)
  then have "{m. m \<noteq> [] \<and> m \<in> row_model demo_clickhouse ` set (org_live 7 demo_tables)} = {''gpt''}"
    by (auto simp: r)
  with us f show ?thesis by (simp add: r)
qed

text \<open>
  C39. A rebuild repairs the rollups. Whatever the rollups held, \<open>rebuild_rollups\<close> leaves the events and the
  contributions of other organizations as they were, and reconciling afterwards finds no drift.
\<close>

theorem rebuild_repairs:
  assumes "quiet P x"
  shows "\<exists>y z. rebuild_rollups P x org = Some (y, Inr ()) \<and> ch_events y = ch_events x \<and>
    filter (\<lambda>u. ru_org_id u \<noteq> org) (ch_rollup y) = filter (\<lambda>u. ru_org_id u \<noteq> org) (ch_rollup x) \<and>
    filter (\<lambda>u. fu_org_id u \<noteq> org) (ch_fields y) = filter (\<lambda>u. fu_org_id u \<noteq> org) (ch_fields x) \<and>
    reconcile_rollups P y org = Some (z, Inr [])"
proof -
  note reply = rebuild_reply [OF assms, of org]
  note tr = rebuild_tracks [OF assms reply]
  have "filter (\<lambda>u. ru_org_id u \<noteq> org) (live_rollup P org x) = []" "filter (\<lambda>u. fu_org_id u \<noteq> org) (live_fields P org x) = []"
    by (auto simp: live_rollup_def live_fields_def filter_empty_conv)
  with reply reconcile_none [OF tr(2,1)] show ?thesis by auto
qed

theorem rebuild_repairs_witness:
  "\<exists>y z. rebuild_rollups demo_clickhouse (demo_tables\<lparr>ch_rollup := [], ch_fields := []\<rparr>) 7 = Some (y, Inr ()) \<and>
     ch_events y = ch_events demo_tables \<and> org_live 7 demo_tables \<noteq> [] \<and>
     reconcile_rollups demo_clickhouse y 7 = Some (z, Inr [])"
proof -
  have "quiet demo_clickhouse (demo_tables\<lparr>ch_rollup := [], ch_fields := []\<rparr>)"
    using demo_quiet by (simp add: quiet_def)
  moreover have "org_live 7 demo_tables \<noteq> []" using demo_live by auto
  ultimately show ?thesis
    using rebuild_repairs [of demo_clickhouse "demo_tables\<lparr>ch_rollup := [], ch_fields := []\<rparr>" 7] by fastforce
qed

text \<open>
  C40. The ClickHouse store answers as the in-memory store does. After any history of records, batches,
  amends and run voids with answered calls, when event ids of different organizations do not collide
  and the version counter does not wrap, every lookup returns what the in-memory store returns,
  with times in milliseconds, every account lists the same live events, and the next amend and
  run void reply alike.
\<close>

theorem ch_simulates_memory:
  assumes "json_roundtrip P" and "millis_stable P" and "separate D orgs" and "quiet P (ch_new seed)"
    and "ch_fits D P (ch_new seed) qs" and "list_all (for_orgs orgs \<circ> snd) qs"
  shows "(\<exists>y. ch_get P (ch_play D P (ch_new seed) qs) i =
        Some (y, map_sum id (kept_event P) (get_event (event_play D [] qs) i))) \<and>
    (\<exists>y out live. ch_list_for_account P (ch_play D P (ch_new seed) qs) a = Some (y, Inr out) \<and>
        list_for_account (event_play D [] qs) a = Inr live \<and> mset out = mset (map (kept_event P) live)) \<and>
    (room (ch_play D P (ch_new seed) qs) 2 \<longrightarrow>
        (\<exists>y r. ch_amend D P E (ch_play D P (ch_new seed) qs) req = Some (y, r) \<and>
           map_sum id (kept_event P) r = map_sum id (kept_event P) (snd (amend D E (event_play D [] qs) req)))) \<and>
    (room (ch_play D P (ch_new seed) qs) (length (select_for_run (as_uuid run) (ch_play D P (ch_new seed) qs))) \<longrightarrow>
        (\<exists>y. ch_void_run P (ch_play D P (ch_new seed) qs) run = Some (y, snd (event_void_run (event_play D [] qs) run))))"
proof -
  let ?x = "ch_play D P (ch_new seed) qs" and ?es = "event_play D [] qs"
  have sim: "ch_sim D P orgs ?x ?es" and quiet: "quiet P ?x"
    using ch_play_sim [OF assms(3) ch_sim_new assms(4-6,1,2)] by simp_all
  then have rs: "rows_sim P ?x ?es" by (simp add: ch_sim_def)
  have "\<exists>y. ch_get P ?x i = Some (y, map_sum id (kept_event P) (get_event ?es i))"
    using get_sim [OF rs quiet assms(1)] by blast
  moreover have "\<exists>live. list_for_account ?es a = Inr live" by (simp add: list_for_account_def)
  then have "\<exists>y out live. ch_list_for_account P ?x a = Some (y, Inr out) \<and>
      list_for_account ?es a = Inr live \<and> mset out = mset (map (kept_event P) live)"
    using list_sim [OF rs quiet assms(1)] by blast
  ultimately show ?thesis
    using amend_sim [OF assms(3) sim quiet _ assms(1,2)] void_sim [OF sim quiet assms(1,2)] by blast
qed

definition quiet_history :: "(env \<times> event_request) list" where
  "quiet_history = [(event_env, ERecord (demo_record ''k'')), (event_env, EAmend (demo_amend demo_event_id ''fix''))]"

theorem ch_simulates_memory_witness:
  "\<exists>y w z r e. ch_get (demo_ch all_well) (ch_play exact_deps (demo_ch all_well) (ch_new 5) quiet_history) (Id 1191) =
       Some (y, Inr (kept_event (demo_ch all_well) e)) \<and> find_event (event_play exact_deps [] quiet_history) (Id 1191) = Some e \<and>
     ch_amend exact_deps (demo_ch all_well) event_env (ch_play exact_deps (demo_ch all_well) (ch_new 5) quiet_history)
       (demo_amend (Id 1191) ''other'') = Some (w, r) \<and>
     ch_void_run (demo_ch all_well) (ch_play exact_deps (demo_ch all_well) (ch_new 5) quiet_history) (Id 9) = Some (z, Inr 1)"
proof -
  let ?P = "demo_ch all_well" and ?es = "event_play exact_deps [] quiet_history"
  let ?x = "ch_play exact_deps ?P (ch_new 5) quiet_history"
  have "separate exact_deps [Id 7]" by (simp add: separate_def)
  moreover have "quiet ?P (ch_new 5)" by (simp add: quiet_def all_well_def)
  moreover have "ch_fits exact_deps ?P (ch_new 5) quiet_history" by (simp add: quiet_history_def demo_calls)
  moreover have "list_all (for_orgs [Id 7] \<circ> snd) quiet_history" by (simp add: quiet_history_def demo_record_def)
  ultimately have sim: "(\<exists>y. ch_get ?P ?x (Id 1191) = Some (y, map_sum id (kept_event ?P) (get_event ?es (Id 1191)))) \<and>
    (room ?x 2 \<longrightarrow> (\<exists>y r. ch_amend exact_deps ?P event_env ?x (demo_amend (Id 1191) ''other'') = Some (y, r))) \<and>
    (room ?x (length (select_for_run 9 ?x)) \<longrightarrow> (\<exists>y. ch_void_run ?P ?x (Id 9) = Some (y, snd (event_void_run ?es (Id 9)))))"
    using ch_simulates_memory [OF demo_laws(1,2), of exact_deps "[Id 7]" all_well 5 quiet_history "Id 1191" undefined event_env
        "demo_amend (Id 1191) ''other''" "Id 9"] by auto
  have "find_event ?es (Id 1191) \<noteq> None" "snd (event_void_run ?es (Id 9)) = Inr 1"
    by (code_simp, code_simp)
  moreover have "room ?x 2" "room ?x (length (select_for_run 9 ?x))" by (simp_all add: quiet_history_def demo_calls)
  ultimately show ?thesis using sim by (auto simp: get_event_def)
qed

section \<open>Where the store does less\<close>

text \<open>
  Amending a superseded version makes the rollups drift. The original is already amended, so marking
  it amended again posts a second \<open>-1\<close> for an event that no longer counts: two versions are live,
  the rollup counts one.
\<close>

definition forked_history :: "(env \<times> event_request) list" where
  "forked_history = quiet_history @ [(event_env, EAmend (demo_amend demo_event_id ''other''))]"

theorem amend_of_amended_drifts:
  "let x = ch_play exact_deps (demo_ch all_well) (ch_new 5) forked_history in
   map_option snd (reconcile_model_rollup (demo_ch all_well) x 7) = Some (Inr [\<lparr>drift_scope = ''model'', drift_dimension = ''gpt'',
     drift_rollup_events = 1, drift_scan_events = 2, drift_rollup_credits = 1, drift_scan_credits = 2\<rparr>])"
  by (simp add: forked_history_def quiet_history_def demo_calls demo_reads)

text \<open>
  An amend is two inserts and not atomic. When the second is refused the original is amended and has
  no successor; the retry, which finds no stored amendment, marks it amended once more, and the
  rollup, short by one, no longer counts the corrected event.
\<close>

definition broken_db :: ch where
  "broken_db = demo_ch (refuse_call 5)"

definition interrupted :: ch_store where
  "interrupted = ch_play exact_deps broken_db (ch_new 5) quiet_history"

definition retried :: ch_store where
  "retried = ch_exec exact_deps broken_db event_env interrupted (EAmend (demo_amend demo_event_id ''fix''))"

lemma interrupted_events:
  "map cr_status (ch_events interrupted) = [''recorded'', ''amended'']"
  by (simp add: interrupted_def broken_db_def quiet_history_def demo_calls)

theorem interrupted_amend_drifts:
  "map_option snd (reconcile_model_rollup broken_db retried 7) = Some (Inr [\<lparr>drift_scope = ''model'', drift_dimension = ''gpt'',
     drift_rollup_events = 0, drift_scan_events = 1, drift_rollup_credits = 0, drift_scan_credits = 1\<rparr>])"
  by (simp add: retried_def interrupted_def broken_db_def quiet_history_def demo_calls demo_reads)

text \<open>
  A replayed record answers with the event of the request, not with the stored one as the in-memory
  store does: the reply carries the new properties while the store keeps the first.
\<close>

theorem record_replay_answers_request:
  "let P = demo_ch all_well; q = demo_record ''k''; q' = q\<lparr>rec_properties := JBool True\<rparr>;
       x = ch_exec exact_deps P event_env (ch_new 5) (ERecord q) in
   (case ch_record exact_deps P ExactlyOnce event_env x q' of
      Some (y, Inr e) \<Rightarrow> properties e = JBool True \<and> ch_events y = ch_events x
    | _ \<Rightarrow> False) \<and>
   (case record_one exact_deps event_env (event_exec exact_deps event_env [] (ERecord q)) q' of
      (_, Inr e) \<Rightarrow> properties e = JNull
    | _ \<Rightarrow> False)"
  by (simp add: demo_calls record_one_def record_locked_def find_event_def)

end
