(* ===== verification/Conformance.thy ===== *)
theory Conformance
  imports Backend
begin

text \<open>
  The conformance suite of \<open>crates/meter-ledger/src/conformance.rs\<close>, which every ledger backend has to
  pass: one definition per scenario, over any implementation of the trait. A scenario is generic
  in the backend, so it is a function of the record \<open>ledger_ops\<close>; \<open>expect\<close> on an error and a failed
  assertion are panics, the value \<open>None\<close>, and a scenario that returns has passed.

  A scenario runs on a bench: the ledger under test and the number of times it has asked its
  surroundings for something. The \<open>k\<close>-th call of the trait, fresh identifier or reading of the clock
  is served by \<open>E k\<close>.
\<close>

section \<open>The bench\<close>

type_synonym 'l bench = "nat \<times> 'l"

definition ask ::
  "(nat \<Rightarrow> env) \<Rightarrow> 'l bench \<Rightarrow> (env \<Rightarrow> 'l \<Rightarrow> ('l, 'e, 'a) sres) \<Rightarrow> ('l bench \<times> ('e + 'a)) option" where
  "ask E t f = (case t of (k, l) \<Rightarrow> do { (l', r) \<leftarrow> f (E k) l; Some ((Suc k, l'), r) })"

definition expect ::
  "(nat \<Rightarrow> env) \<Rightarrow> 'l bench \<Rightarrow> (env \<Rightarrow> 'l \<Rightarrow> ('l, 'e, 'a) sres) \<Rightarrow> ('l bench \<times> 'a) option" where
  "expect E t f = do {
     (t, r) \<leftarrow> ask E t f;
     case r of Inl _ \<Rightarrow> None | Inr a \<Rightarrow> Some (t, a) }"

definition fresh_uuid :: "(nat \<Rightarrow> env) \<Rightarrow> 'l bench \<Rightarrow> 'l bench \<times> uuid" where
  "fresh_uuid E t = (case t of (k, l) \<Rightarrow> ((Suc k, l), new_v7 (E k) 0))"

definition clock :: "(nat \<Rightarrow> env) \<Rightarrow> 'l bench \<Rightarrow> 'l bench \<times> time" where
  "clock E t = (case t of (k, l) \<Rightarrow> ((Suc k, l), now_utc (E k) 0))"

definition assert_that :: "bool \<Rightarrow> unit option" where
  "assert_that b = (if b then Some () else None)"

text \<open>\<open>ReservationId::new()\<close>, which is also its default, and \<open>RunId::new()\<close>.\<close>

definition fresh_reservation :: "(nat \<Rightarrow> env) \<Rightarrow> 'l bench \<Rightarrow> 'l bench \<times> reservation_id" where
  "fresh_reservation E t = (case fresh_uuid E t of (t, u) \<Rightarrow> (t, ReservationId u))"

definition fresh_run :: "(nat \<Rightarrow> env) \<Rightarrow> 'l bench \<Rightarrow> 'l bench \<times> run_id" where
  "fresh_run E t = (case fresh_uuid E t of (t, u) \<Rightarrow> (t, Id u))"

section \<open>Requests of the suite\<close>

definition credits :: "int \<Rightarrow> credit" where
  "credits n = of_int n"

definition paid_grant :: "account_id \<Rightarrow> int \<Rightarrow> string option \<Rightarrow> grant_request" where
  "paid_grant account n key = \<lparr>grant_account = account, grant_amount = credits n,
     grant_source = Paid_source, grant_idempotency_key = key\<rparr>"

definition hold_request ::
  "account_id \<Rightarrow> reservation_id \<Rightarrow> int \<Rightarrow> limit_class \<Rightarrow> time option \<Rightarrow> run_id option \<Rightarrow> reserve_request" where
  "hold_request account r n cls expires run = \<lparr>rsv_account = account, rsv_reservation_id = r,
     rsv_amount = credits n, rsv_limit = cls, rsv_expires_at = expires, rsv_run_id = run\<rparr>"

definition settle_at :: "reservation_id \<Rightarrow> int \<Rightarrow> settle_request" where
  "settle_at r n = \<lparr>settle_reservation_id = r, settle_actual = credits n\<rparr>"

definition charge_of :: "account_id \<Rightarrow> int \<Rightarrow> run_id option \<Rightarrow> string \<Rightarrow> charge_request" where
  "charge_of account n run key = \<lparr>charge_account = account, charge_amount = credits n,
     charge_run_id = run, charge_idempotency_key = Some key\<rparr>"

definition refund_of ::
  "account_id \<Rightarrow> int \<Rightarrow> entry_id option \<Rightarrow> string option \<Rightarrow> refund_request" where
  "refund_of account n reverses key = \<lparr>refund_account = account, refund_amount = credits n,
     refund_reverses_entry_id = reverses, refund_idempotency_key = key\<rparr>"

definition reverse_of ::
  "account_id \<Rightarrow> entry_id \<Rightarrow> run_id \<Rightarrow> string \<Rightarrow> reverse_charge_request" where
  "reverse_of account c run key = \<lparr>rev_account = account, rev_charge_entry_id = c,
     rev_run_id = Some run, rev_idempotency_key = key\<rparr>"

fun is_allowed :: "reserve_outcome \<Rightarrow> bool" where
  "is_allowed (Allowed _) = True"
| "is_allowed (Denied _ _) = False"

section \<open>Steps the scenarios share\<close>

definition open_org :: "'l ledger_ops \<Rightarrow> (nat \<Rightarrow> env) \<Rightarrow> bool \<Rightarrow> 'l bench \<Rightarrow> ('l bench \<times> account_id) option" where
  "open_org L E no_overdraft t = (case fresh_uuid E t of (t, org) \<Rightarrow> do {
     (t, account) \<leftarrow> expect E t (\<lambda>e l. be_open_account L e l
        \<lparr>na_org_id = Id org, na_scope = Org, na_no_overdraft = no_overdraft, na_parent_id = None\<rparr>);
     Some (t, acct_id account) })"

definition open_no_overdraft_org ::
  "'l ledger_ops \<Rightarrow> (nat \<Rightarrow> env) \<Rightarrow> 'l bench \<Rightarrow> ('l bench \<times> account_id) option" where
  "open_no_overdraft_org L E t = open_org L E True t"

definition granted ::
  "'l ledger_ops \<Rightarrow> (nat \<Rightarrow> env) \<Rightarrow> 'l bench \<Rightarrow> account_id \<Rightarrow> int \<Rightarrow> 'l bench option" where
  "granted L E t account n = do {
     (t, _) \<leftarrow> expect E t (\<lambda>e l. be_grant L e l (paid_grant account n None));
     Some t }"

definition reserved ::
  "'l ledger_ops \<Rightarrow> (nat \<Rightarrow> env) \<Rightarrow> 'l bench \<Rightarrow> reserve_request \<Rightarrow> ('l bench \<times> reserve_outcome) option" where
  "reserved L E t q = expect E t (\<lambda>_ l. be_reserve L l q)"

definition settled ::
  "'l ledger_ops \<Rightarrow> (nat \<Rightarrow> env) \<Rightarrow> 'l bench \<Rightarrow> reservation_id \<Rightarrow> int \<Rightarrow> ('l bench \<times> ledger_entry) option" where
  "settled L E t r n = expect E t (\<lambda>e l. be_settle L e l (settle_at r n))"

definition charged ::
  "'l ledger_ops \<Rightarrow> (nat \<Rightarrow> env) \<Rightarrow> 'l bench \<Rightarrow> charge_request \<Rightarrow> ('l bench \<times> ledger_entry) option" where
  "charged L E t q = expect E t (\<lambda>e l. be_charge L e l q)"

definition refunded ::
  "'l ledger_ops \<Rightarrow> (nat \<Rightarrow> env) \<Rightarrow> 'l bench \<Rightarrow> refund_request \<Rightarrow> ('l bench \<times> ledger_entry) option" where
  "refunded L E t q = expect E t (\<lambda>e l. be_refund L e l q)"

definition voided_run ::
  "'l ledger_ops \<Rightarrow> (nat \<Rightarrow> env) \<Rightarrow> 'l bench \<Rightarrow> run_id \<Rightarrow> ('l bench \<times> run_void_summary) option" where
  "voided_run L E t run = expect E t (\<lambda>e l. be_void_run L e l run)"

definition balance_at ::
  "'l ledger_ops \<Rightarrow> (nat \<Rightarrow> env) \<Rightarrow> 'l bench \<Rightarrow> account_id \<Rightarrow> ('l bench \<times> balance) option" where
  "balance_at L E t account = expect E t (\<lambda>_ l. be_balance L l account)"

text \<open>The assertions on one read of a balance: \<open>settled\<close>, \<open>held\<close> and \<open>available()\<close>.\<close>

definition settled_is ::
  "'l ledger_ops \<Rightarrow> (nat \<Rightarrow> env) \<Rightarrow> 'l bench \<Rightarrow> account_id \<Rightarrow> int \<Rightarrow> 'l bench option" where
  "settled_is L E t account n = do {
     (t, b) \<leftarrow> balance_at L E t account;
     assert_that (bal_settled b = credits n);
     Some t }"

definition held_is ::
  "'l ledger_ops \<Rightarrow> (nat \<Rightarrow> env) \<Rightarrow> 'l bench \<Rightarrow> account_id \<Rightarrow> int \<Rightarrow> 'l bench option" where
  "held_is L E t account n = do {
     (t, b) \<leftarrow> balance_at L E t account;
     assert_that (bal_held b = credits n);
     Some t }"

definition available_is ::
  "'l ledger_ops \<Rightarrow> deps \<Rightarrow> (nat \<Rightarrow> env) \<Rightarrow> 'l bench \<Rightarrow> account_id \<Rightarrow> int \<Rightarrow> 'l bench option" where
  "available_is L D E t account n = do {
     (t, b) \<leftarrow> balance_at L E t account;
     a \<leftarrow> available D b;
     assert_that (a = credits n);
     Some t }"

definition settled_available_are ::
  "'l ledger_ops \<Rightarrow> deps \<Rightarrow> (nat \<Rightarrow> env) \<Rightarrow> 'l bench \<Rightarrow> account_id \<Rightarrow> int \<Rightarrow> int \<Rightarrow> 'l bench option" where
  "settled_available_are L D E t account n m = do {
     (t, b) \<leftarrow> balance_at L E t account;
     assert_that (bal_settled b = credits n);
     a \<leftarrow> available D b;
     assert_that (a = credits m);
     Some t }"

definition settled_held_are ::
  "'l ledger_ops \<Rightarrow> (nat \<Rightarrow> env) \<Rightarrow> 'l bench \<Rightarrow> account_id \<Rightarrow> int \<Rightarrow> int \<Rightarrow> 'l bench option" where
  "settled_held_are L E t account n m = do {
     (t, b) \<leftarrow> balance_at L E t account;
     assert_that (bal_settled b = credits n \<and> bal_held b = credits m);
     Some t }"

text \<open>An account opened without overdraft and funded.\<close>

definition funded ::
  "'l ledger_ops \<Rightarrow> (nat \<Rightarrow> env) \<Rightarrow> 'l bench \<Rightarrow> int \<Rightarrow> ('l bench \<times> account_id) option" where
  "funded L E t n = do {
     (t, account) \<leftarrow> open_no_overdraft_org L E t;
     t \<leftarrow> granted L E t account n;
     Some (t, account) }"

section \<open>Grants, holds and settles\<close>

definition grant_increases_balance ::
  "'l ledger_ops \<Rightarrow> deps \<Rightarrow> (nat \<Rightarrow> env) \<Rightarrow> 'l bench \<Rightarrow> 'l bench option" where
  "grant_increases_balance L D E t = do {
     (t, account) \<leftarrow> funded L E t 100;
     settled_available_are L D E t account 100 100 }"

definition reserve_denies_when_insufficient ::
  "'l ledger_ops \<Rightarrow> (nat \<Rightarrow> env) \<Rightarrow> 'l bench \<Rightarrow> 'l bench option" where
  "reserve_denies_when_insufficient L E t = do {
     (t, account) \<leftarrow> funded L E t 10;
     (case fresh_reservation E t of (t, r) \<Rightarrow> do {
       (t, outcome) \<leftarrow> reserved L E t (hold_request account r 25 Hard None None);
       assert_that (\<not> is_allowed outcome);
       Some t }) }"

definition reserve_hold_then_settle_charges_actual ::
  "'l ledger_ops \<Rightarrow> deps \<Rightarrow> (nat \<Rightarrow> env) \<Rightarrow> 'l bench \<Rightarrow> 'l bench option" where
  "reserve_hold_then_settle_charges_actual L D E t = do {
     (t, account) \<leftarrow> funded L E t 100;
     (case fresh_reservation E t of (t, r) \<Rightarrow> do {
       (t, outcome) \<leftarrow> reserved L E t (hold_request account r 40 Hard None None);
       assert_that (is_allowed outcome);
       t \<leftarrow> settled_available_are L D E t account 100 60;
       (t, _) \<leftarrow> settled L E t r 30;
       settled_held_are L E t account 70 0 }) }"

definition reserve_and_settle_are_idempotent ::
  "'l ledger_ops \<Rightarrow> (nat \<Rightarrow> env) \<Rightarrow> 'l bench \<Rightarrow> 'l bench option" where
  "reserve_and_settle_are_idempotent L E t = do {
     (t, account) \<leftarrow> funded L E t 100;
     (case fresh_reservation E t of (t, r) \<Rightarrow> do {
       (t, _) \<leftarrow> reserved L E t (hold_request account r 40 Hard None None);
       (t, _) \<leftarrow> reserved L E t (hold_request account r 40 Hard None None);
       t \<leftarrow> held_is L E t account 40;
       (t, first) \<leftarrow> settled L E t r 30;
       (t, second) \<leftarrow> settled L E t r 30;
       assert_that (first = second);
       settled_is L E t account 70 }) }"

definition grant_is_idempotent_on_key ::
  "'l ledger_ops \<Rightarrow> (nat \<Rightarrow> env) \<Rightarrow> 'l bench \<Rightarrow> 'l bench option" where
  "grant_is_idempotent_on_key L E t = do {
     (t, account) \<leftarrow> open_no_overdraft_org L E t;
     let q = paid_grant account 50 (Some ''topup-1'');
     (t, _) \<leftarrow> expect E t (\<lambda>e l. be_grant L e l q);
     (t, _) \<leftarrow> expect E t (\<lambda>e l. be_grant L e l q);
     settled_is L E t account 50 }"

definition void_releases_a_failed_run ::
  "'l ledger_ops \<Rightarrow> deps \<Rightarrow> (nat \<Rightarrow> env) \<Rightarrow> 'l bench \<Rightarrow> 'l bench option" where
  "void_releases_a_failed_run L D E t = do {
     (t, account) \<leftarrow> funded L E t 100;
     (case fresh_reservation E t of (t, r) \<Rightarrow> do {
       (t, _) \<leftarrow> reserved L E t (hold_request account r 40 Hard None None);
       (t, _) \<leftarrow> expect E t (\<lambda>_ l. be_void L l r);
       (t, _) \<leftarrow> expect E t (\<lambda>_ l. be_void L l r);
       available_is L D E t account 100 }) }"

definition settle_overage_charges_actual ::
  "'l ledger_ops \<Rightarrow> (nat \<Rightarrow> env) \<Rightarrow> 'l bench \<Rightarrow> 'l bench option" where
  "settle_overage_charges_actual L E t = do {
     (t, account) \<leftarrow> funded L E t 100;
     (case fresh_reservation E t of (t, r) \<Rightarrow> do {
       (t, _) \<leftarrow> reserved L E t (hold_request account r 40 Hard None None);
       (t, _) \<leftarrow> settled L E t r 60;
       settled_held_are L E t account 40 0 }) }"

definition soft_limit_allows_overage ::
  "'l ledger_ops \<Rightarrow> (nat \<Rightarrow> env) \<Rightarrow> 'l bench \<Rightarrow> 'l bench option" where
  "soft_limit_allows_overage L E t = do {
     (t, account) \<leftarrow> open_org L E False t;
     t \<leftarrow> granted L E t account 50;
     (case fresh_reservation E t of (t, r) \<Rightarrow> do {
       (t, allowed) \<leftarrow> reserved L E t (hold_request account r 80 Soft None None);
       assert_that (is_allowed allowed);
       t \<leftarrow> held_is L E t account 80;
       (case fresh_reservation E t of (t, r') \<Rightarrow> do {
         (t, denied) \<leftarrow> reserved L E t (hold_request account r' 80 Hard None None);
         assert_that (\<not> is_allowed denied);
         Some t }) }) }"

definition settle_after_void_is_refused ::
  "'l ledger_ops \<Rightarrow> (nat \<Rightarrow> env) \<Rightarrow> 'l bench \<Rightarrow> 'l bench option" where
  "settle_after_void_is_refused L E t = do {
     (t, account) \<leftarrow> funded L E t 100;
     (case fresh_reservation E t of (t, r) \<Rightarrow> do {
       (t, _) \<leftarrow> reserved L E t (hold_request account r 40 Hard None None);
       (t, _) \<leftarrow> expect E t (\<lambda>_ l. be_void L l r);
       (t, reply) \<leftarrow> ask E t (\<lambda>e l. be_settle L e l (settle_at r 30));
       assert_that (reply = Inl (ReservationClosed r));
       settled_held_are L E t account 100 0 }) }"

definition void_after_settle_is_refused ::
  "'l ledger_ops \<Rightarrow> (nat \<Rightarrow> env) \<Rightarrow> 'l bench \<Rightarrow> 'l bench option" where
  "void_after_settle_is_refused L E t = do {
     (t, account) \<leftarrow> funded L E t 100;
     (case fresh_reservation E t of (t, r) \<Rightarrow> do {
       (t, _) \<leftarrow> reserved L E t (hold_request account r 40 Hard None None);
       (t, _) \<leftarrow> settled L E t r 30;
       (t, reply) \<leftarrow> ask E t (\<lambda>_ l. be_void L l r);
       assert_that (reply = Inl (ReservationClosed r));
       settled_held_are L E t account 70 0 }) }"

definition charge_records_usage ::
  "'l ledger_ops \<Rightarrow> (nat \<Rightarrow> env) \<Rightarrow> 'l bench \<Rightarrow> 'l bench option" where
  "charge_records_usage L E t = do {
     (t, account) \<leftarrow> funded L E t 100;
     let q = charge_of account 30 None ''charge-1'';
     (t, _) \<leftarrow> charged L E t q;
     t \<leftarrow> settled_is L E t account 70;
     (t, _) \<leftarrow> charged L E t q;
     settled_is L E t account 70 }"

section \<open>Leases\<close>

definition leased ::
  "'l ledger_ops \<Rightarrow> (nat \<Rightarrow> env) \<Rightarrow> 'l bench \<Rightarrow> account_id \<Rightarrow> int \<Rightarrow> ('l bench \<times> ledger_account) option" where
  "leased L E t parent n =
     expect E t (\<lambda>e l. be_open_lease L e l \<lparr>lease_parent = parent, lease_amount = credits n\<rparr>)"

definition lease_moves_credits_and_conserves ::
  "'l ledger_ops \<Rightarrow> deps \<Rightarrow> (nat \<Rightarrow> env) \<Rightarrow> 'l bench \<Rightarrow> 'l bench option" where
  "lease_moves_credits_and_conserves L D E t = do {
     (t, parent) \<leftarrow> funded L E t 100;
     (t, lease) \<leftarrow> leased L E t parent 40;
     assert_that (acct_scope lease = Session);
     assert_that (acct_parent_id lease = Some parent);
     t \<leftarrow> settled_is L E t parent 60;
     settled_available_are L D E t (acct_id lease) 40 40 }"

definition lease_spend_then_close_returns_remainder ::
  "'l ledger_ops \<Rightarrow> (nat \<Rightarrow> env) \<Rightarrow> 'l bench \<Rightarrow> 'l bench option" where
  "lease_spend_then_close_returns_remainder L E t = do {
     (t, parent) \<leftarrow> funded L E t 100;
     (t, lease) \<leftarrow> leased L E t parent 40;
     (case fresh_reservation E t of (t, r) \<Rightarrow> do {
       (t, outcome) \<leftarrow> reserved L E t (hold_request (acct_id lease) r 30 Hard None None);
       assert_that (is_allowed outcome);
       (t, _) \<leftarrow> settled L E t r 25;
       t \<leftarrow> settled_is L E t (acct_id lease) 15;
       (t, returned) \<leftarrow> expect E t (\<lambda>e l. be_close_lease L e l (acct_id lease));
       assert_that (returned = credits 15);
       t \<leftarrow> settled_is L E t parent 75;
       settled_is L E t (acct_id lease) 0 }) }"

definition over_lease_is_refused ::
  "'l ledger_ops \<Rightarrow> (nat \<Rightarrow> env) \<Rightarrow> 'l bench \<Rightarrow> 'l bench option" where
  "over_lease_is_refused L E t = do {
     (t, parent) \<leftarrow> funded L E t 10;
     (t, reply) \<leftarrow> ask E t (\<lambda>e l. be_open_lease L e l \<lparr>lease_parent = parent, lease_amount = credits 25\<rparr>);
     assert_that (case reply of Inl (InsufficientFunds _ _) \<Rightarrow> True | _ \<Rightarrow> False);
     settled_is L E t parent 10 }"

section \<open>Expiry\<close>

definition UNIX_EPOCH :: time where
  "UNIX_EPOCH = 0"

definition swept_is :: "'l ledger_ops \<Rightarrow> (nat \<Rightarrow> env) \<Rightarrow> 'l bench \<Rightarrow> nat \<Rightarrow> 'l bench option" where
  "swept_is L E t n = (case clock E t of (t, now) \<Rightarrow> do {
     (t, swept) \<leftarrow> expect E t (\<lambda>_ l. be_void_expired_holds L l now);
     assert_that (swept = n);
     Some t })"

definition expired_holds_are_swept ::
  "'l ledger_ops \<Rightarrow> (nat \<Rightarrow> env) \<Rightarrow> 'l bench \<Rightarrow> 'l bench option" where
  "expired_holds_are_swept L E t = do {
     (t, account) \<leftarrow> funded L E t 100;
     (case fresh_reservation E t of (t, expired) \<Rightarrow> do {
       (t, _) \<leftarrow> reserved L E t (hold_request account expired 40 Hard (Some UNIX_EPOCH) None);
       (case fresh_reservation E t of (t, live) \<Rightarrow> do {
         (t, _) \<leftarrow> reserved L E t (hold_request account live 10 Hard None None);
         t \<leftarrow> held_is L E t account 50;
         t \<leftarrow> swept_is L E t 1;
         t \<leftarrow> held_is L E t account 10;
         (t, _) \<leftarrow> settled L E t live 10;
         settled_held_are L E t account 90 0 }) }) }"

text \<open>\<open>time::Duration::days\<close>, in nanoseconds.\<close>

definition days :: "int \<Rightarrow> int" where
  "days n = n * 86400 * 1000000000"

definition extend_hold_keeps_it_alive ::
  "'l ledger_ops \<Rightarrow> (nat \<Rightarrow> env) \<Rightarrow> 'l bench \<Rightarrow> 'l bench option" where
  "extend_hold_keeps_it_alive L E t = do {
     (t, account) \<leftarrow> funded L E t 100;
     (case fresh_reservation E t of (t, r) \<Rightarrow> do {
       (t, _) \<leftarrow> reserved L E t (hold_request account r 40 Hard (Some UNIX_EPOCH) None);
       (case clock E t of (t, now) \<Rightarrow> do {
         let far_future = now + days 3650;
         (t, _) \<leftarrow> expect E t (\<lambda>_ l. be_extend_hold L l r far_future);
         t \<leftarrow> swept_is L E t 0;
         t \<leftarrow> held_is L E t account 40;
         (t, _) \<leftarrow> settled L E t r 30;
         (t, reply) \<leftarrow> ask E t (\<lambda>_ l. be_extend_hold L l r far_future);
         assert_that (reply = Inl (ReservationClosed r));
         Some t }) }) }"

section \<open>Refunds and reversals\<close>

definition refund_credits_back ::
  "'l ledger_ops \<Rightarrow> (nat \<Rightarrow> env) \<Rightarrow> 'l bench \<Rightarrow> 'l bench option" where
  "refund_credits_back L E t = do {
     (t, account) \<leftarrow> funded L E t 100;
     (case fresh_reservation E t of (t, r) \<Rightarrow> do {
       (t, _) \<leftarrow> reserved L E t (hold_request account r 40 Hard None None);
       (t, entry) \<leftarrow> settled L E t r 30;
       t \<leftarrow> settled_is L E t account 70;
       let q = refund_of account 30 (Some (entry_id entry)) (Some ''refund-1'');
       (t, refund) \<leftarrow> refunded L E t q;
       assert_that (reverses_entry_id refund = Some (entry_id entry));
       t \<leftarrow> settled_is L E t account 100;
       (t, again) \<leftarrow> refunded L E t q;
       assert_that (entry_id again = entry_id refund);
       t \<leftarrow> settled_is L E t account 100;
       (t, reply) \<leftarrow> ask E t (\<lambda>e l. be_refund L e l (refund_of account 0 None None));
       assert_that (reply = Inl NonPositiveAmount);
       Some t }) }"

definition reversed ::
  "'l ledger_ops \<Rightarrow> (nat \<Rightarrow> env) \<Rightarrow> 'l bench \<Rightarrow> account_id \<Rightarrow> entry_id \<Rightarrow> run_id \<Rightarrow> string
     \<Rightarrow> ('l bench \<times> ledger_entry option) option" where
  "reversed L E t account c run key =
     expect E t (\<lambda>e l. be_reverse_charge L e l (reverse_of account c run key))"

definition reverse_charge_reverses_remainder_once ::
  "'l ledger_ops \<Rightarrow> (nat \<Rightarrow> env) \<Rightarrow> 'l bench \<Rightarrow> 'l bench option" where
  "reverse_charge_reverses_remainder_once L E t = do {
     (t, account) \<leftarrow> funded L E t 100;
     (case fresh_run E t of (t, run) \<Rightarrow> do {
       (t, charge) \<leftarrow> charged L E t (charge_of account 40 (Some run) ''c'');
       (t, first) \<leftarrow> reversed L E t account (entry_id charge) run ''rc'';
       first \<leftarrow> first;
       assert_that (delta_credits first = credits 40);
       t \<leftarrow> settled_is L E t account 100;
       (t, retry) \<leftarrow> reversed L E t account (entry_id charge) run ''rc'';
       assert_that (map_option entry_id retry = Some (entry_id first));
       (t, none) \<leftarrow> reversed L E t account (entry_id charge) run ''rc-2'';
       assert_that (none = None);
       t \<leftarrow> settled_is L E t account 100;
       (t, charge2) \<leftarrow> charged L E t (charge_of account 50 (Some run) ''c2'');
       (t, _) \<leftarrow> refunded L E t (refund_of account 20 (Some (entry_id charge2)) (Some ''manual''));
       (t, remainder) \<leftarrow> reversed L E t account (entry_id charge2) run ''rc-c2'';
       remainder \<leftarrow> remainder;
       assert_that (delta_credits remainder = credits 30);
       settled_is L E t account 100 }) }"

section \<open>Voiding a run\<close>

definition summary_is :: "run_void_summary \<Rightarrow> nat \<Rightarrow> int \<Rightarrow> bool" where
  "summary_is sm refunds n = (charges_refunded sm = refunds \<and> credits_refunded sm = credits n)"

definition void_run_reverses_holds_and_settles ::
  "'l ledger_ops \<Rightarrow> (nat \<Rightarrow> env) \<Rightarrow> 'l bench \<Rightarrow> 'l bench option" where
  "void_run_reverses_holds_and_settles L E t = do {
     (t, account) \<leftarrow> funded L E t 100;
     (case fresh_run E t of (t, run) \<Rightarrow>
      case fresh_reservation E t of (t, open_hold) \<Rightarrow> do {
       (t, _) \<leftarrow> reserved L E t (hold_request account open_hold 40 Hard None (Some run));
       (case fresh_reservation E t of (t, settled_hold) \<Rightarrow> do {
         (t, _) \<leftarrow> reserved L E t (hold_request account settled_hold 30 Hard None (Some run));
         (t, _) \<leftarrow> settled L E t settled_hold 20;
         (case fresh_run E t of (t, other_run) \<Rightarrow>
          case fresh_reservation E t of (t, other_hold) \<Rightarrow> do {
           (t, _) \<leftarrow> reserved L E t (hold_request account other_hold 10 Hard None (Some other_run));
           t \<leftarrow> settled_held_are L E t account 80 50;
           (t, summary) \<leftarrow> voided_run L E t run;
           assert_that (holds_released summary = 1 \<and> summary_is summary 1 20);
           t \<leftarrow> settled_held_are L E t account 100 10;
           (t, reply) \<leftarrow> ask E t (\<lambda>e l. be_settle L e l (settle_at open_hold 5));
           assert_that (reply = Inl (ReservationClosed open_hold));
           (t, again) \<leftarrow> voided_run L E t run;
           assert_that (holds_released again = 0 \<and> summary_is again 0 0);
           t \<leftarrow> settled_held_are L E t account 100 10;
           (t, _) \<leftarrow> settled L E t other_hold 10;
           settled_is L E t account 90 }) }) }) }"

definition void_run_reverses_direct_charges ::
  "'l ledger_ops \<Rightarrow> (nat \<Rightarrow> env) \<Rightarrow> 'l bench \<Rightarrow> 'l bench option" where
  "void_run_reverses_direct_charges L E t = do {
     (t, account) \<leftarrow> funded L E t 100;
     (case fresh_run E t of (t, run) \<Rightarrow> case fresh_run E t of (t, other_run) \<Rightarrow> do {
       (t, _) \<leftarrow> charged L E t (charge_of account 30 (Some run) ''c-run-1'');
       (t, _) \<leftarrow> charged L E t (charge_of account 25 (Some run) ''c-run-2'');
       (t, _) \<leftarrow> charged L E t (charge_of account 10 (Some other_run) ''c-other'');
       t \<leftarrow> settled_is L E t account 35;
       (t, summary) \<leftarrow> voided_run L E t run;
       assert_that (summary_is summary 2 55);
       t \<leftarrow> settled_is L E t account 90;
       (t, again) \<leftarrow> voided_run L E t run;
       assert_that (summary_is again 0 0);
       settled_is L E t account 90 }) }"

definition void_run_does_not_double_refund_corrected_charges ::
  "'l ledger_ops \<Rightarrow> (nat \<Rightarrow> env) \<Rightarrow> 'l bench \<Rightarrow> 'l bench option" where
  "void_run_does_not_double_refund_corrected_charges L E t = do {
     (t, account) \<leftarrow> funded L E t 100;
     (case fresh_run E t of (t, run) \<Rightarrow> do {
       (t, c1) \<leftarrow> charged L E t (charge_of account 30 (Some run) ''c1'');
       (t, _) \<leftarrow> refunded L E t (refund_of account 30 (Some (entry_id c1)) (Some ''manual-c1''));
       (t, c2) \<leftarrow> charged L E t (charge_of account 40 (Some run) ''c2'');
       (t, _) \<leftarrow> refunded L E t (refund_of account 10 (Some (entry_id c2)) (Some ''manual-c2''));
       t \<leftarrow> settled_is L E t account 70;
       (t, summary) \<leftarrow> voided_run L E t run;
       assert_that (summary_is summary 1 30);
       t \<leftarrow> settled_is L E t account 100;
       (t, again) \<leftarrow> voided_run L E t run;
       assert_that (summary_is again 0 0);
       settled_is L E t account 100 }) }"

definition void_run_ignores_unlinked_credit_notes ::
  "'l ledger_ops \<Rightarrow> (nat \<Rightarrow> env) \<Rightarrow> 'l bench \<Rightarrow> 'l bench option" where
  "void_run_ignores_unlinked_credit_notes L E t = do {
     (t, account) \<leftarrow> funded L E t 100;
     (case fresh_run E t of (t, run) \<Rightarrow> do {
       (t, _) \<leftarrow> charged L E t (charge_of account 30 (Some run) ''c'');
       (t, _) \<leftarrow> refunded L E t (refund_of account 30 None (Some ''goodwill''));
       t \<leftarrow> settled_is L E t account 100;
       (t, summary) \<leftarrow> voided_run L E t run;
       assert_that (summary_is summary 1 30);
       settled_is L E t account 130 }) }"

section \<open>The scenarios in order\<close>

definition run_all_scenarios ::
  "'l ledger_ops \<Rightarrow> deps \<Rightarrow> (nat \<Rightarrow> env) \<Rightarrow> 'l bench \<Rightarrow> 'l bench option" where
  "run_all_scenarios L D E t = do {
     t \<leftarrow> grant_increases_balance L D E t;
     t \<leftarrow> reserve_denies_when_insufficient L E t;
     t \<leftarrow> refund_credits_back L E t;
     t \<leftarrow> reverse_charge_reverses_remainder_once L E t;
     t \<leftarrow> void_run_reverses_holds_and_settles L E t;
     t \<leftarrow> void_run_reverses_direct_charges L E t;
     t \<leftarrow> void_run_does_not_double_refund_corrected_charges L E t;
     t \<leftarrow> void_run_ignores_unlinked_credit_notes L E t;
     t \<leftarrow> expired_holds_are_swept L E t;
     t \<leftarrow> extend_hold_keeps_it_alive L E t;
     t \<leftarrow> reserve_hold_then_settle_charges_actual L D E t;
     t \<leftarrow> reserve_and_settle_are_idempotent L E t;
     t \<leftarrow> grant_is_idempotent_on_key L E t;
     t \<leftarrow> void_releases_a_failed_run L D E t;
     t \<leftarrow> settle_overage_charges_actual L E t;
     t \<leftarrow> soft_limit_allows_overage L E t;
     t \<leftarrow> settle_after_void_is_refused L E t;
     t \<leftarrow> void_after_settle_is_refused L E t;
     t \<leftarrow> charge_records_usage L E t;
     t \<leftarrow> lease_moves_credits_and_conserves L D E t;
     t \<leftarrow> lease_spend_then_close_returns_remainder L E t;
     over_lease_is_refused L E t }"

section \<open>Voiding one of many runs\<close>

text \<open>
  \<open>i64\<close> arithmetic panics when it overflows, as it does in the builds that run tests. The counts of
  a \<open>u64\<close> are bounded by the length of a slice, so they are natural numbers.
\<close>

definition i64 :: "int \<Rightarrow> int option" where
  "i64 n = (if - (2 ^ 63) \<le> n \<and> n < 2 ^ 63 then Some n else None)"

fun i64_sum :: "int \<Rightarrow> int list \<Rightarrow> int option" where
  "i64_sum acc [] = Some acc"
| "i64_sum acc (n # ns) = do { acc \<leftarrow> i64 (acc + n); i64_sum acc ns }"

record hold_spec =
  spec_run :: "8 word"
  spec_amount :: "32 word"
  spec_settle :: "32 word option"

definition spec_credits :: "hold_spec \<Rightarrow> int" where
  "spec_credits spec = uint (max (spec_amount spec) 1)"

record void_tally =
  target_open_amount :: int
  target_open_count :: nat
  target_refund_amount :: int
  target_refund_count :: nat

definition run_count :: "hold_spec list \<Rightarrow> 8 word \<Rightarrow> nat" where
  "run_count specs target = fold max (map (unat \<circ> spec_run) specs) (unat target) + 1"

fun fresh_runs :: "(nat \<Rightarrow> env) \<Rightarrow> 'l bench \<Rightarrow> nat \<Rightarrow> 'l bench \<times> run_id list" where
  "fresh_runs E t 0 = (t, [])"
| "fresh_runs E t (Suc n) =
     (case fresh_run E t of (t, run) \<Rightarrow> case fresh_runs E t n of (t, rest) \<Rightarrow> (t, run # rest))"

definition run_at :: "run_id list \<Rightarrow> 8 word \<Rightarrow> run_id option" where
  "run_at run_ids i = (if unat i < length run_ids then Some (run_ids ! unat i) else None)"

definition apply_spec ::
  "'l ledger_ops \<Rightarrow> (nat \<Rightarrow> env) \<Rightarrow> account_id \<Rightarrow> run_id list \<Rightarrow> 8 word \<Rightarrow> 'l bench \<Rightarrow> void_tally \<Rightarrow> hold_spec
     \<Rightarrow> ('l bench \<times> void_tally) option" where
  "apply_spec L E account run_ids target_run t v spec = do {
     let amount = spec_credits spec;
     (case fresh_reservation E t of (t, reservation) \<Rightarrow> do {
       run \<leftarrow> run_at run_ids (spec_run spec);
       (t, outcome) \<leftarrow> reserved L E t (hold_request account reservation amount Hard None (Some run));
       assert_that (is_allowed outcome);
       let is_target = (spec_run spec = target_run);
       (case spec_settle spec of
          None \<Rightarrow>
            if is_target
            then do {
              n \<leftarrow> i64 (target_open_amount v + amount);
              Some (t, v\<lparr>target_open_amount := n, target_open_count := Suc (target_open_count v)\<rparr>) }
            else Some (t, v)
        | Some actual \<Rightarrow> do {
            let actual = min (uint actual) amount;
            (t, _) \<leftarrow> settled L E t reservation actual;
            if is_target \<and> 0 < actual
            then do {
              n \<leftarrow> i64 (target_refund_amount v + actual);
              Some (t, v\<lparr>target_refund_amount := n, target_refund_count := Suc (target_refund_count v)\<rparr>) }
            else Some (t, v) }) }) }"

fun apply_specs ::
  "'l ledger_ops \<Rightarrow> (nat \<Rightarrow> env) \<Rightarrow> account_id \<Rightarrow> run_id list \<Rightarrow> 8 word \<Rightarrow> 'l bench \<Rightarrow> void_tally \<Rightarrow> hold_spec list
     \<Rightarrow> ('l bench \<times> void_tally) option" where
  "apply_specs L E account run_ids target_run t v [] = Some (t, v)"
| "apply_specs L E account run_ids target_run t v (spec # specs) = do {
     (t, v) \<leftarrow> apply_spec L E account run_ids target_run t v spec;
     apply_specs L E account run_ids target_run t v specs }"

definition void_run_property ::
  "'l ledger_ops \<Rightarrow> deps \<Rightarrow> (nat \<Rightarrow> env) \<Rightarrow> 'l bench \<Rightarrow> hold_spec list \<Rightarrow> 8 word \<Rightarrow> 'l bench option" where
  "void_run_property L D E t specs target_run = do {
     total \<leftarrow> i64_sum 0 (map spec_credits specs);
     (t, account) \<leftarrow> open_no_overdraft_org L E t;
     total \<leftarrow> i64 (total + 1);
     t \<leftarrow> granted L E t account total;
     (case fresh_runs E t (run_count specs target_run) of (t, run_ids) \<Rightarrow> do {
       (t, v) \<leftarrow> apply_specs L E account run_ids target_run t
          \<lparr>target_open_amount = 0, target_open_count = 0, target_refund_amount = 0,
           target_refund_count = 0\<rparr> specs;
       (t, before) \<leftarrow> balance_at L E t account;
       run \<leftarrow> run_at run_ids target_run;
       (t, summary) \<leftarrow> voided_run L E t run;
       assert_that (holds_released summary = target_open_count v);
       assert_that (summary_is summary (target_refund_count v) (target_refund_amount v));
       (t, after) \<leftarrow> balance_at L E t account;
       settled_after \<leftarrow> dec_add D (bal_settled before) (credits (target_refund_amount v));
       assert_that (bal_settled after = settled_after);
       held_after \<leftarrow> dec_sub D (bal_held before) (credits (target_open_amount v));
       assert_that (bal_held after = held_after);
       (t, again) \<leftarrow> voided_run L E t run;
       assert_that (holds_released again = 0);
       assert_that (summary_is again 0 0);
       (t, stable) \<leftarrow> balance_at L E t account;
       assert_that (bal_settled stable = bal_settled after \<and> bal_held stable = bal_held after);
       Some t }) }"

section \<open>Checking a backend against a model of its balance\<close>

datatype op =
    OGrant "32 word"
  | OSpend "32 word" "32 word"
  | OVoid "32 word"

fun apply_op ::
  "'l ledger_ops \<Rightarrow> (nat \<Rightarrow> env) \<Rightarrow> account_id \<Rightarrow> 'l bench \<Rightarrow> int \<Rightarrow> op \<Rightarrow> ('l bench \<times> int) option" where
  "apply_op L E account t expected_settled (OGrant n) = do {
     t \<leftarrow> granted L E t account (uint n);
     expected_settled \<leftarrow> i64 (expected_settled + uint n);
     Some (t, expected_settled) }"
| "apply_op L E account t expected_settled (OSpend asked actual) =
     (case fresh_reservation E t of (t, reservation) \<Rightarrow> do {
        (t, outcome) \<leftarrow> reserved L E t (hold_request account reservation (uint asked) Hard None None);
        if uint asked \<le> expected_settled
        then do {
          assert_that (is_allowed outcome);
          (t, _) \<leftarrow> settled L E t reservation (uint (min actual asked));
          expected_settled \<leftarrow> i64 (expected_settled - uint (min actual asked));
          Some (t, expected_settled) }
        else do {
          assert_that (\<not> is_allowed outcome);
          Some (t, expected_settled) } })"
| "apply_op L E account t expected_settled (OVoid asked) =
     (case fresh_reservation E t of (t, reservation) \<Rightarrow> do {
        (t, _) \<leftarrow> reserved L E t (hold_request account reservation (uint asked) Hard None None);
        (t, _) \<leftarrow> expect E t (\<lambda>_ l. be_void L l reservation);
        Some (t, expected_settled) })"

fun check_ops ::
  "'l ledger_ops \<Rightarrow> deps \<Rightarrow> (nat \<Rightarrow> env) \<Rightarrow> account_id \<Rightarrow> 'l bench \<Rightarrow> int \<Rightarrow> op list \<Rightarrow> 'l bench option" where
  "check_ops L D E account t expected_settled [] = Some t"
| "check_ops L D E account t expected_settled (x # xs) = do {
     (t, expected_settled) \<leftarrow> apply_op L E account t expected_settled x;
     (t, b) \<leftarrow> balance_at L E t account;
     assert_that (bal_settled b = credits expected_settled);
     assert_that (bal_held b = 0);
     a \<leftarrow> available D b;
     assert_that (\<not> is_negative a);
     check_ops L D E account t expected_settled xs }"

definition check_against_model ::
  "'l ledger_ops \<Rightarrow> deps \<Rightarrow> (nat \<Rightarrow> env) \<Rightarrow> 'l bench \<Rightarrow> op list \<Rightarrow> 'l bench option" where
  "check_against_model L D E t ops = do {
     (t, account) \<leftarrow> open_no_overdraft_org L E t;
     check_ops L D E account t 0 ops }"

end
