(* ===== verification/Ledger_Moved.thy ===== *)
theory Ledger_Moved
  imports Ledger_Props
begin

text \<open>
  What a run void moves, to the credit. The dues of a run are the settle entries of its holds and its
  direct charges, each with the account it was posted on. Voiding the run credits every account with
  exactly what is still unreversed of its dues and frees exactly the run's open holds; the summary
  counts both. The relation \<open>vr_moved\<close> says so of any stretch of the two loops, and composes.
\<close>

section \<open>Dues\<close>

definition owed :: "state \<Rightarrow> entry_id \<Rightarrow> credit" where
  "owed s c = max 0 (remainder_of s c)"

definition member_dues :: "(reservation_id \<times> hold) list \<Rightarrow> (entry_id \<times> account_id) list" where
  "member_dues ms = concat (map (\<lambda>(_, h). case hold_settle_entry h of
      Some c \<Rightarrow> if hold_status h = Settled then [(c, hold_account h)] else []
    | None \<Rightarrow> []) ms)"

definition run_dues :: "state \<Rightarrow> run_id \<Rightarrow> (entry_id \<times> account_id) list" where
  "run_dues s run = member_dues (run_members s run) @ run_charges s run"

definition open_members :: "(reservation_id \<times> hold) list \<Rightarrow> (reservation_id \<times> hold) list" where
  "open_members ms = filter (\<lambda>(_, h). hold_status h = Open) ms"

definition owed_to :: "state \<Rightarrow> account_id \<Rightarrow> (entry_id \<times> account_id) list \<Rightarrow> credit" where
  "owed_to s b dues = sum_list (map (\<lambda>(c, a). if a = b then owed s c else 0) dues)"

definition owed_total :: "state \<Rightarrow> (entry_id \<times> account_id) list \<Rightarrow> credit" where
  "owed_total s dues = sum_list (map (\<lambda>(c, _). owed s c) dues)"

definition held_by :: "account_id \<Rightarrow> (reservation_id \<times> hold) list \<Rightarrow> credit" where
  "held_by b ms = sum_list (map (\<lambda>(_, h). if hold_account h = b then hold_amount h else 0) ms)"

definition unpaid :: "state \<Rightarrow> (entry_id \<times> account_id) list \<Rightarrow> nat" where
  "unpaid s dues = length (filter (\<lambda>(c, _). 0 < remainder_of s c) dues)"

lemma member_dues_simps [simp]:
  "member_dues [] = []" "member_dues (ms @ ns) = member_dues ms @ member_dues ns"
  by (simp_all add: member_dues_def)

lemma open_members_simps [simp]:
  "open_members [] = []" "open_members (ms @ ns) = open_members ms @ open_members ns"
  by (simp_all add: open_members_def)

lemma dues_sums [simp]:
  "owed_to s b [] = 0" "owed_to s b (d @ d') = owed_to s b d + owed_to s b d'"
  "owed_total s [] = 0" "owed_total s (d @ d') = owed_total s d + owed_total s d'"
  "held_by b [] = 0" "held_by b (ms @ ns) = held_by b ms + held_by b ns"
  "unpaid s [] = 0" "unpaid s (d @ d') = unpaid s d + unpaid s d'"
  by (simp_all add: owed_to_def owed_total_def held_by_def unpaid_def)

lemma owed_cong:
  assumes "\<And>c. c \<in> fst ` set dues \<Longrightarrow> remainder_of s c = remainder_of t c"
  shows "owed_to s b dues = owed_to t b dues" "unpaid s dues = unpaid t dues"
    "owed_total s dues = owed_total t dues"
  using assms unfolding owed_to_def unpaid_def owed_total_def owed_def
  by (induction dues) (auto simp: image_iff)

section \<open>One stretch of the loops\<close>

definition vr_moved ::
  "(entry_id \<times> account_id) list \<Rightarrow> (reservation_id \<times> hold) list \<Rightarrow> vr_state \<Rightarrow> vr_state \<Rightarrow> bool" where
  "vr_moved dues ms v v' \<longleftrightarrow> (case (v, v') of ((s, _, sm), (s', _, sm')) \<Rightarrow>
     charges_refunded sm' = charges_refunded sm + unpaid s dues \<and>
     credits_refunded sm' = credits_refunded sm + owed_total s dues \<and>
     (\<forall>b. b \<noteq> SYSTEM_ACCOUNT \<longrightarrow> settled_of s' b = settled_of s b + owed_to s b dues) \<and>
     (\<forall>b. held_of s' b = held_of s b - held_by b ms) \<and>
     (\<forall>c \<in> entry_ids s. c \<notin> fst ` set dues \<longrightarrow> remainder_of s' c = remainder_of s c) \<and>
     entry_ids s \<subseteq> entry_ids s')"

lemma vr_moved_refl: "vr_moved [] [] (s, n, sm) (s, n', sm)"
  by (simp add: vr_moved_def)

lemma vr_moved_trans:
  assumes "vr_moved d ms (s, n, sm) (s', n', sm')" and "vr_moved d' ms' (s', n', sm') (s'', n'', sm'')"
    and "fst ` set d' \<subseteq> entry_ids s" and "fst ` set d \<inter> fst ` set d' = {}"
  shows "vr_moved (d @ d') (ms @ ms') (s, n, sm) (s'', n'', sm'')"
proof -
  have "remainder_of s' c = remainder_of s c" if "c \<in> fst ` set d'" for c
  proof -
    have "c \<in> entry_ids s" "c \<notin> fst ` set d" using assms(3,4) that by blast+
    with assms(1) show ?thesis by (simp add: vr_moved_def)
  qed
  then have "owed_to s' b d' = owed_to s b d'" "unpaid s' d' = unpaid s d'"
    "owed_total s' d' = owed_total s d'" for b
    by (simp_all only: owed_cong [of d' s' s])
  then show ?thesis using assms(1,2) by (auto simp: vr_moved_def image_Un)
qed

lemma vr_refund_moved:
  assumes "exact_sums D" and "fresh_ids E n k s" and "n < k"
    and "vr_refund D E (s, n, sm) a c q run key = Some (s', n', sm')"
  shows "vr_moved [(c, a)] [] (s, n, sm) (s', n', sm')"
  using assms
proof (cases rule: vr_refund_cases)
  case whole
  then show ?thesis by (auto simp: vr_moved_def unpaid_def owed_def owed_to_def owed_total_def)
next
  case (posted e)
  have "settled_of s' b = settled_of s b + (if b = a then remainder_of s c else 0)" if "b \<noteq> SYSTEM_ACCOUNT" for b
    using posted that by (auto elim!: kstep_postE)
  moreover have "held_of s' b = held_of s b" for b using posted(1) by (auto elim!: kstep_postE)
  moreover have "remainder_of s' i = remainder_of s i" if "i \<in> entry_ids s" "i \<noteq> c" for i
    using remainder_post [OF posted(1) that(1)] posted that by auto
  moreover have "entry_ids s \<subseteq> entry_ids s'" using entry_ids_post [OF posted(1)] by blast
  ultimately show ?thesis using posted by (auto simp: vr_moved_def unpaid_def owed_def owed_to_def owed_total_def)
qed

section \<open>The two loops\<close>

lemma vr_charges_moved:
  assumes "exact_sums D" and "fold_opt (vr_charge D E run) (s, n, sm) cs = Some (s', n', sm')"
    and "fresh_ids E n k s" and "n + length cs \<le> k" and "fst ` set cs \<subseteq> entry_ids s"
    and "distinct (map fst cs)"
  shows "vr_moved cs [] (s, n, sm) (s', n', sm')"
  using assms(2-)
proof (induction cs arbitrary: s n sm)
  case Nil
  then show ?case by (simp add: vr_moved_refl)
next
  case (Cons m cs)
  obtain c a where m: "m = (c, a)" by (cases m)
  from Cons.prems(1) obtain s1 n1 sm1 where
    1: "vr_charge D E run (s, n, sm) m = Some (s1, n1, sm1)" and
    2: "fold_opt (vr_charge D E run) (s1, n1, sm1) cs = Some (s', n', sm')"
    by (auto simp: Option.bind_eq_Some_conv)
  have c: "c \<in> entry_ids s" and nk: "n < k" using Cons.prems m by auto
  note refund = 1 [unfolded vr_charge_def m prod.case]
  note step = vr_refund_moved [OF assms(1) Cons.prems(2) nk refund]
  note s1 = vr_refund_effect [OF assms(1) Cons.prems(2) nk c refund]
  have sub: "entry_ids s \<subseteq> entry_ids s1" using step by (auto simp: vr_moved_def)
  have "vr_moved cs [] (s1, n1, sm1) (s', n', sm')"
    using s1 Cons.prems sub by (intro Cons.IH [OF 2]) auto
  from vr_moved_trans [OF step this] Cons.prems(4,5) show ?case by (auto simp: m)
qed

lemma vr_hold_moved:
  assumes "exact_sums D" and "vr_hold D E run (s, n, sm) (r, h) = Some (s', n', sm')"
    and "fresh_ids E n k s" and "n < k" and "map_of (holds s) r = Some h" and "distinct (map fst (holds s))"
  shows "vr_moved (member_dues [(r, h)]) (open_members [(r, h)]) (s, n, sm) (s', n', sm') \<and>
         map fst (holds s') = map fst (holds s)"
proof (cases "hold_status h")
  case Voided
  then show ?thesis using assms(2)
    by (auto simp: vr_hold_def vr_moved_refl member_dues_def open_members_def split: option.split)
next
  case Open
  then have *: "s' = s\<lparr>holds := AList.update r (h\<lparr>hold_status := Voided\<rparr>) (holds s)\<rparr>"
    "sm' = sm\<lparr>holds_released := Suc (holds_released sm)\<rparr>"
    using assms(2,5) by (auto simp: vr_hold_def)
  have "held_of s' b = held_of s b - (if hold_account h = b then hold_amount h else 0)" for b
    unfolding *(1) held_of_update [OF assms(6,5)] using Open by (simp add: open_amount_def open_against_def)
  moreover have "map fst (holds s') = map fst (holds s)"
    using map_of_mem_keys [OF assms(5)] by (simp add: *(1) update_keys)
  moreover have "settled_of s' b = settled_of s b" "remainder_of s' c = remainder_of s c"
    "entry_ids s' = entry_ids s" for b c by (simp_all add: *(1))
  moreover have "member_dues [(r, h)] = []" "open_members [(r, h)] = [(r, h)]"
    using Open by (auto simp: member_dues_def open_members_def split: option.split)
  ultimately show ?thesis by (simp add: vr_moved_def held_by_def *(2))
next
  case Settled
  then obtain c where c: "hold_settle_entry h = Some c"
    "vr_refund D E (s, n, sm) (hold_account h) c (Some r) run (run_void_refund_key D run r) = Some (s', n', sm')"
    using assms(2) by (auto simp: vr_hold_def Option.bind_eq_Some_conv)
  have "holds s' = holds s"
    using assms(1,3,4) c(2) by (cases rule: vr_refund_cases) (auto elim!: kstep_postE)
  with vr_refund_moved [OF assms(1,3,4) c(2)] Settled c(1) show ?thesis
    by (simp add: member_dues_def open_members_def)
qed

lemma member_dues_set:
  "fst ` set (member_dues ms) = {c. \<exists>r h. (r, h) \<in> set ms \<and> hold_status h = Settled \<and> hold_settle_entry h = Some c}"
  by (force simp: member_dues_def split: option.splits if_splits)

lemma vr_holds_moved:
  assumes "exact_sums D" and "fold_opt (vr_hold D E run) (s, n, sm) ms = Some (s', n', sm')"
    and "fresh_ids E n k s" and "n + length ms \<le> k" and "distinct (map fst ms)"
    and "\<forall>(r, h) \<in> set ms. map_of (holds s) r = Some h \<and> settle_posted s h"
    and "distinct (map fst (holds s))" and "distinct (map fst (member_dues ms))"
  shows "vr_moved (member_dues ms) (open_members ms) (s, n, sm) (s', n', sm')"
  using assms(2-)
proof (induction ms arbitrary: s n sm)
  case Nil
  then show ?case by (simp add: vr_moved_refl)
next
  case (Cons m ms)
  obtain r h where m: "m = (r, h)" by (cases m)
  from Cons.prems(1) obtain s1 n1 sm1 where
    1: "vr_hold D E run (s, n, sm) (r, h) = Some (s1, n1, sm1)" and
    2: "fold_opt (vr_hold D E run) (s1, n1, sm1) ms = Some (s', n', sm')"
    by (auto simp: m Option.bind_eq_Some_conv)
  have nk: "n < k" and hr: "map_of (holds s) r = Some h" and sp: "settle_posted s h"
    and r: "r \<notin> fst ` set ms" using Cons.prems m by auto
  note s1 = vr_hold_effect [OF assms(1) 1 Cons.prems(2) nk hr sp]
  note step = vr_hold_moved [OF assms(1) 1 Cons.prems(2) nk hr Cons.prems(6)]
  have sub: "entry_ids s \<subseteq> entry_ids s1" using step by (auto simp: vr_moved_def)
  have split: "member_dues (m # ms) = member_dues [(r, h)] @ member_dues ms"
    "open_members (m # ms) = open_members [(r, h)] @ open_members ms"
    by (simp_all add: m flip: member_dues_simps(2) open_members_simps(2))
  have "\<forall>(q, g) \<in> set ms. map_of (holds s1) q = Some g \<and> settle_posted s1 g"
    using Cons.prems(5) s1 r sub by (force simp: settle_posted_def)
  then have IH: "vr_moved (member_dues ms) (open_members ms) (s1, n1, sm1) (s', n', sm')"
    using s1 step Cons.prems by (intro Cons.IH [OF 2]) (auto simp: split)
  have "fst ` set (member_dues [(r, h)]) \<inter> fst ` set (member_dues ms) = {}"
    using Cons.prems(7) unfolding split by simp
  moreover have "fst ` set (member_dues ms) \<subseteq> entry_ids s"
    using Cons.prems(5) unfolding member_dues_set by (fastforce simp: settle_posted_def)
  ultimately show ?case
    unfolding split by (intro vr_moved_trans [OF conjunct1 [OF step] IH])
qed

section \<open>The whole operation\<close>

lemma settle_entries_unique:
  assumes "ledger_inv s" and "map_of (holds s) r = Some h" and "map_of (holds s) r' = Some h'"
    and "hold_status h = Settled" and "hold_status h' = Settled"
    and "hold_settle_entry h = hold_settle_entry h'"
  shows "r = r'"
proof -
  from assms obtain e e' where e: "e \<in> set (entries s)" "hold_settle_entry h = Some (entry_id e)"
    "entry_reservation_id e = Some r" "e' \<in> set (entries s)" "hold_settle_entry h' = Some (entry_id e')"
    "entry_reservation_id e' = Some r'"
    unfolding ledger_inv_def holds_ok_def settle_link_def by blast
  with assms(6) ledger_inv_keys(3) [OF assms(1)] have "e = e'" by (auto simp: distinct_map inj_on_def)
  with e show ?thesis by simp
qed

lemma member_dues_distinct:
  assumes "ledger_inv s" and "\<forall>(r, h) \<in> set ms. map_of (holds s) r = Some h" and "distinct (map fst ms)"
  shows "distinct (map fst (member_dues ms))"
  using assms(2,3)
proof (induction ms)
  case (Cons m ms)
  obtain r h where m: "m = (r, h)" by (cases m)
  have split: "member_dues (m # ms) = member_dues [m] @ member_dues ms"
    by (simp flip: member_dues_simps(2))
  have "fst ` set (member_dues [m]) \<inter> fst ` set (member_dues ms) = {}"
  proof (rule ccontr)
    assume "\<not> ?thesis"
    then obtain c r' h' where c: "hold_status h = Settled" "hold_settle_entry h = Some c" "(r', h') \<in> set ms"
      "hold_status h' = Settled" "hold_settle_entry h' = Some c"
      unfolding member_dues_set m by fastforce
    have "map_of (holds s) r = Some h" "map_of (holds s) r' = Some h'" using Cons.prems(1) c(3) m by auto
    from settle_entries_unique [OF assms(1) this] c have "r = r'" by simp
    then show False using Cons.prems(2) c(3) m by force
  qed
  moreover have "distinct (map fst (member_dues [m]))"
    by (auto simp: member_dues_def m split: option.split)
  ultimately show ?case unfolding split using Cons by (simp add: image_Un)
qed simp

lemma run_charges_distinct: "ledger_inv s \<Longrightarrow> distinct (map fst (run_charges s run))"
  using ledger_inv_keys(3) [of s] by (simp add: run_charges_def comp_def distinct_map_filter)

lemma dues_disjoint:
  assumes "ledger_inv s"
  shows "fst ` set (member_dues (run_members s run)) \<inter> fst ` set (run_charges s run) = {}"
proof (rule ccontr)
  assume "\<not> ?thesis"
  then obtain r h e where *: "map_of (holds s) r = Some h" "hold_status h = Settled"
    "hold_settle_entry h = Some (entry_id e)" "e \<in> set (entries s)" "entry_type e = Usage"
    unfolding member_dues_set by (auto simp: run_members_iff [OF assms] run_charges_def)
  then obtain e' where "e' \<in> set (entries s)" "entry_id e' = entry_id e" "entry_type e' = Settle"
    using assms unfolding ledger_inv_def holds_ok_def settle_link_def by (metis option.inject)
  with * ledger_inv_keys(3) [OF assms] have "e' = e" by (auto simp: distinct_map inj_on_def)
  with * \<open>entry_type e' = Settle\<close> show False by simp
qed

lemma void_run_moved:
  assumes "exact_sums D" and "fresh E s" and "ledger_inv s" and "void_run D E s run = Some (s', x)"
  obtains n sm where "x = Inr sm"
    "vr_moved (run_dues s run) (open_members (run_members s run)) (s, 0, empty_summary) (s', n, sm)"
  using assms(1,2) ledger_inv_keys(2) [OF assms(3)] assms(4)
proof (cases rule: void_run_phases)
  case (1 s1 n1 sm1 n2 sm2 ls1 ls2)
  have ms: "\<forall>(r, h) \<in> set (run_members s run). map_of (holds s) r = Some h \<and> settle_posted s h"
    using run_members_iff [OF assms(3)] ledger_inv_settle_posted [OF assms(3)] by auto
  have dist: "distinct (map fst (run_members s run))"
    using distinct_run_members ledger_inv_keys(2) [OF assms(3)] by blast
  have dues: "distinct (map fst (member_dues (run_members s run)))"
    using ms by (intro member_dues_distinct [OF assms(3) _ dist]) auto
  note m1 = vr_holds_moved [OF assms(1) 1(1) assms(2) run_members_budget dist ms
      ledger_inv_keys(2) [OF assms(3)] dues]
  have sub: "fst ` set (run_charges s run) \<subseteq> entry_ids s1"
    using run_charges_ids m1 by (fastforce simp: vr_moved_def)
  note m2 = vr_charges_moved [OF assms(1) 1(2,4,5) sub run_charges_distinct [OF assms(3)]]
  from vr_moved_trans [OF m1 m2 run_charges_ids dues_disjoint [OF assms(3)]] 1(3) that show ?thesis
    by (simp add: run_dues_def)
qed



end
