(* ===== verification/Conformance_Props.thy ===== *)
theory Conformance_Props
  imports Conformance Ledger_Moved
begin

text \<open>
  The in-memory ledger passes its conformance suite. The two checks that the repository drives with
  random inputs are proved for every input: \<open>check_against_model\<close> for any sequence of grants, spends
  and voids, and \<open>void_run_property\<close> for any mix of holds over any runs. The scenarios, which are
  closed programs, are evaluated.

  The lemmas first describe each call on a well-formed ledger by the state it leaves: \<open>posted e s\<close>
  records an entry and moves its credits, \<open>with_hold r h s\<close> stores a hold.
\<close>

section \<open>States after a call\<close>

definition posted :: "ledger_entry \<Rightarrow> state \<Rightarrow> state" where
  "posted e s = push_entry e (shift SYSTEM_ACCOUNT (- delta_credits e)
     (shift (account_id e) (delta_credits e) s))"

definition with_hold :: "reservation_id \<Rightarrow> hold \<Rightarrow> state \<Rightarrow> state" where
  "with_hold r h s = s\<lparr>holds := AList.update r h (holds s)\<rparr>"

lemma posted_sel [simp]:
  "holds (posted e s) = holds s" "entries (posted e s) = entries s @ [e]"
  "held_of (posted e s) a = held_of s a" "has_account (posted e s) a = has_account s a"
  "entry_ids (posted e s) = insert (entry_id e) (entry_ids s)"
  by (simp_all add: posted_def)

lemma posted_settled [simp]:
  "a \<noteq> SYSTEM_ACCOUNT \<Longrightarrow> has_account s a \<Longrightarrow>
     settled_of (posted e s) a = settled_of s a + (if account_id e = a then delta_credits e else 0)"
  by (auto simp: posted_def)

lemma guarded_posted [simp]: "guarded (posted e s) a = guarded s a"
  by (simp add: guarded_def posted_def map_of_shift split: option.split)

lemma with_hold_sel [simp]:
  "accounts (with_hold r h s) = accounts s" "entries (with_hold r h s) = entries s"
  "holds (with_hold r h s) = AList.update r h (holds s)"
  "settled_of (with_hold r h s) a = settled_of s a" "has_account (with_hold r h s) a = has_account s a"
  "guarded (with_hold r h s) a = guarded s a" "entry_ids (with_hold r h s) = entry_ids s"
  "remainder_of (with_hold r h s) c = remainder_of s c"
  by (simp_all add: with_hold_def has_account_def guarded_def)

lemma held_of_with_hold:
  "map_of (holds s) r = None \<Longrightarrow> held_of (with_hold r h s) a = held_of s a + open_amount a h"
  "distinct (map fst (holds s)) \<Longrightarrow> map_of (holds s) r = Some h0 \<Longrightarrow>
     held_of (with_hold r h s) a = held_of s a - open_amount a h0 + open_amount a h"
  by (simp_all add: with_hold_def held_of_insert held_of_update)

lemma posted_inv:
  assumes "ledger_inv s" and "has_account s (account_id e)" and "entry_id e \<notin> entry_ids s"
    and "paired_account_id e = SYSTEM_ACCOUNT" and "entry_type e \<noteq> Transfer"
    and "balance_after e = settled_of s (account_id e) + delta_credits e" and "reverses_entry_id e = None"
  shows "ledger_inv (posted e s)"
proof -
  have "kstep s (KPost e) (posted e s)"
    unfolding posted_def using assms(2-) by (intro k_post) simp_all
  then show ?thesis using assms(1) by (rule kstep_inv)
qed

section \<open>The calls of the checks\<close>

lemma balance_read:
  assumes "exact_sums D" and "total_sums D" and "has_account s a"
  shows "balance D s a = Some (s, Inr \<lparr>bal_settled = settled_of s a, bal_held = held_of s a\<rparr>)"
  using assms by (auto simp: balance_def has_account_def settled_of_def held_total)

lemma grant_posts:
  assumes "exact_sums D" and "total_sums D" and "has_account s (grant_account q)"
    and "grant_account q \<noteq> SYSTEM_ACCOUNT" and "0 < grant_amount q" and "grant_idempotency_key q = None"
  shows "\<exists>e. grant D E s q = Some (posted e s, Inr e) \<and>
    e = grant_entry E q (settled_of s (grant_account q) + grant_amount q)"
proof -
  obtain s1 b where p: "post_credit D s (grant_account q) (grant_amount q) = Some (s1, b)"
    using post_credit_total [OF assms(1-3)] by blast
  from post_credit_exact [OF assms(1) p] assms(4) have
    "s1 = shift SYSTEM_ACCOUNT (- grant_amount q) (shift (grant_account q) (grant_amount q) s)"
    "b = settled_of s (grant_account q) + grant_amount q" by auto
  then show ?thesis using p assms(3,5,6)
    by (simp add: grant_def find_existing_def has_account_def posted_def grant_entry_def Let_def)
qed

definition new_hold :: "reserve_request \<Rightarrow> hold" where
  "new_hold q = \<lparr>hold_account = rsv_account q, hold_amount = rsv_amount q, hold_status = Open,
     hold_settle_entry = None, hold_expires_at = rsv_expires_at q, hold_run_id = rsv_run_id q\<rparr>"

lemma reserve_hard:
  assumes "exact_sums D" and "total_sums D" and "has_account s (rsv_account q)"
    and "map_of (holds s) (rsv_reservation_id q) = None" and "0 < rsv_amount q" and "rsv_limit q = Hard"
  shows "reserve D s q =
    (if available_of s (rsv_account q) < rsv_amount q
     then Some (s, Inr (Denied (available_of s (rsv_account q)) (rsv_amount q)))
     else Some (with_hold (rsv_reservation_id q) (new_hold q) s, Inr (Allowed (rsv_reservation_id q))))"
proof -
  obtain row where "map_of (accounts s) (rsv_account q) = Some row" using assms(3) by (auto simp: has_account_def)
  then show ?thesis using assms(4-)
    by (simp add: reserve_def held_total [OF assms(1,2)] dec_sub_total [OF assms(1,2)] available_of_def
          settled_of_def with_hold_def new_hold_def)
qed

definition closed_hold :: "hold \<Rightarrow> entry_id \<Rightarrow> hold" where
  "closed_hold h c = h\<lparr>hold_status := Settled, hold_settle_entry := Some c\<rparr>"

lemma settle_posts_entry:
  assumes "exact_sums D" and "total_sums D" and "map_of (holds s) (settle_reservation_id q) = Some h"
    and "hold_status h = Open" and "has_account s (hold_account h)" and "0 \<le> settle_actual q"
  shows "\<exists>e. settle D E s q =
      Some (with_hold (settle_reservation_id q) (closed_hold h (entry_id e)) (posted e s), Inr e) \<and>
    e = settle_entry E q (hold_account h) (settled_of s (hold_account h) - settle_actual q)"
proof -
  obtain s1 b where p: "post_debit D s (hold_account h) (settle_actual q) = Some (s1, b)"
    using post_debit_total [OF assms(1,2,5)] by blast
  from post_debit_exact [OF assms(1) p] have
    "s1 = shift SYSTEM_ACCOUNT (settle_actual q) (shift (hold_account h) (- settle_actual q) s)"
    "b = settled_of s (hold_account h) - settle_actual q" by auto
  then show ?thesis using p assms(3,4,6)
    by (simp add: settle_def posted_def with_hold_def closed_hold_def settle_entry_def Let_def)
qed

lemma void_open_hold:
  "map_of (holds s) r = Some h \<Longrightarrow> hold_status h = Open \<Longrightarrow>
     void s r = Some (with_hold r (h\<lparr>hold_status := Voided\<rparr>) s, Inr ())"
  by (simp add: void_def with_hold_def)

lemma void_unknown_hold: "map_of (holds s) r = None \<Longrightarrow> void s r = Some (s, Inr ())"
  by (simp add: void_def)

section \<open>A supply of fresh identifiers\<close>

text \<open>
  \<open>id_supply E w k n\<close> lists the first \<open>w\<close> identifiers of each of the surroundings \<open>E k\<close>, \<dots>, \<open>E (k + n - 1)\<close>.
  They are fresh for a ledger when they are distinct and nothing in it refers to them.
\<close>

definition id_supply :: "(nat \<Rightarrow> env) \<Rightarrow> nat \<Rightarrow> nat \<Rightarrow> nat \<Rightarrow> uuid list" where
  "id_supply E w k n = concat (map (\<lambda>j. map (new_v7 (E j)) [0..<w]) [k..<k + n])"

definition untouched :: "state \<Rightarrow> uuid \<Rightarrow> bool" where
  "untouched s u \<longleftrightarrow> unused_id s u \<and> map_of (holds s) (ReservationId u) = None \<and>
     list_all (\<lambda>(_, h). hold_run_id h \<noteq> Some (Id u)) (holds s) \<and>
     list_all (\<lambda>e. entry_run_id e \<noteq> Some (Id u) \<and> reverses_entry_id e \<noteq> Some (Id u)) (entries s)"

definition supplied :: "(nat \<Rightarrow> env) \<Rightarrow> nat \<Rightarrow> nat \<Rightarrow> nat \<Rightarrow> state \<Rightarrow> bool" where
  "supplied E w k n s \<longleftrightarrow> distinct (id_supply E w k n) \<and> list_all (untouched s) (id_supply E w k n)"

lemma supply_Suc: "id_supply E w k (Suc n) = map (new_v7 (E k)) [0..<w] @ id_supply E w (Suc k) n"
  by (simp add: id_supply_def upt_conv_Cons del: upt_Suc)

lemma supply_add: "id_supply E w k (m + n) = id_supply E w k m @ id_supply E w (k + m) n"
proof -
  have "[k..<k + (m + n)] = [k..<k + m] @ [k + m..<k + m + n]"
    using upt_add_eq_append [of k "k + m" n] by (simp add: add.assoc)
  then show ?thesis by (simp add: id_supply_def)
qed

lemma supplied_take: "supplied E w k (m + n) s \<Longrightarrow> supplied E w k m s"
  by (simp add: supplied_def supply_add)

lemma supplied_fresh:
  assumes "supplied E w k (Suc n) s"
  shows "fresh_ids (E k) 0 w s"
  using assms
  by (auto simp: supplied_def supply_Suc fresh_ids_def distinct_map list_all_iff untouched_def unused_id_def
           atLeast0LessThan)

lemma supplied_id:
  assumes "supplied E w k (Suc n) s" and "i < w"
  shows "untouched s (new_v7 (E k) i)" "new_v7 (E k) i \<notin> set (id_supply E w (Suc k) n)"
proof -
  have split: "x \<notin> set ys \<and> P x" if "distinct (xs @ ys)" "list_all P (xs @ ys)" "x \<in> set xs"
    for P :: "uuid \<Rightarrow> bool" and x xs ys using that by (auto simp: list_all_iff)
  have "new_v7 (E k) i \<in> set (map (new_v7 (E k)) [0..<w])" using assms(2) by simp
  from split [OF _ _ this] show "untouched s (new_v7 (E k) i)" "new_v7 (E k) i \<notin> set (id_supply E w (Suc k) n)"
    using assms(1) unfolding supplied_def supply_Suc by metis+
qed

lemma supplied_next:
  assumes "supplied E w k (Suc n) s"
    and "\<And>u. u \<in> set (id_supply E w (Suc k) n) \<Longrightarrow> untouched s u \<Longrightarrow> untouched s' u"
  shows "supplied E w (Suc k) n s'"
  using assms by (auto simp: supplied_def supply_Suc list_all_iff)

lemma supply_later: "set (id_supply E w (Suc k) n) \<subseteq> set (id_supply E w k (Suc n))"
  by (auto simp: supply_Suc)

lemma untouched_posted:
  "untouched s u \<Longrightarrow> entry_id e \<noteq> Id u \<Longrightarrow> entry_run_id e \<noteq> Some (Id u) \<Longrightarrow>
     reverses_entry_id e \<noteq> Some (Id u) \<Longrightarrow> untouched (posted e s) u"
  by (auto simp: untouched_def unused_id_def)

lemma untouched_with_hold:
  assumes "untouched s u" and "r \<noteq> ReservationId u" and "hold_run_id h \<noteq> Some (Id u)"
  shows "untouched (with_hold r h s) u"
proof -
  have "list_all (\<lambda>(_, h). hold_run_id h \<noteq> Some (Id u)) (AList.update r h xs)"
    if "list_all (\<lambda>(_, h). hold_run_id h \<noteq> Some (Id u)) xs" for xs
    using that assms(3) by (induction xs) auto
  then show ?thesis using assms by (auto simp: untouched_def unused_id_def)
qed

section \<open>Calls on a bench\<close>

lemma expect_Ok [simp]: "f (E k) l = Some (l', Inr x) \<Longrightarrow> expect E (k, l) f = Some ((Suc k, l'), x)"
  by (simp add: expect_def ask_def)

lemma fresh_reservation_eq [simp]:
  "fresh_reservation E (k, l) = ((Suc k, l), ReservationId (new_v7 (E k) 0))"
  by (simp add: fresh_reservation_def fresh_uuid_def)

lemma fresh_run_eq [simp]: "fresh_run E (k, l) = ((Suc k, l), Id (new_v7 (E k) 0))"
  by (simp add: fresh_run_def fresh_uuid_def)

lemma assert_that_simps [simp]: "assert_that True = Some ()" "assert_that False = None"
  by (simp_all add: assert_that_def)

lemma memory_ops_all [simp]:
  "be_open_account (memory_ops D) = open_account" "be_grant (memory_ops D) = grant D"
  "be_refund (memory_ops D) = refund D" "be_open_lease (memory_ops D) = open_lease D"
  "be_close_lease (memory_ops D) = close_lease D" "be_extend_hold (memory_ops D) = extend_hold"
  "be_void_expired_holds (memory_ops D) = void_expired_holds"
  by (simp_all add: memory_ops_def)

text \<open>A ledger under test: well formed, with the account of the test at the given balances.\<close>

definition at_balance :: "account_id \<Rightarrow> rat \<Rightarrow> rat \<Rightarrow> state \<Rightarrow> bool" where
  "at_balance a x y s \<longleftrightarrow> ledger_inv s \<and> guarded s a \<and> a \<noteq> SYSTEM_ACCOUNT \<and> settled_of s a = x \<and> held_of s a = y"

lemma at_balance_has: "at_balance a x y s \<Longrightarrow> has_account s a"
  by (simp add: at_balance_def guarded_has_account)

lemma balance_at_eq:
  assumes "exact_sums D" and "total_sums D" and "at_balance a x y s"
  shows "balance_at (memory_ops D) E (k, s) a = Some ((Suc k, s), \<lparr>bal_settled = x, bal_held = y\<rparr>)"
  using balance_read [OF assms(1,2) at_balance_has [OF assms(3)]] assms(3)
  by (simp add: balance_at_def at_balance_def)

lemma granted_eq:
  assumes "exact_sums D" and "total_sums D" and "at_balance a x y s" and "0 < n"
    and "supplied E w k (Suc m) s" and "0 < w"
  shows "\<exists>s'. granted (memory_ops D) E (k, s) a n = Some (Suc k, s') \<and> at_balance a (x + of_int n) y s' \<and>
    holds s' = holds s \<and> supplied E w (Suc k) m s' \<and> (\<exists>e. entries s' = entries s @ [e] \<and> entry_type e = Grant)"
proof -
  let ?q = "paid_grant a n None"
  have q: "grant_account ?q = a" "grant_amount ?q = of_int n" "grant_idempotency_key ?q = None"
    by (simp_all add: paid_grant_def credits_def)
  have a: "has_account s a" "a \<noteq> SYSTEM_ACCOUNT" using assms(3) at_balance_has by (auto simp: at_balance_def)
  define e where "e = grant_entry (E k) ?q (settled_of s a + of_int n)"
  have e: "account_id e = a" "delta_credits e = of_int n" "entry_id e = Id (new_v7 (E k) 0)"
    "entry_run_id e = None" "paired_account_id e = SYSTEM_ACCOUNT" "entry_type e = Grant"
    "balance_after e = settled_of s a + of_int n" "reverses_entry_id e = None"
    by (simp_all add: e_def grant_entry_def q)
  have "grant D (E k) s ?q = Some (posted e s, Inr e)"
    using grant_posts [OF assms(1,2), of s ?q "E k"] a assms(4) by (simp add: q e_def)
  moreover have "entry_id e \<notin> entry_ids s"
    using supplied_id(1) [OF assms(5,6)] by (simp add: e untouched_def unused_id_def)
  then have "ledger_inv (posted e s)"
    using assms(3) a by (intro posted_inv) (simp_all add: e at_balance_def)
  then have "at_balance a (x + of_int n) y (posted e s)"
    using assms(3) a by (simp add: at_balance_def e)
  moreover have "supplied E w (Suc k) m (posted e s)"
    using supplied_id(2) [OF assms(5,6)]
    by (intro supplied_next [OF assms(5)] untouched_posted) (auto simp: e)
  ultimately show ?thesis using e(6) by (auto simp: granted_def)
qed

lemma hold_request_sel [simp]:
  "rsv_account (hold_request a r n c t run) = a" "rsv_reservation_id (hold_request a r n c t run) = r"
  "rsv_amount (hold_request a r n c t run) = of_int n" "rsv_limit (hold_request a r n c t run) = c"
  "rsv_run_id (hold_request a r n c t run) = run"
  by (simp_all add: hold_request_def credits_def)

lemma new_hold_sel [simp]:
  "hold_account (new_hold q) = rsv_account q" "hold_amount (new_hold q) = rsv_amount q"
  "hold_status (new_hold q) = Open" "hold_run_id (new_hold q) = rsv_run_id q"
  by (simp_all add: new_hold_def)

lemma reserved_eq:
  assumes "exact_sums D" and "total_sums D" and "at_balance a x y s" and "0 < n"
    and "map_of (holds s) r = None"
  shows "reserved (memory_ops D) E (k, s) (hold_request a r n Hard t run) =
    (if x - y < of_int n then Some ((Suc k, s), Denied (x - y) (of_int n))
     else Some ((Suc k, with_hold r (new_hold (hold_request a r n Hard t run)) s), Allowed r))"
  using reserve_hard [OF assms(1,2), of s "hold_request a r n Hard t run"] at_balance_has [OF assms(3)] assms(3-)
  by (simp add: reserved_def available_of_def at_balance_def)

lemma at_balance_held:
  assumes "at_balance a x y s" and "0 < n" and "map_of (holds s) r = None"
  shows "at_balance a x (y + of_int n) (with_hold r (new_hold (hold_request a r n c t run)) s)"
proof -
  let ?h = "new_hold (hold_request a r n c t run)"
  have "kstep s (KHold r ?h) (with_hold r ?h s)"
    unfolding with_hold_def using assms at_balance_has [OF assms(1)] by (intro k_hold) simp_all
  with assms show ?thesis
    by (auto simp: at_balance_def held_of_with_hold open_amount_def open_against_def intro: kstep_inv)
qed

lemma supplied_held:
  assumes "supplied E w k (Suc n) s" and "v \<notin> set (id_supply E w (Suc k) n)"
    and "\<And>u. u \<in> set (id_supply E w (Suc k) n) \<Longrightarrow> hold_run_id h \<noteq> Some (Id u)"
  shows "supplied E w (Suc k) n (with_hold (ReservationId v) h s)"
  using assms(2,3) by (intro supplied_next [OF assms(1)] untouched_with_hold) auto

lemma supplied_rewritten:
  assumes "supplied E w k (Suc n) s" and "map_of (holds s) r = Some h" and "hold_run_id h' = hold_run_id h"
  shows "supplied E w (Suc k) n (with_hold r h' s)"
proof (rule supplied_next [OF assms(1)])
  fix u assume u: "untouched s u"
  have "r \<noteq> ReservationId u" using u assms(2) by (auto simp: untouched_def)
  moreover have "hold_run_id h \<noteq> Some (Id u)"
    using u map_of_SomeD [OF assms(2)] by (auto simp: untouched_def list_all_iff)
  ultimately show "untouched (with_hold r h' s) u" using u assms(3) by (intro untouched_with_hold) auto
qed

lemma settled_eq:
  assumes "exact_sums D" and "total_sums D" and "at_balance a x y s" and "map_of (holds s) r = Some h"
    and "hold_status h = Open" and "hold_account h = a" and "0 \<le> m"
    and "supplied E w k (Suc n) s" and "0 < w"
  obtains e where
    "settled (memory_ops D) E (k, s) r m =
       Some ((Suc k, with_hold r (closed_hold h (entry_id e)) (posted e s)), e)"
    "at_balance a (x - of_int m) (y - hold_amount h) (with_hold r (closed_hold h (entry_id e)) (posted e s))"
    "supplied E w (Suc k) n (with_hold r (closed_hold h (entry_id e)) (posted e s))"
    "entry_id e = Id (new_v7 (E k) 0)" "delta_credits e = - of_int m" "entry_type e = Settle"
    "reverses_entry_id e = None" "kstep s (KPost e) (posted e s)"
proof -
  have a: "has_account s a" "a \<noteq> SYSTEM_ACCOUNT" "ledger_inv s"
    using assms(3) at_balance_has by (auto simp: at_balance_def)
  define e where "e = settle_entry (E k) (settle_at r m) a (settled_of s a - of_int m)"
  have e: "account_id e = a" "delta_credits e = - of_int m" "entry_id e = Id (new_v7 (E k) 0)"
    "entry_run_id e = None" "paired_account_id e = SYSTEM_ACCOUNT" "entry_type e = Settle"
    "balance_after e = settled_of s a - of_int m" "reverses_entry_id e = None"
    "entry_reservation_id e = Some r"
    by (simp_all add: e_def settle_entry_def settle_at_def credits_def)
  let ?h = "closed_hold h (entry_id e)" and ?s = "posted e s"
  have fresh: "entry_id e \<notin> entry_ids s"
    using supplied_id(1) [OF assms(8,9)] by (simp add: e untouched_def unused_id_def)
  then have st: "kstep s (KPost e) ?s"
    unfolding posted_def using a by (intro k_post) (simp_all add: e)
  have cl: "kstep ?s (KSettle r) (with_hold r ?h ?s)"
    unfolding with_hold_def closed_hold_def using assms(4,5,6) e by (intro k_settle) simp_all
  have "settled (memory_ops D) E (k, s) r m = Some ((Suc k, with_hold r ?h ?s), e)"
    using settle_posts_entry [OF assms(1,2), of s "settle_at r m" h "E k"] assms(4-7) a
    by (simp add: settled_def settle_at_def credits_def e_def)
  moreover have "at_balance a (x - of_int m) (y - hold_amount h) (with_hold r ?h ?s)"
    using kstep_inv [OF cl kstep_inv [OF st a(3)]] assms(3-6) a ledger_inv_keys(2) [OF a(3)]
    by (simp add: at_balance_def e held_of_with_hold(2) open_amount_def open_against_def closed_hold_def)
  moreover have "supplied E w (Suc k) n (with_hold r ?h ?s)"
  proof (rule supplied_next [OF assms(8)])
    fix u assume u: "u \<in> set (id_supply E w (Suc k) n)" "untouched s u"
    have "untouched ?s u" using u supplied_id(2) [OF assms(8,9)] by (intro untouched_posted) (auto simp: e)
    moreover have "r \<noteq> ReservationId u" using u assms(4) by (auto simp: untouched_def)
    moreover have "hold_run_id h \<noteq> Some (Id u)"
      using u map_of_SomeD [OF assms(4)] by (auto simp: untouched_def list_all_iff)
    ultimately show "untouched (with_hold r ?h ?s) u"
      by (intro untouched_with_hold) (auto simp: closed_hold_def)
  qed
  ultimately show thesis using that e(2,3,6,8) st by blast
qed

lemma opened_eq:
  assumes "ledger_inv s" and "supplied E w k (Suc (Suc n)) s" and "0 < w"
  obtains s' a where "open_no_overdraft_org (memory_ops D) E (k, s) = Some ((Suc (Suc k), s'), a)"
    "at_balance a 0 0 s'" "supplied E w (Suc (Suc k)) n s'" "holds s' = holds s" "entries s' = entries s"
proof -
  have sup: "supplied E w (Suc k) (Suc n) s" using assms(2) by (rule supplied_next) simp
  define acc where "acc = \<lparr>acct_id = Id (new_v7 (E (Suc k)) 0), acct_org_id = Id (new_v7 (E k) 0), acct_scope = Org,
    acct_no_overdraft = True, acct_parent_id = None\<rparr>"
  let ?a = "acct_id acc" and ?s = "s\<lparr>accounts := AList.update (acct_id acc) (account_row_new acc) (accounts s)\<rparr>"
  have a: "?a = Id (new_v7 (E (Suc k)) 0)" by (simp add: acc_def)
  have new: "\<not> has_account s ?a"
    using supplied_id(1) [OF sup assms(3)] by (simp add: a untouched_def unused_id_def)
  have "has_account s SYSTEM_ACCOUNT" using assms(1) by (simp add: ledger_inv_def)
  with new have "?a \<noteq> SYSTEM_ACCOUNT" by metis
  moreover have "guarded ?s ?a" by (simp add: guarded_def account_row_new_def acc_def)
  moreover have "ledger_inv ?s" using k_account [of s acc, OF new] assms(1) by (rule kstep_inv)
  moreover have "held_of s ?a = 0" using held_of_unknown [OF assms(1) new] .
  moreover have "settled_of s ?a = 0" using new by (simp add: settled_of_def has_account_def)
  ultimately have "at_balance ?a 0 0 ?s" by (simp add: at_balance_def settled_of_new [OF new])
  moreover have "open_no_overdraft_org (memory_ops D) E (k, s) = Some ((Suc (Suc k), ?s), ?a)"
    by (simp add: open_no_overdraft_org_def open_org_def fresh_uuid_def expect_def ask_def open_account_def
          Let_def acc_def)
  moreover have "supplied E w (Suc (Suc k)) n ?s"
  proof (rule supplied_next [OF sup])
    fix u assume "u \<in> set (id_supply E w (Suc (Suc k)) n)" "untouched s u"
    with supplied_id(2) [OF sup assms(3)] show "untouched ?s u"
      by (auto simp: untouched_def unused_id_def a entry_ids_def)
  qed
  ultimately show thesis using that by simp
qed

section \<open>Checking against the model of the balance\<close>

text \<open>Surroundings that number their identifiers, for evaluation.\<close>

definition suite_env :: "nat \<Rightarrow> env" where
  "suite_env k = \<lparr>new_v7 = (\<lambda>i. of_nat (10 * k + i + 1)), now_utc = (\<lambda>_. 1234 + int k)\<rparr>"

lemma suite_id: "10 * k + i < 2 ^ 100 \<Longrightarrow> unat (new_v7 (suite_env k) i) = 10 * k + i + 1"
  unfolding suite_env_def by (simp add: unsigned_of_nat take_bit_nat_def del: of_nat_Suc)

lemma suite_supply_range:
  assumes "u \<in> set (id_supply suite_env w k n)" and "w \<le> 10" and "10 * (k + n) < 2 ^ 100"
  shows "10 * k < unat u \<and> unat u \<le> 10 * (k + n)"
proof -
  from assms(1) obtain j i where ji: "k \<le> j" "j < k + n" "i < w" "u = new_v7 (suite_env j) i"
    by (auto simp: id_supply_def)
  then have "10 * j + i < 10 * (k + n)" using assms(2) by presburger
  with suite_id [of j i] ji assms(3) show ?thesis by simp
qed

lemma suite_supplied: "w \<le> 10 \<Longrightarrow> 10 * (k + n) < 2 ^ 100 \<Longrightarrow> supplied suite_env w k n new_ledger"
proof (induction n arbitrary: k)
  case (Suc n)
  have "distinct (map (new_v7 (suite_env k)) [0..<w])"
    using Suc.prems by (auto simp: distinct_map inj_on_def suite_id dest!: arg_cong [where f = unat])
  moreover have "u \<notin> set (id_supply suite_env w (Suc k) n)" if "u \<in> set (id_supply suite_env w k 1)" for u
    using suite_supply_range [OF that] suite_supply_range [of u w "Suc k" n] Suc.prems by auto
  moreover have "untouched new_ledger u" if "u \<in> set (id_supply suite_env w k 1)" for u
    using suite_supply_range [OF that] Suc.prems
    by (auto simp: untouched_def unused_id_def new_ledger_def has_account_def SYSTEM_ACCOUNT_def nil_uuid_def entry_ids_def)
  moreover have "supplied suite_env w (Suc k) n new_ledger" using Suc by simp
  moreover have "id_supply suite_env w k 1 = map (new_v7 (suite_env k)) [0..<w]" by (simp add: id_supply_def)
  ultimately show ?case by (auto simp: supplied_def supply_Suc list_all_iff)
qed (simp add: supplied_def id_supply_def)

text \<open>The inputs the checks are run on: positive grants and holds, whose total fits an \<open>i64\<close>.\<close>

fun op_ok :: "op \<Rightarrow> bool" where
  "op_ok (OGrant n) \<longleftrightarrow> n \<noteq> 0"
| "op_ok (OSpend n _) \<longleftrightarrow> n \<noteq> 0"
| "op_ok (OVoid n) \<longleftrightarrow> n \<noteq> 0"

fun op_grants :: "op \<Rightarrow> int" where
  "op_grants (OGrant n) = uint n"
| "op_grants (OSpend _ _) = 0"
| "op_grants (OVoid _) = 0"

lemma uint_positive: "n \<noteq> 0 \<Longrightarrow> 0 < uint (n :: 'a :: len word)"
  by (simp add: order_less_le uint_0_iff eq_commute [of 0])

lemma op_grants_nonneg: "0 \<le> op_grants p"
  by (cases p) simp_all

lemma uint_min_le: "uint (min n m) \<le> uint (m :: 'a :: len word)"
  by (simp add: min_def word_le_def)

lemma i64_eq: "0 \<le> n \<Longrightarrow> n < 2 ^ 63 \<Longrightarrow> i64 n = Some n"
  by (simp add: i64_def)

lemma apply_op_passes:
  assumes "exact_sums D" and "total_sums D" and "at_balance a (of_int x) 0 s" and "0 \<le> x" and "op_ok p"
    and "x + op_grants p < 2 ^ 63" and "supplied E w k (Suc (Suc (Suc n))) s" and "0 < w"
  obtains k' s' x' where "apply_op (memory_ops D) E a (k, s) x p = Some ((k', s'), x')" "k' \<le> k + 3"
    "at_balance a (of_int x') 0 s'" "0 \<le> x'" "x' \<le> x + op_grants p" "supplied E w k' (k + 3 - k' + n) s'"
proof (cases p)
  case (OGrant g)
  have "0 < uint g" using assms(5) OGrant by (simp add: uint_positive)
  from granted_eq [OF assms(1-3) this assms(7,8)] obtain s' where
    "granted (memory_ops D) E (k, s) a (uint g) = Some (Suc k, s')" "at_balance a (of_int x + of_int (uint g)) 0 s'"
    "supplied E w (Suc k) (Suc (Suc n)) s'" by blast
  then show thesis using that [of "Suc k" s' "x + uint g"] assms(4,6) OGrant
    by (simp add: i64_eq)
next
  case (OSpend asked actual)
  define c where "c = uint asked"
  define m where "m = uint (min actual asked)"
  note [simp] = c_def [symmetric] m_def [symmetric]
  let ?r = "ReservationId (new_v7 (E k) 0)"
  let ?h = "new_hold (hold_request a ?r c Hard None None)"
  have pos: "0 < c" using assms(5) OSpend using uint_positive [of asked] by simp
  have free: "map_of (holds s) ?r = None" using supplied_id(1) [OF assms(7,8)] by (simp add: untouched_def)
  have sup: "supplied E w (Suc k) (Suc (Suc n)) s" using assms(7) by (rule supplied_next) simp
  note rsv = reserved_eq [OF assms(1-3) pos free, of E "Suc k" None None]
  show thesis
  proof (cases "c \<le> x")
    case False
    have "supplied E w (Suc (Suc k)) (Suc n) s" using sup by (rule supplied_next) simp
    then show thesis using that [of "Suc (Suc k)" s x] False rsv assms(3,4) OSpend by simp
  next
    case True
    have m0: "0 \<le> m" unfolding m_def by (rule uint_ge_0)
    have nv: "new_v7 (E k) 0 \<notin> set (id_supply E w (Suc (Suc k)) (Suc n))"
      using supplied_id(2) [OF assms(7,8)] supply_later by blast
    have b1: "at_balance a (of_int x) (of_int c) (with_hold ?r ?h s)"
      using at_balance_held [OF assms(3) pos free, of Hard None None] by simp
    have s1: "supplied E w (Suc (Suc k)) (Suc n) (with_hold ?r ?h s)"
      using sup nv by (intro supplied_held) simp_all
    have h: "map_of (holds (with_hold ?r ?h s)) ?r = Some ?h" by (simp add: update_conv')
    obtain e where e: "settled (memory_ops D) E (Suc (Suc k), with_hold ?r ?h s) ?r m =
        Some ((Suc (Suc (Suc k)), with_hold ?r (closed_hold ?h (entry_id e)) (posted e (with_hold ?r ?h s))), e)"
      "at_balance a (of_int x - of_int m) (of_int c - hold_amount ?h)
         (with_hold ?r (closed_hold ?h (entry_id e)) (posted e (with_hold ?r ?h s)))"
      "supplied E w (Suc (Suc (Suc k))) n (with_hold ?r (closed_hold ?h (entry_id e)) (posted e (with_hold ?r ?h s)))"
      by (rule settled_eq [OF assms(1,2) b1 h _ _ m0 s1 assms(8)]) simp_all
    have "m \<le> x" using True uint_min_le [of actual asked] by simp
    then have "i64 (x - m) = Some (x - m)" using assms(4,6) OSpend
      m0 by (intro i64_eq) simp_all
    then show thesis
      using that [of "Suc (Suc (Suc k))" _ "x - m"] e(2) True rsv m0 e(1,3) \<open>m \<le> x\<close> OSpend assms(4)
      by simp
  qed
next
  case (OVoid asked)
  define c where "c = uint asked"
  note [simp] = c_def [symmetric]
  let ?r = "ReservationId (new_v7 (E k) 0)"
  let ?h = "new_hold (hold_request a ?r c Hard None None)"
  have pos: "0 < c" using assms(5) OVoid using uint_positive [of asked] by simp
  have free: "map_of (holds s) ?r = None" using supplied_id(1) [OF assms(7,8)] by (simp add: untouched_def)
  have sup: "supplied E w (Suc k) (Suc (Suc n)) s" using assms(7) by (rule supplied_next) simp
  note rsv = reserved_eq [OF assms(1-3) pos free, of E "Suc k" None None]
  show thesis
  proof (cases "c \<le> x")
    case False
    have "supplied E w (Suc (Suc k)) (Suc n) s" using sup by (rule supplied_next) simp
    then have "supplied E w (Suc (Suc (Suc k))) n s" by (rule supplied_next) simp
    then show thesis
      using that [of "Suc (Suc (Suc k))" s x] False rsv assms(3,4) OVoid void_unknown_hold [OF free] by simp
  next
    case True
    let ?s = "with_hold ?r ?h s" and ?v = "?h\<lparr>hold_status := Voided\<rparr>"
    have nv: "new_v7 (E k) 0 \<notin> set (id_supply E w (Suc (Suc k)) (Suc n))"
      using supplied_id(2) [OF assms(7,8)] supply_later by blast
    have b1: "at_balance a (of_int x) (of_int c) ?s"
      using at_balance_held [OF assms(3) pos free, of Hard None None] by simp
    have s1: "supplied E w (Suc (Suc k)) (Suc n) ?s"
      using sup nv by (intro supplied_held) simp_all
    have h: "map_of (holds ?s) ?r = Some ?h" by (simp add: update_conv')
    have "kstep ?s (KRelease ?r) (with_hold ?r ?v ?s)"
      unfolding with_hold_def [of ?r ?v] using h by (intro k_release) simp_all
    then have "at_balance a (of_int x) 0 (with_hold ?r ?v ?s)"
      using b1 held_of_with_hold(2) [OF _ h, of ?v a] ledger_inv_keys(2) [of ?s]
      by (auto simp: at_balance_def open_amount_def open_against_def intro: kstep_inv)
    moreover have "supplied E w (Suc (Suc (Suc k))) n (with_hold ?r ?v ?s)"
      by (rule supplied_rewritten [OF s1 h]) simp
    ultimately show thesis
      using that [of "Suc (Suc (Suc k))" "with_hold ?r ?v ?s" x] True rsv void_open_hold [OF h] assms(4) OVoid by simp
  qed
qed

lemma check_ops_passes:
  assumes "exact_sums D" and "total_sums D" and "0 < w"
  shows "at_balance a (of_int x) 0 s \<Longrightarrow> 0 \<le> x \<Longrightarrow> list_all op_ok ops \<Longrightarrow>
    x + sum_list (map op_grants ops) < 2 ^ 63 \<Longrightarrow> supplied E w k (4 * length ops) s \<Longrightarrow>
    \<exists>k' s'. check_ops (memory_ops D) D E a (k, s) x ops = Some (k', s') \<and> ledger_inv s'"
proof (induction ops arbitrary: k s x)
  case Nil
  then show ?case by (simp add: at_balance_def)
next
  case (Cons p ops)
  have grants: "0 \<le> sum_list (map op_grants ops)"
    by (rule sum_list_nonneg) (auto simp: op_grants_nonneg)
  have sup: "supplied E w k (Suc (Suc (Suc (Suc (4 * length ops))))) s"
    using Cons.prems(5) by (simp add: numeral_eq_Suc)
  have p: "op_ok p" "x + op_grants p < 2 ^ 63" using Cons.prems(3,4) grants by auto
  from apply_op_passes [OF assms(1,2) Cons.prems(1,2) p sup assms(3)] obtain k' s' x' where
    op: "apply_op (memory_ops D) E a (k, s) x p = Some ((k', s'), x')" and k': "k' \<le> k + 3"
    and bal: "at_balance a (of_int x') 0 s'" "0 \<le> x'" "x' \<le> x + op_grants p"
    and sup': "supplied E w k' (k + 3 - k' + Suc (4 * length ops)) s'" .
  have "supplied E w k' (Suc (4 * length ops)) s'"
    using sup' supplied_take [of E w k' "Suc (4 * length ops)" "k + 3 - k'" s'] by (simp add: add.commute)
  then have "supplied E w (Suc k') (4 * length ops) s'" by (rule supplied_next) simp
  from Cons.IH [OF bal(1,2) _ _ this] Cons.prems(3,4) bal(3) obtain k'' s'' where
    "check_ops (memory_ops D) D E a (Suc k', s') x' ops = Some (k'', s'')" "ledger_inv s''" by auto
  then show ?case
    using balance_at_eq [OF assms(1,2) bal(1), of E k'] bal(2)
    by (simp add: op available_def dec_sub_total [OF assms(1,2)] credits_def)
qed

text \<open>
  C15. The in-memory ledger conforms to the model of its balance. \<open>check_against_model\<close> returns, on any
  well-formed ledger and for any sequence of grants, reserve-and-settle spends and voids of positive
  amounts whose grants add up to less than \<open>2^63\<close>, so that the \<open>i64\<close> of the check does not overflow: after every step the settled balance is the one the model computed, nothing stays held,
  nothing is overdrawn and a reservation is allowed exactly when the model can pay for it. At the end the
  accounts of the ledger still add up to zero.
\<close>

theorem model_check_passes:
  assumes "exact_sums D" and "total_sums D" and "ledger_inv s" and "list_all op_ok ops"
    and "sum_list (map op_grants ops) < 2 ^ 63" and "supplied E 1 k (2 + 4 * length ops) s"
  shows "\<exists>k' s'. check_against_model (memory_ops D) D E (k, s) ops = Some (k', s') \<and>
    net_settled D s' = Some 0"
proof -
  have sup: "supplied E 1 k (Suc (Suc (4 * length ops))) s" using assms(6) by simp
  obtain s1 a where
    o: "open_no_overdraft_org (memory_ops D) E (k, s) = Some ((Suc (Suc k), s1), a)" and
    b: "at_balance a (of_int 0) 0 s1" and u: "supplied E 1 (Suc (Suc k)) (4 * length ops) s1"
    by (rule opened_eq [OF assms(3) sup zero_less_one, of D]) simp_all
  from check_ops_passes [OF assms(1,2) _ b _ assms(4) _ u] assms(5) obtain k' s' where
    "check_ops (memory_ops D) D E a (Suc (Suc k), s1) 0 ops = Some (k', s')" "ledger_inv s'" by auto
  moreover from this(2) have "net_settled D s' = Some 0"
    by (simp add: net_settled_total [OF assms(1,2)] ledger_inv_def)
  ultimately show ?thesis using o by (simp add: check_against_model_def)
qed

theorem model_check_passes_witness:
  "\<exists>k' s'. check_against_model (memory_ops exact_deps) exact_deps suite_env (0, new_ledger)
      [OGrant 100, OSpend 40 30, OSpend 90 5, OVoid 20] = Some (k', s') \<and> net_settled exact_deps s' = Some 0"
proof (rule model_check_passes)
  show "supplied suite_env 1 0 (2 + 4 * length [OGrant 100, OSpend 40 30, OSpend 90 5, OVoid 20]) new_ledger"
    by (rule suite_supplied) simp_all
qed (simp_all add: new_ledger_inv)

section \<open>Voiding one of many runs\<close>

lemma update_absent: "map_of xs r = None \<Longrightarrow> AList.update r h xs = xs @ [(r, h)]"
  by (induction xs) (auto split: if_splits)

lemma update_last: "map_of xs r = None \<Longrightarrow> AList.update r h' (xs @ [(r, h)]) = xs @ [(r, h')]"
  by (induction xs) (auto split: if_splits)

lemma new_entry_remainder:
  assumes "untouched s u" and "entry_id e = Id u" and "reverses_entry_id e = None"
  shows "remainder_of (posted e s) (Id u) = - delta_credits e"
proof -
  have "filter (\<lambda>x. reverses_entry_id x = Some (Id u)) (entries s) = []"
    using assms(1) by (auto simp: untouched_def list_all_iff filter_empty_conv)
  moreover have "List.find (\<lambda>x. entry_id x = Id u) (entries s) = None"
    using assms(1) unfolding untouched_def unused_id_def entry_ids_def find_None_iff by (metis image_eqI)
  ultimately show ?thesis using assms(2,3)
    by (simp add: remainder_of_def charged_of_def reversed_of_def find_append)
qed

text \<open>The expected effect of the void, kept by the loop over the specs.\<close>

definition tallied :: "account_id \<Rightarrow> run_id \<Rightarrow> state \<Rightarrow> void_tally \<Rightarrow> bool" where
  "tallied a run s v \<longleftrightarrow> run_charges s run = [] \<and>
     (let ms = run_members s run; dues = member_dues ms in
      held_by a (open_members ms) = of_int (target_open_amount v) \<and>
      length (open_members ms) = target_open_count v \<and>
      owed_to s a dues = of_int (target_refund_amount v) \<and>
      owed_total s dues = of_int (target_refund_amount v) \<and>
      unpaid s dues = target_refund_count v)"

lemma tallied_more:
  assumes "tallied a run s v" and "ledger_inv s" and "run_charges s' run = run_charges s run"
    and "run_members s' run = run_members s run @ ms"
    and "\<And>c. c \<in> entry_ids s \<Longrightarrow> remainder_of s' c = remainder_of s c"
    and "of_int (target_open_amount v') = of_int (target_open_amount v) + held_by a (open_members ms)"
    and "target_open_count v' = target_open_count v + length (open_members ms)"
    and "of_int (target_refund_amount v') = of_int (target_refund_amount v) + owed_to s' a (member_dues ms)"
    and "owed_total s' (member_dues ms) = owed_to s' a (member_dues ms)"
    and "target_refund_count v' = target_refund_count v + unpaid s' (member_dues ms)"
  shows "tallied a run s' v'"
proof -
  let ?dues = "member_dues (run_members s run)"
  have "fst ` set ?dues \<subseteq> entry_ids s"
    using ledger_inv_settle_posted [OF assms(2)]
    unfolding member_dues_set by (fastforce simp: run_members_iff [OF assms(2)] settle_posted_def)
  then have "remainder_of s' c = remainder_of s c" if "c \<in> fst ` set ?dues" for c
    using assms(5) that by blast
  then have "owed_to s' a ?dues = owed_to s a ?dues" "unpaid s' ?dues = unpaid s ?dues"
    "owed_total s' ?dues = owed_total s ?dues" by (simp_all only: owed_cong [of ?dues s' s])
  with assms show ?thesis by (simp add: tallied_def Let_def)
qed

lemma fresh_runs_eq:
  "fresh_runs E (k, l) n = ((k + n, l), map (\<lambda>j. Id (new_v7 (E j) 0)) [k..<k + n])"
  by (induction n arbitrary: k) (simp_all add: upt_conv_Cons del: upt_Suc)

lemma id_supply_mem:
  assumes "k \<le> j" and "j < k + n" and "i < w"
  shows "new_v7 (E j) i \<in> set (id_supply E w k n)"
proof -
  have "new_v7 (E j) i \<in> set (map (new_v7 (E j)) [0..<w])" using assms(3) by simp
  then show ?thesis unfolding id_supply_def using assms(1,2) by fastforce
qed

lemma supplied_drop: "supplied E w k (n + m) s \<Longrightarrow> supplied E w (k + n) m s"
  by (simp add: supplied_def supply_add)

lemma supplied_heads_distinct:
  "supplied E w k n s \<Longrightarrow> 0 < w \<Longrightarrow> distinct (map (\<lambda>j. new_v7 (E j) 0) [k..<k + n])"
proof (induction n arbitrary: k)
  case (Suc n)
  have "new_v7 (E k) 0 \<notin> set (id_supply E w (Suc k) n)" using supplied_id(2) [OF Suc.prems] .
  moreover have "new_v7 (E j) 0 \<in> set (id_supply E w (Suc k) n)" if "j \<in> set [Suc k..<Suc k + n]" for j
    using that Suc.prems(2) by (intro id_supply_mem) auto
  moreover have "supplied E w (Suc k) n s" using Suc.prems(1) by (rule supplied_next) simp
  then have "distinct (map (\<lambda>j. new_v7 (E j) 0) [Suc k..<Suc k + n])" using Suc.IH Suc.prems(2) by blast
  ultimately show ?case by (force simp: upt_conv_Cons simp del: upt_Suc)
qed simp

lemma supplied_head:
  assumes "supplied E w k (n + m) s" and "0 < w" and "k \<le> j" and "j < k + n"
  shows "untouched s (new_v7 (E j) 0)" "new_v7 (E j) 0 \<notin> set (id_supply E w (k + n) m)"
proof -
  have "new_v7 (E j) 0 \<in> set (id_supply E w k n)" using assms(2-) by (intro id_supply_mem)
  then show "untouched s (new_v7 (E j) 0)" "new_v7 (E j) 0 \<notin> set (id_supply E w (k + n) m)"
    using assms(1) by (auto simp: supplied_def supply_add list_all_iff)
qed

lemma run_members_more:
  "holds s' = holds s @ [(r, h)] \<Longrightarrow>
     run_members s' run = run_members s run @ (if hold_run_id h = Some run then [(r, h)] else [])"
  by (simp add: run_members_def)

lemma run_charges_cong: "entries s' = entries s \<Longrightarrow> run_charges s' run = run_charges s run"
  by (simp add: run_charges_def)

lemma run_charges_posted: "entry_type e \<noteq> Usage \<Longrightarrow> run_charges (posted e s) run = run_charges s run"
  by (simp add: run_charges_def)

definition tally_ok :: "void_tally \<Rightarrow> int \<Rightarrow> bool" where
  "tally_ok v m \<longleftrightarrow> 0 \<le> target_open_amount v \<and> 0 \<le> target_refund_amount v \<and>
     target_open_amount v + target_refund_amount v \<le> m"

lemma spec_credits_pos: "0 < spec_credits spec"
  unfolding spec_credits_def by (rule uint_positive) (auto simp: max_def word_le_def)

lemma apply_spec_open:
  assumes "exact_sums D" and "total_sums D" and "at_balance a x y s" and "of_int (spec_credits spec) \<le> x - y"
    and "tallied a T s v" and "tally_ok v m" and "m + spec_credits spec < 2 ^ 63"
    and "run_at run_ids (spec_run spec) = Some R" and "R = T \<longleftrightarrow> spec_run spec = target"
    and "supplied E w k (Suc (Suc n)) s" and "0 < w" and "spec_settle spec = None"
    and "\<And>u. u \<in> set (id_supply E w (Suc k) (Suc n)) \<Longrightarrow> R \<noteq> Id u"
  obtains s' v' where "apply_spec (memory_ops D) E a run_ids target (k, s) v spec = Some ((Suc (Suc k), s'), v')"
    "at_balance a x (y + of_int (spec_credits spec)) s'" "tallied a T s' v'" "tally_ok v' (m + spec_credits spec)"
    "supplied E w (Suc (Suc k)) n s'" "length (holds s') = Suc (length (holds s))" "entries s' = entries s"
proof -
  let ?c = "spec_credits spec" and ?r = "ReservationId (new_v7 (E k) 0)"
  let ?h = "new_hold (hold_request a ?r ?c Hard None (Some R))"
  have free: "map_of (holds s) ?r = None" using supplied_id(1) [OF assms(10,11)] by (simp add: untouched_def)
  note bal = at_balance_held [OF assms(3) spec_credits_pos free, of spec Hard None "Some R"]
  have rsv: "reserved (memory_ops D) E (Suc k, s) (hold_request a ?r ?c Hard None (Some R)) =
      Some ((Suc (Suc k), with_hold ?r ?h s), Allowed ?r)"
    using reserved_eq [OF assms(1-3) spec_credits_pos free] assms(4) by simp
  define v' where "v' = (if spec_run spec = target
    then v\<lparr>target_open_amount := target_open_amount v + ?c, target_open_count := Suc (target_open_count v)\<rparr> else v)"
  have pos: "0 < ?c" by (rule spec_credits_pos)
  have "apply_spec (memory_ops D) E a run_ids target (k, s) v spec = Some ((Suc (Suc k), with_hold ?r ?h s), v')"
    using assms(6-8,12) rsv pos by (simp add: apply_spec_def Let_def v'_def i64_eq tally_ok_def)
  moreover have hs: "holds (with_hold ?r ?h s) = holds s @ [(?r, ?h)]" by (simp add: update_absent [OF free])
  have "tallied a T (with_hold ?r ?h s) v'"
    using assms(3,9) run_members_more [OF hs, of T]
    by (intro tallied_more [OF assms(5)])
       (auto simp: v'_def at_balance_def open_members_def held_by_def member_dues_def new_hold_def
             intro!: run_charges_cong)
  moreover have "tally_ok v' (m + ?c)" using assms(6) pos by (auto simp: v'_def tally_ok_def)
  moreover have "supplied E w (Suc (Suc k)) n (with_hold ?r ?h s)"
  proof (rule supplied_held)
    show "supplied E w (Suc k) (Suc n) s" using assms(10) by (rule supplied_next) simp
    show "new_v7 (E k) 0 \<notin> set (id_supply E w (Suc (Suc k)) n)"
      using supplied_id(2) [OF assms(10,11)] supply_later by blast
    show "hold_run_id ?h \<noteq> Some (Id u)" if "u \<in> set (id_supply E w (Suc (Suc k)) n)" for u
      using assms(13) that supply_later by fastforce
  qed
  ultimately show thesis using that bal hs by simp
qed

lemma apply_spec_settled:
  assumes "exact_sums D" and "total_sums D" and "at_balance a x y s" and "of_int (spec_credits spec) \<le> x - y"
    and "tallied a T s v" and "tally_ok v m" and "m + spec_credits spec < 2 ^ 63"
    and "run_at run_ids (spec_run spec) = Some R" and "R = T \<longleftrightarrow> spec_run spec = target"
    and "supplied E w k (Suc (Suc (Suc n))) s" and "0 < w" and "spec_settle spec = Some actual"
    and "\<And>u. u \<in> set (id_supply E w (Suc k) (Suc (Suc n))) \<Longrightarrow> R \<noteq> Id u"
  obtains s' v' c where "apply_spec (memory_ops D) E a run_ids target (k, s) v spec = Some ((Suc (Suc (Suc k)), s'), v')"
    "at_balance a (x - of_int c) y s'" "c \<le> spec_credits spec" "tallied a T s' v'"
    "tally_ok v' (m + spec_credits spec)" "supplied E w (Suc (Suc (Suc k))) n s'"
    "length (holds s') = Suc (length (holds s))" "length (entries s') = Suc (length (entries s))"
proof -
  define c where "c = min (uint actual) (spec_credits spec)"
  let ?c = "spec_credits spec" and ?r = "ReservationId (new_v7 (E k) 0)"
  let ?h = "new_hold (hold_request a ?r ?c Hard None (Some R))"
  let ?s = "with_hold ?r ?h s"
  have pos: "0 < ?c" by (rule spec_credits_pos)
  have c: "0 \<le> c" "c \<le> ?c" using pos by (simp_all add: c_def)
  have free: "map_of (holds s) ?r = None" using supplied_id(1) [OF assms(10,11)] by (simp add: untouched_def)
  note bal = at_balance_held [OF assms(3) spec_credits_pos free, of spec Hard None "Some R"]
  have rsv: "reserved (memory_ops D) E (Suc k, s) (hold_request a ?r ?c Hard None (Some R)) =
      Some ((Suc (Suc k), ?s), Allowed ?r)"
    using reserved_eq [OF assms(1-3) spec_credits_pos free] assms(4) by simp
  have h: "map_of (holds ?s) ?r = Some ?h" by (simp add: update_conv')
  have sup: "supplied E w (Suc (Suc k)) (Suc n) ?s"
  proof (rule supplied_held)
    show "supplied E w (Suc k) (Suc (Suc n)) s" using assms(10) by (rule supplied_next) simp
    show "new_v7 (E k) 0 \<notin> set (id_supply E w (Suc (Suc k)) (Suc n))"
      using supplied_id(2) [OF assms(10,11)] supply_later by blast
    show "hold_run_id ?h \<noteq> Some (Id u)" if "u \<in> set (id_supply E w (Suc (Suc k)) (Suc n))" for u
      using assms(13) that supply_later by fastforce
  qed
  obtain e where e: "settled (memory_ops D) E (Suc (Suc k), ?s) ?r c =
       Some ((Suc (Suc (Suc k)), with_hold ?r (closed_hold ?h (entry_id e)) (posted e ?s)), e)"
    "at_balance a (x - of_int c) (y + of_int ?c - hold_amount ?h) (with_hold ?r (closed_hold ?h (entry_id e)) (posted e ?s))"
    "supplied E w (Suc (Suc (Suc k))) n (with_hold ?r (closed_hold ?h (entry_id e)) (posted e ?s))"
    "entry_id e = Id (new_v7 (E (Suc (Suc k))) 0)" "delta_credits e = - of_int c" "entry_type e = Settle"
    "reverses_entry_id e = None" "kstep ?s (KPost e) (posted e ?s)"
    by (rule settled_eq [OF assms(1,2) bal h _ _ c(1) sup assms(11)]) simp_all
  let ?h' = "closed_hold ?h (entry_id e)"
  let ?t = "with_hold ?r ?h' (posted e ?s)"
  define v' where "v' = (if spec_run spec = target \<and> 0 < c
    then v\<lparr>target_refund_amount := target_refund_amount v + c, target_refund_count := Suc (target_refund_count v)\<rparr>
    else v)"
  have "apply_spec (memory_ops D) E a run_ids target (k, s) v spec = Some ((Suc (Suc (Suc k)), ?t), v')"
    using assms(6-8,12) rsv c e(1) by (simp add: apply_spec_def Let_def v'_def i64_eq tally_ok_def
            flip: c_def del: min_less_iff_conj)
  moreover have hs: "holds ?t = holds s @ [(?r, ?h')]" by (simp add: update_absent [OF free] update_last [OF free])
  have rem: "remainder_of ?t (entry_id e) = of_int c"
    using new_entry_remainder [OF supplied_id(1) [OF sup assms(11)], of e] e by simp
  have "tallied a T ?t v'"
  proof (rule tallied_more [OF assms(5), where ms = "if R = T then [(?r, ?h')] else []"])
    show "ledger_inv s" using assms(3) by (simp add: at_balance_def)
    show "run_members ?t T = run_members s T @ (if R = T then [(?r, ?h')] else [])"
      using run_members_more [OF hs, of T] by (simp add: closed_hold_def)
    show "run_charges ?t T = run_charges s T" using e(6) by (simp add: run_charges_def)
    show "remainder_of ?t i = remainder_of s i" if "i \<in> entry_ids s" for i
      using remainder_post [OF e(8), of i] that e(7) by simp
  qed (use assms(9) rem c in \<open>auto simp: v'_def open_members_def member_dues_def closed_hold_def held_by_def
         owed_to_def owed_total_def owed_def unpaid_def\<close>)
  moreover have "tally_ok v' (m + ?c)" using assms(6) c by (auto simp: v'_def tally_ok_def)
  ultimately show thesis using that e(2,3) c(2) hs by simp
qed

text \<open>The loop, whichever the specs do.\<close>

lemma apply_spec_passes:
  assumes "exact_sums D" and "total_sums D" and "at_balance a x y s" and "of_int (spec_credits spec) \<le> x - y"
    and "tallied a T s v" and "tally_ok v m" and "m + spec_credits spec < 2 ^ 63"
    and "run_at run_ids (spec_run spec) = Some R" and "R = T \<longleftrightarrow> spec_run spec = target"
    and "supplied E w k (3 + n) s" and "0 < w"
    and "\<And>u. u \<in> set (id_supply E w k (3 + n)) \<Longrightarrow> R \<noteq> Id u"
  obtains k' s' v' x' y' where "apply_spec (memory_ops D) E a run_ids target (k, s) v spec = Some ((k', s'), v')"
    "k \<le> k'" "k' \<le> k + 3" "at_balance a x' y' s'" "x - y - of_int (spec_credits spec) \<le> x' - y'"
    "tallied a T s' v'" "tally_ok v' (m + spec_credits spec)" "supplied E w k' n s'"
    "length (holds s') = Suc (length (holds s))" "length (entries s') \<le> Suc (length (entries s))"
proof -
  have sup: "supplied E w k (Suc (Suc (Suc n))) s" using assms(10) by (simp add: numeral_eq_Suc)
  have R: "R \<noteq> Id u" if "u \<in> set (id_supply E w (Suc k) (Suc (Suc n)))" for u
    using assms(12) that supply_later [of E w k "Suc (Suc n)"] by (auto simp: numeral_eq_Suc)
  show thesis
  proof (cases "spec_settle spec")
    case None
    obtain s' v' where *: "apply_spec (memory_ops D) E a run_ids target (k, s) v spec = Some ((Suc (Suc k), s'), v')"
      "at_balance a x (y + of_int (spec_credits spec)) s'" "tallied a T s' v'" "tally_ok v' (m + spec_credits spec)"
      "supplied E w (Suc (Suc k)) (Suc n) s'" "length (holds s') = Suc (length (holds s))" "entries s' = entries s"
      by (rule apply_spec_open [OF assms(1-9) sup assms(11) None R])
    have "supplied E w (Suc (Suc k)) n s'" using *(5) supplied_take [of E w "Suc (Suc k)" n 1] by simp
    then show thesis using that [OF *(1) _ _ *(2) _ *(3,4)] *(6,7) by simp
  next
    case (Some actual)
    obtain s' v' c where *:
      "apply_spec (memory_ops D) E a run_ids target (k, s) v spec = Some ((Suc (Suc (Suc k)), s'), v')"
      "at_balance a (x - of_int c) y s'" "c \<le> spec_credits spec" "tallied a T s' v'"
      "tally_ok v' (m + spec_credits spec)" "supplied E w (Suc (Suc (Suc k))) n s'"
      "length (holds s') = Suc (length (holds s))" "length (entries s') = Suc (length (entries s))"
      by (rule apply_spec_settled [OF assms(1-9) sup assms(11) Some R])
    then show thesis using that [OF *(1) _ _ *(2) _ *(4-7)] by simp
  qed
qed

lemma apply_specs_passes:
  assumes "exact_sums D" and "total_sums D" and "0 < w"
  shows "at_balance a x y s \<Longrightarrow> of_int (sum_list (map spec_credits specs)) \<le> x - y \<Longrightarrow> tallied a T s v \<Longrightarrow>
    tally_ok v m \<Longrightarrow> m + sum_list (map spec_credits specs) < 2 ^ 63 \<Longrightarrow>
    (\<And>spec. spec \<in> set specs \<Longrightarrow> \<exists>R. run_at run_ids (spec_run spec) = Some R \<and>
       (R = T \<longleftrightarrow> spec_run spec = target) \<and> (\<forall>u \<in> set (id_supply E w k (3 * length specs + n)). R \<noteq> Id u)) \<Longrightarrow>
    supplied E w k (3 * length specs + n) s \<Longrightarrow>
    \<exists>k' s' v' x' y'. apply_specs (memory_ops D) E a run_ids target (k, s) v specs = Some ((k', s'), v') \<and>
      at_balance a x' y' s' \<and> tallied a T s' v' \<and> supplied E w k' n s' \<and>
      length (holds s') \<le> length (holds s) + length specs \<and> length (entries s') \<le> length (entries s) + length specs"
proof (induction specs arbitrary: k s v x y m)
  case Nil
  then show ?case by auto
next
  case (Cons spec specs)
  let ?n = "3 * length specs + n"
  have rest: "0 \<le> sum_list (map spec_credits specs)"
    by (rule sum_list_nonneg) (auto intro: less_imp_le spec_credits_pos)
  have bound: "of_int (spec_credits spec) \<le> x - y" "m + spec_credits spec < 2 ^ 63"
  proof -
    have "(0 :: rat) \<le> of_int (sum_list (map spec_credits specs))" using rest by (simp only: of_int_0_le_iff)
    moreover have "of_int (spec_credits spec) + of_int (sum_list (map spec_credits specs)) \<le> x - y"
      using Cons.prems(2) by simp
    ultimately show "of_int (spec_credits spec) \<le> x - y" by linarith
    show "m + spec_credits spec < 2 ^ 63" using Cons.prems(5) rest by simp
  qed
  obtain R where R: "run_at run_ids (spec_run spec) = Some R" "R = T \<longleftrightarrow> spec_run spec = target"
    "\<And>u. u \<in> set (id_supply E w k (3 + ?n)) \<Longrightarrow> R \<noteq> Id u"
    using Cons.prems(6) [of spec] by (auto simp: add.assoc)
  have sup: "supplied E w k (3 + ?n) s" using Cons.prems(7) by (simp add: add.assoc)
  obtain k' s' v' x' y' where st: "apply_spec (memory_ops D) E a run_ids target (k, s) v spec = Some ((k', s'), v')"
    "k \<le> k'" "k' \<le> k + 3" "at_balance a x' y' s'" "x - y - of_int (spec_credits spec) \<le> x' - y'"
    "tallied a T s' v'" "tally_ok v' (m + spec_credits spec)" "supplied E w k' ?n s'"
    "length (holds s') = Suc (length (holds s))" "length (entries s') \<le> Suc (length (entries s))"
    by (rule apply_spec_passes [OF assms(1,2) Cons.prems(1) bound(1) Cons.prems(3,4) bound(2) R(1,2) sup assms(3) R(3)])
  have "id_supply E w k (3 + ?n) = id_supply E w k (k' - k) @ id_supply E w k' (?n + (k + 3 - k'))"
    using supply_add [of E w k "k' - k" "?n + (k + 3 - k')"] st(2,3) by (simp add: add.commute)
  then have later: "set (id_supply E w k' ?n) \<subseteq> set (id_supply E w k (3 + ?n))"
    by (auto simp: supply_add [of E w k' ?n])
  have runs: "\<exists>R. run_at run_ids (spec_run spec') = Some R \<and> (R = T \<longleftrightarrow> spec_run spec' = target) \<and>
      (\<forall>u \<in> set (id_supply E w k' ?n). R \<noteq> Id u)" if "spec' \<in> set specs" for spec'
    using Cons.prems(6) [of spec'] that later by (fastforce simp: add.assoc)
  have "of_int (sum_list (map spec_credits specs)) \<le> x' - y'" using st(5) Cons.prems(2) by simp
  from Cons.IH [OF st(4) this st(6,7) _ runs st(8)] Cons.prems(5) st(1,9,10) show ?case
    by (fastforce simp: add.assoc)
qed

lemma i64_sum_eq:
  "\<forall>n \<in> set ns. 0 \<le> n \<Longrightarrow> 0 \<le> acc \<Longrightarrow> acc + sum_list ns < 2 ^ 63 \<Longrightarrow> i64_sum acc ns = Some (acc + sum_list ns)"
proof (induction ns arbitrary: acc)
  case (Cons n ns)
  have "0 \<le> sum_list ns" using Cons.prems(1) by (intro sum_list_nonneg) simp
  then have "i64 (acc + n) = Some (acc + n)" using Cons.prems by (intro i64_eq) simp_all
  then show ?case using Cons by (simp add: add.assoc)
qed simp

lemma run_count_bound: "x = target \<or> (\<exists>spec \<in> set specs. x = spec_run spec) \<Longrightarrow> unat x < run_count specs target"
proof -
  have "unat target \<le> fold max (map (unat \<circ> spec_run) specs) (unat target) \<and>
    (\<forall>spec \<in> set specs. unat (spec_run spec) \<le> fold max (map (unat \<circ> spec_run) specs) (unat target))"
    by (simp add: Max.set_eq_fold [symmetric])
  then show "x = target \<or> (\<exists>spec \<in> set specs. x = spec_run spec) \<Longrightarrow> unat x < run_count specs target"
    by (auto simp: run_count_def less_Suc_eq_le)
qed

lemma run_at_eq:
  assumes "unat i < n"
  shows "run_at (map (\<lambda>j. Id (new_v7 (E j) 0)) [k..<k + n]) i = Some (Id (new_v7 (E (k + unat i)) 0))"
  using assms by (simp add: run_at_def)

lemma untouched_run:
  assumes "untouched s u"
  shows "run_members s (Id u) = []" "run_charges s (Id u) = []"
  using assms by (auto simp: untouched_def run_members_def run_charges_def list_all_iff filter_empty_conv)

text \<open>The run of a spec is one of the fresh ones, the target run exactly when the spec says so.\<close>

lemma run_of_spec:
  assumes "supplied E w k (n + m) s" and "0 < w" and "unat i < n" and "unat target < n"
  shows "\<exists>R. run_at (map (\<lambda>j. Id (new_v7 (E j) 0)) [k..<k + n]) i = Some R \<and>
    (R = Id (new_v7 (E (k + unat target)) 0) \<longleftrightarrow> i = target) \<and> (\<forall>u \<in> set (id_supply E w (k + n) m). R \<noteq> Id u)"
proof -
  let ?u = "\<lambda>i. new_v7 (E (k + unat i)) 0"
  have "inj_on (\<lambda>j. new_v7 (E j) 0) {k..<k + n}"
    using supplied_heads_distinct [OF supplied_take [OF assms(1)] assms(2)] unfolding distinct_map set_upt by blast
  from inj_on_eq_iff [OF this, of "k + unat i" "k + unat target"] assms(3,4)
  have "?u i = ?u target \<longleftrightarrow> i = target" by (simp add: word_unat_eq_iff)
  moreover have "?u i \<noteq> u" if "u \<in> set (id_supply E w (k + n) m)" for u
    using supplied_head(2) [OF assms(1,2), of "k + unat i"] assms(3) that by auto
  ultimately show ?thesis using run_at_eq [OF assms(3), of E k] by auto
qed

text \<open>The tail of the check: the void itself, and the void repeated.\<close>

lemma void_of_tallied:
  assumes "exact_sums D" and "total_sums D" and "at_balance a x y s" and "tallied a T s v"
    and "fresh E s"
  obtains s' sm where "void_run D E s T = Some (s', Inr sm)" "holds_released sm = target_open_count v"
    "summary_is sm (target_refund_count v) (target_refund_amount v)"
    "at_balance a (x + of_int (target_refund_amount v)) (y - of_int (target_open_amount v)) s'"
    "\<forall>E'. void_run D E' s' T = Some (s', Inr empty_summary)"
proof -
  have s: "ledger_inv s" "a \<noteq> SYSTEM_ACCOUNT" using assms(3) by (simp_all add: at_balance_def)
  obtain s' sm where vr: "void_run D E s T = Some (s', Inr sm)"
    using void_run_total [OF assms(1,2,5) s(1)] by blast
  obtain n sm' where "Inr sm = Inr sm'"
    "vr_moved (run_dues s T) (open_members (run_members s T)) (s, 0, empty_summary) (s', n, sm')"
    by (rule void_run_moved [OF assms(1,5) s(1) vr]) blast
  then have mv: "vr_moved (member_dues (run_members s T)) (open_members (run_members s T)) (s, 0, empty_summary) (s', n, sm)"
    using assms(4) by (simp add: run_dues_def tallied_def)
  obtain n' sm'' where "Inr sm = Inr sm''"
    "holds_released sm'' = length (filter (\<lambda>(_, h). hold_status h = Open) (run_members s T))"
    by (rule void_run_effect [OF assms(1,5) s(1) vr]) blast
  then have rel: "holds_released sm = target_open_count v"
    using assms(4) by (simp add: tallied_def Let_def open_members_def)
  from void_run_trace [OF assms(1,5) ledger_inv_keys(2) [OF s(1)] vr] obtain ls where ls: "ktrace s ls s'" by blast
  have "at_balance a (x + of_int (target_refund_amount v)) (y - of_int (target_open_amount v)) s'"
    using mv assms(3,4) ktrace_inv [OF ls] ktrace_guarded [OF ls, of a]
    by (simp add: at_balance_def vr_moved_def tallied_def Let_def)
  moreover have "summary_is sm (target_refund_count v) (target_refund_amount v)"
    using mv assms(4) by (simp add: summary_is_def vr_moved_def tallied_def Let_def empty_summary_def credits_def)
  moreover have "void_run D E' s' T = Some (s', Inr empty_summary)" for E'
    by (rule void_run_nothing [OF assms(1,2) void_run_clears [OF assms(1,5) s(1) vr]])
  ultimately show thesis using that vr rel by blast
qed

text \<open>The check up to the void, whatever the specs ask for.\<close>

lemma void_check_setup:
  assumes "exact_sums D" and "total_sums D" and "ledger_inv s"
    and "sum_list (map spec_credits specs) + 1 < 2 ^ 63"
    and "supplied E w k (5 + run_count specs target + 3 * length specs) s"
    and "id_budget s + 1 + 2 * length specs \<le> w"
  defines "n0 \<equiv> Suc (Suc (Suc k))" and "rc \<equiv> run_count specs target"
  defines "v0 \<equiv> \<lparr>target_open_amount = 0, target_open_count = 0, target_refund_amount = 0, target_refund_count = 0\<rparr>"
    and "rs \<equiv> map (\<lambda>j. Id (new_v7 (E j) 0) :: run_id) [n0..<n0 + rc]"
    and "T \<equiv> Id (new_v7 (E (n0 + unat target)) 0) :: run_id"
  obtains s1 a s2 k3 s3 v x y where
    "open_no_overdraft_org (memory_ops D) E (k, s) = Some ((Suc (Suc k), s1), a)"
    "granted (memory_ops D) E (Suc (Suc k), s1) a (sum_list (map spec_credits specs) + 1) = Some (n0, s2)"
    "apply_specs (memory_ops D) E a rs target (n0 + rc, s2) v0 specs = Some ((k3, s3), v)"
    "at_balance a x y s3" "tallied a T s3 v" "fresh (E (Suc k3)) s3"
proof -
  let ?total = "sum_list (map spec_credits specs)" and ?n = "3 * length specs"
  have w: "0 < w" using assms(6) by simp
  have total: "0 \<le> ?total" by (rule sum_list_nonneg) (auto intro: less_imp_le spec_credits_pos)
  have sup0: "supplied E w k (Suc (Suc (Suc (rc + (?n + 2))))) s"
    using assms(5) by (simp add: rc_def numeral_eq_Suc add.assoc)
  obtain s1 a where o: "open_no_overdraft_org (memory_ops D) E (k, s) = Some ((Suc (Suc k), s1), a)"
    and b1: "at_balance a 0 0 s1" and u1: "supplied E w (Suc (Suc k)) (Suc (rc + (?n + 2))) s1"
    and f1: "holds s1 = holds s" "entries s1 = entries s"
    by (rule opened_eq [OF assms(3) sup0 w])
  have "0 < ?total + 1" using total by simp
  from granted_eq [OF assms(1,2) b1 this u1 w] obtain s2 e where
    g: "granted (memory_ops D) E (Suc (Suc k), s1) a (?total + 1) = Some (n0, s2)"
    and b2: "at_balance a (of_int (?total + 1)) 0 s2" and u2: "supplied E w n0 (rc + (?n + 2)) s2"
    and f2: "holds s2 = holds s" "entries s2 = entries s @ [e]" using f1 by (auto simp: n0_def)
  have target: "unat target < rc" unfolding rc_def by (rule run_count_bound) simp
  have "untouched s2 (new_v7 (E (n0 + unat target)) 0)"
    using target by (intro supplied_head(1) [OF u2 w]) simp_all
  then have t0: "tallied a T s2 v0" "tally_ok v0 0"
    using untouched_run by (simp_all add: tallied_def tally_ok_def v0_def T_def)
  have runs: "\<exists>R. run_at rs (spec_run spec) = Some R \<and> (R = T \<longleftrightarrow> spec_run spec = target) \<and>
      (\<forall>u \<in> set (id_supply E w (n0 + rc) (?n + 2)). R \<noteq> Id u)" if "spec \<in> set specs" for spec
    unfolding rs_def T_def using that target
    by (intro run_of_spec [OF u2 w]) (auto simp: rc_def intro: run_count_bound)
  have "of_int ?total \<le> of_int (?total + 1) - (0 :: rat)" by simp
  from apply_specs_passes [OF assms(1,2) w b2 this t0 _ runs supplied_drop [OF u2]] assms(4) obtain k3 s3 v x y where
    l: "apply_specs (memory_ops D) E a rs target (n0 + rc, s2) v0 specs = Some ((k3, s3), v)"
    "at_balance a x y s3" "tallied a T s3 v" and u4: "supplied E w k3 2 s3"
    and len: "length (holds s3) \<le> length (holds s2) + length specs"
      "length (entries s3) \<le> length (entries s2) + length specs" by auto
  have "supplied E w (Suc k3) (Suc 0) s3"
    using u4 by (intro supplied_next [of E w k3 "Suc 0" s3]) (simp_all add: numeral_2_eq_2)
  then have "fresh_ids (E (Suc k3)) 0 w s3" by (rule supplied_fresh)
  moreover have "id_budget s3 \<le> w" using len f2 assms(6) by (simp add: id_budget_def)
  ultimately have "fresh (E (Suc k3)) s3" by (rule fresh_ids_mono [OF _ order_refl])
  with o g l show thesis by (rule that)
qed

text \<open>
  C16. The in-memory ledger passes the run-void check for every input. \<open>void_run_property\<close> returns, on
  any well-formed ledger, for any mix of run-tagged holds left open or settled and any target run:
  the void reports exactly the target run's open holds and positive settles, moves the balances by
  exactly those, changes no other run, and a second void does nothing. The accounts still add up to zero.
\<close>

theorem void_run_check_passes:
  assumes "exact_sums D" and "total_sums D" and "ledger_inv s"
    and "sum_list (map spec_credits specs) + 1 < 2 ^ 63"
    and "supplied E w k (5 + run_count specs target + 3 * length specs) s"
    and "id_budget s + 1 + 2 * length specs \<le> w"
  shows "\<exists>k' s'. void_run_property (memory_ops D) D E (k, s) specs target = Some (k', s') \<and>
    net_settled D s' = Some 0"
  using assms
proof (rule void_check_setup, goal_cases)
  case (1 s1 a s2 k3 s3 v x y)
  let ?n0 = "Suc (Suc (Suc k))" and ?rc = "run_count specs target" and ?total = "sum_list (map spec_credits specs)"
  let ?runs = "map (\<lambda>j. Id (new_v7 (E j) 0) :: run_id) [?n0..<?n0 + ?rc]"
  let ?T = "Id (new_v7 (E (?n0 + unat target)) 0) :: run_id"
  have nonneg: "\<forall>c \<in> set (map spec_credits specs). 0 \<le> c" by (auto intro: less_imp_le spec_credits_pos)
  then have "0 \<le> ?total" by (intro sum_list_nonneg) blast
  then have sums: "i64_sum 0 (map spec_credits specs) = Some ?total" "i64 (?total + 1) = Some (?total + 1)"
    using i64_sum_eq [OF nonneg, of 0] assms(4) by (simp_all add: i64_eq)
  obtain s4 sm where vr: "void_run D (E (Suc k3)) s3 ?T = Some (s4, Inr sm)" "holds_released sm = target_open_count v"
    "summary_is sm (target_refund_count v) (target_refund_amount v)"
    and b4: "at_balance a (x + of_int (target_refund_amount v)) (y - of_int (target_open_amount v)) s4"
    and again: "\<forall>E'. void_run D E' s4 ?T = Some (s4, Inr empty_summary)"
    by (rule void_of_tallied [OF assms(1,2) 1(4,5,6)])
  have "run_at ?runs target = Some ?T"
    using run_count_bound [of target target specs] by (intro run_at_eq) simp
  moreover have "fresh_runs E (?n0, s2) ?rc = ((?n0 + ?rc, s2), ?runs)" by (rule fresh_runs_eq)
  ultimately have "void_run_property (memory_ops D) D E (k, s) specs target =
      Some (Suc (Suc (Suc (Suc (Suc k3)))), s4)"
    using sums 1(1-3) vr again balance_at_eq [OF assms(1,2) 1(4)] balance_at_eq [OF assms(1,2) b4]
    by (simp add: void_run_property_def voided_run_def dec_add_total [OF assms(1,2)] dec_sub_total [OF assms(1,2)]
          credits_def empty_summary_def summary_is_def del: upt_Suc)
  moreover have "net_settled D s4 = Some 0"
    using b4 by (simp add: net_settled_total [OF assms(1,2)] at_balance_def ledger_inv_def)
  ultimately show ?case by blast
qed

theorem void_run_check_passes_witness:
  "\<exists>k' s'. void_run_property (memory_ops exact_deps) exact_deps suite_env (0, new_ledger)
      [\<lparr>spec_run = 0, spec_amount = 40, spec_settle = Some 25\<rparr>, \<lparr>spec_run = 0, spec_amount = 7, spec_settle = None\<rparr>] 0
     = Some (k', s') \<and> net_settled exact_deps s' = Some 0"
proof (rule void_run_check_passes)
  show "supplied suite_env 8 0 (5 + run_count
      [\<lparr>spec_run = 0, spec_amount = 40, spec_settle = Some 25\<rparr>, \<lparr>spec_run = 0, spec_amount = 7, spec_settle = None\<rparr>] 0 +
      3 * length [\<lparr>spec_run = 0, spec_amount = 40, spec_settle = Some 25\<rparr>,
        \<lparr>spec_run = 0, spec_amount = 7, spec_settle = None\<rparr>]) new_ledger"
    by (rule suite_supplied) (simp_all add: run_count_def)
qed (simp_all add: new_ledger_inv, code_simp+)

end
