(* ===== verification/Event_Suite.thy ===== *)
theory Event_Suite
  imports Conformance Event_Backend
begin

text \<open>
  The conformance suite of the event stores, \<open>crates/meter-event/src/conformance.rs\<close>: one definition per
  scenario over any implementation of the \<open>EventStore\<close> trait, on the bench of the ledger suite. A
  scenario that returns has passed.
\<close>

section \<open>Shared steps\<close>

text \<open>\<open>Value::index\<close> with a string: a missing member reads as null.\<close>

fun json_member :: "json \<Rightarrow> string \<Rightarrow> json" where
  "json_member (JObject members) k = (case map_of members k of None \<Rightarrow> JNull | Some v \<Rightarrow> v)"
| "json_member _ k = JNull"

definition record_req :: "org_id \<Rightarrow> account_id \<Rightarrow> string \<Rightarrow> run_id option \<Rightarrow> record_event" where
  "record_req org account key run = \<lparr>rec_org_id = org, rec_idempotency_key = key,
     rec_event_time = UNIX_EPOCH, rec_meter = ''tokens'', rec_account_id = account, rec_run_id = run,
     rec_properties = JObject [(''input'', JNumber 1000), (''output'', JNumber 500),
       (''model'', JString ''claude-opus-4-8'')]\<rparr>"

definition amend_req :: "event_id \<Rightarrow> (string \<times> json) list \<Rightarrow> string option \<Rightarrow> amend_event" where
  "amend_req i members key =
     \<lparr>amend_event_id = i, amend_properties = JObject members, amend_idempotency_key = key\<rparr>"

definition fresh_tenant :: "(nat \<Rightarrow> env) \<Rightarrow> 'x bench \<Rightarrow> 'x bench \<times> org_id \<times> account_id" where
  "fresh_tenant E t = (case fresh_uuid E t of (t, org) \<Rightarrow> case fresh_uuid E t of (t, account) \<Rightarrow>
     (t, Id org, Id account))"

definition recorded ::
  "'x event_ops \<Rightarrow> (nat \<Rightarrow> env) \<Rightarrow> 'x bench \<Rightarrow> record_event \<Rightarrow> ('x bench \<times> event) option" where
  "recorded S E t q = expect E t (\<lambda>e x. ev_record S e x q)"

definition listed ::
  "'x event_ops \<Rightarrow> (nat \<Rightarrow> env) \<Rightarrow> 'x bench \<Rightarrow> account_id \<Rightarrow> ('x bench \<times> event list) option" where
  "listed S E t account = expect E t (\<lambda>_ x. ev_list_for_account S x account)"

text \<open>Indexing a vector panics out of range.\<close>

definition at_index :: "'a list \<Rightarrow> nat \<Rightarrow> 'a option" where
  "at_index xs i = (if i < length xs then Some (xs ! i) else None)"

section \<open>The scenarios\<close>

definition record_and_get :: "'x event_ops \<Rightarrow> (nat \<Rightarrow> env) \<Rightarrow> 'x bench \<Rightarrow> 'x bench option" where
  "record_and_get S E t = (case fresh_tenant E t of (t, org, account) \<Rightarrow> do {
     (t, event) \<leftarrow> recorded S E t (record_req org account ''evt-1'' None);
     (t, fetched) \<leftarrow> expect E t (\<lambda>_ x. ev_get S x (event_id event));
     assert_that (event_id fetched = event_id event);
     assert_that (json_member (properties fetched) ''model'' = JString ''claude-opus-4-8'');
     Some t })"

definition record_is_idempotent :: "'x event_ops \<Rightarrow> (nat \<Rightarrow> env) \<Rightarrow> 'x bench \<Rightarrow> 'x bench option" where
  "record_is_idempotent S E t = (case fresh_tenant E t of (t, org, account) \<Rightarrow> do {
     (t, first) \<leftarrow> recorded S E t (record_req org account ''evt-dup'' None);
     (t, second) \<leftarrow> recorded S E t (record_req org account ''evt-dup'' None);
     assert_that (event_id first = event_id second);
     (t, events) \<leftarrow> listed S E t account;
     assert_that (length events = 1);
     Some t })"

definition amend_supersedes :: "'x event_ops \<Rightarrow> (nat \<Rightarrow> env) \<Rightarrow> 'x bench \<Rightarrow> 'x bench option" where
  "amend_supersedes S E t = (case fresh_tenant E t of (t, org, account) \<Rightarrow> do {
     (t, original) \<leftarrow> recorded S E t (record_req org account ''evt-amend'' None);
     (t, amended) \<leftarrow> expect E t (\<lambda>e x. ev_amend S e x
        (amend_req (event_id original) [(''input'', JNumber 1200), (''output'', JNumber 600)] None));
     assert_that (supersedes amended = Some (event_id original));
     (t, superseded) \<leftarrow> expect E t (\<lambda>_ x. ev_get S x (event_id original));
     assert_that (event_status superseded = Amended);
     (t, current) \<leftarrow> listed S E t account;
     assert_that (length current = 1);
     version \<leftarrow> at_index current 0;
     assert_that (event_id version = event_id amended);
     assert_that (json_member (properties version) ''input'' = JNumber 1200);
     Some t })"

definition record_batch_is_idempotent_and_ordered ::
  "'x event_ops \<Rightarrow> (nat \<Rightarrow> env) \<Rightarrow> 'x bench \<Rightarrow> 'x bench option" where
  "record_batch_is_idempotent_and_ordered S E t = (case fresh_tenant E t of (t, org, account) \<Rightarrow> do {
     let reqs = [record_req org account ''batch-1'' None, record_req org account ''batch-2'' None,
       record_req org account ''batch-3'' None];
     (t, recorded_batch) \<leftarrow> expect E t (\<lambda>e x. ev_record_batch S e x reqs);
     assert_that (length recorded_batch = 3);
     r0 \<leftarrow> at_index recorded_batch 0;
     assert_that (event_idempotency_key r0 = ''batch-1'');
     r2 \<leftarrow> at_index recorded_batch 2;
     assert_that (event_idempotency_key r2 = ''batch-3'');
     (t, again) \<leftarrow> expect E t (\<lambda>e x. ev_record_batch S e x
        [record_req org account ''batch-2'' None, record_req org account ''batch-4'' None]);
     a0 \<leftarrow> at_index again 0;
     r1 \<leftarrow> at_index recorded_batch 1;
     assert_that (event_id a0 = event_id r1);
     (t, single) \<leftarrow> recorded S E t (record_req org account ''batch-1'' None);
     assert_that (event_id single = event_id r0);
     (t, events) \<leftarrow> listed S E t account;
     assert_that (length events = 4);
     Some t })"

definition run_voided ::
  "'x event_ops \<Rightarrow> (nat \<Rightarrow> env) \<Rightarrow> 'x bench \<Rightarrow> run_id \<Rightarrow> nat \<Rightarrow> 'x bench option" where
  "run_voided S E t run n = do {
     (t, voided) \<leftarrow> expect E t (\<lambda>_ x. ev_void_run S x run);
     assert_that (voided = n);
     Some t }"

definition void_run_voids_events :: "'x event_ops \<Rightarrow> (nat \<Rightarrow> env) \<Rightarrow> 'x bench \<Rightarrow> 'x bench option" where
  "void_run_voids_events S E t = (case fresh_tenant E t of (t, org, account) \<Rightarrow> case fresh_run E t of (t, run) \<Rightarrow> do {
     (t, _) \<leftarrow> recorded S E t (record_req org account ''run-evt-1'' (Some run));
     (t, _) \<leftarrow> recorded S E t (record_req org account ''run-evt-2'' (Some run));
     t \<leftarrow> run_voided S E t run 2;
     (t, events) \<leftarrow> listed S E t account;
     assert_that (events = []);
     Some t })"

definition amend_after_void_is_refused :: "'x event_ops \<Rightarrow> (nat \<Rightarrow> env) \<Rightarrow> 'x bench \<Rightarrow> 'x bench option" where
  "amend_after_void_is_refused S E t = (case fresh_tenant E t of (t, org, account) \<Rightarrow> case fresh_run E t of (t, run) \<Rightarrow> do {
     (t, event) \<leftarrow> recorded S E t (record_req org account ''void-then-amend'' (Some run));
     t \<leftarrow> run_voided S E t run 1;
     (t, result) \<leftarrow> ask E t (\<lambda>e x. ev_amend S e x (amend_req (event_id event) [(''input'', JNumber 9999)] None));
     assert_that (case result of Inl (EventVoided i) \<Rightarrow> i = event_id event | _ \<Rightarrow> False);
     Some t })"

definition amend_is_idempotent_on_key :: "'x event_ops \<Rightarrow> (nat \<Rightarrow> env) \<Rightarrow> 'x bench \<Rightarrow> 'x bench option" where
  "amend_is_idempotent_on_key S E t = (case fresh_tenant E t of (t, org, account) \<Rightarrow> do {
     (t, original) \<leftarrow> recorded S E t (record_req org account ''evt-amend-idem'' None);
     let q = amend_req (event_id original) [(''input'', JNumber 1200), (''note'', JString ''fixed'')]
       (Some ''correction-1'');
     (t, first) \<leftarrow> expect E t (\<lambda>e x. ev_amend S e x q);
     (t, retry) \<leftarrow> expect E t (\<lambda>e x. ev_amend S e x q);
     assert_that (event_id first = event_id retry);
     (t, current) \<leftarrow> listed S E t account;
     assert_that (length current = 1);
     version \<leftarrow> at_index current 0;
     assert_that (event_id version = event_id first);
     Some t })"

definition run_all_event_scenarios :: "'x event_ops \<Rightarrow> (nat \<Rightarrow> env) \<Rightarrow> 'x bench \<Rightarrow> 'x bench option" where
  "run_all_event_scenarios S E t = do {
     t \<leftarrow> record_and_get S E t;
     t \<leftarrow> record_is_idempotent S E t;
     t \<leftarrow> record_batch_is_idempotent_and_ordered S E t;
     t \<leftarrow> amend_supersedes S E t;
     t \<leftarrow> amend_is_idempotent_on_key S E t;
     t \<leftarrow> amend_after_void_is_refused S E t;
     void_run_voids_events S E t }"

end
