(* ===== verification/Pg_Tables.thy ===== *)
theory Pg_Tables
  imports Ledger_Refine
begin

text \<open>
  The Postgres ledger of \<open>crates/meter-store-pg\<close>, lower half: the tables of \<open>migrations/\<close>, the SQL
  statements the source sends, transactions, and the conversions of \<open>src/mapping.rs\<close>.

  A table is the list of its rows in insertion order. A statement is a function on the database that
  fails or returns a new database and its rows; it checks the constraints the migrations declare
  (primary keys, foreign keys, the unique index on account and key) and stores a \<open>numeric(30,5)\<close> as
  Postgres does, rounded to five places, refusing 25 integer digits or more. Columns no query reads
  (\<open>created_at\<close> of accounts and holds) are left out.

  What is not the engine's is a parameter, the record \<open>pg\<close>: the text of a driver error, the decoding of
  a numeric into a decimal, the storage of a timestamp, and which statements of a call fail: a
  statement can be refused, and its acknowledgement can be lost after it took effect.
\<close>

section \<open>Tables\<close>

record pg_account =
  pa_id :: uuid
  pa_org_id :: uuid
  pa_scope :: string
  pa_no_overdraft :: bool
  pa_parent_id :: "uuid option"
  pa_settled :: rat

record pg_entry =
  pe_id :: uuid
  pe_org_id :: uuid
  pe_account_id :: uuid
  pe_paired_account_id :: uuid
  pe_entry_type :: string
  pe_delta :: rat
  pe_balance_after :: rat
  pe_source :: "string option"
  pe_revenue_recognizable :: bool
  pe_reverses :: "uuid option"
  pe_reservation_id :: "uuid option"
  pe_run_id :: "uuid option"
  pe_key :: "string option"
  pe_created_at :: time

record pg_hold =
  ph_reservation_id :: uuid
  ph_org_id :: uuid
  ph_account_id :: uuid
  ph_amount :: rat
  ph_status :: string
  ph_settle_entry_id :: "uuid option"
  ph_expires_at :: "time option"
  ph_run_id :: "uuid option"

record db =
  tb_accounts :: "pg_account list"
  tb_entries :: "pg_entry list"
  tb_holds :: "pg_hold list"

text \<open>The database right after the migrations: the system account only.\<close>

definition migrated :: db where
  "migrated = \<lparr>tb_accounts = [\<lparr>pa_id = 0, pa_org_id = 0, pa_scope = ''system'', pa_no_overdraft = False,
     pa_parent_id = None, pa_settled = 0\<rparr>], tb_entries = [], tb_holds = []\<rparr>"

section \<open>Failures and parameters\<close>

datatype sql_failure =
    RowNotFound
  | UniqueViolation string
  | ForeignKeyViolation string
  | NumericOverflow
  | DecodeFailed string

record pg =
  pg_text :: "sql_failure \<Rightarrow> string"
  pg_decode :: "rat \<Rightarrow> rat option"
  pg_micros :: "time \<Rightarrow> time"
  pg_fault :: "nat \<Rightarrow> fault option"

text \<open>
  Named hypothesis: a numeric that decodes, decodes to its value. The driver rejects what does not
  fit a decimal.
\<close>

definition decodes_exactly :: "pg \<Rightarrow> bool" where
  "decodes_exactly P \<longleftrightarrow> (\<forall>v d. pg_decode P v = Some d \<longrightarrow> d = v)"

section \<open>Transactions\<close>

record tx =
  committed :: db
  working :: db
  steps :: nat

text \<open>One statement inside a transaction. \<open>map_err(be)?\<close> turns any failure into a backend error.\<close>

definition sql :: "pg \<Rightarrow> (db \<Rightarrow> sql_failure + db \<times> 'a) \<Rightarrow> tx \<Rightarrow> (tx, ledger_error, 'a) sres" where
  "sql P st t = (let t1 = t\<lparr>steps := Suc (steps t)\<rparr> in
     case pg_fault P (steps t) of
       Some f \<Rightarrow> Some (t1, Inl (Backend (fault_text f)))
     | None \<Rightarrow> (case st (working t) of
         Inl e \<Rightarrow> Some (t1, Inl (Backend (pg_text P e)))
       | Inr (d, a) \<Rightarrow> Some (t1\<lparr>working := d\<rparr>, Inr a)))"

definition tx_commit :: "pg \<Rightarrow> tx \<Rightarrow> (tx, ledger_error, unit) sres" where
  "tx_commit P t = (let t1 = t\<lparr>steps := Suc (steps t)\<rparr> in
     case pg_fault P (steps t) of
       None \<Rightarrow> Some (t1\<lparr>committed := working t\<rparr>, Inr ())
     | Some (Refused m) \<Rightarrow> Some (t1, Inl (Backend m))
     | Some (AckLost m) \<Rightarrow> Some (t1\<lparr>committed := working t\<rparr>, Inl (Backend m)))"

text \<open>A transaction that is dropped without a commit rolls back.\<close>

definition transact :: "(tx \<Rightarrow> (tx, ledger_error, 'a) sres) \<Rightarrow> db \<Rightarrow> (db, ledger_error, 'a) sres" where
  "transact p d = map_option (\<lambda>(t, r). (committed t, r)) (p \<lparr>committed = d, working = d, steps = 0\<rparr>)"

text \<open>Commit, then return: the tail of every path that ends well.\<close>

definition commit_with :: "pg \<Rightarrow> (ledger_error + 'a) \<Rightarrow> tx \<Rightarrow> (tx, ledger_error, 'a) sres" where
  "commit_with P r t = sbind (tx_commit P t) (\<lambda>t _. Some (t, r))"

text \<open>A statement sent straight to the pool is its own transaction.\<close>

definition autocommit :: "pg \<Rightarrow> (db \<Rightarrow> sql_failure + db \<times> 'a) \<Rightarrow> db \<Rightarrow> (db, ledger_error, 'a) sres" where
  "autocommit P st = transact (\<lambda>t. sbind (sql P st t) (\<lambda>t a. commit_with P (Inr a) t))"

text \<open>\<open>begin_hot\<close>: \<open>BEGIN\<close>, then \<open>SET LOCAL statement_timeout\<close>.\<close>

definition begin_hot :: "pg \<Rightarrow> tx \<Rightarrow> (tx, ledger_error, unit) sres" where
  "begin_hot P t = sbind (sql P (\<lambda>d. Inr (d, ())) t) (\<lambda>t _. sql P (\<lambda>d. Inr (d, ())) t)"

section \<open>Conversions\<close>

definition scope_to_str :: "account_scope \<Rightarrow> string" where
  "scope_to_str sc = (case sc of
      Org \<Rightarrow> ''org'' | Team \<Rightarrow> ''team'' | User \<Rightarrow> ''user'' | Product \<Rightarrow> ''product''
    | Session \<Rightarrow> ''session'' | Promo \<Rightarrow> ''promo'' | Paid \<Rightarrow> ''paid'' | Budget \<Rightarrow> ''budget''
    | Overage \<Rightarrow> ''overage'' | FxClearing \<Rightarrow> ''fx_clearing'' | System \<Rightarrow> ''system'')"

definition entry_type_to_str :: "entry_type \<Rightarrow> string" where
  "entry_type_to_str ty = (case ty of
      Grant \<Rightarrow> ''grant'' | Usage \<Rightarrow> ''usage'' | ReservationHold \<Rightarrow> ''reservation_hold''
    | Settle \<Rightarrow> ''settle'' | PartialReturn \<Rightarrow> ''partial_return'' | Transfer \<Rightarrow> ''transfer''
    | Void \<Rightarrow> ''void'' | Refund \<Rightarrow> ''refund'' | Chargeback \<Rightarrow> ''chargeback''
    | Expiration \<Rightarrow> ''expiration'' | Amendment \<Rightarrow> ''amendment'' | Fx \<Rightarrow> ''fx'' | Sealing \<Rightarrow> ''sealing'')"

definition entry_type_from_str :: "string \<Rightarrow> ledger_error + entry_type" where
  "entry_type_from_str v =
     (if v = ''grant'' then Inr Grant else if v = ''usage'' then Inr Usage
      else if v = ''reservation_hold'' then Inr ReservationHold else if v = ''settle'' then Inr Settle
      else if v = ''partial_return'' then Inr PartialReturn else if v = ''transfer'' then Inr Transfer
      else if v = ''void'' then Inr Void else if v = ''refund'' then Inr Refund
      else if v = ''chargeback'' then Inr Chargeback else if v = ''expiration'' then Inr Expiration
      else if v = ''amendment'' then Inr Amendment else if v = ''fx'' then Inr Fx
      else if v = ''sealing'' then Inr Sealing
      else Inl (Backend (''unknown entry_type '' @ v)))"

definition source_to_str :: "credit_source \<Rightarrow> string" where
  "source_to_str so = (case so of
      Paid_source \<Rightarrow> ''paid'' | Promo_source \<Rightarrow> ''promo'' | Grant_source \<Rightarrow> ''grant'')"

definition source_from_str :: "string \<Rightarrow> ledger_error + credit_source" where
  "source_from_str v =
     (if v = ''paid'' then Inr Paid_source else if v = ''promo'' then Inr Promo_source
      else if v = ''grant'' then Inr Grant_source
      else Inl (Backend (''unknown source '' @ v)))"

text \<open>\<open>now_micros\<close>: the clock truncated to microseconds.\<close>

definition now_micros :: "env \<Rightarrow> nat \<Rightarrow> time" where
  "now_micros E n = now_utc E n - now_utc E n mod 1000"

definition decode_numeric :: "pg \<Rightarrow> string \<Rightarrow> rat \<Rightarrow> sql_failure + rat" where
  "decode_numeric P column v = (case pg_decode P v of None \<Rightarrow> Inl (DecodeFailed column) | Some d \<Rightarrow> Inr d)"

text \<open>\<open>col::<Decimal>\<close>: the error names the column.\<close>

definition col_decimal :: "pg \<Rightarrow> string \<Rightarrow> rat \<Rightarrow> ledger_error + rat" where
  "col_decimal P name v = (case decode_numeric P name v of
      Inl f \<Rightarrow> Inl (Backend (''column '' @ name @ '': '' @ pg_text P f)) | Inr d \<Rightarrow> Inr d)"

definition entry_from_row :: "pg \<Rightarrow> pg_entry \<Rightarrow> ledger_error + ledger_entry" where
  "entry_from_row P row =
     (case (case pe_source row of None \<Rightarrow> Inr None | Some v \<Rightarrow> map_sum id Some (source_from_str v)) of
        Inl e \<Rightarrow> Inl e
      | Inr so \<Rightarrow> (case entry_type_from_str (pe_entry_type row) of
          Inl e \<Rightarrow> Inl e
        | Inr ty \<Rightarrow> (case col_decimal P ''delta_credits'' (pe_delta row) of
            Inl e \<Rightarrow> Inl e
          | Inr dl \<Rightarrow> (case col_decimal P ''balance_after'' (pe_balance_after row) of
              Inl e \<Rightarrow> Inl e
            | Inr ba \<Rightarrow> Inr
                \<lparr>entry_id = Id (pe_id row), account_id = Id (pe_account_id row),
                 paired_account_id = Id (pe_paired_account_id row), entry_type = ty,
                 delta_credits = dl, balance_after = ba, entry_source = so,
                 revenue_recognizable = pe_revenue_recognizable row,
                 reverses_entry_id = map_option Id (pe_reverses row),
                 entry_reservation_id = map_option ReservationId (pe_reservation_id row),
                 entry_run_id = map_option Id (pe_run_id row),
                 entry_idempotency_key = pe_key row, created_at = pe_created_at row\<rparr>))))"

section \<open>Statements\<close>

definition round_half_away :: "rat \<Rightarrow> rat" where
  "round_half_away x =
     (if 0 \<le> x then of_int \<lfloor>x * 100000 + 1 / 2\<rfloor> / 100000 else - (of_int \<lfloor>- x * 100000 + 1 / 2\<rfloor> / 100000))"

definition numeric_30_5 :: "rat \<Rightarrow> sql_failure + rat" where
  "numeric_30_5 x = (let r = round_half_away x in if \<bar>r\<bar> < 10 ^ 25 then Inr r else Inl NumericOverflow)"

definition find_pg_account :: "db \<Rightarrow> uuid \<Rightarrow> pg_account option" where
  "find_pg_account d u = List.find (\<lambda>a. pa_id a = u) (tb_accounts d)"

definition find_pg_entry :: "db \<Rightarrow> uuid \<Rightarrow> pg_entry option" where
  "find_pg_entry d u = List.find (\<lambda>e. pe_id e = u) (tb_entries d)"

definition find_pg_hold :: "db \<Rightarrow> uuid \<Rightarrow> pg_hold option" where
  "find_pg_hold d u = List.find (\<lambda>h. ph_reservation_id h = u) (tb_holds d)"

text \<open>\<open>SELECT \<dots> FROM ledger_accounts WHERE id = $1\<close>, \<open>fetch_optional\<close>.\<close>

definition select_account :: "uuid \<Rightarrow> db \<Rightarrow> sql_failure + db \<times> pg_account option" where
  "select_account u d = Inr (d, find_pg_account d u)"

definition select_hold :: "uuid \<Rightarrow> db \<Rightarrow> sql_failure + db \<times> pg_hold option" where
  "select_hold u d = Inr (d, find_pg_hold d u)"

text \<open>\<open>SELECT * FROM ledger_entries WHERE account_id = $1 AND idempotency_key = $2\<close>.\<close>

definition select_keyed :: "uuid \<Rightarrow> string \<Rightarrow> db \<Rightarrow> sql_failure + db \<times> pg_entry option" where
  "select_keyed a key d =
     Inr (d, List.find (\<lambda>e. pe_account_id e = a \<and> pe_key e = Some key) (tb_entries d))"

definition select_entry :: "uuid \<Rightarrow> db \<Rightarrow> sql_failure + db \<times> pg_entry option" where
  "select_entry u d = Inr (d, find_pg_entry d u)"

text \<open>\<open>SELECT COALESCE(SUM(amount), 0) FROM ledger_holds WHERE account_id = $1 AND status = 'open'\<close>.\<close>

definition select_held :: "pg \<Rightarrow> uuid \<Rightarrow> db \<Rightarrow> sql_failure + db \<times> rat" where
  "select_held P a d = map_sum id (Pair d) (decode_numeric P ''coalesce''
     (sum_list (map ph_amount (filter (\<lambda>h. ph_account_id h = a \<and> ph_status h = ''open'') (tb_holds d)))))"

text \<open>
  \<open>UPDATE ledger_accounts SET settled_credits = settled_credits + $2 WHERE id = $1 RETURNING \<dots>\<close>,
  \<open>fetch_one\<close>; with a negative amount for \<open>- $2\<close>. Returns the new balance and the organization.
\<close>

definition update_settled :: "pg \<Rightarrow> uuid \<Rightarrow> rat \<Rightarrow> db \<Rightarrow> sql_failure + db \<times> rat \<times> uuid" where
  "update_settled P u amt d = (case find_pg_account d u of
      None \<Rightarrow> Inl RowNotFound
    | Some a \<Rightarrow> (case numeric_30_5 (pa_settled a + amt) of
        Inl f \<Rightarrow> Inl f
      | Inr v \<Rightarrow> (case decode_numeric P ''settled_credits'' v of
          Inl f \<Rightarrow> Inl f
        | Inr b \<Rightarrow> Inr (d\<lparr>tb_accounts := map (\<lambda>x. if pa_id x = u then x\<lparr>pa_settled := v\<rparr> else x)
                             (tb_accounts d)\<rparr>, b, pa_org_id a))))"

definition known_account :: "db \<Rightarrow> uuid \<Rightarrow> bool" where
  "known_account d u = (find_pg_account d u \<noteq> None)"

definition insert_account :: "pg_account \<Rightarrow> db \<Rightarrow> sql_failure + db \<times> unit" where
  "insert_account a d =
     (if known_account d (pa_id a) then Inl (UniqueViolation ''ledger_accounts_pkey'')
      else if (case pa_parent_id a of None \<Rightarrow> False | Some p \<Rightarrow> \<not> known_account d p \<and> p \<noteq> pa_id a)
      then Inl (ForeignKeyViolation ''ledger_accounts_parent_id_fkey'')
      else Inr (d\<lparr>tb_accounts := tb_accounts d @ [a]\<rparr>, ()))"

definition row_of_entry :: "uuid \<Rightarrow> ledger_entry \<Rightarrow> pg_entry" where
  "row_of_entry org e = \<lparr>pe_id = as_uuid (entry_id e), pe_org_id = org,
     pe_account_id = as_uuid (account_id e), pe_paired_account_id = as_uuid (paired_account_id e),
     pe_entry_type = entry_type_to_str (entry_type e), pe_delta = delta_credits e,
     pe_balance_after = balance_after e, pe_source = map_option source_to_str (entry_source e),
     pe_revenue_recognizable = revenue_recognizable e,
     pe_reverses = map_option as_uuid (reverses_entry_id e),
     pe_reservation_id = map_option reservation_uuid (entry_reservation_id e),
     pe_run_id = map_option as_uuid (entry_run_id e), pe_key = entry_idempotency_key e,
     pe_created_at = created_at e\<rparr>"

definition insert_entry :: "pg \<Rightarrow> ledger_entry \<Rightarrow> uuid \<Rightarrow> db \<Rightarrow> sql_failure + db \<times> unit" where
  "insert_entry P e org d =
     (let row = row_of_entry org e in
      case (numeric_30_5 (pe_delta row), numeric_30_5 (pe_balance_after row)) of
        (Inr dl, Inr ba) \<Rightarrow>
          if find_pg_entry d (pe_id row) \<noteq> None then Inl (UniqueViolation ''ledger_entries_pkey'')
          else if pe_key row \<noteq> None \<and>
             list_ex (\<lambda>x. pe_account_id x = pe_account_id row \<and> pe_key x = pe_key row) (tb_entries d)
          then Inl (UniqueViolation ''ledger_entries_idem_idx'')
          else if \<not> known_account d (pe_account_id row)
          then Inl (ForeignKeyViolation ''ledger_entries_account_id_fkey'')
          else if \<not> known_account d (pe_paired_account_id row)
          then Inl (ForeignKeyViolation ''ledger_entries_paired_account_id_fkey'')
          else if (case pe_reverses row of None \<Rightarrow> False | Some u \<Rightarrow> find_pg_entry d u = None \<and> u \<noteq> pe_id row)
          then Inl (ForeignKeyViolation ''ledger_entries_reverses_entry_id_fkey'')
          else Inr (d\<lparr>tb_entries := tb_entries d @ [row\<lparr>pe_delta := dl, pe_balance_after := ba,
                        pe_created_at := pg_micros P (pe_created_at row)\<rparr>]\<rparr>, ())
      | _ \<Rightarrow> Inl NumericOverflow)"

definition insert_hold :: "pg \<Rightarrow> pg_hold \<Rightarrow> db \<Rightarrow> sql_failure + db \<times> unit" where
  "insert_hold P h d = (case numeric_30_5 (ph_amount h) of
      Inl f \<Rightarrow> Inl f
    | Inr v \<Rightarrow>
        if find_pg_hold d (ph_reservation_id h) \<noteq> None then Inl (UniqueViolation ''ledger_holds_pkey'')
        else if \<not> known_account d (ph_account_id h)
        then Inl (ForeignKeyViolation ''ledger_holds_account_id_fkey'')
        else Inr (d\<lparr>tb_holds := tb_holds d @ [h\<lparr>ph_amount := v,
                      ph_expires_at := map_option (pg_micros P) (ph_expires_at h)\<rparr>]\<rparr>, ()))"

text \<open>\<open>UPDATE ledger_holds SET \<dots> WHERE reservation_id = $1\<close>.\<close>

definition update_hold :: "uuid \<Rightarrow> (pg_hold \<Rightarrow> pg_hold) \<Rightarrow> db \<Rightarrow> sql_failure + db \<times> unit" where
  "update_hold u f d =
     Inr (d\<lparr>tb_holds := map (\<lambda>h. if ph_reservation_id h = u then f h else h) (tb_holds d)\<rparr>, ())"

end
