(* ===== verification/Pg_Ledger.thy ===== *)
theory Pg_Ledger
  imports Pg_Tables
begin

text \<open>
  The Postgres ledger, upper half: \<open>impl LedgerBackend for PgLedger\<close>
  (\<open>crates/meter-store-pg/src/ops.rs\<close>). Each method is one transaction over the tables of \<open>Pg_Tables\<close>; a
  path that returns early without a commit rolls back. The row locks of \<open>FOR UPDATE\<close> have no
  counterpart: a method runs alone, as the locks make it do for the rows it touches. The query of a
  run's holds has no order in the source and reads them in table order here.
\<close>

section \<open>Shared pieces\<close>

text \<open>\<open>row.try_get(\<dots>).map_err(be)?\<close>\<close>

definition get_col :: "pg \<Rightarrow> sql_failure + 'a \<Rightarrow> tx \<Rightarrow> (tx, ledger_error, 'a) sres" where
  "get_col P v t = Some (t, map_sum (\<lambda>f. Backend (pg_text P f)) id v)"

definition micros :: "env \<Rightarrow> env" where
  "micros E = E\<lparr>now_utc := now_micros E\<rparr>"

definition select_reversed :: "pg \<Rightarrow> uuid \<Rightarrow> db \<Rightarrow> sql_failure + db \<times> rat" where
  "select_reversed P u d = map_sum id (Pair d) (decode_numeric P ''coalesce''
     (sum_list (map pe_delta (filter (\<lambda>e. pe_reverses e = Some u) (tb_entries d)))))"

definition pg_unreversed_remainder :: "deps \<Rightarrow> pg \<Rightarrow> uuid \<Rightarrow> tx \<Rightarrow> (tx, ledger_error, credit) sres" where
  "pg_unreversed_remainder D P u t =
     sbind (sql P (select_entry u) t) (\<lambda>t found.
     sbind (get_col P (case found of None \<Rightarrow> Inl RowNotFound | Some row \<Rightarrow> decode_numeric P ''delta_credits'' (pe_delta row)) t) (\<lambda>t charged.
     sbind (sql P (select_reversed P u) t) (\<lambda>t reversed.
       map_option (\<lambda>r. (t, Inr r)) (dec_sub D (- charged) reversed))))"

text \<open>\<open>row.try_get::<Decimal>("settled_credits")\<close>, and \<open>settled - held\<close>, computed in the engine.\<close>

definition get_settled :: "pg \<Rightarrow> pg_account \<Rightarrow> tx \<Rightarrow> (tx, ledger_error, credit) sres" where
  "get_settled P row = get_col P (decode_numeric P ''settled_credits'' (pa_settled row))"

definition pg_available :: "deps \<Rightarrow> pg \<Rightarrow> account_id \<Rightarrow> credit \<Rightarrow> tx \<Rightarrow> (tx, ledger_error, credit) sres" where
  "pg_available D P account settled t =
     sbind (sql P (select_held P (as_uuid account)) t) (\<lambda>t h.
       map_option (\<lambda>r. (t, Inr r)) (dec_sub D settled h))"

definition pg_post_transfer ::
  "pg \<Rightarrow> env \<Rightarrow> nat \<Rightarrow> uuid \<Rightarrow> account_id \<Rightarrow> account_id \<Rightarrow> credit \<Rightarrow> tx \<Rightarrow> (tx, ledger_error, unit) sres" where
  "pg_post_transfer P E n org src dest amt t =
     sbind (sql P (update_settled P (as_uuid src) (- amt)) t) (\<lambda>t (from_after, _).
     sbind (sql P (update_settled P (as_uuid dest) amt) t) (\<lambda>t (to_after, _).
     sbind (sql P (insert_entry P
              (transfer_entry (Id (new_v7 E n)) src dest (- amt) from_after (now_micros E 0)) org) t) (\<lambda>t _.
       sql P (insert_entry P
              (transfer_entry (Id (new_v7 E (Suc n))) dest src amt to_after (now_micros E 1)) org) t)))"

text \<open>\<open>SELECT * \<dots>\<close> under an idempotency key, and \<open>entry_from_row\<close> of what it finds.\<close>

definition replay :: "pg \<Rightarrow> uuid \<Rightarrow> string option \<Rightarrow> tx \<Rightarrow> (tx, ledger_error, ledger_entry option) sres" where
  "replay P a key t = (case key of
      None \<Rightarrow> Some (t, Inr None)
    | Some k \<Rightarrow> sbind (sql P (select_keyed a k) t) (\<lambda>t found. case found of
        None \<Rightarrow> Some (t, Inr None)
      | Some row \<Rightarrow> Some (t, map_sum id Some (entry_from_row P row))))"

text \<open>
  The body \<open>grant\<close>, \<open>refund\<close> and \<open>charge\<close> share: find the account, replay the key, move the balance by
  \<open>delta\<close>, insert the entry \<open>mk\<close> builds from the balance after.
\<close>

definition pg_keyed ::
  "pg \<Rightarrow> account_id \<Rightarrow> string option \<Rightarrow> credit \<Rightarrow> (credit \<Rightarrow> ledger_entry) \<Rightarrow> tx
     \<Rightarrow> (tx, ledger_error, ledger_entry) sres" where
  "pg_keyed P account key delta mk t =
     sbind (begin_hot P t) (\<lambda>t _.
     sbind (sql P (select_account (as_uuid account)) t) (\<lambda>t found. case found of
       None \<Rightarrow> Some (t, Inl (AccountNotFound account))
     | Some row \<Rightarrow>
         sbind (replay P (as_uuid account) key t) (\<lambda>t existing. case existing of
           Some entry \<Rightarrow> commit_with P (Inr entry) t
         | None \<Rightarrow>
             sbind (sql P (update_settled P (as_uuid account) delta) t) (\<lambda>t (after, _).
             sbind (sql P (insert_entry P (mk after) (pa_org_id row)) t) (\<lambda>t _.
               commit_with P (Inr (mk after)) t)))))"

section \<open>Accounts and balances\<close>

definition pg_open_account :: "pg \<Rightarrow> env \<Rightarrow> db \<Rightarrow> new_account \<Rightarrow> (db, ledger_error, ledger_account) sres" where
  "pg_open_account P E d req =
     sbind (autocommit P (insert_account \<lparr>pa_id = new_v7 E 0, pa_org_id = as_uuid (na_org_id req),
              pa_scope = scope_to_str (na_scope req), pa_no_overdraft = na_no_overdraft req,
              pa_parent_id = map_option as_uuid (na_parent_id req), pa_settled = 0\<rparr>) d) (\<lambda>d _.
       Some (d, Inr \<lparr>acct_id = Id (new_v7 E 0), acct_org_id = na_org_id req, acct_scope = na_scope req,
                     acct_no_overdraft = na_no_overdraft req, acct_parent_id = na_parent_id req\<rparr>))"

definition pg_balance :: "pg \<Rightarrow> db \<Rightarrow> account_id \<Rightarrow> (db, ledger_error, balance) sres" where
  "pg_balance P d account = transact (\<lambda>t.
     sbind (sql P (select_account (as_uuid account)) t) (\<lambda>t found. case found of
       None \<Rightarrow> Some (t, Inl (AccountNotFound account))
     | Some row \<Rightarrow>
         sbind (get_settled P row t) (\<lambda>t settled.
         sbind (sql P (select_held P (as_uuid account)) t) (\<lambda>t h.
           Some (t, Inr \<lparr>bal_settled = settled, bal_held = h\<rparr>))))) d"

section \<open>Keyed postings\<close>

definition pg_grant :: "pg \<Rightarrow> env \<Rightarrow> db \<Rightarrow> grant_request \<Rightarrow> (db, ledger_error, ledger_entry) sres" where
  "pg_grant P E d req =
     (if \<not> is_positive (grant_amount req) then Some (d, Inl NonPositiveAmount)
      else transact (pg_keyed P (grant_account req) (grant_idempotency_key req) (grant_amount req)
             (grant_entry (micros E) req)) d)"

definition pg_refund :: "pg \<Rightarrow> env \<Rightarrow> db \<Rightarrow> refund_request \<Rightarrow> (db, ledger_error, ledger_entry) sres" where
  "pg_refund P E d req =
     (if \<not> is_positive (refund_amount req) then Some (d, Inl NonPositiveAmount)
      else transact (pg_keyed P (refund_account req) (refund_idempotency_key req) (refund_amount req)
             (refund_entry (micros E) req)) d)"

definition pg_charge :: "pg \<Rightarrow> env \<Rightarrow> db \<Rightarrow> charge_request \<Rightarrow> (db, ledger_error, ledger_entry) sres" where
  "pg_charge P E d req =
     (if \<not> is_positive (charge_amount req) then Some (d, Inl NonPositiveAmount)
      else transact (pg_keyed P (charge_account req) (charge_idempotency_key req) (- charge_amount req)
             (charge_entry (micros E) req)) d)"

definition pg_reverse_charge ::
  "deps \<Rightarrow> pg \<Rightarrow> env \<Rightarrow> db \<Rightarrow> reverse_charge_request \<Rightarrow> (db, ledger_error, ledger_entry option) sres" where
  "pg_reverse_charge D P E d req = transact (\<lambda>t.
     sbind (begin_hot P t) (\<lambda>t _.
     sbind (sql P (select_account (as_uuid (rev_account req))) t) (\<lambda>t found. case found of
       None \<Rightarrow> Some (t, Inl (AccountNotFound (rev_account req)))
     | Some row \<Rightarrow>
         sbind (replay P (as_uuid (rev_account req)) (Some (rev_idempotency_key req)) t) (\<lambda>t existing.
         case existing of
           Some entry \<Rightarrow> commit_with P (Inr (Some entry)) t
         | None \<Rightarrow>
             sbind (sql P (select_entry (as_uuid (rev_charge_entry_id req))) t) (\<lambda>t charge_row.
             if map_option pe_account_id charge_row \<noteq> Some (as_uuid (rev_account req))
             then commit_with P (Inr None) t
             else
               sbind (pg_unreversed_remainder D P (as_uuid (rev_charge_entry_id req)) t) (\<lambda>t amt.
               if amt \<le> 0 then commit_with P (Inr None) t
               else
                 sbind (sql P (update_settled P (as_uuid (rev_account req)) amt) t) (\<lambda>t (after, _).
                 let entry = reversal_entry (Id (new_v7 E 0)) (rev_account req) amt after
                       (rev_charge_entry_id req) None (rev_run_id req) (rev_idempotency_key req)
                       (now_micros E 0) in
                 sbind (sql P (insert_entry P entry (pa_org_id row)) t) (\<lambda>t _.
                   commit_with P (Inr (Some entry)) t))))))) ) d"

section \<open>Reservations\<close>

definition pg_reserve :: "deps \<Rightarrow> pg \<Rightarrow> db \<Rightarrow> reserve_request \<Rightarrow> (db, ledger_error, reserve_outcome) sres" where
  "pg_reserve D P d req =
     (if \<not> is_positive (rsv_amount req) then Some (d, Inl NonPositiveAmount)
      else transact (\<lambda>t.
        sbind (begin_hot P t) (\<lambda>t _.
        sbind (sql P (select_account (as_uuid (rsv_account req))) t) (\<lambda>t found. case found of
          None \<Rightarrow> Some (t, Inl (AccountNotFound (rsv_account req)))
        | Some row \<Rightarrow>
            sbind (get_settled P row t) (\<lambda>t settled.
            sbind (sql P (select_hold (reservation_uuid (rsv_reservation_id req))) t) (\<lambda>t existing.
            case existing of
              Some h \<Rightarrow>
                if ph_status h = ''open'' then commit_with P (Inr (Allowed (rsv_reservation_id req))) t
                else commit_with P (Inl (ReservationClosed (rsv_reservation_id req))) t
            | None \<Rightarrow>
                sbind (pg_available D P (rsv_account req) settled t) (\<lambda>t avail.
                let hard = (rsv_limit req = Hard \<or> pa_no_overdraft row) in
                if hard \<and> avail < rsv_amount req
                then commit_with P (Inr (Denied avail (rsv_amount req))) t
                else
                  sbind (sql P (insert_hold P
                    \<lparr>ph_reservation_id = reservation_uuid (rsv_reservation_id req),
                     ph_org_id = pa_org_id row, ph_account_id = as_uuid (rsv_account req),
                     ph_amount = rsv_amount req, ph_status = ''open'', ph_settle_entry_id = None,
                     ph_expires_at = rsv_expires_at req,
                     ph_run_id = map_option as_uuid (rsv_run_id req)\<rparr>) t) (\<lambda>t _.
                    commit_with P (Inr (Allowed (rsv_reservation_id req))) t))))))) d)"

definition pg_settle :: "pg \<Rightarrow> env \<Rightarrow> db \<Rightarrow> settle_request \<Rightarrow> (db, ledger_error, ledger_entry) sres" where
  "pg_settle P E d req =
     (if is_negative (settle_actual req) then Some (d, Inl NonPositiveAmount)
      else transact (\<lambda>t.
        sbind (begin_hot P t) (\<lambda>t _.
        sbind (sql P (select_hold (reservation_uuid (settle_reservation_id req))) t) (\<lambda>t found.
        case found of
          None \<Rightarrow> Some (t, Inl (ReservationNotFound (settle_reservation_id req)))
        | Some h \<Rightarrow>
            if ph_status h = ''settled'' then
              sbind (get_col P (case ph_settle_entry_id h of
                  None \<Rightarrow> Inl (DecodeFailed ''settle_entry_id'') | Some u \<Rightarrow> Inr u) t) (\<lambda>t u.
              sbind (sql P (select_entry u) t) (\<lambda>t row.
              sbind (get_col P (case row of None \<Rightarrow> Inl RowNotFound | Some r \<Rightarrow> Inr r) t) (\<lambda>t r.
              sbind (Some (t, entry_from_row P r)) (\<lambda>t entry.
                commit_with P (Inr entry) t))))
            else if ph_status h = ''voided'' then
              commit_with P (Inl (ReservationClosed (settle_reservation_id req))) t
            else
              sbind (sql P (update_settled P (ph_account_id h) (- settle_actual req)) t) (\<lambda>t (after, org).
              let entry = settle_entry (micros E) req (Id (ph_account_id h)) after in
              sbind (sql P (insert_entry P entry org) t) (\<lambda>t _.
              sbind (sql P (update_hold (reservation_uuid (settle_reservation_id req))
                       (\<lambda>h. h\<lparr>ph_status := ''settled'', ph_settle_entry_id := Some (as_uuid (entry_id entry))\<rparr>)) t)
                (\<lambda>t _. commit_with P (Inr entry) t)))))) d)"

definition pg_void :: "pg \<Rightarrow> db \<Rightarrow> reservation_id \<Rightarrow> (db, ledger_error, unit) sres" where
  "pg_void P d r = transact (\<lambda>t.
     sbind (begin_hot P t) (\<lambda>t _.
     sbind (sql P (select_hold (reservation_uuid r)) t) (\<lambda>t found. case map_option ph_status found of
       None \<Rightarrow> commit_with P (Inr ()) t
     | Some status \<Rightarrow>
         if status = ''voided'' then commit_with P (Inr ()) t
         else if status = ''open'' then
           sbind (sql P (update_hold (reservation_uuid r) (\<lambda>h. h\<lparr>ph_status := ''voided''\<rparr>)) t) (\<lambda>t _.
             commit_with P (Inr ()) t)
         else commit_with P (Inl (ReservationClosed r)) t))) d"

definition pg_expired :: "time \<Rightarrow> pg_hold \<Rightarrow> bool" where
  "pg_expired now h =
     (ph_status h = ''open'' \<and> (case ph_expires_at h of None \<Rightarrow> False | Some t \<Rightarrow> t \<le> now))"

definition update_expired :: "time \<Rightarrow> db \<Rightarrow> sql_failure + db \<times> nat" where
  "update_expired now d =
     Inr (d\<lparr>tb_holds := map (\<lambda>h. if pg_expired now h then h\<lparr>ph_status := ''voided''\<rparr> else h) (tb_holds d)\<rparr>,
          length (filter (pg_expired now) (tb_holds d)))"

definition pg_void_expired_holds :: "pg \<Rightarrow> db \<Rightarrow> time \<Rightarrow> (db, ledger_error, nat) sres" where
  "pg_void_expired_holds P d now = autocommit P (update_expired (pg_micros P now)) d"

definition pg_extend_hold :: "pg \<Rightarrow> db \<Rightarrow> reservation_id \<Rightarrow> time \<Rightarrow> (db, ledger_error, unit) sres" where
  "pg_extend_hold P d r expires = transact (\<lambda>t.
     sbind (begin_hot P t) (\<lambda>t _.
     sbind (sql P (select_hold (reservation_uuid r)) t) (\<lambda>t found. case map_option ph_status found of
       None \<Rightarrow> commit_with P (Inl (ReservationNotFound r)) t
     | Some status \<Rightarrow>
         if status = ''open'' then
           sbind (sql P (update_hold (reservation_uuid r)
                    (\<lambda>h. h\<lparr>ph_expires_at := Some (pg_micros P expires)\<rparr>)) t) (\<lambda>t _.
             commit_with P (Inr ()) t)
         else commit_with P (Inl (ReservationClosed r)) t))) d"

section \<open>Voiding a run\<close>

definition select_run_holds :: "run_id \<Rightarrow> db \<Rightarrow> sql_failure + db \<times> pg_hold list" where
  "select_run_holds run d = Inr (d, filter (\<lambda>h. ph_run_id h = Some (as_uuid run)) (tb_holds d))"

definition usage_rows :: "run_id \<Rightarrow> db \<Rightarrow> pg_entry list" where
  "usage_rows run d =
     filter (\<lambda>e. pe_run_id e = Some (as_uuid run) \<and> pe_entry_type e = ''usage'') (tb_entries d)"

text \<open>\<open>ORDER BY created_at, id\<close>.\<close>

definition order_rows :: "pg_entry list \<Rightarrow> pg_entry list" where
  "order_rows rows = sort_key pe_created_at (sort_key pe_id rows)"

definition select_run_usage :: "run_id \<Rightarrow> db \<Rightarrow> sql_failure + db \<times> pg_entry list" where
  "select_run_usage run d = Inr (d, order_rows (usage_rows run d))"

definition pg_vr_refund ::
  "deps \<Rightarrow> pg \<Rightarrow> env \<Rightarrow> run_id \<Rightarrow> uuid \<Rightarrow> uuid \<Rightarrow> reservation_id option \<Rightarrow> string \<Rightarrow> tx
     \<Rightarrow> nat \<times> run_void_summary \<Rightarrow> (tx, ledger_error, nat \<times> run_void_summary) sres" where
  "pg_vr_refund D P E run account reverses rsv key t v = (case v of (n, sm) \<Rightarrow>
     sbind (pg_unreversed_remainder D P reverses t) (\<lambda>t amt.
     if amt \<le> 0 then Some (t, Inr (n, sm))
     else
       sbind (sql P (update_settled P account amt) t) (\<lambda>t (after, org).
       sbind (sql P (insert_entry P (reversal_entry (Id (new_v7 E n)) (Id account) amt after (Id reverses)
                rsv (Some run) key (now_micros E n)) org) t) (\<lambda>t _.
         map_option (\<lambda>total. (t, Inr (Suc n,
             sm\<lparr>charges_refunded := Suc (charges_refunded sm), credits_refunded := total\<rparr>)))
           (dec_add D (credits_refunded sm) amt)))))"

definition pg_vr_hold ::
  "deps \<Rightarrow> pg \<Rightarrow> env \<Rightarrow> run_id \<Rightarrow> tx \<Rightarrow> nat \<times> run_void_summary \<Rightarrow> pg_hold
     \<Rightarrow> (tx, ledger_error, nat \<times> run_void_summary) sres" where
  "pg_vr_hold D P E run t v h =
     (if ph_status h = ''voided'' then Some (t, Inr v)
      else if ph_status h = ''open'' then
        sbind (sql P (update_hold (ph_reservation_id h) (\<lambda>h. h\<lparr>ph_status := ''voided''\<rparr>)) t) (\<lambda>t _.
          case v of (n, sm) \<Rightarrow> Some (t, Inr (n, sm\<lparr>holds_released := Suc (holds_released sm)\<rparr>)))
      else if ph_status h = ''settled'' then
        sbind (get_col P (case ph_settle_entry_id h of
            None \<Rightarrow> Inl (DecodeFailed ''settle_entry_id'') | Some u \<Rightarrow> Inr u) t) (\<lambda>t u.
          pg_vr_refund D P E run (ph_account_id h) u (Some (ReservationId (ph_reservation_id h)))
            (run_void_refund_key D run (ReservationId (ph_reservation_id h))) t v)
      else Some (t, Inr v))"

definition pg_vr_charge ::
  "deps \<Rightarrow> pg \<Rightarrow> env \<Rightarrow> run_id \<Rightarrow> tx \<Rightarrow> nat \<times> run_void_summary \<Rightarrow> pg_entry
     \<Rightarrow> (tx, ledger_error, nat \<times> run_void_summary) sres" where
  "pg_vr_charge D P E run t v row =
     pg_vr_refund D P E run (pe_account_id row) (pe_id row) None
       (run_void_charge_refund_key D run (Id (pe_id row))) t v"

definition pg_void_run :: "deps \<Rightarrow> pg \<Rightarrow> env \<Rightarrow> db \<Rightarrow> run_id \<Rightarrow> (db, ledger_error, run_void_summary) sres" where
  "pg_void_run D P E d run = transact (\<lambda>t.
     sbind (begin_hot P t) (\<lambda>t _.
     sbind (sql P (select_run_holds run) t) (\<lambda>t rows.
     sbind (fold_calls (pg_vr_hold D P E run) t (0, empty_summary) rows) (\<lambda>t v.
     sbind (sql P (select_run_usage run) t) (\<lambda>t charges.
     sbind (fold_calls (pg_vr_charge D P E run) t v charges) (\<lambda>t v.
       commit_with P (Inr (snd v)) t)))))) d"

section \<open>Leases\<close>

definition pg_open_lease :: "deps \<Rightarrow> pg \<Rightarrow> env \<Rightarrow> db \<Rightarrow> lease_request \<Rightarrow> (db, ledger_error, ledger_account) sres" where
  "pg_open_lease D P E d req =
     (if \<not> is_positive (lease_amount req) then Some (d, Inl NonPositiveAmount)
      else transact (\<lambda>t.
        sbind (begin_hot P t) (\<lambda>t _.
        sbind (sql P (select_account (as_uuid (lease_parent req))) t) (\<lambda>t found. case found of
          None \<Rightarrow> Some (t, Inl (AccountNotFound (lease_parent req)))
        | Some row \<Rightarrow>
            sbind (get_settled P row t) (\<lambda>t settled.
            sbind (pg_available D P (lease_parent req) settled t) (\<lambda>t avail.
            if pa_no_overdraft row \<and> avail < lease_amount req
            then commit_with P (Inl (InsufficientFunds avail (lease_amount req))) t
            else
              sbind (sql P (insert_account \<lparr>pa_id = new_v7 E 0, pa_org_id = pa_org_id row,
                       pa_scope = scope_to_str Session, pa_no_overdraft = True,
                       pa_parent_id = Some (as_uuid (lease_parent req)), pa_settled = 0\<rparr>) t) (\<lambda>t _.
              sbind (pg_post_transfer P E 1 (pa_org_id row) (lease_parent req) (Id (new_v7 E 0))
                       (lease_amount req) t) (\<lambda>t _.
                commit_with P (Inr \<lparr>acct_id = Id (new_v7 E 0), acct_org_id = Id (pa_org_id row),
                  acct_scope = Session, acct_no_overdraft = True,
                  acct_parent_id = Some (lease_parent req)\<rparr>) t))))))) d)"

definition pg_close_lease :: "deps \<Rightarrow> pg \<Rightarrow> env \<Rightarrow> db \<Rightarrow> account_id \<Rightarrow> (db, ledger_error, credit) sres" where
  "pg_close_lease D P E d lease = transact (\<lambda>t.
     sbind (begin_hot P t) (\<lambda>t _.
     sbind (sql P (select_account (as_uuid lease)) t) (\<lambda>t found. case found of
       None \<Rightarrow> Some (t, Inl (AccountNotFound lease))
     | Some row \<Rightarrow>
         sbind (get_settled P row t) (\<lambda>t settled. case pa_parent_id row of
           None \<Rightarrow> commit_with P (Inl (NotALease lease)) t
         | Some parent \<Rightarrow>
           sbind (pg_available D P lease settled t) (\<lambda>t avail.
           if avail \<le> 0 then commit_with P (Inr 0) t
           else
             sbind (pg_post_transfer P E 0 (pa_org_id row) lease (Id parent) avail t) (\<lambda>t _.
               commit_with P (Inr avail) t)))))) d"

section \<open>History\<close>

fun entries_from_rows :: "pg \<Rightarrow> pg_entry list \<Rightarrow> ledger_error + ledger_entry list" where
  "entries_from_rows P [] = Inr []"
| "entries_from_rows P (row # rows) = (case entry_from_row P row of
      Inl e \<Rightarrow> Inl e
    | Inr x \<Rightarrow> map_sum id (Cons x) (entries_from_rows P rows))"

definition select_history :: "uuid \<Rightarrow> db \<Rightarrow> sql_failure + db \<times> pg_entry list" where
  "select_history a d = Inr (d, order_rows
     (filter (\<lambda>e. pe_account_id e = a \<or> pe_paired_account_id e = a) (tb_entries d)))"

definition pg_entries :: "pg \<Rightarrow> db \<Rightarrow> account_id \<Rightarrow> (db, ledger_error, ledger_entry list) sres" where
  "pg_entries P d account = transact (\<lambda>t.
     sbind (sql P (select_account (as_uuid account)) t) (\<lambda>t found. case found of
       None \<Rightarrow> Some (t, Inl (AccountNotFound account))
     | Some _ \<Rightarrow>
         sbind (sql P (select_history (as_uuid account)) t) (\<lambda>t rows.
           Some (t, entries_from_rows P rows)))) d"

section \<open>The backend\<close>

definition pg_replying :: "('a \<Rightarrow> reply) \<Rightarrow> (db, ledger_error, 'a) sres \<Rightarrow> (db, ledger_error, reply) sres" where
  "pg_replying f m = map_option (\<lambda>(d, r). (d, map_sum id f r)) m"

fun pg_exec :: "deps \<Rightarrow> pg \<Rightarrow> env \<Rightarrow> db \<Rightarrow> request \<Rightarrow> (db, ledger_error, reply) sres" where
  "pg_exec D P E d (ROpenAccount q) = pg_replying PAccount (pg_open_account P E d q)"
| "pg_exec D P E d (RBalance a) = pg_replying PBalance (pg_balance P d a)"
| "pg_exec D P E d (RGrant q) = pg_replying PEntry (pg_grant P E d q)"
| "pg_exec D P E d (RRefund q) = pg_replying PEntry (pg_refund P E d q)"
| "pg_exec D P E d (RReserve q) = pg_replying PReserve (pg_reserve D P d q)"
| "pg_exec D P E d (RSettle q) = pg_replying PEntry (pg_settle P E d q)"
| "pg_exec D P E d (RCharge q) = pg_replying PEntry (pg_charge P E d q)"
| "pg_exec D P E d (RReverseCharge q) = pg_replying PReversal (pg_reverse_charge D P E d q)"
| "pg_exec D P E d (RVoid r) = pg_replying (\<lambda>_. PUnit) (pg_void P d r)"
| "pg_exec D P E d (RVoidExpiredHolds t) = pg_replying PCount (pg_void_expired_holds P d t)"
| "pg_exec D P E d (RExtendHold r t) = pg_replying (\<lambda>_. PUnit) (pg_extend_hold P d r t)"
| "pg_exec D P E d (RVoidRun run) = pg_replying PSummary (pg_void_run D P E d run)"
| "pg_exec D P E d (ROpenLease q) = pg_replying PAccount (pg_open_lease D P E d q)"
| "pg_exec D P E d (RCloseLease a) = pg_replying PCredit (pg_close_lease D P E d a)"
| "pg_exec D P E d (REntries a) = pg_replying PEntries (pg_entries P d a)"

end
