(* ===== verification/Pg_Atomic.thy ===== *)
theory Pg_Atomic
  imports Pg_Ledger
begin

text \<open>
  Atomicity of the Postgres ledger under failing statements. A run of a method against a database
  that refuses statements or loses an acknowledgement is compared with the run of the same method
  against a database that does neither. The comparison goes statement by statement: \<open>early\<close> compares
  the parts of a method before its commit, \<open>late\<close> whole methods, and each way the methods are put
  together (\<open>?\<close>, statements, commits, loops) has one rule.
\<close>

definition faultless :: "pg \<Rightarrow> pg" where
  "faultless P = P\<lparr>pg_fault := \<lambda>_. None\<rparr>"

lemma faultless_sel [simp]:
  "pg_text (faultless P) = pg_text P"
  "pg_decode (faultless P) = pg_decode P"
  "pg_micros (faultless P) = pg_micros P"
  "pg_fault (faultless P) n = None"
  by (simp_all add: faultless_def)

text \<open>What a statement or a conversion returns does not depend on the faults.\<close>

lemma faultless_decode [simp]:
  "decode_numeric (faultless P) = decode_numeric P"
  "col_decimal (faultless P) = col_decimal P"
  "entry_from_row (faultless P) = entry_from_row P"
  "get_col (faultless P) = get_col P"
  by (simp_all add: fun_eq_iff decode_numeric_def col_decimal_def entry_from_row_def get_col_def
        cong: option.case_cong sum.case_cong)

lemma faultless_rows [simp]: "entries_from_rows (faultless P) = entries_from_rows P"
proof
  fix rows show "entries_from_rows (faultless P) rows = entries_from_rows P rows"
    by (induction rows) (simp_all split: sum.splits)
qed

lemma faultless_statements [simp]:
  "select_held (faultless P) = select_held P"
  "select_reversed (faultless P) = select_reversed P"
  "update_settled (faultless P) = update_settled P"
  "insert_entry (faultless P) = insert_entry P"
  "insert_hold (faultless P) = insert_hold P"
  unfolding fun_eq_iff select_held_def select_reversed_def update_settled_def insert_entry_def
    insert_hold_def faultless_sel faultless_decode by simp_all

section \<open>Comparing two runs\<close>

definition early :: "db \<Rightarrow> (tx, ledger_error, 'a) sres \<Rightarrow> (tx, ledger_error, 'a) sres \<Rightarrow> bool" where
  "early c m m0 \<longleftrightarrow> (\<forall>t r. m0 = Some (t, r) \<longrightarrow> committed t = c) \<and>
     (m = m0 \<or> (\<exists>t b. m = Some (t, Inl (Backend b)) \<and> committed t = c))"

definition late :: "db \<Rightarrow> (tx, ledger_error, 'a) sres \<Rightarrow> (tx, ledger_error, 'a) sres \<Rightarrow> bool" where
  "late c m m0 \<longleftrightarrow> m = m0 \<or> (\<exists>t b. m = Some (t, Inl (Backend b)) \<and>
     (committed t = c \<or> (\<exists>t0 r. m0 = Some (t0, r) \<and> committed t = committed t0)))"

lemma early_sql: "committed t = c \<Longrightarrow> early c (sql P st t) (sql (faultless P) st t)"
  by (auto simp: early_def sql_def Let_def split: option.splits sum.splits)

lemma early_get_col: "committed t = c \<Longrightarrow> early c (get_col P v t) (get_col P v t)"
  by (simp add: early_def get_col_def)

lemma early_return: "committed t = c \<Longrightarrow> early c (Some (t, r)) (Some (t, r))"
  by (simp add: early_def)

lemma early_compute:
  "committed t = c \<Longrightarrow> early c (map_option (\<lambda>x. (t, Inr (f x))) v) (map_option (\<lambda>x. (t, Inr (f x))) v)"
  by (auto simp: early_def)

lemma early_sbind:
  assumes "early c m m0" and "\<And>t a. committed t = c \<Longrightarrow> early c (f t a) (f0 t a)"
  shows "early c (sbind m f) (sbind m0 f0)"
proof (cases m0)
  case None
  with assms(1) show ?thesis by (auto simp: early_def)
next
  case (Some p)
  obtain t r where p: "p = (t, r)" by (cases p)
  from Some p assms(1) have c: "committed t = c" by (simp add: early_def)
  show ?thesis
  proof (cases r)
    case (Inl e)
    with Some p assms(1) c show ?thesis by (auto simp: early_def)
  next
    case (Inr a)
    with assms(2) [OF c, of a] Some p assms(1) show ?thesis by (auto simp: early_def)
  qed
qed

lemma late_return: "late c (Some (t, r)) (Some (t, r))"
  by (simp add: late_def)

lemma late_commit: "committed t = c \<Longrightarrow> late c (commit_with P r t) (commit_with (faultless P) r t)"
  by (auto simp: late_def commit_with_def tx_commit_def Let_def split: option.splits fault.splits)

lemma late_sbind:
  assumes "early c m m0" and "\<And>t a. committed t = c \<Longrightarrow> late c (f t a) (f0 t a)"
  shows "late c (sbind m f) (sbind m0 f0)"
proof (cases m0)
  case None
  with assms(1) show ?thesis by (auto simp: early_def late_def)
next
  case (Some p)
  obtain t r where p: "p = (t, r)" by (cases p)
  from Some p assms(1) have c: "committed t = c" by (simp add: early_def)
  show ?thesis
  proof (cases r)
    case (Inl e)
    with Some p assms(1) show ?thesis by (auto simp: early_def late_def)
  next
    case (Inr a)
    with assms(2) [OF c, of a] Some p assms(1) show ?thesis by (auto simp: early_def late_def)
  qed
qed

lemma early_fold_calls:
  assumes "\<And>t b x. committed t = c \<Longrightarrow> early c (f t b x) (f0 t b x)"
  shows "committed t = c \<Longrightarrow> early c (fold_calls f t b xs) (fold_calls f0 t b xs)"
proof (induction xs arbitrary: t b)
  case (Cons x xs)
  show ?case unfolding fold_calls.simps by (rule early_sbind [OF assms Cons.IH]) (rule Cons.prems)
qed (simp add: early_return)

text \<open>A choice on the same value is compared branch by branch.\<close>

lemma early_if: "(q \<Longrightarrow> early c m m0) \<Longrightarrow> (\<not> q \<Longrightarrow> early c k k0)
   \<Longrightarrow> early c (if q then m else k) (if q then m0 else k0)"
  by simp

lemma late_if: "(q \<Longrightarrow> late c m m0) \<Longrightarrow> (\<not> q \<Longrightarrow> late c k k0)
   \<Longrightarrow> late c (if q then m else k) (if q then m0 else k0)"
  by simp

lemma early_option: "early c m m0 \<Longrightarrow> (\<And>x. early c (k x) (k0 x))
   \<Longrightarrow> early c (case_option m k v) (case_option m0 k0 v)"
  by (cases v) simp_all

lemma late_option: "late c m m0 \<Longrightarrow> (\<And>x. late c (k x) (k0 x))
   \<Longrightarrow> late c (case_option m k v) (case_option m0 k0 v)"
  by (cases v) simp_all

lemma early_prod: "(\<And>x y. early c (k x y) (k0 x y)) \<Longrightarrow> early c (case_prod k v) (case_prod k0 v)"
  by (cases v) simp

lemma late_prod: "(\<And>x y. late c (k x y) (k0 x y)) \<Longrightarrow> late c (case_prod k v) (case_prod k0 v)"
  by (cases v) simp

lemmas atomic_rules = early_sql early_get_col early_return early_compute early_sbind late_return
  late_commit late_sbind early_fold_calls early_if late_if early_option late_option early_prod late_prod

section \<open>The shared pieces\<close>

lemma early_begin: "committed t = c \<Longrightarrow> early c (begin_hot P t) (begin_hot (faultless P) t)"
  unfolding begin_hot_def by (intro atomic_rules)

lemma early_replay: "committed t = c \<Longrightarrow> early c (replay P a key t) (replay (faultless P) a key t)"
  unfolding replay_def faultless_decode by (intro atomic_rules)

lemma early_settled: "committed t = c \<Longrightarrow> early c (get_settled P row t) (get_settled (faultless P) row t)"
  unfolding get_settled_def faultless_decode by (rule early_get_col)

lemma early_available:
  "committed t = c \<Longrightarrow> early c (pg_available D P a v t) (pg_available D (faultless P) a v t)"
  unfolding pg_available_def faultless_statements by (intro atomic_rules)

lemma early_remainder:
  "committed t = c \<Longrightarrow> early c (pg_unreversed_remainder D P u t) (pg_unreversed_remainder D (faultless P) u t)"
  unfolding pg_unreversed_remainder_def faultless_decode faultless_statements by (intro atomic_rules)

lemma early_transfer:
  "committed t = c \<Longrightarrow> early c (pg_post_transfer P E n org src dest amt t)
     (pg_post_transfer (faultless P) E n org src dest amt t)"
  unfolding pg_post_transfer_def faultless_statements by (intro atomic_rules)

lemma early_vr_refund:
  "committed t = c \<Longrightarrow> early c (pg_vr_refund D P E run a u rsv key t v)
     (pg_vr_refund D (faultless P) E run a u rsv key t v)"
  unfolding pg_vr_refund_def faultless_statements by (intro atomic_rules early_remainder)

lemma early_vr_hold:
  "committed t = c \<Longrightarrow> early c (pg_vr_hold D P E run t v h) (pg_vr_hold D (faultless P) E run t v h)"
  unfolding pg_vr_hold_def faultless_decode by (intro atomic_rules early_vr_refund)

lemma early_vr_charge:
  "committed t = c \<Longrightarrow> early c (pg_vr_charge D P E run t v x) (pg_vr_charge D (faultless P) E run t v x)"
  unfolding pg_vr_charge_def by (rule early_vr_refund)

lemmas shared_rules = early_begin early_replay early_settled early_available early_remainder early_transfer
  early_vr_hold early_vr_charge

lemma late_keyed:
  "committed t = c \<Longrightarrow> late c (pg_keyed P a key delta mk t) (pg_keyed (faultless P) a key delta mk t)"
  unfolding pg_keyed_def faultless_statements by (intro atomic_rules shared_rules)

section \<open>Whole methods\<close>

definition atomic :: "db \<Rightarrow> (db, ledger_error, 'a) sres \<Rightarrow> (db, ledger_error, 'a) sres \<Rightarrow> bool" where
  "atomic d m m0 \<longleftrightarrow> m = m0 \<or> (\<exists>b. m = Some (d, Inl (Backend b))) \<or>
     (\<exists>b d' r. m = Some (d', Inl (Backend b)) \<and> m0 = Some (d', r))"

lemma atomic_same [simp]: "atomic d m m"
  by (simp add: atomic_def)

lemma atomic_transact:
  assumes "\<And>t. committed t = d \<Longrightarrow> late d (p t) (p0 t)"
  shows "atomic d (transact p d) (transact p0 d)"
  using assms [of "\<lparr>committed = d, working = d, steps = 0\<rparr>"]
  by (auto simp: atomic_def late_def transact_def)

lemma atomic_if: "atomic d m m0 \<Longrightarrow> atomic d (if q then k else m) (if q then k else m0)"
  by simp

lemma atomic_replying: "atomic d m m0 \<Longrightarrow> atomic d (pg_replying f m) (pg_replying f m0)"
  by (auto simp: atomic_def pg_replying_def)

lemma atomic_then:
  assumes "atomic d m m0" shows "atomic d (sbind m (\<lambda>d a. Some (d, Inr (f a)))) (sbind m0 (\<lambda>d a. Some (d, Inr (f a))))"
proof -
  from assms consider "m = m0" | b where "m = Some (d, Inl (Backend b))"
    | b d' r where "m = Some (d', Inl (Backend b))" "m0 = Some (d', r)" by (auto simp: atomic_def)
  then show ?thesis
  proof cases
    case (3 b d' r)
    then show ?thesis by (cases r) (auto simp: atomic_def)
  qed (auto simp: atomic_def)
qed

lemma atomic_autocommit: "atomic d (autocommit P st d) (autocommit (faultless P) st d)"
  unfolding autocommit_def by (intro atomic_transact atomic_rules)

lemmas method_rules = atomic_transact atomic_if atomic_rules shared_rules late_keyed

lemma atomic_open_account: "atomic d (pg_open_account P E d q) (pg_open_account (faultless P) E d q)"
  unfolding pg_open_account_def by (intro atomic_then atomic_autocommit)

lemma atomic_balance: "atomic d (pg_balance P d a) (pg_balance (faultless P) d a)"
  unfolding pg_balance_def faultless_decode faultless_statements by (intro method_rules)

lemma atomic_grant: "atomic d (pg_grant P E d q) (pg_grant (faultless P) E d q)"
  unfolding pg_grant_def by (intro method_rules)

lemma atomic_refund: "atomic d (pg_refund P E d q) (pg_refund (faultless P) E d q)"
  unfolding pg_refund_def by (intro method_rules)

lemma atomic_charge: "atomic d (pg_charge P E d q) (pg_charge (faultless P) E d q)"
  unfolding pg_charge_def by (intro method_rules)

lemma atomic_reverse_charge:
  "atomic d (pg_reverse_charge D P E d q) (pg_reverse_charge D (faultless P) E d q)"
  unfolding pg_reverse_charge_def faultless_statements Let_def by (intro method_rules)

lemma atomic_reserve: "atomic d (pg_reserve D P d q) (pg_reserve D (faultless P) d q)"
  unfolding pg_reserve_def faultless_statements Let_def by (intro method_rules)

lemma atomic_settle: "atomic d (pg_settle P E d q) (pg_settle (faultless P) E d q)"
  unfolding pg_settle_def faultless_decode faultless_statements Let_def by (intro method_rules)

lemma atomic_void: "atomic d (pg_void P d r) (pg_void (faultless P) d r)"
  unfolding pg_void_def by (intro method_rules)

lemma atomic_void_expired: "atomic d (pg_void_expired_holds P d now) (pg_void_expired_holds (faultless P) d now)"
  unfolding pg_void_expired_holds_def faultless_sel by (rule atomic_autocommit)

lemma atomic_extend: "atomic d (pg_extend_hold P d r e) (pg_extend_hold (faultless P) d r e)"
  unfolding pg_extend_hold_def faultless_sel by (intro method_rules)

lemma atomic_void_run: "atomic d (pg_void_run D P E d run) (pg_void_run D (faultless P) E d run)"
  unfolding pg_void_run_def by (intro method_rules)

lemma atomic_open_lease: "atomic d (pg_open_lease D P E d q) (pg_open_lease D (faultless P) E d q)"
  unfolding pg_open_lease_def by (intro method_rules)

lemma atomic_close_lease: "atomic d (pg_close_lease D P E d a) (pg_close_lease D (faultless P) E d a)"
  unfolding pg_close_lease_def by (intro method_rules)

lemma atomic_entries: "atomic d (pg_entries P d a) (pg_entries (faultless P) d a)"
  unfolding pg_entries_def faultless_rows by (intro method_rules)

lemma atomic_exec: "atomic d (pg_exec D P E d q) (pg_exec D (faultless P) E d q)"
  by (cases q) (auto intro!: atomic_replying atomic_open_account atomic_balance atomic_grant atomic_refund
     atomic_charge atomic_reverse_charge atomic_reserve atomic_settle atomic_void atomic_void_expired
     atomic_extend atomic_void_run atomic_open_lease atomic_close_lease atomic_entries)

end
