(* ===== verification/Pg_Sim.thy ===== *)
theory Pg_Sim
  imports Pg_Atomic Ledger_Total "HOL-Library.Multiset"
begin

text \<open>
  The relation between the tables of the Postgres ledger and the state of the in-memory ledger, and
  what each SQL statement does to it.

  \<open>sim d s\<close> pairs rows one to one, in order. It forgets three things on purpose: the clock readings in
  entries, the organization column of entries and holds, which no method of the ledger reads back,
  and the balance of the system account, which the SQL never touches while the in-memory ledger
  keeps it as the counterweight of every posting. It also carries what the tables promise: keys are
  unique, the system account is there, amounts lie on the grid of \<open>numeric(30,5)\<close>, and nothing is
  posted, held or leased on the system account itself.
\<close>

section \<open>The numeric grid\<close>

definition on_grid :: "rat \<Rightarrow> bool" where
  "on_grid x = (of_int \<lfloor>x * 100000\<rfloor> = x * 100000)"

lemma on_grid_iff: "on_grid x \<longleftrightarrow> (\<exists>k :: int. x * 100000 = of_int k)"
  unfolding on_grid_def by (metis floor_of_int)

lemma on_grid_zero [simp]: "on_grid 0"
  by (simp add: on_grid_def)

lemma on_grid_add: "on_grid x \<Longrightarrow> on_grid y \<Longrightarrow> on_grid (x + y)"
  unfolding on_grid_iff by (metis distrib_right of_int_add)

lemma on_grid_minus: "on_grid x \<Longrightarrow> on_grid (- x)"
  unfolding on_grid_iff by (metis mult_minus_left of_int_minus)

lemma on_grid_diff: "on_grid x \<Longrightarrow> on_grid y \<Longrightarrow> on_grid (x - y)"
  using on_grid_add [of x "- y"] on_grid_minus by simp

lemma on_grid_sum_list: "(\<And>x. x \<in> set xs \<Longrightarrow> on_grid x) \<Longrightarrow> on_grid (sum_list xs)"
  by (induction xs) (auto intro: on_grid_add)

lemma floor_half [simp]: "\<lfloor>of_int k + 1 / 2 :: rat\<rfloor> = k"
  by linarith

lemma round_half_away_grid: "on_grid x \<Longrightarrow> round_half_away x = x"
proof -
  assume "on_grid x"
  then obtain k :: int where k: "x * 100000 = of_int k" by (auto simp: on_grid_iff)
  then have "\<lfloor>x * 100000 + 1 / 2\<rfloor> = k" "\<lfloor>- x * 100000 + 1 / 2\<rfloor> = - k"
    using floor_half [of k] floor_half [of "- k"] by (simp_all del: floor_half)
  with k show "round_half_away x = x" by (simp add: round_half_away_def field_simps)
qed

lemma numeric_grid: "on_grid x \<Longrightarrow> numeric_30_5 x = Inr v \<Longrightarrow> v = x"
  by (auto simp: numeric_30_5_def round_half_away_grid Let_def split: if_splits)

section \<open>Rows and what they stand for\<close>

definition status_str :: "hold_status \<Rightarrow> string" where
  "status_str st = (case st of Open \<Rightarrow> ''open'' | Settled \<Rightarrow> ''settled'' | Voided \<Rightarrow> ''voided'')"

lemma status_str_iff [simp]:
  "status_str st = ''open'' \<longleftrightarrow> st = Open"
  "status_str st = ''settled'' \<longleftrightarrow> st = Settled"
  "status_str st = ''voided'' \<longleftrightarrow> st = Voided"
  by (cases st; simp add: status_str_def)+

lemma status_str_simps [simp]:
  "status_str Open = ''open''" "status_str Settled = ''settled''" "status_str Voided = ''voided''"
  by (simp_all add: status_str_def)

definition row_of_hold :: "uuid \<Rightarrow> reservation_id \<times> hold \<Rightarrow> pg_hold" where
  "row_of_hold org m = (case m of (r, h) \<Rightarrow>
     \<lparr>ph_reservation_id = reservation_uuid r, ph_org_id = org, ph_account_id = as_uuid (hold_account h),
      ph_amount = hold_amount h, ph_status = status_str (hold_status h),
      ph_settle_entry_id = map_option as_uuid (hold_settle_entry h),
      ph_expires_at = hold_expires_at h, ph_run_id = map_option as_uuid (hold_run_id h)\<rparr>)"

definition row_of_account :: "rat \<Rightarrow> ledger_account \<Rightarrow> pg_account" where
  "row_of_account settled a = \<lparr>pa_id = as_uuid (acct_id a), pa_org_id = as_uuid (acct_org_id a),
     pa_scope = scope_to_str (acct_scope a), pa_no_overdraft = acct_no_overdraft a,
     pa_parent_id = map_option as_uuid (acct_parent_id a), pa_settled = settled\<rparr>"

definition acct_sim :: "pg_account \<Rightarrow> account_id \<times> account_row \<Rightarrow> bool" where
  "acct_sim pa m = (case m of (a, row) \<Rightarrow>
     a = acct_id (row_account row) \<and> pa = row_of_account (pa_settled pa) (row_account row) \<and>
     (a = SYSTEM_ACCOUNT \<or> row_settled row = pa_settled pa))"

definition entry_sim :: "pg_entry \<Rightarrow> ledger_entry \<Rightarrow> bool" where
  "entry_sim pe e \<longleftrightarrow> pe = row_of_entry (pe_org_id pe) (e\<lparr>created_at := pe_created_at pe\<rparr>)"

definition hold_sim :: "pg_hold \<Rightarrow> reservation_id \<times> hold \<Rightarrow> bool" where
  "hold_sim ph m \<longleftrightarrow> ph = row_of_hold (ph_org_id ph) m"

definition db_ok :: "db \<Rightarrow> bool" where
  "db_ok d \<longleftrightarrow> distinct (map pa_id (tb_accounts d)) \<and> distinct (map pe_id (tb_entries d)) \<and>
     distinct (map ph_reservation_id (tb_holds d)) \<and>
     list_all (\<lambda>a. on_grid (pa_settled a) \<and> pa_parent_id a \<noteq> Some nil_uuid) (tb_accounts d) \<and>
     list_all (\<lambda>e. on_grid (pe_delta e) \<and> pe_account_id e \<noteq> nil_uuid) (tb_entries d) \<and>
     list_all (\<lambda>h. on_grid (ph_amount h) \<and> ph_account_id h \<noteq> nil_uuid) (tb_holds d) \<and>
     nil_uuid \<in> set (map pa_id (tb_accounts d))"

definition sim :: "db \<Rightarrow> state \<Rightarrow> bool" where
  "sim d s \<longleftrightarrow> list_all2 acct_sim (tb_accounts d) (accounts s) \<and>
     list_all2 entry_sim (tb_entries d) (entries s) \<and> list_all2 hold_sim (tb_holds d) (holds s) \<and> db_ok d"

lemma entry_sim_iff: "entry_sim pe e \<longleftrightarrow> (\<exists>org t. pe = row_of_entry org (e\<lparr>created_at := t\<rparr>))"
  by (auto simp: entry_sim_def row_of_entry_def)

lemma hold_sim_iff: "hold_sim ph m \<longleftrightarrow> (\<exists>org. ph = row_of_hold org m)"
  by (auto simp: hold_sim_def row_of_hold_def split: prod.splits)

lemma acct_sim_iff: "acct_sim pa (a, row) \<longleftrightarrow> a = acct_id (row_account row) \<and>
   (\<exists>b. pa = row_of_account b (row_account row) \<and> (a = SYSTEM_ACCOUNT \<or> row_settled row = b))"
  by (auto simp: acct_sim_def row_of_account_def)

lemma as_uuid_eq [simp]: "as_uuid a = as_uuid b \<longleftrightarrow> a = b"
  by (cases a; cases b) simp

lemma as_uuid_Id_iff: "as_uuid a = u \<longleftrightarrow> a = Id u"
  by (cases a) simp

lemma reservation_uuid_eq [simp]: "reservation_uuid a = reservation_uuid b \<longleftrightarrow> a = b"
  by (cases a; cases b) simp

lemma as_uuid_nil: "as_uuid a = nil_uuid \<longleftrightarrow> a = SYSTEM_ACCOUNT"
  by (cases a) (simp add: SYSTEM_ACCOUNT_def)

lemma Id_as_uuid [simp]: "Id (as_uuid a) = a"
  by (cases a) simp

lemma ReservationId_uuid [simp]: "ReservationId (reservation_uuid r) = r"
  by (cases r) simp

section \<open>Lists of rows and association lists\<close>

lemma find_map_of_rel:
  assumes "list_all2 R xs m" and "\<And>x k v. R x (k, v) \<Longrightarrow> f x = u \<longleftrightarrow> k = key"
  shows "rel_option (\<lambda>x v. R x (key, v)) (List.find (\<lambda>x. f x = u) xs) (map_of m key)"
  using assms(1)
proof (induction rule: list_all2_induct)
  case (Cons x xs y ys)
  obtain k v where "y = (k, v)" by (cases y)
  with Cons assms(2) [of x k v] show ?case by auto
qed simp

lemma find_rel:
  assumes "list_all2 R xs ys" and "\<And>x y. R x y \<Longrightarrow> p x = q y"
  shows "rel_option R (List.find p xs) (List.find q ys)"
  using assms(1) by (induction rule: list_all2_induct) (auto simp: assms(2))

lemma filter_rel:
  assumes "list_all2 R xs ys" and "\<And>x y. R x y \<Longrightarrow> p x = q y"
  shows "list_all2 R (filter p xs) (filter q ys)"
  using assms(1) by (induction rule: list_all2_induct) (auto simp: assms(2))

lemma map_rel_eq:
  assumes "list_all2 R xs ys" and "\<And>x y. R x y \<Longrightarrow> f x = g y"
  shows "map f xs = map g ys"
  using assms(1) by (induction rule: list_all2_induct) (auto simp: assms(2))

lemma update_rel:
  assumes "list_all2 R xs m" and "\<And>x k v. R x (k, v) \<Longrightarrow> f x = u \<longleftrightarrow> k = key"
    and "distinct (map f xs)" and "map_of m key = Some v" and "\<And>x. R x (key, v) \<Longrightarrow> R (g x) (key, w)"
  shows "list_all2 R (map (\<lambda>x. if f x = u then g x else x) xs) (AList.update key w m)"
  using assms(1,3,4)
proof (induction rule: list_all2_induct)
  case (Cons x xs y ys)
  obtain k z where y: "y = (k, z)" by (cases y)
  show ?case
  proof (cases "k = key")
    case True
    with y Cons.hyps(1) assms(2) have u: "f x = u" by blast
    have "f z \<noteq> u" if "z \<in> set xs" for z using that Cons.prems(1) u by (simp add: image_iff) metis
    then have "map (\<lambda>x. if f x = u then g x else x) xs = xs" by (intro map_idI) simp
    with True y u Cons assms(5) show ?thesis by simp
  next
    case False
    with y Cons.hyps(1) assms(2) have "f x \<noteq> u" by blast
    with False y Cons show ?thesis by simp
  qed
qed simp

lemma update_append: "map_of m k = None \<Longrightarrow> AList.update k v m = m @ [(k, v)]"
  by (induction m) auto

section \<open>Finding rows\<close>

lemma sim_accounts: "sim d s \<Longrightarrow> list_all2 acct_sim (tb_accounts d) (accounts s)"
  and sim_entries: "sim d s \<Longrightarrow> list_all2 entry_sim (tb_entries d) (entries s)"
  and sim_holds: "sim d s \<Longrightarrow> list_all2 hold_sim (tb_holds d) (holds s)"
  and sim_ok: "sim d s \<Longrightarrow> db_ok d"
  by (auto simp: sim_def)

lemma acct_sim_key: "acct_sim pa (a, row) \<Longrightarrow> pa_id pa = u \<longleftrightarrow> a = Id u"
  by (auto simp: acct_sim_iff row_of_account_def as_uuid_Id_iff)

lemma hold_sim_key: "hold_sim ph (r, h) \<Longrightarrow> ph_reservation_id ph = u \<longleftrightarrow> r = ReservationId u"
  by (cases r) (auto simp: hold_sim_iff row_of_hold_def)

lemma sim_account:
  "sim d s \<Longrightarrow> rel_option (\<lambda>pa row. acct_sim pa (Id u, row)) (find_pg_account d u) (map_of (accounts s) (Id u))"
  unfolding find_pg_account_def by (rule find_map_of_rel [OF sim_accounts acct_sim_key])

lemma sim_hold:
  "sim d s \<Longrightarrow> rel_option (\<lambda>ph h. hold_sim ph (ReservationId u, h)) (find_pg_hold d u) (map_of (holds s) (ReservationId u))"
  unfolding find_pg_hold_def by (rule find_map_of_rel [OF sim_holds hold_sim_key])

lemma sim_entry:
  "sim d s \<Longrightarrow> rel_option entry_sim (find_pg_entry d u) (List.find (\<lambda>e. entry_id e = Id u) (entries s))"
  unfolding find_pg_entry_def
  by (rule find_rel [OF sim_entries]) (auto simp: entry_sim_iff row_of_entry_def as_uuid_Id_iff)

lemma sim_no_account: "sim d s \<Longrightarrow> find_pg_account d u = None \<Longrightarrow> map_of (accounts s) (Id u) = None"
  using sim_account [of d s u] by simp

lemma sim_some_account:
  assumes "sim d s" and "find_pg_account d u = Some pa"
  obtains row where "map_of (accounts s) (Id u) = Some row" "acct_sim pa (Id u, row)"
  using sim_account [of d s u] assms by (auto simp: option_rel_Some1)

lemma sim_has_account: "sim d s \<Longrightarrow> find_pg_account d (as_uuid a) = None \<longleftrightarrow> \<not> has_account s a"
  using sim_account [of d s "as_uuid a"]
  by (cases "find_pg_account d (as_uuid a)"; cases "map_of (accounts s) a") (auto simp: has_account_def)

lemma sim_known: "sim d s \<Longrightarrow> known_account d (as_uuid a) \<longleftrightarrow> has_account s a"
  using sim_has_account [of d s a] by (simp add: known_account_def)

lemma sim_settled:
  assumes "sim d s" and "find_pg_account d (as_uuid a) = Some pa" and "a \<noteq> SYSTEM_ACCOUNT"
  shows "pa_settled pa = settled_of s a \<and> has_account s a"
proof -
  obtain row where "map_of (accounts s) a = Some row" "acct_sim pa (a, row)"
    using sim_some_account [OF assms(1,2)] by auto
  with assms(3) show ?thesis
    by (auto simp: acct_sim_iff row_of_account_def settled_of_def has_account_def)
qed

lemma db_ok_account: "db_ok d \<Longrightarrow> find_pg_account d u = Some pa \<Longrightarrow> on_grid (pa_settled pa) \<and> pa_parent_id pa \<noteq> Some nil_uuid"
  by (auto simp: db_ok_def find_pg_account_def list_all_iff dest!: find_SomeD)

lemma db_ok_system: "db_ok d \<Longrightarrow> known_account d nil_uuid"
  unfolding db_ok_def known_account_def find_pg_account_def find_None_iff_all by (metis imageE set_map)

lemma db_ok_hold: "db_ok d \<Longrightarrow> find_pg_hold d u = Some ph \<Longrightarrow> on_grid (ph_amount ph) \<and> ph_account_id ph \<noteq> nil_uuid"
  by (auto simp: db_ok_def find_pg_hold_def list_all_iff dest!: find_SomeD)

lemma db_ok_entry: "db_ok d \<Longrightarrow> find_pg_entry d u = Some pe \<Longrightarrow> on_grid (pe_delta pe) \<and> pe_account_id pe \<noteq> nil_uuid"
  by (auto simp: db_ok_def find_pg_entry_def list_all_iff dest!: find_SomeD)

section \<open>Reading an entry back\<close>

definition untimed :: "ledger_entry \<Rightarrow> ledger_entry" where
  "untimed e = e\<lparr>created_at := 0\<rparr>"

definition same_entry :: "ledger_entry \<Rightarrow> ledger_entry \<Rightarrow> bool" where
  "same_entry e e' \<longleftrightarrow> untimed e = untimed e'"

lemma untimed_eq: "untimed e = untimed e' \<longleftrightarrow> e' = e\<lparr>created_at := created_at e'\<rparr>"
  by (cases e; cases e') (auto simp: untimed_def)

lemma entry_type_roundtrip [simp]: "entry_type_from_str (entry_type_to_str ty) = Inr ty"
  by (cases ty) (simp_all add: entry_type_from_str_def entry_type_to_str_def)

lemma source_roundtrip [simp]: "source_from_str (source_to_str so) = Inr so"
  by (cases so) (simp_all add: source_from_str_def source_to_str_def)

lemma decode_exact: "decodes_exactly P \<Longrightarrow> decode_numeric P c v = Inr x \<Longrightarrow> x = v"
  by (auto simp: decodes_exactly_def decode_numeric_def split: option.splits)

lemma col_exact: "decodes_exactly P \<Longrightarrow> col_decimal P c v = Inr x \<Longrightarrow> x = v"
  by (auto simp: col_decimal_def dest: decode_exact split: sum.splits)

lemma col_error: "col_decimal P c v = Inl e \<Longrightarrow> \<exists>b. e = Backend b"
  by (auto simp: col_decimal_def split: sum.splits)

lemma optional_source [simp]:
  "(case map_option source_to_str so of None \<Rightarrow> Inr None | Some v \<Rightarrow> map_sum id Some (source_from_str v)) = Inr so"
  by (cases so) simp_all

lemma optional_ids [simp]:
  "map_option (Id \<circ> as_uuid) o1 = o1" "map_option (ReservationId \<circ> reservation_uuid) o2 = o2"
  by (cases o1; cases o2; simp)+

lemma row_roundtrip:
  assumes "decodes_exactly P" and "entry_from_row P (row_of_entry org e) = Inr e'"
  shows "e' = e"
  using assms(2)
  by (cases e; cases "entry_source e")
     (auto simp: entry_from_row_def row_of_entry_def option.map_comp
        dest!: col_exact [OF assms(1)] split: sum.splits)

lemma row_error: "entry_from_row P row = Inl e \<Longrightarrow> \<exists>b. e = Backend b"
  by (auto simp: entry_from_row_def source_from_str_def entry_type_from_str_def
      dest: col_error split: sum.splits option.splits if_splits)

lemma sim_entry_from_row:
  "decodes_exactly P \<Longrightarrow> entry_sim pe e \<Longrightarrow> entry_from_row P pe = Inr e' \<Longrightarrow> same_entry e' e"
  by (auto simp: entry_sim_iff same_entry_def untimed_def dest!: row_roundtrip)

section \<open>What the statements do\<close>

lemma sim_system: "sim d s \<Longrightarrow> sim d (shift SYSTEM_ACCOUNT x s)"
proof (cases "map_of (accounts s) SYSTEM_ACCOUNT")
  case (Some r)
  assume s: "sim d s"
  have "list_all2 acct_sim (map (\<lambda>x. if pa_id x = nil_uuid then x else x) (tb_accounts d))
    (AList.update SYSTEM_ACCOUNT (r\<lparr>row_settled := row_settled r + x\<rparr>) (accounts s))"
    using s Some unfolding SYSTEM_ACCOUNT_def
    by (intro update_rel [OF sim_accounts acct_sim_key])
       (auto simp: sim_def db_ok_def acct_sim_iff SYSTEM_ACCOUNT_def)
  with s Some show ?thesis by (simp add: sim_def shift_def)
qed (simp add: shift_def)

lemma sim_update_settled:
  assumes "sim d s" and "decodes_exactly P" and "a \<noteq> SYSTEM_ACCOUNT" and "on_grid amt"
    and "update_settled P (as_uuid a) amt d = Inr (d', b, org)"
  shows "has_account s a \<and> b = settled_of s a + amt \<and> on_grid b \<and> sim d' (shift a amt s)"
proof -
  from assms(5) obtain pa v where pa: "find_pg_account d (as_uuid a) = Some pa"
    and v: "numeric_30_5 (pa_settled pa + amt) = Inr v" and b: "decode_numeric P ''settled_credits'' v = Inr b"
    and d': "d' = d\<lparr>tb_accounts := map (\<lambda>x. if pa_id x = as_uuid a then x\<lparr>pa_settled := v\<rparr> else x) (tb_accounts d)\<rparr>"
    by (auto simp: update_settled_def split: option.splits sum.splits)
  have grid: "on_grid (pa_settled pa + amt)"
    using db_ok_account [OF sim_ok [OF assms(1)] pa] assms(4) by (simp add: on_grid_add)
  note settled = sim_settled [OF assms(1) pa assms(3)]
  have veq: "v = settled_of s a + amt" "on_grid v" "b = v"
    using numeric_grid [OF grid v] grid settled decode_exact [OF assms(2) b] by auto
  from settled obtain row where row: "map_of (accounts s) a = Some row"
    by (auto simp: has_account_def)
  have "list_all2 acct_sim (tb_accounts d')
     (AList.update a (row\<lparr>row_settled := row_settled row + amt\<rparr>) (accounts s))"
    unfolding d' using assms(1,3) row veq
    by (simp, intro update_rel [OF sim_accounts [OF assms(1)]])
       (auto simp: acct_sim_key sim_def db_ok_def acct_sim_iff row_of_account_def settled_of_def)
  moreover have "db_ok d'" using sim_ok [OF assms(1)] veq
    by (auto simp: d' db_ok_def list_all_iff comp_def if_distrib cong: if_cong)
  ultimately show ?thesis using assms(1) settled row veq by (simp add: sim_def shift_def d')
qed

lemma sim_insert_entry:
  assumes "sim d s" and "insert_entry P e org d = Inr (d', u)" and "on_grid (delta_credits e)"
    and "on_grid (balance_after e)" and "account_id e \<noteq> SYSTEM_ACCOUNT" and "same_entry e e'"
  shows "sim d' (push_entry e' s)"
proof -
  let ?row = "(row_of_entry org e)\<lparr>pe_created_at := pg_micros P (created_at e)\<rparr>"
  from assms(2) have d': "d' = d\<lparr>tb_entries := tb_entries d @ [?row]\<rparr>"
    and new: "find_pg_entry d (as_uuid (entry_id e)) = None"
    using numeric_grid [OF assms(3)] numeric_grid [OF assms(4)]
    by (auto simp: insert_entry_def row_of_entry_def Let_def split: sum.splits if_splits)
  from assms(6) obtain t where e': "e' = e\<lparr>created_at := t\<rparr>" unfolding same_entry_def untimed_eq by metis
  have "entry_sim ?row e'" by (simp add: e' entry_sim_def row_of_entry_def)
  moreover have "db_ok d'" using sim_ok [OF assms(1)] new assms(3,5)
    by (auto simp: d' db_ok_def find_pg_entry_def find_None_iff_all row_of_entry_def as_uuid_nil)
  ultimately show ?thesis using assms(1)
    by (auto simp: sim_def d' intro: list_all2_appendI)
qed

lemma sim_insert_account:
  assumes "sim d s" and "insert_account (row_of_account 0 acc) d = Inr (d', u)"
    and "acct_parent_id acc \<noteq> Some SYSTEM_ACCOUNT"
  shows "\<not> has_account s (acct_id acc) \<and>
    sim d' (s\<lparr>accounts := AList.update (acct_id acc) (account_row_new acc) (accounts s)\<rparr>)"
proof -
  from assms(2) have d': "d' = d\<lparr>tb_accounts := tb_accounts d @ [row_of_account 0 acc]\<rparr>"
    and new: "\<not> known_account d (as_uuid (acct_id acc))"
    by (auto simp: insert_account_def row_of_account_def split: if_splits)
  have fresh: "map_of (accounts s) (acct_id acc) = None"
    using sim_known [OF assms(1), of "acct_id acc"] new by (simp add: has_account_def)
  have "db_ok d'" using sim_ok [OF assms(1)] new assms(3)
    by (cases "acct_parent_id acc")
       (auto simp: d' db_ok_def known_account_def find_pg_account_def find_None_iff_all row_of_account_def as_uuid_nil)
  moreover have "acct_sim (row_of_account 0 acc) (acct_id acc, account_row_new acc)"
    by (simp add: acct_sim_iff account_row_new_def row_of_account_def)
  ultimately show ?thesis using assms(1) fresh
    by (auto simp: sim_def d' update_append has_account_def intro: list_all2_appendI)
qed

lemma sim_insert_hold:
  assumes "sim d s" and "insert_hold P (row_of_hold org (r, h)) d = Inr (d', u)"
    and "on_grid (hold_amount h)" and "hold_account h \<noteq> SYSTEM_ACCOUNT"
    and "map_option (pg_micros P) (hold_expires_at h) = hold_expires_at h"
  shows "sim d' (s\<lparr>holds := AList.update r h (holds s)\<rparr>)"
proof -
  from assms(2) have d': "d' = d\<lparr>tb_holds := tb_holds d @ [row_of_hold org (r, h)]\<rparr>"
    and new: "find_pg_hold d (reservation_uuid r) = None"
    using numeric_grid [OF assms(3)] assms(5)
    by (auto simp: insert_hold_def row_of_hold_def split: sum.splits if_splits)
  have fresh: "map_of (holds s) r = None"
    using sim_hold [OF assms(1), of "reservation_uuid r"] new by simp
  have "db_ok d'" using sim_ok [OF assms(1)] new assms(3,4)
    by (auto simp: d' db_ok_def find_pg_hold_def find_None_iff_all row_of_hold_def as_uuid_nil)
  moreover have "hold_sim (row_of_hold org (r, h)) (r, h)" by (auto simp: hold_sim_iff)
  ultimately show ?thesis using assms(1) fresh
    by (auto simp: sim_def d' update_append intro: list_all2_appendI)
qed

lemma sim_map_holds:
  assumes "db_ok d" and "\<And>h. ph_reservation_id (f h) = ph_reservation_id h \<and> ph_amount (f h) = ph_amount h \<and> ph_account_id (f h) = ph_account_id h"
  shows "db_ok (d\<lparr>tb_holds := map f (tb_holds d)\<rparr>)"
  using assms by (auto simp: db_ok_def list_all_iff comp_def)

lemma sim_update_hold:
  assumes "sim d s" and "update_hold (reservation_uuid r) f d = Inr (d', u)" and "map_of (holds s) r = Some h"
    and "\<And>org. f (row_of_hold org (r, h)) = row_of_hold org (r, h')"
    and "\<And>x. ph_reservation_id (f x) = ph_reservation_id x \<and> ph_amount (f x) = ph_amount x \<and> ph_account_id (f x) = ph_account_id x"
  shows "sim d' (s\<lparr>holds := AList.update r h' (holds s)\<rparr>)"
proof -
  from assms(2) have d': "d' = d\<lparr>tb_holds := map (\<lambda>h. if ph_reservation_id h = reservation_uuid r then f h else h) (tb_holds d)\<rparr>"
    by (simp add: update_hold_def)
  have "list_all2 hold_sim (tb_holds d') (AList.update r h' (holds s))"
    unfolding d' using assms(1,3)
    by (simp, intro update_rel [OF sim_holds [OF assms(1)]])
       (auto simp: hold_sim_key sim_def db_ok_def hold_sim_iff assms(4))
  moreover have "db_ok d'"
    unfolding d' by (rule sim_map_holds [OF sim_ok [OF assms(1)]]) (simp add: assms(5))
  ultimately show ?thesis using assms(1) by (simp add: sim_def d')
qed

lemma hold_sim_expired: "hold_sim ph (r, h) \<Longrightarrow> pg_expired now ph \<longleftrightarrow> hold_status h = Open \<and> expired_by now h"
  by (auto simp: hold_sim_iff row_of_hold_def pg_expired_def expired_by_def)

lemma sim_update_expired:
  assumes "sim d s" and "update_expired now d = Inr (d', n)"
  shows "sim d' (s\<lparr>holds := map (\<lambda>(r, h). (r, expire_hold now h)) (holds s)\<rparr>) \<and>
    n = length (filter (\<lambda>(_, h). hold_status h = Open \<and> expired_by now h) (holds s))"
proof -
  let ?f = "\<lambda>h. if pg_expired now h then h\<lparr>ph_status := ''voided''\<rparr> else h"
  from assms(2) have d': "d' = d\<lparr>tb_holds := map ?f (tb_holds d)\<rparr>"
    and n: "n = length (filter (pg_expired now) (tb_holds d))" by (auto simp: update_expired_def)
  have "list_all2 hold_sim (map ?f (tb_holds d)) (map (\<lambda>(r, h). (r, expire_hold now h)) (holds s))"
    unfolding list_all2_map1 list_all2_map2
    by (rule list_all2_mono [OF sim_holds [OF assms(1)]])
       (auto simp: hold_sim_expired expire_hold_def, auto simp: hold_sim_iff row_of_hold_def)
  moreover have "db_ok d'" unfolding d' by (rule sim_map_holds [OF sim_ok [OF assms(1)]]) simp
  moreover have "list_all2 hold_sim (filter (pg_expired now) (tb_holds d))
      (filter (\<lambda>(_, h). hold_status h = Open \<and> expired_by now h) (holds s))"
    by (rule filter_rel [OF sim_holds [OF assms(1)]]) (auto simp: hold_sim_expired)
  ultimately show ?thesis using assms(1) n by (auto simp: sim_def d' dest: list_all2_lengthD)
qed

lemma sim_held:
  assumes "sim d s" and "decodes_exactly P" and "select_held P (as_uuid a) d = Inr (d', h)"
  shows "d' = d \<and> h = held_of s a \<and> on_grid h"
proof -
  let ?rows = "filter (\<lambda>h. ph_account_id h = as_uuid a \<and> ph_status h = ''open'') (tb_holds d)"
  have "list_all2 hold_sim ?rows (filter (open_against a \<circ> snd) (holds s))"
    by (rule filter_rel [OF sim_holds [OF assms(1)]])
       (auto simp: hold_sim_iff row_of_hold_def open_against_def)
  then have "map ph_amount ?rows = map (hold_amount \<circ> snd) (filter (open_against a \<circ> snd) (holds s))"
    by (rule map_rel_eq) (auto simp: hold_sim_iff row_of_hold_def)
  also have "\<dots> = map hold_amount (filter (open_against a) (map snd (holds s)))"
    by (simp add: filter_map comp_def)
  finally have sum: "sum_list (map ph_amount ?rows) = held_of s a"
    by (simp add: held_of_def sum_list_filter_open)
  moreover have "on_grid (sum_list (map ph_amount ?rows))"
    using sim_ok [OF assms(1)] by (auto intro!: on_grid_sum_list simp: db_ok_def list_all_iff)
  ultimately show ?thesis using assms(3)
    by (cases "decode_numeric P ''coalesce'' (sum_list (map ph_amount ?rows))")
       (auto simp: select_held_def dest: decode_exact [OF assms(2)])
qed

lemma sim_reversed:
  assumes "sim d s" and "decodes_exactly P" and "select_reversed P (as_uuid i) d = Inr (d', v)"
  shows "d' = d \<and> v = reversed_of s i \<and> on_grid v"
proof -
  let ?rows = "filter (\<lambda>e. pe_reverses e = Some (as_uuid i)) (tb_entries d)"
  have "list_all2 entry_sim ?rows (filter (\<lambda>e. reverses_entry_id e = Some i) (entries s))"
    by (rule filter_rel [OF sim_entries [OF assms(1)]])
       (auto simp: entry_sim_iff row_of_entry_def)
  then have "map pe_delta ?rows = map delta_credits (filter (\<lambda>e. reverses_entry_id e = Some i) (entries s))"
    by (rule map_rel_eq) (auto simp: entry_sim_iff row_of_entry_def)
  then have sum: "sum_list (map pe_delta ?rows) = reversed_of s i" by (simp only: reversed_of_def)
  moreover have "on_grid (sum_list (map pe_delta ?rows))"
    using sim_ok [OF assms(1)] by (auto intro!: on_grid_sum_list simp: db_ok_def list_all_iff)
  ultimately show ?thesis using assms(3)
    by (cases "decode_numeric P ''coalesce'' (sum_list (map pe_delta ?rows))")
       (auto simp: select_reversed_def dest: decode_exact [OF assms(2)])
qed

end
