(* ===== verification/Pg_Refine.thy ===== *)
theory Pg_Refine
  imports Pg_Sim
begin

text \<open>
  The Postgres ledger simulates the in-memory ledger: a call on a database that does not fail either
  answers with a backend error and leaves the tables as they were, or does what the in-memory ledger
  does on the related state. \<open>mid\<close> and \<open>fin\<close> are the two postconditions of a method body, before and after
  its commit; each statement has a rule, and a method is proved by walking down its body.
\<close>

section \<open>Postconditions of a transaction\<close>

definition mid :: "db \<Rightarrow> (db \<Rightarrow> 'a \<Rightarrow> bool) \<Rightarrow> (tx, ledger_error, 'a) sres \<Rightarrow> bool" where
  "mid c Q m \<longleftrightarrow> (\<exists>t r. m = Some (t, r) \<and> committed t = c \<and>
     (case r of Inl e \<Rightarrow> \<exists>b. e = Backend b | Inr a \<Rightarrow> Q (working t) a))"

definition fin :: "db \<Rightarrow> (db \<Rightarrow> ledger_error + 'a \<Rightarrow> bool) \<Rightarrow> (tx, ledger_error, 'a) sres \<Rightarrow> bool" where
  "fin c R m \<longleftrightarrow> (\<exists>t r. m = Some (t, r) \<and>
     ((committed t = c \<and> (\<exists>b. r = Inl (Backend b))) \<or> R (committed t) r))"

lemma mid_sql:
  "committed t = c \<Longrightarrow> mid c (\<lambda>d a. st (working t) = Inr (d, a)) (sql (faultless P) st t)"
  by (auto simp: mid_def sql_def Let_def split: sum.splits)

lemma mid_get_col:
  "committed t = c \<Longrightarrow> mid c (\<lambda>d a. d = working t \<and> v = Inr a) (get_col P v t)"
  by (cases v) (auto simp: mid_def get_col_def)

lemma mid_return: "committed t = c \<Longrightarrow> Q (working t) a \<Longrightarrow> mid c Q (Some (t, Inr a))"
  by (simp add: mid_def)

lemma mid_compute:
  "committed t = c \<Longrightarrow> v = Some x \<Longrightarrow> Q (working t) (f x) \<Longrightarrow> mid c Q (map_option (\<lambda>x. (t, Inr (f x))) v)"
  by (simp add: mid_def)

lemma mid_weaken: "mid c Q m \<Longrightarrow> (\<And>d a. Q d a \<Longrightarrow> Q' d a) \<Longrightarrow> mid c Q' m"
  unfolding mid_def by (metis (no_types, lifting) old.sum.exhaust sum.case)

lemma mid_sbind:
  assumes "mid c Q m" and "\<And>t a. committed t = c \<Longrightarrow> Q (working t) a \<Longrightarrow> mid c Q' (f t a)"
  shows "mid c Q' (sbind m f)"
proof -
  from assms(1) obtain t r where m: "m = Some (t, r)" "committed t = c"
    "case r of Inl e \<Rightarrow> \<exists>b. e = Backend b | Inr a \<Rightarrow> Q (working t) a" by (auto simp: mid_def)
  show ?thesis
  proof (cases r)
    case (Inl e)
    with m show ?thesis by (auto simp: mid_def)
  next
    case (Inr a)
    with m assms(2) [of t a] show ?thesis by simp
  qed
qed

lemma fin_sbind:
  assumes "mid c Q m" and "\<And>t a. committed t = c \<Longrightarrow> Q (working t) a \<Longrightarrow> fin c R (f t a)"
  shows "fin c R (sbind m f)"
proof -
  from assms(1) obtain t r where m: "m = Some (t, r)" "committed t = c"
    "case r of Inl e \<Rightarrow> \<exists>b. e = Backend b | Inr a \<Rightarrow> Q (working t) a" by (auto simp: mid_def)
  show ?thesis using m assms(2) by (cases r) (auto simp: fin_def)
qed

lemma fin_return: "committed t = c \<Longrightarrow> R c r \<Longrightarrow> fin c R (Some (t, r))"
  by (simp add: fin_def)

lemma fin_commit: "R (working t) r \<Longrightarrow> fin c R (commit_with (faultless P) r t)"
  by (simp add: fin_def commit_with_def tx_commit_def Let_def)

lemma mid_begin: "committed t = c \<Longrightarrow> mid c (\<lambda>d _. d = working t) (begin_hot (faultless P) t)"
  by (simp add: begin_hot_def mid_def sql_def Let_def)


section \<open>Agreement with the in-memory ledger\<close>

definition agrees :: "('a \<Rightarrow> 'b \<Rightarrow> bool) \<Rightarrow> (state, ledger_error, 'b) sres \<Rightarrow> db \<Rightarrow> ledger_error + 'a \<Rightarrow> bool" where
  "agrees Q m d r \<longleftrightarrow> (\<exists>s' r'. m = Some (s', r') \<and> sim d s' \<and> rel_sum (=) Q r r')"

text \<open>A call of a whole method, on a database and the state it stands for.\<close>

definition simulates ::
  "('a \<Rightarrow> 'b \<Rightarrow> bool) \<Rightarrow> db \<Rightarrow> (db, ledger_error, 'a) sres \<Rightarrow> (state, ledger_error, 'b) sres \<Rightarrow> bool" where
  "simulates Q d m m' \<longleftrightarrow> (\<exists>d' r. m = Some (d', r) \<and>
     ((d' = d \<and> (\<exists>b. r = Inl (Backend b))) \<or> agrees Q m' d' r))"

lemma agrees_Some [simp]: "agrees Q (Some (s', r')) d r \<longleftrightarrow> sim d s' \<and> rel_sum (=) Q r r'"
  by (auto simp: agrees_def)

lemma simulates_transact:
  assumes "\<And>t. committed t = d \<Longrightarrow> working t = d \<Longrightarrow> fin d (agrees Q m') (p t)"
  shows "simulates Q d (transact p d) m'"
  using assms [of "\<lparr>committed = d, working = d, steps = 0\<rparr>"]
  by (auto simp: simulates_def fin_def transact_def)

lemma simulates_replying:
  "simulates Q d m m' \<Longrightarrow> (\<And>x y. Q x y \<Longrightarrow> Q' (f x) (g y)) \<Longrightarrow> simulates Q' d (pg_replying f m) (replying g m')"
  by (fastforce simp: simulates_def agrees_def pg_replying_def replying_def elim!: rel_sum.cases)

section \<open>The in-memory postings, exactly\<close>

lemma post_credit_eq:
  assumes "exact_sums D" and "total_sums D" and "has_account s a" and "a \<noteq> SYSTEM_ACCOUNT"
  shows "post_credit D s a m = Some (shift SYSTEM_ACCOUNT (- m) (shift a m s), settled_of s a + m)"
  using post_credit_total [OF assms(1-3), of m] post_credit_exact [OF assms(1)] assms(4) by metis

lemma post_debit_eq:
  assumes "exact_sums D" and "total_sums D" and "has_account s a"
  shows "post_debit D s a m = Some (shift SYSTEM_ACCOUNT m (shift a (- m) s), settled_of s a - m)"
  using post_debit_total [OF assms, of m] post_debit_exact [OF assms(1)] by metis

lemma post_transfer_eq:
  assumes "exact_sums D" and "total_sums D" and "has_account s a" and "has_account s b"
  shows "post_transfer D i j now s a b m = Some
     (push_entry (transfer_entry j b a m (settled_of (shift a (- m) s) b + m) now)
       (push_entry (transfer_entry i a b (- m) (settled_of s a - m) now) (shift b m (shift a (- m) s))))"
proof -
  from assms(3) have "account_sub D s a m = Some (shift a (- m) s, settled_of s a - m)"
    by (auto simp: account_sub_def shift_def has_account_def settled_of_def dec_sub_total [OF assms(1,2)])
  moreover from assms(4) have "account_add D (shift a (- m) s) b m
      = Some (shift b m (shift a (- m) s), settled_of (shift a (- m) s) b + m)"
    by (auto simp: account_add_def shift_def [of b] has_account_def map_of_shift settled_of_def
          dec_add_total [OF assms(1,2)])
  ultimately show ?thesis by (simp add: post_transfer_def)
qed

text \<open>What the keyed postings of the in-memory ledger do past the check of the amount.\<close>

definition keyed_ref ::
  "state \<Rightarrow> account_id \<Rightarrow> string option \<Rightarrow> credit \<Rightarrow> (credit \<Rightarrow> ledger_entry)
     \<Rightarrow> (state, ledger_error, ledger_entry) sres" where
  "keyed_ref s a key delta mk =
     (if \<not> has_account s a then Some (s, Inl (AccountNotFound a))
      else case find_existing s a key of
        Some e \<Rightarrow> Some (s, Inr e)
      | None \<Rightarrow> let e = mk (settled_of s a + delta) in
          Some (push_entry e (shift SYSTEM_ACCOUNT (- delta) (shift a delta s)), Inr e))"

lemma keyed_ref_eqs:
  assumes "exact_sums D" and "total_sums D"
  shows "grant_account g \<noteq> SYSTEM_ACCOUNT \<Longrightarrow> grant D E s g =
      (if \<not> 0 < grant_amount g then Some (s, Inl NonPositiveAmount)
       else keyed_ref s (grant_account g) (grant_idempotency_key g) (grant_amount g) (grant_entry E g))"
    and "refund_account f \<noteq> SYSTEM_ACCOUNT \<Longrightarrow> refund D E s f =
      (if \<not> 0 < refund_amount f then Some (s, Inl NonPositiveAmount)
       else keyed_ref s (refund_account f) (refund_idempotency_key f) (refund_amount f) (refund_entry E f))"
    and "charge D E s c =
      (if \<not> 0 < charge_amount c then Some (s, Inl NonPositiveAmount)
       else keyed_ref s (charge_account c) (charge_idempotency_key c) (- charge_amount c) (charge_entry E c))"
  by (auto simp: grant_def refund_def charge_def keyed_ref_def has_account_def [symmetric]
        post_credit_eq [OF assms] post_debit_eq [OF assms] Let_def split: option.splits)
     (auto simp: has_account_def)

section \<open>Statements\<close>

lemma mid_account: "committed t = c \<Longrightarrow>
   mid c (\<lambda>d x. d = working t \<and> x = find_pg_account (working t) u) (sql (faultless P) (select_account u) t)"
  by (rule mid_weaken [OF mid_sql]) (simp_all add: select_account_def)

lemma mid_hold: "committed t = c \<Longrightarrow>
   mid c (\<lambda>d x. d = working t \<and> x = find_pg_hold (working t) u) (sql (faultless P) (select_hold u) t)"
  by (rule mid_weaken [OF mid_sql]) (simp_all add: select_hold_def)

lemma mid_entry: "committed t = c \<Longrightarrow>
   mid c (\<lambda>d x. d = working t \<and> x = find_pg_entry (working t) u) (sql (faultless P) (select_entry u) t)"
  by (rule mid_weaken [OF mid_sql]) (simp_all add: select_entry_def)

lemma mid_update_settled:
  assumes "sim (working t) s" and "decodes_exactly P" and "a \<noteq> SYSTEM_ACCOUNT" and "on_grid amt" and "committed t = c"
  shows "mid c (\<lambda>d (b, _). has_account s a \<and> b = settled_of s a + amt \<and> on_grid b \<and> sim d (shift a amt s))
    (sql (faultless P) (update_settled P (as_uuid a) amt) t)"
  by (rule mid_weaken [OF mid_sql [OF assms(5)]]) (use sim_update_settled [OF assms(1-4)] in auto)

lemma mid_insert_entry:
  assumes "sim (working t) s" and "on_grid (delta_credits e)" and "on_grid (balance_after e)"
    and "account_id e \<noteq> SYSTEM_ACCOUNT" and "same_entry e e'" and "committed t = c"
  shows "mid c (\<lambda>d _. sim d (push_entry e' s)) (sql (faultless P) (insert_entry P e org) t)"
  by (rule mid_weaken [OF mid_sql [OF assms(6)]]) (use sim_insert_entry [OF assms(1) _ assms(2-5)] in auto)

lemma mid_update_hold:
  assumes "sim (working t) s" and "map_of (holds s) r = Some h"
    and "\<And>org. f (row_of_hold org (r, h)) = row_of_hold org (r, h')"
    and "\<And>x. ph_reservation_id (f x) = ph_reservation_id x \<and> ph_amount (f x) = ph_amount x \<and> ph_account_id (f x) = ph_account_id x"
    and "committed t = c"
  shows "mid c (\<lambda>d _. sim d (s\<lparr>holds := AList.update r h' (holds s)\<rparr>))
    (sql (faultless P) (update_hold (reservation_uuid r) f) t)"
  by (rule mid_weaken [OF mid_sql [OF assms(5)]]) (use sim_update_hold [OF assms(1) _ assms(2-4)] in auto)

lemma sim_keyed:
  assumes "sim d s"
  shows "rel_option entry_sim (List.find (\<lambda>e. pe_account_id e = as_uuid a \<and> pe_key e = Some k) (tb_entries d)) (find_keyed s a k)"
  unfolding find_keyed_def
  by (rule find_rel [OF sim_entries [OF assms]]) (auto simp: entry_sim_iff row_of_entry_def)

lemma mid_entry_from_row:
  assumes "decodes_exactly P" and "entry_sim pe e" and "committed t = c"
  shows "mid c (\<lambda>d x. d = working t \<and> same_entry x e) (Some (t, entry_from_row P pe))"
  using assms row_error [of P pe] sim_entry_from_row [OF assms(1,2)]
  by (cases "entry_from_row P pe") (auto simp: mid_def)

lemma mid_replay:
  assumes "sim (working t) s" and "decodes_exactly P" and "committed t = c"
  shows "mid c (\<lambda>d x. d = working t \<and> rel_option same_entry x (find_existing s a key))
    (replay (faultless P) (as_uuid a) key t)"
proof (cases key)
  case None
  with assms(3) show ?thesis by (simp add: replay_def mid_return find_existing_def)
next
  case (Some k)
  have "mid c (\<lambda>d x. d = working t \<and> rel_option entry_sim x (find_keyed s a k))
     (sql (faultless P) (select_keyed (as_uuid a) k) t)"
    by (rule mid_weaken [OF mid_sql [OF assms(3)]]) (use sim_keyed [OF assms(1)] in \<open>simp add: select_keyed_def\<close>)
  then have "mid c (\<lambda>d x. d = working t \<and> rel_option same_entry x (find_keyed s a k))
     (replay (faultless P) (as_uuid a) (Some k) t)"
    unfolding replay_def option.case
  proof (rule mid_sbind)
    fix t1 :: tx and found
    assume t1: "committed t1 = c" and "working t1 = working t \<and> rel_option entry_sim found (find_keyed s a k)"
    then consider "found = None" "find_keyed s a k = None" "working t1 = working t"
      | pe e where "found = Some pe" "find_keyed s a k = Some e" "entry_sim pe e" "working t1 = working t"
      by (auto elim: option.rel_cases)
    then show "mid c (\<lambda>d x. d = working t \<and> rel_option same_entry x (find_keyed s a k))
       (case found of None \<Rightarrow> Some (t1, Inr None)
        | Some row \<Rightarrow> Some (t1, map_sum id Some (entry_from_row (faultless P) row)))"
    proof cases
      case (2 pe e)
      with mid_entry_from_row [OF assms(2) 2(3) t1] show ?thesis
        by (cases "entry_from_row P pe") (auto simp: mid_def)
    qed (simp add: t1 mid_return)
  qed
  with Some show ?thesis by (simp add: find_existing_def)
qed

lemma push_system: "push_entry e (shift SYSTEM_ACCOUNT x s) = shift SYSTEM_ACCOUNT x (push_entry e s)"
  by (simp add: push_entry_def shift_def split: option.split)

lemma sim_push_system: "sim d (push_entry e s) \<Longrightarrow> sim d (push_entry e (shift SYSTEM_ACCOUNT x s))"
  by (simp add: push_system sim_system)

section \<open>Keyed postings\<close>

lemma fin_keyed:
  assumes "sim d s" and "decodes_exactly P" and "a \<noteq> SYSTEM_ACCOUNT" and "on_grid delta"
    and "committed t = d" and "working t = d"
    and mk: "\<And>b. account_id (mk b) = a \<and> delta_credits (mk b) = delta \<and> balance_after (mk b) = b \<and>
      same_entry (mk b) (mk' b)"
  shows "fin d (agrees same_entry (keyed_ref s a key delta mk')) (pg_keyed (faultless P) a key delta mk t)"
  unfolding pg_keyed_def faultless_statements
proof (rule fin_sbind [OF mid_begin [OF assms(5)]], rule fin_sbind [OF mid_account], assumption, goal_cases)
  case (1 t1 _ t2 found)
  show ?case
  proof (cases found)
    case None
    with 1 assms sim_has_account [OF assms(1), of a] show ?thesis
      by (auto intro!: fin_return simp: keyed_ref_def)
  next
    case (Some row)
    with 1 assms sim_has_account [OF assms(1), of a] have acc: "has_account s a" and w: "sim (working t2) s" by auto
    show ?thesis unfolding Some option.case
    proof (rule fin_sbind [OF mid_replay [OF w assms(2) 1(3)]], goal_cases)
      case (1 t3 ex)
      show ?case
      proof (cases ex)
        case (Some e)
        with 1 w acc show ?thesis
          by (auto intro!: fin_commit simp: keyed_ref_def option_rel_Some1)
      next
        case None
        with 1 w have w3: "sim (working t3) s" and ex: "find_existing s a key = None" by auto
        show ?thesis unfolding None option.case
        proof (rule fin_sbind [OF mid_update_settled [OF w3 assms(2-4) 1(1)]], goal_cases)
          case (1 t4 p)
          obtain b o' where p: "p = (b, o')" by (cases p)
          with 1 have b: "b = settled_of s a + delta" "on_grid b" and w4: "sim (working t4) (shift a delta s)" by auto
          show ?case unfolding p prod.case
            by (rule fin_sbind [OF mid_insert_entry [OF w4, where e' = "mk' b"]])
               (use 1 b mk acc ex assms(3,4) in \<open>auto intro!: fin_commit simp: keyed_ref_def Let_def
                   intro: sim_push_system\<close>)
        qed
      qed
    qed
  qed
qed

lemma micros_entries [simp]:
  "account_id (grant_entry E g b) = grant_account g" "delta_credits (grant_entry E g b) = grant_amount g"
  "balance_after (grant_entry E g b) = b" "same_entry (grant_entry (micros E) g b) (grant_entry E g b)"
  "account_id (refund_entry E f b) = refund_account f" "delta_credits (refund_entry E f b) = refund_amount f"
  "balance_after (refund_entry E f b) = b" "same_entry (refund_entry (micros E) f b) (refund_entry E f b)"
  "account_id (charge_entry E c b) = charge_account c" "delta_credits (charge_entry E c b) = - charge_amount c"
  "balance_after (charge_entry E c b) = b" "same_entry (charge_entry (micros E) c b) (charge_entry E c b)"
  "account_id (settle_entry E q a b) = a" "delta_credits (settle_entry E q a b) = - settle_actual q"
  "balance_after (settle_entry E q a b) = b" "same_entry (settle_entry (micros E) q a b) (settle_entry E q a b)"
  by (simp_all add: grant_entry_def refund_entry_def charge_entry_def settle_entry_def micros_def same_entry_def untimed_def)

lemma simulates_guard:
  "sim d s \<Longrightarrow> (\<not> q \<Longrightarrow> simulates Q d m m') \<Longrightarrow>
   simulates Q d (if q then Some (d, Inl e) else m) (if q then Some (s, Inl e) else m')"
  by (auto simp: simulates_def)

lemma simulates_postings:
  assumes "sim d s" and "exact_sums D" and "total_sums D" and "decodes_exactly P"
  shows "grant_account g \<noteq> SYSTEM_ACCOUNT \<Longrightarrow> on_grid (grant_amount g) \<Longrightarrow>
      simulates same_entry d (pg_grant (faultless P) E d g) (grant D E s g)"
    and "refund_account f \<noteq> SYSTEM_ACCOUNT \<Longrightarrow> on_grid (refund_amount f) \<Longrightarrow>
      simulates same_entry d (pg_refund (faultless P) E d f) (refund D E s f)"
    and "charge_account c \<noteq> SYSTEM_ACCOUNT \<Longrightarrow> on_grid (charge_amount c) \<Longrightarrow>
      simulates same_entry d (pg_charge (faultless P) E d c) (charge D E s c)"
  unfolding pg_grant_def pg_refund_def pg_charge_def credit_sign_iff
  by (simp_all only: keyed_ref_eqs [OF assms(2,3)] if_True not_False_eq_True)
     (intro simulates_guard [OF assms(1)] simulates_transact fin_keyed [OF assms(1,4)];
      simp add: on_grid_minus)+

section \<open>Balances and remainders\<close>

lemma find_pg_account_id: "find_pg_account d u = Some row \<Longrightarrow> pa_id row = u"
  by (auto simp: find_pg_account_def dest: find_SomeD)

lemma mid_held:
  assumes "sim (working t) s" and "decodes_exactly P" and "committed t = c"
  shows "mid c (\<lambda>d h. d = working t \<and> h = held_of s a \<and> on_grid h) (sql (faultless P) (select_held P (as_uuid a)) t)"
  by (rule mid_weaken [OF mid_sql [OF assms(3)]]) (use sim_held [OF assms(1,2)] in auto)

lemma mid_settled:
  assumes "sim (working t) s" and "decodes_exactly P" and "committed t = c"
    and "find_pg_account (working t) (as_uuid a) = Some row" and "a \<noteq> SYSTEM_ACCOUNT"
  shows "mid c (\<lambda>d v. d = working t \<and> v = settled_of s a \<and> on_grid v) (get_settled (faultless P) row t)"
  unfolding get_settled_def faultless_decode
  by (rule mid_weaken [OF mid_get_col [OF assms(3)]])
     (use sim_settled [OF assms(1,4,5)] db_ok_account [OF sim_ok [OF assms(1)] assms(4)] in
       \<open>auto dest: decode_exact [OF assms(2)]\<close>)

lemma mid_available:
  assumes "sim (working t) s" and "exact_sums D" and "total_sums D" and "decodes_exactly P" and "committed t = c"
    and "v = settled_of s a" and "on_grid v"
  shows "mid c (\<lambda>d x. d = working t \<and> x = available_of s a \<and> on_grid x) (pg_available D (faultless P) a v t)"
  unfolding pg_available_def faultless_statements
  by (rule mid_sbind [OF mid_held [OF assms(1,4,5), of a]])
     (use assms(6,7) in \<open>auto intro!: mid_return simp: dec_sub_total [OF assms(2,3)] available_of_def on_grid_diff\<close>)

lemma mid_remainder:
  assumes "sim (working t) s" and "exact_sums D" and "total_sums D" and "decodes_exactly P" and "committed t = c"
  shows "mid c (\<lambda>d x. d = working t \<and> x = remainder_of s i \<and> on_grid x)
    (pg_unreversed_remainder D (faultless P) (as_uuid i) t)"
  unfolding pg_unreversed_remainder_def faultless_statements faultless_decode
proof (rule mid_sbind [OF mid_entry [OF assms(5)]], rule mid_sbind [OF mid_get_col], assumption, goal_cases)
  case (1 t1 found t2 charged)
  then obtain pe where pe: "find_pg_entry (working t) (as_uuid i) = Some pe"
    and charged: "charged = pe_delta pe" and w: "sim (working t2) s" and t2: "committed t2 = c" "working t2 = working t"
    using decode_exact [OF assms(4)] assms(1) by (auto split: option.splits)
  have neg: "- charged = charged_of s i" "on_grid (- charged)"
    using sim_entry [OF assms(1), of "as_uuid i"] pe charged db_ok_entry [OF sim_ok [OF assms(1)] pe]
    by (auto simp: option_rel_Some1 charged_of_def entry_sim_iff row_of_entry_def on_grid_minus)
  show ?case
  proof (rule mid_sbind [OF mid_weaken [OF mid_sql [OF t2(1)]]])
    fix d a assume "select_reversed P (as_uuid i) (working t2) = Inr (d, a)"
    then show "d = working t \<and> a = reversed_of s i \<and> on_grid a"
      using sim_reversed [OF w assms(4)] t2 by auto
  next
    fix t3 :: tx and a assume "committed t3 = c" "working t3 = working t \<and> a = reversed_of s i \<and> on_grid a"
    with neg show "mid c (\<lambda>d x. d = working t \<and> x = remainder_of s i \<and> on_grid x)
       (map_option (\<lambda>r. (t3, Inr r)) (dec_sub D (- charged) a))"
      by (auto intro!: mid_return simp: dec_sub_total [OF assms(2,3)] remainder_of_def on_grid_diff)
  qed
qed

lemma simulates_balance:
  assumes "sim d s" and "exact_sums D" and "total_sums D" and "decodes_exactly P" and "a \<noteq> SYSTEM_ACCOUNT"
  shows "simulates (=) d (pg_balance (faultless P) d a) (balance D s a)"
  unfolding pg_balance_def faultless_statements faultless_decode
proof (rule simulates_transact, rule fin_sbind [OF mid_account], assumption, goal_cases)
  case (1 t t1 found)
  show ?case
  proof (cases found)
    case None
    with 1 assms(1) sim_has_account [OF assms(1), of a] show ?thesis
      by (auto intro!: fin_return simp: balance_def has_account_def)
  next
    case (Some row)
    with 1 have row: "find_pg_account d (as_uuid a) = Some row" by simp
    note settled = sim_settled [OF assms(1) row assms(5)]
    have w: "sim (working t1) s" "find_pg_account (working t1) (as_uuid a) = Some row" using 1 row assms(1) by auto
    show ?thesis unfolding Some option.case
    proof (rule fin_sbind [OF mid_settled [OF w(1) assms(4) 1(3) w(2) assms(5)]], rule fin_sbind [OF mid_held [of _ s]], goal_cases)
      case (4 t2 v t3 h)
      with 1 assms(1) settled show ?case
        by (auto intro!: fin_return simp: balance_def has_account_def held_total [OF assms(2,3)] settled_of_def)
    qed (use 1 assms in auto)
  qed
qed

section \<open>Reversing a charge\<close>

lemma sim_charge_row:
  assumes "sim d s"
  shows "map_option pe_account_id (find_pg_entry d (as_uuid i)) = Some (as_uuid a) \<longleftrightarrow>
    list_ex (\<lambda>e. entry_id e = i \<and> account_id e = a) (entries s)"
proof -
  have ids: "map pe_id (tb_entries d) = map (as_uuid \<circ> entry_id) (entries s)"
    by (rule map_rel_eq [OF sim_entries [OF assms]]) (auto simp: entry_sim_iff row_of_entry_def)
  with sim_ok [OF assms] have dist: "distinct (map entry_id (entries s))"
    by (auto simp: db_ok_def distinct_map inj_on_def)
  have "map_option pe_account_id (find_pg_entry d (as_uuid i)) = Some (as_uuid a) \<longleftrightarrow>
     map_option account_id (List.find (\<lambda>e. entry_id e = i) (entries s)) = Some a"
    using sim_entry [OF assms, of "as_uuid i"]
    by (cases rule: option.rel_cases) (auto simp: entry_sim_iff row_of_entry_def)
  also have "\<dots> \<longleftrightarrow> list_ex (\<lambda>e. entry_id e = i \<and> account_id e = a) (entries s)"
    using find_unique [OF dist] by (auto simp: list_ex_iff dest!: find_SomeD)
  finally show ?thesis .
qed

definition reversal_of :: "env \<Rightarrow> reverse_charge_request \<Rightarrow> credit \<Rightarrow> credit \<Rightarrow> ledger_entry" where
  "reversal_of E q amt b = reversal_entry (Id (new_v7 E 0)) (rev_account q) amt b (rev_charge_entry_id q) None
     (rev_run_id q) (rev_idempotency_key q) (now_utc E 0)"

definition reverse_ref ::
  "env \<Rightarrow> state \<Rightarrow> reverse_charge_request \<Rightarrow> (state, ledger_error, ledger_entry option) sres" where
  "reverse_ref E s q =
     (let a = rev_account q; amt = remainder_of s (rev_charge_entry_id q);
          e = reversal_of E q amt (settled_of s a + amt) in
      if amt \<le> 0 then Some (s, Inr None)
      else Some (push_entry e (shift SYSTEM_ACCOUNT (- amt) (shift a amt s)), Inr (Some e)))"

lemma reverse_charge_eq:
  assumes "exact_sums D" and "total_sums D" and "rev_account q \<noteq> SYSTEM_ACCOUNT"
  shows "reverse_charge D E s q =
    (if \<not> has_account s (rev_account q) then Some (s, Inl (AccountNotFound (rev_account q)))
     else case find_existing s (rev_account q) (Some (rev_idempotency_key q)) of
       Some e \<Rightarrow> Some (s, Inr (Some e))
     | None \<Rightarrow>
         if \<not> list_ex (\<lambda>e. entry_id e = rev_charge_entry_id q \<and> account_id e = rev_account q) (entries s)
         then Some (s, Inr None) else reverse_ref E s q)"
proof (cases "has_account s (rev_account q)")
  case True
  then have "map_of (accounts s) (rev_account q) \<noteq> None" by (simp add: has_account_def)
  with True assms(3) show ?thesis
    by (auto simp: reverse_charge_def reverse_ref_def reversal_of_def find_existing_def Let_def
          unreversed_remainder_total [OF assms(1,2)] post_credit_eq [OF assms(1,2)] split: option.splits)
qed (simp add: reverse_charge_def has_account_def)

lemma reversal_micros: "reversal_of (micros E) q amt b = reversal_entry (Id (new_v7 E 0)) (rev_account q) amt b
   (rev_charge_entry_id q) None (rev_run_id q) (rev_idempotency_key q) (now_micros E 0)"
  by (simp add: reversal_of_def micros_def)

lemma fin_reversal:
  assumes "sim (working t) s" and "exact_sums D" and "total_sums D" and "decodes_exactly P"
    and "rev_account q \<noteq> SYSTEM_ACCOUNT" and "committed t = c"
  shows "fin c (agrees (rel_option same_entry) (reverse_ref E s q))
    (sbind (pg_unreversed_remainder D (faultless P) (as_uuid (rev_charge_entry_id q)) t) (\<lambda>t amt.
       if amt \<le> 0 then commit_with (faultless P) (Inr None) t
       else
         sbind (sql (faultless P) (update_settled P (as_uuid (rev_account q)) amt) t) (\<lambda>t (after, _).
         let entry = reversal_of (micros E) q amt after in
         sbind (sql (faultless P) (insert_entry P entry org) t) (\<lambda>t _.
           commit_with (faultless P) (Inr (Some entry)) t))))"
proof (rule fin_sbind [OF mid_remainder [OF assms(1-4,6)]], goal_cases)
  case (1 t1 amt)
  then have w: "sim (working t1) s" and amt: "amt = remainder_of s (rev_charge_entry_id q)" "on_grid amt"
    using assms(1) by auto
  show ?case
  proof (cases "amt \<le> 0")
    case True
    with w amt show ?thesis by (auto intro!: fin_commit simp: reverse_ref_def Let_def)
  next
    case False
    then have pos: "(amt \<le> 0) = False" by simp
    show ?thesis unfolding pos if_False Let_def
    proof (rule fin_sbind [OF mid_update_settled [OF w assms(4,5) amt(2) 1(1)]], goal_cases)
      case (1 t2 p)
      obtain b o' where p: "p = (b, o')" by (cases p)
      let ?e = "reversal_of E q amt b"
      show ?case unfolding p prod.case
        by (rule fin_sbind [OF mid_insert_entry [where s = "shift (rev_account q) amt s" and e' = ?e]])
           (use 1 p False amt assms(5) in \<open>auto intro!: fin_commit sim_push_system
              simp: reverse_ref_def same_entry_def untimed_def reversal_of_def reversal_entry_def micros_def Let_def\<close>)
    qed
  qed
qed

lemma simulates_reverse_charge:
  assumes "sim d s" and "exact_sums D" and "total_sums D" and "decodes_exactly P" and "rev_account q \<noteq> SYSTEM_ACCOUNT"
  shows "simulates (rel_option same_entry) d (pg_reverse_charge D (faultless P) E d q) (reverse_charge D E s q)"
  unfolding pg_reverse_charge_def faultless_statements reverse_charge_eq [OF assms(2,3,5)]
proof (rule simulates_transact, rule fin_sbind [OF mid_begin], assumption, rule fin_sbind [OF mid_account], assumption, goal_cases)
  case (1 t t0 _ t1 found)
  let ?a = "rev_account q" and ?i = "rev_charge_entry_id q"
  from 1 have w: "sim (working t1) s" and acc: "found = None \<longleftrightarrow> \<not> has_account s ?a"
    using assms(1) sim_has_account [OF assms(1), of ?a] by auto
  show ?case
  proof (cases found)
    case None
    with 1 assms(1) acc show ?thesis by (auto intro!: fin_return)
  next
    case (Some row)
    with acc have acc: "(\<not> has_account s ?a) = False" by simp
    show ?thesis unfolding Some option.case acc if_False
    proof (rule fin_sbind [OF mid_replay [OF w assms(4) 1(5)]], goal_cases)
      case (1 t2 ex)
      then have w2: "sim (working t2) s" using w by simp
      from 1(2) have "rel_option same_entry ex (find_existing s ?a (Some (rev_idempotency_key q)))" by simp
      then show ?case
      proof (cases rule: option.rel_cases)
        case None
        show ?thesis unfolding None option.case
        proof (rule fin_sbind [OF mid_entry [OF 1(1)]], goal_cases)
          case (1 t3 crow)
          then show ?case using fin_reversal [unfolded reversal_micros, OF _ assms(2-5) 1(1), of s E "pa_org_id row"] w2
              sim_charge_row [OF w2, of ?i ?a]
            by (auto intro!: fin_commit)
        qed
      next
        case (Some e e')
        with w2 show ?thesis by (auto intro!: fin_commit)
      qed
    qed
  qed
qed

section \<open>Reservations\<close>

lemma simulates_void:
  assumes "sim d s"
  shows "simulates (=) d (pg_void (faultless P) d r) (void s r)"
  unfolding pg_void_def
proof (rule simulates_transact, rule fin_sbind [OF mid_begin], assumption, rule fin_sbind [OF mid_hold], assumption, goal_cases)
  case (1 t t0 _ t1 found)
  then have w: "sim (working t1) s" and "rel_option (\<lambda>ph h. hold_sim ph (r, h)) found (map_of (holds s) r)"
    using assms sim_hold [OF assms, of "reservation_uuid r"] by auto
  then consider "found = None" "map_of (holds s) r = None"
    | ph h where "found = Some ph" "map_of (holds s) r = Some h" "hold_sim ph (r, h)"
    by (auto elim: option.rel_cases)
  then show ?case
  proof cases
    case 1
    with w show ?thesis by (auto intro!: fin_commit simp: void_def)
  next
    case (2 ph h)
    then have st: "ph_status ph = status_str (hold_status h)" by (auto simp: hold_sim_iff row_of_hold_def)
    show ?thesis
    proof (cases "hold_status h = Open")
      case True
      show ?thesis using 2 st True
        by simp (rule fin_sbind [OF mid_update_hold [OF w 2(2), where h' = "h\<lparr>hold_status := Voided\<rparr>"]];
          use 1(5) 2 True in \<open>auto intro!: fin_commit simp: void_def row_of_hold_def\<close>)
    next
      case False
      with 2 st w show ?thesis
        by (cases "hold_status h") (auto intro!: fin_commit simp: void_def)
    qed
  qed
qed

lemma simulates_extend_hold:
  assumes "sim d s" and "pg_micros P e = e"
  shows "simulates (=) d (pg_extend_hold (faultless P) d r e) (extend_hold s r e)"
  unfolding pg_extend_hold_def faultless_sel
proof (rule simulates_transact, rule fin_sbind [OF mid_begin], assumption, rule fin_sbind [OF mid_hold], assumption, goal_cases)
  case (1 t t0 _ t1 found)
  then have w: "sim (working t1) s" and rel: "rel_option (\<lambda>ph h. hold_sim ph (r, h)) found (map_of (holds s) r)"
    using assms sim_hold [OF assms(1), of "reservation_uuid r"] by auto
  from rel show ?case
  proof (cases rule: option.rel_cases)
    case None
    with w show ?thesis by (auto intro!: fin_commit simp: extend_hold_def)
  next
    case (Some ph h)
    then have st: "ph_status ph = status_str (hold_status h)" by (auto simp: hold_sim_iff row_of_hold_def)
    show ?thesis
    proof (cases "hold_status h = Open")
      case True
      show ?thesis using Some st True
        by simp (rule fin_sbind [OF mid_update_hold [OF w Some(2), where h' = "h\<lparr>hold_expires_at := Some e\<rparr>"]];
          use 1(5) Some True assms(2) in \<open>auto intro!: fin_commit simp: extend_hold_def row_of_hold_def\<close>)
    next
      case False
      with Some st w show ?thesis
        by (cases "hold_status h") (auto intro!: fin_commit simp: extend_hold_def)
    qed
  qed
qed

lemma simulates_void_expired:
  assumes "sim d s" and "pg_micros P now = now"
  shows "simulates (=) d (pg_void_expired_holds (faultless P) d now) (void_expired_holds s now)"
  unfolding pg_void_expired_holds_def autocommit_def faultless_sel assms(2)
proof (rule simulates_transact, rule fin_sbind [OF mid_sql], assumption, goal_cases)
  case (1 t t1 n)
  then show ?case using sim_update_expired [OF assms(1), of now] 
    by (auto intro!: fin_commit simp: void_expired_holds_def)
qed

definition reserved_hold :: "reserve_request \<Rightarrow> hold" where
  "reserved_hold q = \<lparr>hold_account = rsv_account q, hold_amount = rsv_amount q, hold_status = Open,
     hold_settle_entry = None, hold_expires_at = rsv_expires_at q, hold_run_id = rsv_run_id q\<rparr>"

lemma mid_insert_hold:
  assumes "sim (working t) s" and "on_grid (hold_amount h)" and "hold_account h \<noteq> SYSTEM_ACCOUNT"
    and "map_option (pg_micros P) (hold_expires_at h) = hold_expires_at h" and "committed t = c"
  shows "mid c (\<lambda>d _. sim d (s\<lparr>holds := AList.update r h (holds s)\<rparr>))
    (sql (faultless P) (insert_hold P (row_of_hold org (r, h))) t)"
  by (rule mid_weaken [OF mid_sql [OF assms(5)]]) (use sim_insert_hold [OF assms(1) _ assms(2-4)] in auto)

lemma fin_reserve_new:
  assumes "sim (working t) s" and "exact_sums D" and "total_sums D" and "decodes_exactly P"
    and "rsv_account q \<noteq> SYSTEM_ACCOUNT" and "on_grid (rsv_amount q)"
    and "map_option (pg_micros P) (rsv_expires_at q) = rsv_expires_at q"
    and "v = settled_of s (rsv_account q)" and "on_grid v" and "committed t = c"
  shows "fin c (agrees (=)
      (if (rsv_limit q = Hard \<or> pa_no_overdraft pa) \<and> available_of s (rsv_account q) < rsv_amount q
       then Some (s, Inr (Denied (available_of s (rsv_account q)) (rsv_amount q)))
       else Some (s\<lparr>holds := AList.update (rsv_reservation_id q) (reserved_hold q) (holds s)\<rparr>,
              Inr (Allowed (rsv_reservation_id q)))))
    (sbind (pg_available D (faultless P) (rsv_account q) v t) (\<lambda>t avail.
       let hard = (rsv_limit q = Hard \<or> pa_no_overdraft pa) in
       if hard \<and> avail < rsv_amount q
       then commit_with (faultless P) (Inr (Denied avail (rsv_amount q))) t
       else
         sbind (sql (faultless P) (insert_hold P
           \<lparr>ph_reservation_id = reservation_uuid (rsv_reservation_id q),
            ph_org_id = pa_org_id pa, ph_account_id = as_uuid (rsv_account q),
            ph_amount = rsv_amount q, ph_status = ''open'', ph_settle_entry_id = None,
            ph_expires_at = rsv_expires_at q,
            ph_run_id = map_option as_uuid (rsv_run_id q)\<rparr>) t) (\<lambda>t _.
           commit_with (faultless P) (Inr (Allowed (rsv_reservation_id q))) t)))"
proof (rule fin_sbind [OF mid_available [OF assms(1-4,10,8,9)]], goal_cases)
  case (1 t1 avail)
  then have w: "sim (working t1) s" and avail: "avail = available_of s (rsv_account q)" using assms(1) by auto
  show ?case
  proof (cases "(rsv_limit q = Hard \<or> pa_no_overdraft pa) \<and> avail < rsv_amount q")
    case True
    with w avail show ?thesis by (auto intro!: fin_commit)
  next
    case False
    have row: "\<lparr>ph_reservation_id = reservation_uuid (rsv_reservation_id q),
            ph_org_id = pa_org_id pa, ph_account_id = as_uuid (rsv_account q),
            ph_amount = rsv_amount q, ph_status = ''open'', ph_settle_entry_id = None,
            ph_expires_at = rsv_expires_at q, ph_run_id = map_option as_uuid (rsv_run_id q)\<rparr>
       = row_of_hold (pa_org_id pa) (rsv_reservation_id q, reserved_hold q)"
      by (simp add: row_of_hold_def reserved_hold_def)
    show ?thesis unfolding Let_def avail [symmetric] if_not_P [OF False] row
      by (rule fin_sbind [OF mid_insert_hold [OF w]])
         (use 1(1) assms(5-7) in \<open>auto intro!: fin_commit simp: reserved_hold_def\<close>)
  qed
qed

lemma simulates_reserve:
  assumes "sim d s" and "exact_sums D" and "total_sums D" and "decodes_exactly P"
    and "rsv_account q \<noteq> SYSTEM_ACCOUNT" and "on_grid (rsv_amount q)"
    and "map_option (pg_micros P) (rsv_expires_at q) = rsv_expires_at q"
  shows "simulates (=) d (pg_reserve D (faultless P) d q) (reserve D s q)"
  unfolding pg_reserve_def reserve_def credit_sign_iff faultless_statements
proof (rule simulates_guard [OF assms(1)], rule simulates_transact, rule fin_sbind [OF mid_begin], assumption,
    rule fin_sbind [OF mid_account], assumption, goal_cases)
  case (1 t t0 _ t1 found)
  let ?a = "rsv_account q" and ?r = "rsv_reservation_id q"
  have w: "sim (working t1) s" and pa: "found = find_pg_account (working t1) (as_uuid ?a)"
    and rel: "rel_option (\<lambda>pa row. acct_sim pa (?a, row)) found (map_of (accounts s) ?a)"
    using 1 assms(1) sim_account [OF assms(1), of "as_uuid ?a"] by auto
  from rel show ?case
  proof (cases rule: option.rel_cases)
    case None
    with 1 w assms(1) show ?thesis by (auto intro!: fin_return)
  next
    case (Some acc row)
    then have od: "pa_no_overdraft acc = acct_no_overdraft (row_account row)"
      by (auto simp: acct_sim_iff row_of_account_def)
    have found: "find_pg_account (working t1) (as_uuid ?a) = Some acc" using pa Some(1) by simp
    show ?thesis unfolding Some(1,2) option.case
    proof (rule fin_sbind [OF mid_settled [OF w assms(4) 1(6) found assms(5)]], rule fin_sbind [OF mid_hold], assumption, goal_cases)
      case (1 t2 v t3 ex)
      then have w2: "sim (working t3) s" and rel: "rel_option (\<lambda>ph h. hold_sim ph (?r, h)) ex (map_of (holds s) ?r)"
        and v: "v = settled_of s ?a" "on_grid v"
        using w sim_hold [OF w, of "reservation_uuid ?r"] by auto
      from rel show ?case
      proof (cases rule: option.rel_cases)
        case (Some ph h)
        then have "ph_status ph = status_str (hold_status h)" by (auto simp: hold_sim_iff row_of_hold_def)
        with Some w2 show ?thesis by (auto intro!: fin_commit)
      next
        case None
        note mem = held_avail_total [OF assms(2,3) \<open>map_of (accounts s) ?a = Some row\<close>]
        show ?thesis unfolding None option.case mem od [symmetric] Let_def reserved_hold_def [symmetric]
          using fin_reserve_new [OF w2 assms(2-7) v 1(3)] unfolding Let_def .
      qed
    qed
  qed
qed

end
