(* ===== verification/Pg_Methods.thy ===== *)
theory Pg_Methods
  imports Pg_Refine
begin

text \<open>
  The simulation, continued: settlement, accounts, leases, history and the voiding of a run, and the
  statement for the whole backend.
\<close>

section \<open>Settlement\<close>

definition settled_hold :: "env \<Rightarrow> hold \<Rightarrow> hold" where
  "settled_hold E h = h\<lparr>hold_status := Settled, hold_settle_entry := Some (Id (new_v7 E 0))\<rparr>"

lemma settle_entry_ids [simp]:
  "entry_id (settle_entry E q a b) = Id (new_v7 E 0)" "settle_entry (micros E) q a b = (settle_entry E q a b)\<lparr>created_at := now_micros E 0\<rparr>"
  by (simp_all add: settle_entry_def micros_def)

lemma holds_system:
  "(push_entry e (shift SYSTEM_ACCOUNT x s))\<lparr>holds := v\<rparr> = shift SYSTEM_ACCOUNT x ((push_entry e s)\<lparr>holds := v\<rparr>)"
  by (simp add: push_entry_def shift_def split: option.split)

lemma fin_settle_open:
  assumes "sim (working t) s" and "decodes_exactly P" and "on_grid (settle_actual q)" and "committed t = c"
    and "map_of (holds s) (settle_reservation_id q) = Some h" and "hold_account h \<noteq> SYSTEM_ACCOUNT"
    and "m' = (let a = hold_account h; x = settle_actual q; e = settle_entry E q a (settled_of s a - x);
                 s2 = push_entry e (shift SYSTEM_ACCOUNT x (shift a (- x) s)) in
               if has_account s a
               then Some (s2\<lparr>holds := AList.update (settle_reservation_id q) (settled_hold E h) (holds s2)\<rparr>, Inr e)
               else None)"
  shows "fin c (agrees same_entry m')
    (sbind (sql (faultless P) (update_settled P (as_uuid (hold_account h)) (- settle_actual q)) t) (\<lambda>t (after, org).
       let entry = settle_entry (micros E) q (hold_account h) after in
       sbind (sql (faultless P) (insert_entry P entry org) t) (\<lambda>t _.
       sbind (sql (faultless P) (update_hold (reservation_uuid (settle_reservation_id q))
                (\<lambda>h. h\<lparr>ph_status := ''settled'', ph_settle_entry_id := Some (as_uuid (entry_id entry))\<rparr>)) t)
         (\<lambda>t _. commit_with (faultless P) (Inr entry) t))))"
proof (rule fin_sbind [OF mid_update_settled [OF assms(1,2,6) on_grid_minus [OF assms(3)] assms(4)]], goal_cases)
  case (1 t1 p)
  let ?r = "settle_reservation_id q" and ?a = "hold_account h" and ?x = "settle_actual q"
  obtain b org where p: "p = (b, org)" by (cases p)
  with 1 have acc: "has_account s ?a" and b: "b = settled_of s ?a - ?x" "on_grid b"
    and w: "sim (working t1) (shift ?a (- ?x) s)" by auto
  let ?e = "settle_entry E q ?a b" and ?s = "push_entry (settle_entry E q ?a b) (shift ?a (- ?x) s)"
  show ?case unfolding p prod.case Let_def
  proof (rule fin_sbind [OF mid_insert_entry [OF w, where e' = ?e]], goal_cases)
    case (6 t2 u)
    show ?case
    proof (rule fin_sbind [OF mid_update_hold [OF 6(2), where h = h and h' = "settled_hold E h"]], goal_cases)
      case (5 t3 v)
      with acc b show ?case unfolding assms(7)
        by (intro fin_commit) (simp add: Let_def holds_system sim_system same_entry_def untimed_def)
    qed (use 6 assms(5) in \<open>auto simp: row_of_hold_def settled_hold_def\<close>)
  qed (use 1 b assms(3,6) in \<open>auto simp: on_grid_minus same_entry_def untimed_def\<close>)
qed

lemma fin_settle_replay:
  assumes "sim (working t) s" and "decodes_exactly P" and "committed t = c"
  shows "fin c (agrees same_entry (do { eid \<leftarrow> hold_settle_entry h;
                                         entry \<leftarrow> List.find (\<lambda>e. entry_id e = eid) (entries s); Some (s, Inr entry) }))
    (sbind (get_col P (case map_option as_uuid (hold_settle_entry h) of
         None \<Rightarrow> Inl (DecodeFailed ''settle_entry_id'') | Some u \<Rightarrow> Inr u) t) (\<lambda>t u.
     sbind (sql (faultless P) (select_entry u) t) (\<lambda>t row.
     sbind (get_col P (case row of None \<Rightarrow> Inl RowNotFound | Some r \<Rightarrow> Inr r) t) (\<lambda>t r.
     sbind (Some (t, entry_from_row P r)) (\<lambda>t entry.
       commit_with (faultless P) (Inr entry) t)))))"
proof (rule fin_sbind [OF mid_get_col [OF assms(3)]], rule fin_sbind [OF mid_entry], assumption,
    rule fin_sbind [OF mid_get_col], assumption, goal_cases)
  case (1 t1 u t2 row t3 r)
  then obtain eid where eid: "hold_settle_entry h = Some eid" "u = as_uuid eid"
    and r: "find_pg_entry (working t) (as_uuid eid) = Some r" and w: "sim (working t3) s"
    using assms(1) by (auto split: option.splits)
  obtain e where e: "List.find (\<lambda>e. entry_id e = eid) (entries s) = Some e" "entry_sim r e"
    using sim_entry [OF assms(1), of "as_uuid eid"] r by (auto simp: option_rel_Some1)
  show ?case
    by (rule fin_sbind [OF mid_entry_from_row [OF assms(2) e(2) 1(5)]])
       (use w e eid in \<open>auto intro!: fin_commit\<close>)
qed

lemma simulates_settle:
  assumes "sim d s" and "exact_sums D" and "total_sums D" and "decodes_exactly P" and "on_grid (settle_actual q)"
  shows "simulates same_entry d (pg_settle (faultless P) E d q) (settle D E s q)"
  unfolding pg_settle_def settle_def faultless_statements faultless_decode
proof (rule simulates_guard [OF assms(1)], rule simulates_transact, rule fin_sbind [OF mid_begin], assumption,
    rule fin_sbind [OF mid_hold], assumption, goal_cases)
  case (1 t t0 _ t1 found)
  let ?r = "settle_reservation_id q"
  have w: "sim (working t1) s" and ok: "db_ok d" and found: "found = find_pg_hold d (reservation_uuid ?r)"
    and rel: "rel_option (\<lambda>ph h. hold_sim ph (?r, h)) found (map_of (holds s) ?r)"
    using 1 assms(1) sim_ok [OF assms(1)] sim_hold [OF assms(1), of "reservation_uuid ?r"] by auto
  from rel show ?case
  proof (cases rule: option.rel_cases)
    case None
    with 1 w assms(1) show ?thesis by (auto intro!: fin_return)
  next
    case (Some ph h)
    then have ph: "ph_status ph = status_str (hold_status h)" "ph_account_id ph = as_uuid (hold_account h)"
      "ph_settle_entry_id ph = map_option as_uuid (hold_settle_entry h)"
      by (auto simp: hold_sim_iff row_of_hold_def)
    have na: "hold_account h \<noteq> SYSTEM_ACCOUNT"
      using db_ok_hold [OF ok, of "reservation_uuid ?r" ph] found Some(1) ph(2) by (simp add: as_uuid_nil)
    show ?thesis
    proof (cases "hold_status h")
      case Open
      have "post_debit D s (hold_account h) (settle_actual q) \<bind> f =
        (if has_account s (hold_account h)
         then f (shift SYSTEM_ACCOUNT (settle_actual q) (shift (hold_account h) (- settle_actual q) s),
                 settled_of s (hold_account h) - settle_actual q) else None)" for f :: "_ \<Rightarrow> (state, ledger_error, ledger_entry) sres"
        by (auto simp: post_debit_eq [OF assms(2,3)])
           (auto simp: post_debit_def account_sub_def has_account_def)
      note debit = this
      have st: "(''open'' = ''settled'') = False" "(''open'' = ''voided'') = False" by simp_all
      show ?thesis unfolding Some(1,2) option.case ph(1,2) Open hold_status.case status_str_simps st if_False Id_as_uuid
        by (rule fin_settle_open [OF w assms(4,5) 1(6) Some(2) na])
           (unfold debit, simp add: settled_hold_def Let_def)
    next
      case Settled
      then show ?thesis using Some ph fin_settle_replay [OF w assms(4) 1(6), of h] by simp
    next
      case Voided
      then show ?thesis using Some ph w by (auto intro!: fin_commit)
    qed
  qed
qed

section \<open>Accounts, history\<close>

lemma simulates_open_account:
  assumes "sim d s" and "na_parent_id q \<noteq> Some SYSTEM_ACCOUNT"
  shows "simulates (=) d (pg_open_account (faultless P) E d q) (open_account E s q)"
proof -
  let ?acc = "\<lparr>acct_id = Id (new_v7 E 0), acct_org_id = na_org_id q, acct_scope = na_scope q,
     acct_no_overdraft = na_no_overdraft q, acct_parent_id = na_parent_id q\<rparr>"
  let ?s = "s\<lparr>accounts := AList.update (acct_id ?acc) (account_row_new ?acc) (accounts s)\<rparr>"
  have row: "\<lparr>pa_id = new_v7 E 0, pa_org_id = as_uuid (na_org_id q), pa_scope = scope_to_str (na_scope q),
     pa_no_overdraft = na_no_overdraft q, pa_parent_id = map_option as_uuid (na_parent_id q), pa_settled = 0\<rparr>
     = row_of_account 0 ?acc" by (simp add: row_of_account_def)
  have "simulates (=) d (autocommit (faultless P) (insert_account (row_of_account 0 ?acc)) d) (Some (?s, Inr ()))"
    unfolding autocommit_def
  proof (rule simulates_transact, rule fin_sbind [OF mid_sql], assumption, goal_cases)
    case (1 t t1 u)
    then show ?case using sim_insert_account [OF assms(1), of ?acc] assms(2) by (auto intro!: fin_commit)
  qed
  then show ?thesis unfolding pg_open_account_def row
    by (auto simp: simulates_def open_account_def Let_def elim!: rel_sum.cases)
qed

lemma entries_from_rows_error: "entries_from_rows P rows = Inl e \<Longrightarrow> \<exists>b. e = Backend b"
proof (induction rows)
  case (Cons r rows)
  then show ?case
    by (cases "entry_from_row P r"; cases "entries_from_rows P rows") (auto dest: row_error)
qed simp

lemma entries_from_rows_sim:
  assumes "decodes_exactly P"
  shows "list_all2 entry_sim rows es \<Longrightarrow> entries_from_rows P rows = Inr xs \<Longrightarrow> map untimed xs = map untimed es"
proof (induction arbitrary: xs rule: list_all2_induct)
  case (Cons r rows e es)
  from Cons.prems obtain x ys where "entry_from_row P r = Inr x" "entries_from_rows P rows = Inr ys" "xs = x # ys"
    by (cases "entry_from_row P r"; cases "entries_from_rows P rows") auto
  with Cons sim_entry_from_row [OF assms Cons.hyps(1)] show ?case by (simp add: same_entry_def)
qed simp

lemma order_rows_mset: "mset (order_rows rows) = mset rows"
  by (simp add: order_rows_def)

lemma list_all2_reorder:
  assumes "list_all2 R xs ys" and "mset zs = mset xs"
  shows "\<exists>ws. list_all2 R zs ws \<and> mset ws = mset ys"
  using list_all2_reorder_left_invariance [OF assms(1), of zs] assms(2) by simp

definition same_entries :: "ledger_entry list \<Rightarrow> ledger_entry list \<Rightarrow> bool" where
  "same_entries xs ys \<longleftrightarrow> mset (map untimed xs) = mset (map untimed ys)"

lemma simulates_entries:
  assumes "sim d s" and "decodes_exactly P"
  shows "simulates same_entries d (pg_entries (faultless P) d a) (entries_of s a)"
  unfolding pg_entries_def faultless_rows
proof (rule simulates_transact, rule fin_sbind [OF mid_account], assumption, goal_cases)
  case (1 t t1 found)
  show ?case
  proof (cases found)
    case None
    with 1 assms(1) sim_has_account [OF assms(1), of a] show ?thesis
      by (auto intro!: fin_return simp: entries_of_def has_account_def)
  next
    case (Some row)
    with 1 sim_has_account [OF assms(1), of a] have acc: "map_of (accounts s) a \<noteq> None"
      by (auto simp: has_account_def)
    let ?es = "filter (\<lambda>e. account_id e = a \<or> paired_account_id e = a) (entries s)"
    have "list_all2 entry_sim (filter (\<lambda>e. pe_account_id e = as_uuid a \<or> pe_paired_account_id e = as_uuid a) (tb_entries d)) ?es"
      by (rule filter_rel [OF sim_entries [OF assms(1)]]) (auto simp: entry_sim_iff row_of_entry_def)
    from list_all2_reorder [OF this order_rows_mset] obtain ws where
      ws: "list_all2 entry_sim (order_rows (filter (\<lambda>e. pe_account_id e = as_uuid a \<or> pe_paired_account_id e = as_uuid a) (tb_entries d))) ws"
      "mset ws = mset ?es" by blast
    show ?thesis unfolding Some option.case
    proof (rule fin_sbind [OF mid_sql [OF 1(3)]], goal_cases)
      case (1 t2 rows)
      then have rows: "rows = order_rows (filter (\<lambda>e. pe_account_id e = as_uuid a \<or> pe_paired_account_id e = as_uuid a) (tb_entries d))"
        using \<open>working t1 = _ \<and> _\<close> \<open>working t = d\<close> by (auto simp: select_history_def)
      show ?case
      proof (cases "entries_from_rows P rows")
        case (Inl e)
        with entries_from_rows_error [OF Inl] 1 show ?thesis by (auto simp: fin_def)
      next
        case (Inr xs)
        have "map untimed xs = map untimed ws"
          by (rule entries_from_rows_sim [OF assms(2) ws(1)]) (use Inr rows in simp)
        then have "mset (map untimed xs) = image_mset untimed (mset ws)" by (simp only: mset_map)
        also have "\<dots> = mset (map untimed ?es)" by (simp only: ws(2) mset_map)
        finally show ?thesis using Inr 1(1) acc assms(1)
          by (auto intro!: fin_return simp: entries_of_def same_entries_def)
      qed
    qed
  qed
qed

section \<open>Leases\<close>

lemma same_transfer [simp]: "same_entry (transfer_entry i a b m x t) (transfer_entry i a b m x t')"
  by (simp add: same_entry_def untimed_def transfer_entry_def)

lemma mid_transfer:
  assumes "sim (working t) s" and "exact_sums D" and "total_sums D" and "decodes_exactly P"
    and "src \<noteq> SYSTEM_ACCOUNT" and "dest \<noteq> SYSTEM_ACCOUNT" and "on_grid amt" and "committed t = c"
  shows "mid c (\<lambda>d _. \<exists>s'. post_transfer D (Id (new_v7 E n)) (Id (new_v7 E (Suc n))) now s src dest amt = Some s' \<and> sim d s')
    (pg_post_transfer (faultless P) E n org src dest amt t)"
  unfolding pg_post_transfer_def faultless_statements
proof (rule mid_sbind [OF mid_update_settled [OF assms(1,4,5) on_grid_minus [OF assms(7)] assms(8)]], goal_cases)
  case (1 t1 p)
  obtain b o1 where p: "p = (b, o1)" by (cases p)
  with 1 have w: "sim (working t1) (shift src (- amt) s)" and b: "b = settled_of s src - amt" "on_grid b"
    and src: "has_account s src" by auto
  show ?case unfolding p prod.case
  proof (rule mid_sbind [OF mid_update_settled [OF w assms(4,6,7) 1(1)]], goal_cases)
    case (1 t2 p2)
    obtain b2 o2 where p2: "p2 = (b2, o2)" by (cases p2)
    let ?s = "shift dest amt (shift src (- amt) s)"
    from 1 p2 have w2: "sim (working t2) ?s" and b2: "b2 = settled_of (shift src (- amt) s) dest + amt" "on_grid b2"
      and dest: "has_account s dest" by auto
    let ?e1 = "transfer_entry (Id (new_v7 E n)) src dest (- amt) b now"
    show ?case unfolding p2 prod.case
    proof (rule mid_sbind [OF mid_insert_entry [OF w2, where e' = ?e1]], goal_cases)
      case (6 t3 u)
      show ?case
        by (rule mid_weaken [OF mid_insert_entry [OF 6(2),
              where e' = "transfer_entry (Id (new_v7 E (Suc n))) dest src amt b2 now"]])
           (use 6 b b2 src dest assms(6,7) in \<open>auto simp: post_transfer_eq [OF assms(2,3)]\<close>)
    qed (use 1 b assms(5,7) in \<open>auto simp: on_grid_minus\<close>)
  qed
qed

lemma fin_lease_new:
  assumes "sim (working t) s" and "exact_sums D" and "total_sums D" and "decodes_exactly P"
    and "lease_parent q \<noteq> SYSTEM_ACCOUNT" and "on_grid (lease_amount q)" and "committed t = c"
    and child: "child = \<lparr>acct_id = Id (new_v7 E 0), acct_org_id = Id org, acct_scope = Session, acct_no_overdraft = True,
            acct_parent_id = Some (lease_parent q)\<rparr>"
    and s1: "s1 = s\<lparr>accounts := AList.update (acct_id child) (account_row_new child) (accounts s)\<rparr>"
  shows "fin c (agrees (=) (do { s2 \<leftarrow> post_transfer D (Id (new_v7 E 1)) (Id (new_v7 E 2)) (now_utc E 0) s1
               (lease_parent q) (acct_id child) (lease_amount q); Some (s2, Inr child) }))
    (sbind (sql (faultless P) (insert_account \<lparr>pa_id = new_v7 E 0, pa_org_id = org,
              pa_scope = scope_to_str Session, pa_no_overdraft = True,
              pa_parent_id = Some (as_uuid (lease_parent q)), pa_settled = 0\<rparr>) t) (\<lambda>t _.
     sbind (pg_post_transfer (faultless P) E 1 org (lease_parent q) (Id (new_v7 E 0)) (lease_amount q) t) (\<lambda>t _.
       commit_with (faultless P) (Inr child) t)))"
proof -
  have row: "\<lparr>pa_id = new_v7 E 0, pa_org_id = org, pa_scope = scope_to_str Session, pa_no_overdraft = True,
              pa_parent_id = Some (as_uuid (lease_parent q)), pa_settled = 0\<rparr> = row_of_account 0 child"
    by (simp add: child row_of_account_def)
  show ?thesis unfolding row
  proof (rule fin_sbind [OF mid_sql [OF assms(7)]], goal_cases)
    case (1 t1 u)
    with sim_insert_account [OF assms(1), of child] assms(5) have w: "sim (working t1) s1"
      by (auto simp: child s1)
    have "\<not> known_account (working t) (new_v7 E 0)"
      using 1(2) by (auto simp: insert_account_def row_of_account_def child split: if_splits)
    with db_ok_system [OF sim_ok [OF assms(1)]] have new: "Id (new_v7 E 0) \<noteq> SYSTEM_ACCOUNT"
      by (auto simp: SYSTEM_ACCOUNT_def)
    show ?case
      by (rule fin_sbind [OF mid_transfer [OF w assms(2-5) new assms(6) 1(1), of E 1 "now_utc E 0"]])
         (auto intro!: fin_commit simp: child numeral_2_eq_2)
  qed
qed

lemma simulates_open_lease:
  assumes "sim d s" and "exact_sums D" and "total_sums D" and "decodes_exactly P"
    and "lease_parent q \<noteq> SYSTEM_ACCOUNT" and "on_grid (lease_amount q)"
  shows "simulates (=) d (pg_open_lease D (faultless P) E d q) (open_lease D E s q)"
  unfolding pg_open_lease_def open_lease_def credit_sign_iff
proof (rule simulates_guard [OF assms(1)], rule simulates_transact, rule fin_sbind [OF mid_begin], assumption,
    rule fin_sbind [OF mid_account], assumption, goal_cases)
  case (1 t t0 _ t1 found)
  let ?a = "lease_parent q"
  have w: "sim (working t1) s" and pa: "found = find_pg_account (working t1) (as_uuid ?a)"
    and rel: "rel_option (\<lambda>pa row. acct_sim pa (?a, row)) found (map_of (accounts s) ?a)"
    using 1 assms(1) sim_account [OF assms(1), of "as_uuid ?a"] by auto
  from rel show ?case
  proof (cases rule: option.rel_cases)
    case None
    with 1 assms(1) show ?thesis by (auto intro!: fin_return)
  next
    case (Some acc row)
    then have od: "acct_no_overdraft (row_account row) = pa_no_overdraft acc" "acct_org_id (row_account row) = Id (pa_org_id acc)"
      by (auto simp: acct_sim_iff row_of_account_def)
    show ?thesis unfolding Some(1,2) option.case held_avail_total [OF assms(2,3) Some(2)] od
    proof (rule fin_sbind [OF mid_settled [OF w assms(4) 1(6) _ assms(5)]], goal_cases)
      case 1
      then show ?case using pa Some(1) by simp
    next
      case (2 t2 v)
      then have w1: "sim (working t2) s" and v: "v = settled_of s ?a" "on_grid v" using w by auto
      show ?case
      proof (rule fin_sbind [OF mid_available [OF w1 assms(2-4) 2(1) v]], goal_cases)
      case (1 t3 avail)
      then have w2: "sim (working t3) s" and avail: "avail = available_of s ?a" using w1 by auto
      show ?case
      proof (cases "pa_no_overdraft acc \<and> avail < lease_amount q")
        case True
        with w2 avail show ?thesis by (auto intro!: fin_commit)
      next
        case False
        show ?thesis unfolding avail [symmetric] if_not_P [OF False] Let_def
          using fin_lease_new [OF w2 assms(2-6) 1(1) refl refl] by simp
      qed
      qed
    qed
  qed
qed

lemma fin_close_lease:
  assumes "sim (working t) s" and "exact_sums D" and "total_sums D" and "decodes_exactly P"
    and "a \<noteq> SYSTEM_ACCOUNT" and "parent \<noteq> SYSTEM_ACCOUNT" and "v = settled_of s a" and "on_grid v" and "committed t = c"
  shows "fin c (agrees (=)
      (if \<not> is_positive (available_of s a) then Some (s, Inr 0)
       else do { s1 \<leftarrow> post_transfer D (Id (new_v7 E 0)) (Id (new_v7 E 1)) (now_utc E 0) s a parent (available_of s a);
                 Some (s1, Inr (available_of s a)) }))
    (sbind (pg_available D (faultless P) a v t) (\<lambda>t avail.
       if avail \<le> 0 then commit_with (faultless P) (Inr 0) t
       else sbind (pg_post_transfer (faultless P) E 0 org a parent avail t) (\<lambda>t _. commit_with (faultless P) (Inr avail) t)))"
proof (rule fin_sbind [OF mid_available [OF assms(1-4,9,7,8)]], goal_cases)
  case (1 t2 avail)
  then have w2: "sim (working t2) s" and avail: "avail = available_of s a" "on_grid avail" using assms(1) by auto
  show ?case
  proof (cases "avail \<le> 0")
    case True
    with w2 avail show ?thesis by (auto intro!: fin_commit)
  next
    case False
    then have pos: "(avail \<le> 0) = False" "(\<not> is_positive avail) = False" by simp_all
    show ?thesis unfolding avail(1) [symmetric] pos if_False
      by (rule fin_sbind [OF mid_transfer [OF w2 assms(2-6) avail(2) 1(1), of E 0 "now_utc E 0"]])
         (auto intro!: fin_commit)
  qed
qed

lemma simulates_close_lease:
  assumes "sim d s" and "exact_sums D" and "total_sums D" and "decodes_exactly P" and "a \<noteq> SYSTEM_ACCOUNT"
  shows "simulates (=) d (pg_close_lease D (faultless P) E d a) (close_lease D E s a)"
  unfolding pg_close_lease_def close_lease_def
proof (rule simulates_transact, rule fin_sbind [OF mid_begin], assumption,
    rule fin_sbind [OF mid_account], assumption, goal_cases)
  case (1 t t0 _ t1 found)
  have w: "sim (working t1) s" and pa: "found = find_pg_account (working t1) (as_uuid a)"
    and rel: "rel_option (\<lambda>pa row. acct_sim pa (a, row)) found (map_of (accounts s) a)"
    using 1 assms(1) sim_account [OF assms(1), of "as_uuid a"] by auto
  from rel show ?case
  proof (cases rule: option.rel_cases)
    case None
    with 1 assms(1) show ?thesis by (auto intro!: fin_return)
  next
    case (Some acc row)
    then have par: "acct_parent_id (row_account row) = map_option Id (pa_parent_id acc)"
      by (cases "acct_parent_id (row_account row)") (auto simp: acct_sim_iff row_of_account_def)
    have found: "find_pg_account (working t1) (as_uuid a) = Some acc" using pa Some(1) by simp
    show ?thesis unfolding Some(1,2) option.case par held_avail_total [OF assms(2,3) Some(2)]
    proof (rule fin_sbind [OF mid_settled [OF w assms(4) 1(5) found assms(5)]], goal_cases)
      case (1 t2 v)
      then have w1: "sim (working t2) s" and v: "v = settled_of s a" "on_grid v" using w by auto
      show ?case
      proof (cases "pa_parent_id acc")
        case None
        with w1 show ?thesis by (auto intro!: fin_commit)
      next
        case (Some u)
        have np: "Id u \<noteq> SYSTEM_ACCOUNT"
          using db_ok_account [OF sim_ok [OF w] found] Some by (simp add: SYSTEM_ACCOUNT_def)
        show ?thesis unfolding Some option.case option.map
          by (rule fin_close_lease [OF w1 assms(2-5) np v 1(1)])
      qed
    qed
  qed
qed

end
