(* ===== verification/Pg_Void.thy ===== *)
theory Pg_Void
  imports Pg_Methods
begin

text \<open>
  The simulation, concluded: the voiding of a run, and the backend as a whole. The SQL visits the
  charges of a run in the order of their clock readings, the in-memory ledger in the order they were
  posted; the two agree when the clock did not run backwards between the charges, which is the
  hypothesis \<open>charges_in_order\<close>.
\<close>

section \<open>Loops over related lists\<close>

lemma mid_fold_rel:
  assumes "list_all2 R xs ys"
    and "\<And>t b x y s. committed t = c \<Longrightarrow> x \<in> set xs \<Longrightarrow> R x y \<Longrightarrow> S (working t) s \<Longrightarrow>
      mid c (\<lambda>d b'. \<exists>s'. g (s, b) y = Some (s', b') \<and> S d s') (f t b x)"
    and "committed t = c" and "S (working t) s"
  shows "mid c (\<lambda>d b'. \<exists>s'. fold_opt g (s, b) ys = Some (s', b') \<and> S d s') (fold_calls f t b xs)"
  using assms
proof (induction arbitrary: t s b rule: list_all2_induct)
  case (Cons x xs y ys)
  have "mid c (\<lambda>d b'. \<exists>s'. g (s, b) y = Some (s', b') \<and> S d s') (f t b x)"
    using Cons.prems Cons.hyps(1) by simp
  then show ?case unfolding fold_calls.simps
  proof (rule mid_sbind)
    fix t1 :: tx and b1
    assume t1: "committed t1 = c" and "\<exists>s'. g (s, b) y = Some (s', b1) \<and> S (working t1) s'"
    then obtain s1 where s1: "g (s, b) y = Some (s1, b1)" "S (working t1) s1" by blast
    have "mid c (\<lambda>d b'. \<exists>s'. fold_opt g (s1, b1) ys = Some (s', b') \<and> S d s') (fold_calls f t1 b1 xs)"
      using Cons.prems(1) by (intro Cons.IH [OF _ t1 s1(2)]) simp
    then show "mid c (\<lambda>d b'. \<exists>s'. fold_opt g (s, b) (y # ys) = Some (s', b') \<and> S d s') (fold_calls f t1 b1 xs)"
      using s1 by simp
  qed
qed (simp add: mid_return)

section \<open>Refunds of a run\<close>

lemma mid_sql_also:
  assumes "mid c Q (sql P st t)" and "\<And>d a. st (working t) = Inr (d, a) \<Longrightarrow> F d"
  shows "mid c (\<lambda>d a. Q d a \<and> F d) (sql P st t)"
proof (cases "pg_fault P (steps t)")
  case None
  with assms show ?thesis
    by (cases "st (working t)") (auto simp: mid_def sql_def Let_def)
qed (use assms(1) in \<open>auto simp: mid_def sql_def Let_def\<close>)

lemma usage_rows_settled: "update_settled P u amt d = Inr (d', x) \<Longrightarrow> usage_rows run d' = usage_rows run d"
  by (auto simp: update_settled_def usage_rows_def split: option.splits sum.splits)

lemma usage_rows_hold: "update_hold u f d = Inr (d', x) \<Longrightarrow> usage_rows run d' = usage_rows run d"
  by (auto simp: update_hold_def usage_rows_def)

lemma usage_rows_refund:
  "insert_entry P e org d = Inr (d', x) \<Longrightarrow> entry_type e = Refund \<Longrightarrow> usage_rows run d' = usage_rows run d"
  by (auto simp: insert_entry_def usage_rows_def row_of_entry_def entry_type_to_str_def Let_def
      split: sum.splits if_splits)

text \<open>The relation the loops keep: the simulation, and the charges of the run untouched.\<close>

definition sim_run :: "run_id \<Rightarrow> pg_entry list \<Rightarrow> db \<Rightarrow> state \<Rightarrow> bool" where
  "sim_run run us d s \<longleftrightarrow> sim d s \<and> usage_rows run d = us"

lemma vr_refund_eq:
  assumes "exact_sums D" and "total_sums D" and "has_account s a" and "a \<noteq> SYSTEM_ACCOUNT"
    and "amt = remainder_of s i" and "\<not> amt \<le> 0"
  shows "vr_refund D E (s, n, sm) a i rsv run key = Some
    (push_entry (reversal_entry (Id (new_v7 E n)) a amt (settled_of s a + amt) i rsv (Some run) key (now_utc E n))
       (shift SYSTEM_ACCOUNT (- amt) (shift a amt s)), Suc n,
     sm\<lparr>charges_refunded := Suc (charges_refunded sm), credits_refunded := credits_refunded sm + amt\<rparr>)"
  using assms(3-6)
  by (simp add: vr_refund_def unreversed_remainder_total [OF assms(1,2)] post_credit_eq [OF assms(1,2)]
        dec_add_total [OF assms(1,2)])

lemma mid_vr_refund:
  assumes "sim_run run us (working t) s" and "exact_sums D" and "total_sums D" and "decodes_exactly P"
    and "a \<noteq> SYSTEM_ACCOUNT" and "committed t = c"
  shows "mid c (\<lambda>d b'. \<exists>s'. vr_refund D E (s, b) a i rsv run key = Some (s', b') \<and> sim_run run us d s')
    (pg_vr_refund D (faultless P) E run (as_uuid a) (as_uuid i) rsv key t b)"
proof -
  obtain n sm where b: "b = (n, sm)" by (cases b)
  have w: "sim (working t) s" and us: "usage_rows run (working t) = us" using assms(1) by (auto simp: sim_run_def)
  show ?thesis unfolding pg_vr_refund_def b prod.case faultless_statements Id_as_uuid
  proof (rule mid_sbind [OF mid_remainder [OF w assms(2-4,6)]], goal_cases)
    case (1 t1 amt)
    then have w1: "sim (working t1) s" and amt: "amt = remainder_of s i" "on_grid amt"
      and us1: "usage_rows run (working t1) = us" using w us by auto
    show ?case
    proof (cases "amt \<le> 0")
      case True
      with amt us1 w1 1 show ?thesis
        by (auto intro!: mid_return simp: sim_run_def vr_refund_def unreversed_remainder_total [OF assms(2,3)])
    next
      case False
      then have pos: "(amt \<le> 0) = False" by simp
      show ?thesis unfolding pos if_False
      proof (rule mid_sbind [OF mid_sql_also [where F = "\<lambda>d. usage_rows run d = us", OF mid_update_settled [OF w1 assms(4,5) amt(2) 1(1)]]], goal_cases)
        case (1 d x)
        then show ?case using us1 by (cases x) (simp add: usage_rows_settled)
      next
        case (2 t2 p)
        obtain x org where p: "p = (x, org)" by (cases p)
        with 2 have acc: "has_account s a" and x: "x = settled_of s a + amt" "on_grid x"
          and w2: "sim (working t2) (shift a amt s)" and us2: "usage_rows run (working t2) = us" by auto
        let ?e = "\<lambda>now. reversal_entry (Id (new_v7 E n)) a amt x i rsv (Some run) key now"
        have "mid c (\<lambda>d _. sim d (push_entry (?e (now_utc E n)) (shift a amt s)) \<and> usage_rows run d = us)
           (sql (faultless P) (insert_entry P (?e (now_micros E n)) org) t2)"
        proof (rule mid_sql_also [OF mid_insert_entry [OF w2]])
          fix d u assume "insert_entry P (?e (now_micros E n)) org (working t2) = Inr (d, u)"
          from usage_rows_refund [OF this] us2 show "usage_rows run d = us" by simp
        qed (use amt x assms(5) 2 in \<open>auto simp: same_entry_def untimed_def reversal_entry_def\<close>)
        then show ?case unfolding p prod.case
        proof (rule mid_sbind)
          fix t3 :: tx and u :: unit
          assume "committed t3 = c" "sim (working t3) (push_entry (?e (now_utc E n)) (shift a amt s)) \<and> usage_rows run (working t3) = us"
          then show "mid c (\<lambda>d b'. \<exists>s'. vr_refund D E (s, n, sm) a i rsv run key = Some (s', b') \<and> sim_run run us d s')
             (map_option (\<lambda>total. (t3, Inr (Suc n, sm\<lparr>charges_refunded := Suc (charges_refunded sm), credits_refunded := total\<rparr>)))
               (dec_add D (credits_refunded sm) amt))" unfolding vr_refund_eq [OF assms(2,3) acc assms(5) amt(1) False] x(1)
            by (simp add: dec_add_total [OF assms(2,3)] mid_return sim_run_def sim_push_system)
        qed
      qed
    qed
  qed
qed

lemma sim_run_voided:
  assumes "sim_run run us (working t) s" and "committed t = c"
  shows "mid c (\<lambda>d _. sim_run run us d (case map_of (holds s) r of None \<Rightarrow> s
      | Some h' \<Rightarrow> s\<lparr>holds := AList.update r (h'\<lparr>hold_status := Voided\<rparr>) (holds s)\<rparr>))
    (sql (faultless P) (update_hold (reservation_uuid r) (\<lambda>h. h\<lparr>ph_status := ''voided''\<rparr>)) t)"
proof -
  have w: "sim (working t) s" and us: "usage_rows run (working t) = us" using assms(1) by (auto simp: sim_run_def)
  have "mid c (\<lambda>d _. sim d (case map_of (holds s) r of None \<Rightarrow> s
      | Some h' \<Rightarrow> s\<lparr>holds := AList.update r (h'\<lparr>hold_status := Voided\<rparr>) (holds s)\<rparr>))
    (sql (faultless P) (update_hold (reservation_uuid r) (\<lambda>h. h\<lparr>ph_status := ''voided''\<rparr>)) t)"
  proof (cases "map_of (holds s) r")
    case None
    then have "find_pg_hold (working t) (reservation_uuid r) = None"
      using sim_hold [OF w, of "reservation_uuid r"] by simp
    then have "map (\<lambda>h. if ph_reservation_id h = reservation_uuid r then f h else h) (tb_holds (working t)) = tb_holds (working t)" for f
      by (auto simp: find_pg_hold_def find_None_iff_all intro!: map_idI)
    then have "update_hold (reservation_uuid r) f (working t) = Inr (working t, ())" for f
      by (simp add: update_hold_def)
    with None w show ?thesis by (intro mid_weaken [OF mid_sql [OF assms(2)]]) simp
  next
    case (Some h)
    show ?thesis unfolding Some option.case
      by (rule mid_update_hold [OF w Some]) (use assms(2) in \<open>auto simp: row_of_hold_def\<close>)
  qed
  from mid_sql_also [OF this, of "\<lambda>d. usage_rows run d = us"] show ?thesis
    unfolding sim_run_def using us usage_rows_hold by blast
qed

lemma mid_vr_hold:
  assumes "sim_run run us (working t) s" and "exact_sums D" and "total_sums D" and "decodes_exactly P"
    and "hold_sim x (r, h)" and "ph_account_id x \<noteq> nil_uuid" and "committed t = c"
  shows "mid c (\<lambda>d b'. \<exists>s'. vr_hold D E run (s, b) (r, h) = Some (s', b') \<and> sim_run run us d s')
    (pg_vr_hold D (faultless P) E run t b x)"
proof -
  from assms(5) have x: "ph_status x = status_str (hold_status h)" "ph_account_id x = as_uuid (hold_account h)"
    "ph_settle_entry_id x = map_option as_uuid (hold_settle_entry h)" "ph_reservation_id x = reservation_uuid r"
    by (auto simp: hold_sim_iff row_of_hold_def)
  have na: "hold_account h \<noteq> SYSTEM_ACCOUNT" using assms(6) x(2) by (auto simp: as_uuid_nil)
  show ?thesis
  proof (cases "hold_status h")
    case Voided
    with x assms show ?thesis by (auto intro!: mid_return simp: pg_vr_hold_def vr_hold_def)
  next
    case Open
    have st: "(''open'' = ''voided'') = False" by simp
    show ?thesis
      unfolding pg_vr_hold_def vr_hold_def x(1,4) Open status_str_simps st if_False simp_thms if_True prod.case hold_status.case
      by (rule mid_sbind [OF sim_run_voided [OF assms(1,7)]]) (auto intro!: mid_return split: prod.splits)
  next
    case Settled
    have st: "(''settled'' = ''voided'') = False" "(''settled'' = ''open'') = False" by simp_all
    show ?thesis
      unfolding pg_vr_hold_def vr_hold_def x Settled status_str_simps st if_False simp_thms if_True prod.case hold_status.case
        faultless_decode ReservationId_uuid
    proof (rule mid_sbind [OF mid_get_col [OF assms(7)]], goal_cases)
      case (1 t1 u)
      then obtain i where i: "hold_settle_entry h = Some i" "u = as_uuid i" by (auto split: option.splits)
      have "sim_run run us (working t1) s" using 1 assms(1) by simp
      from mid_vr_refund [OF this assms(2-4) na 1(1)] show ?case unfolding i by simp
    qed
  qed
qed

section \<open>Voiding a run\<close>

definition charges_in_order :: "request \<Rightarrow> db \<Rightarrow> bool" where
  "charges_in_order q d = (case q of RVoidRun run \<Rightarrow> order_rows (usage_rows run d) = usage_rows run d | _ \<Rightarrow> True)"

lemma simulates_void_run:
  assumes "sim d s" and "exact_sums D" and "total_sums D" and "decodes_exactly P"
    and "order_rows (usage_rows run d) = usage_rows run d"
  shows "simulates (=) d (pg_void_run D (faultless P) E d run) (void_run D E s run)"
  unfolding pg_void_run_def
proof (rule simulates_transact, rule fin_sbind [OF mid_begin], assumption, rule fin_sbind [OF mid_sql], assumption, goal_cases)
  case (1 t t0 _ t1 rows)
  let ?us = "usage_rows run d" and ?S = "sim_run run (usage_rows run d)"
  from 1 assms(1) have w: "?S (working t1) s" and rows: "rows = filter (\<lambda>h. ph_run_id h = Some (as_uuid run)) (tb_holds d)"
    by (auto simp: select_run_holds_def sim_run_def)
  have rel: "list_all2 hold_sim rows (run_members s run)"
    unfolding rows run_members_def
    by (rule filter_rel [OF sim_holds [OF assms(1)]]) (auto simp: hold_sim_iff row_of_hold_def)
  have na: "ph_account_id x \<noteq> nil_uuid" if "x \<in> set rows" for x
    using that sim_ok [OF assms(1)] by (auto simp: rows db_ok_def list_all_iff)
  have "mid d (\<lambda>d b'. \<exists>s'. fold_opt (vr_hold D E run) (s, 0, empty_summary) (run_members s run) = Some (s', b') \<and> ?S d s')
     (fold_calls (pg_vr_hold D (faultless P) E run) t1 (0, empty_summary) rows)"
    by (rule mid_fold_rel [OF rel]) (use mid_vr_hold [OF _ assms(2-4)] na w 1 in auto)
  note holds_loop = this
  show ?case
  proof (rule fin_sbind [OF holds_loop], rule fin_sbind [OF mid_sql], assumption, goal_cases)
    case (1 t2 v t3 charges)
    then obtain s1 where hs: "fold_opt (vr_hold D E run) (s, 0, empty_summary) (run_members s run) = Some (s1, v)"
      and w1: "?S (working t3) s1" and ch: "charges = ?us"
      using assms(5) by (auto simp: select_run_usage_def sim_run_def)
    have "list_all2 entry_sim ?us (filter (\<lambda>e. entry_run_id e = Some run \<and> entry_type e = Usage) (entries s1))"
    proof -
      have us: "usage_rows run (working t3) = ?us" using w1 by (simp add: sim_run_def)
      show ?thesis unfolding us [symmetric] unfolding usage_rows_def
        by (rule filter_rel [OF sim_entries]) (use w1 in \<open>auto simp: sim_run_def entry_sim_iff row_of_entry_def
             entry_type_to_str_def split: entry_type.splits\<close>)
    qed
    then have rel: "list_all2 (\<lambda>pe (c, a). pe_id pe = as_uuid c \<and> pe_account_id pe = as_uuid a) ?us (run_charges s1 run)"
      unfolding run_charges_def list_all2_map2
      by (rule list_all2_mono) (auto simp: entry_sim_iff row_of_entry_def)
    have na: "pe_account_id x \<noteq> nil_uuid" if "x \<in> set ?us" for x
      using that sim_ok [OF assms(1)] by (auto simp: usage_rows_def db_ok_def list_all_iff)
    have "mid d (\<lambda>d b'. \<exists>s'. fold_opt (vr_charge D E run) (s1, v) (run_charges s1 run) = Some (s', b') \<and> ?S d s')
       (fold_calls (pg_vr_charge D (faultless P) E run) t3 v charges)" unfolding ch
    proof (rule mid_fold_rel [where S = ?S, OF rel _ 1(3) w1], goal_cases)
      case (1 t b x y s)
      obtain i a where y: "y = (i, a)" by (cases y)
      with 1 na [OF 1(2)] have x: "pe_id x = as_uuid i" "pe_account_id x = as_uuid a" and nsys: "a \<noteq> SYSTEM_ACCOUNT"
        by (auto simp: as_uuid_nil)
      show ?case unfolding pg_vr_charge_def vr_charge_def y prod.case x Id_as_uuid
        by (rule mid_vr_refund [OF 1(4) assms(2-4) nsys 1(1)])
    qed
    then show ?case
      by (rule fin_sbind) (use hs in \<open>auto intro!: fin_commit simp: void_run_def sim_run_def\<close>)
  qed
qed

section \<open>The backend as a whole\<close>

text \<open>Two replies are the same up to clock readings and the order of a history.\<close>

definition same_reply :: "reply \<Rightarrow> reply \<Rightarrow> bool" where
  "same_reply x y = (case (x, y) of
      (PEntry e, PEntry e') \<Rightarrow> same_entry e e'
    | (PReversal r, PReversal r') \<Rightarrow> rel_option same_entry r r'
    | (PEntries es, PEntries es') \<Rightarrow> same_entries es es'
    | _ \<Rightarrow> x = y)"

text \<open>
  What the simulation asks of a request: amounts on the numeric grid, times in whole microseconds (as
  the driver stores them), and no business on the system account.
\<close>

fun storable :: "pg \<Rightarrow> request \<Rightarrow> bool" where
  "storable P (ROpenAccount q) = (na_parent_id q \<noteq> Some SYSTEM_ACCOUNT)"
| "storable P (RBalance a) = (a \<noteq> SYSTEM_ACCOUNT)"
| "storable P (RGrant q) = (grant_account q \<noteq> SYSTEM_ACCOUNT \<and> on_grid (grant_amount q))"
| "storable P (RRefund q) = (refund_account q \<noteq> SYSTEM_ACCOUNT \<and> on_grid (refund_amount q))"
| "storable P (RReserve q) = (rsv_account q \<noteq> SYSTEM_ACCOUNT \<and> on_grid (rsv_amount q) \<and>
     map_option (pg_micros P) (rsv_expires_at q) = rsv_expires_at q)"
| "storable P (RSettle q) = on_grid (settle_actual q)"
| "storable P (RCharge q) = (charge_account q \<noteq> SYSTEM_ACCOUNT \<and> on_grid (charge_amount q))"
| "storable P (RReverseCharge q) = (rev_account q \<noteq> SYSTEM_ACCOUNT)"
| "storable P (RVoid r) = True"
| "storable P (RVoidExpiredHolds t) = (pg_micros P t = t)"
| "storable P (RExtendHold r t) = (pg_micros P t = t)"
| "storable P (RVoidRun run) = True"
| "storable P (ROpenLease q) = (lease_parent q \<noteq> SYSTEM_ACCOUNT \<and> on_grid (lease_amount q))"
| "storable P (RCloseLease a) = (a \<noteq> SYSTEM_ACCOUNT)"
| "storable P (REntries a) = True"

lemma same_reply_refl [simp]: "same_reply x x"
  by (cases x) (simp_all add: same_reply_def same_entry_def same_entries_def option.rel_refl)

lemma simulates_exec:
  assumes "sim d s" and "exact_sums D" and "total_sums D" and "decodes_exactly P"
    and "storable P q" and "charges_in_order q d"
  shows "simulates same_reply d (pg_exec D (faultless P) E d q) (exec D E s q)"
  using assms(5,6)
  by (cases q)
     (auto simp: charges_in_order_def same_reply_def
        intro!: simulates_replying [OF simulates_open_account [OF assms(1)]]
          simulates_replying [OF simulates_balance [OF assms(1-4)]]
          simulates_replying [OF simulates_postings(1) [OF assms(1-4)]]
          simulates_replying [OF simulates_postings(2) [OF assms(1-4)]]
          simulates_replying [OF simulates_postings(3) [OF assms(1-4)]]
          simulates_replying [OF simulates_reserve [OF assms(1-4)]]
          simulates_replying [OF simulates_settle [OF assms(1-4)]]
          simulates_replying [OF simulates_reverse_charge [OF assms(1-4)]]
          simulates_replying [OF simulates_void [OF assms(1)]]
          simulates_replying [OF simulates_void_expired [OF assms(1)]]
          simulates_replying [OF simulates_extend_hold [OF assms(1)]]
          simulates_replying [OF simulates_void_run [OF assms(1-4)]]
          simulates_replying [OF simulates_open_lease [OF assms(1-4)]]
          simulates_replying [OF simulates_close_lease [OF assms(1-4)]]
          simulates_replying [OF simulates_entries [OF assms(1,4)]])

lemma sim_new: "sim migrated new_ledger"
  by (simp add: sim_def db_ok_def migrated_def new_ledger_def system_row_def account_row_new_def acct_sim_iff
        row_of_account_def SYSTEM_ACCOUNT_def SYSTEM_ORG_def nil_uuid_def scope_to_str_def)

end
