(* ===== verification/Pg_Props.thy ===== *)
theory Pg_Props
  imports Pg_Void Ledger_Demo
begin

text \<open>
  The properties of the Postgres ledger: a call is atomic whatever statement fails, a call that is not
  disturbed does what the in-memory ledger does, and a charge that is retried through failures is
  applied exactly once. The last section holds two places where the two ledgers part.
\<close>

section \<open>A charge that meets no failure goes through\<close>

definition decodes_all :: "pg \<Rightarrow> bool" where
  "decodes_all P \<longleftrightarrow> (\<forall>v. pg_decode P v = Some v)"

lemma decodes_all_exactly: "decodes_all P \<Longrightarrow> decodes_exactly P"
  by (simp add: decodes_all_def decodes_exactly_def)

lemma decodes_all_simps:
  assumes "decodes_all P"
  shows "decode_numeric P c v = Inr v" "col_decimal P c v = Inr v"
    "entry_from_row P (row_of_entry org e) = Inr e"
  using assms
  by (cases e; cases "entry_source e";
      simp add: decodes_all_def decode_numeric_def col_decimal_def entry_from_row_def row_of_entry_def option.map_comp)+

lemma sql_faultless: "st (working t) = Inr (d, a) \<Longrightarrow>
  sql (faultless P) st t = Some (t\<lparr>working := d, steps := Suc (steps t)\<rparr>, Inr a)"
  by (simp add: sql_def Let_def)

lemma numeric_in_range: "on_grid x \<Longrightarrow> \<bar>x\<bar> < 10 ^ 25 \<Longrightarrow> numeric_30_5 x = Inr x"
  by (simp add: numeric_30_5_def round_half_away_grid)

text \<open>What a posting needs of the database: a fresh identifier and numbers that fit their columns.\<close>

definition fits :: "env \<Rightarrow> state \<Rightarrow> charge_request \<Rightarrow> db \<Rightarrow> bool" where
  "fits E s q d \<longleftrightarrow> find_pg_entry d (new_v7 E 0) = None \<and> \<bar>charge_amount q\<bar> < 10 ^ 25 \<and>
     \<bar>settled_of s (charge_account q) - charge_amount q\<bar> < 10 ^ 25"

lemma known_account_iff: "known_account d w \<longleftrightarrow> w \<in> set (map pa_id (tb_accounts d))"
  unfolding known_account_def find_pg_account_def find_None_iff_all by auto

lemma known_settled:
  "known_account (d\<lparr>tb_accounts := map (\<lambda>x. if pa_id x = u then x\<lparr>pa_settled := v\<rparr> else x) (tb_accounts d)\<rparr>) w
     = known_account d w"
  unfolding known_account_iff by (simp add: comp_def if_distrib cong: if_cong)

lemma sim_key_free:
  assumes "sim d s" and "find_existing s a key = None"
  shows "\<not> (key \<noteq> None \<and> list_ex (\<lambda>x. pe_account_id x = as_uuid a \<and> pe_key x = key) (tb_entries d))"
  using assms(2) sim_keyed [OF assms(1), of a "the key"]
  by (cases key) (auto simp: find_existing_def find_None_iff_all list_ex_iff)

lemma charge_inserts:
  assumes "sim d s" and "decodes_all P" and "charge_account q \<noteq> SYSTEM_ACCOUNT" and "on_grid (charge_amount q)"
    and "has_account s (charge_account q)" and "fits E s q d"
    and "find_existing s (charge_account q) (charge_idempotency_key q) = None"
  shows "\<exists>d1 org' d2. update_settled P (as_uuid (charge_account q)) (- charge_amount q) d
           = Inr (d1, settled_of s (charge_account q) - charge_amount q, org') \<and>
         insert_entry P (charge_entry (micros E) q (settled_of s (charge_account q) - charge_amount q)) org d1 = Inr (d2, ())"
proof -
  let ?a = "charge_account q" and ?x = "charge_amount q"
  from sim_has_account [OF assms(1), of ?a] assms(5) obtain pa where pa: "find_pg_account d (as_uuid ?a) = Some pa" by auto
  note settled = sim_settled [OF assms(1) pa assms(3)]
  have grid: "on_grid (settled_of s ?a - ?x)"
    using db_ok_account [OF sim_ok [OF assms(1)] pa] settled assms(4) by (simp add: on_grid_diff)
  have n: "numeric_30_5 (settled_of s ?a - ?x) = Inr (settled_of s ?a - ?x)" "numeric_30_5 (- ?x) = Inr (- ?x)"
    using assms(4,6) grid by (auto intro!: numeric_in_range simp: fits_def on_grid_minus)
  let ?d1 = "d\<lparr>tb_accounts := map (\<lambda>x. if pa_id x = as_uuid ?a then x\<lparr>pa_settled := settled_of s ?a - ?x\<rparr> else x) (tb_accounts d)\<rparr>"
  have "update_settled P (as_uuid ?a) (- ?x) d = Inr (?d1, settled_of s ?a - ?x, pa_org_id pa)"
    using pa settled n by (simp add: update_settled_def decodes_all_simps [OF assms(2)])
  moreover have "\<exists>d2. insert_entry P (charge_entry (micros E) q (settled_of s ?a - ?x)) org ?d1 = Inr (d2, ())"
    using n sim_key_free [OF assms(1,7)] assms(6) sim_known [OF assms(1), of ?a] assms(5)
      db_ok_system [OF sim_ok [OF assms(1)]]
    by (simp add: insert_entry_def row_of_entry_def charge_entry_def micros_def known_settled fits_def
          find_pg_entry_def SYSTEM_ACCOUNT_def Let_def del: not_None_eq)
  ultimately show ?thesis by blast
qed

lemma charge_succeeds:
  assumes "sim d s" and "decodes_all P" and "charge_account q \<noteq> SYSTEM_ACCOUNT" and "on_grid (charge_amount q)"
    and "0 < charge_amount q" and "has_account s (charge_account q)"
    and "find_existing s (charge_account q) (charge_idempotency_key q) = None \<Longrightarrow> fits E s q d"
  shows "\<exists>d' e. pg_exec D (faultless P) E d (RCharge q) = Some (d', Inr (PEntry e))"
proof -
  let ?a = "charge_account q" and ?key = "charge_idempotency_key q"
  from sim_has_account [OF assms(1), of ?a] assms(6) obtain pa where pa: "find_pg_account d (as_uuid ?a) = Some pa" by auto
  have "\<exists>d' e. transact (pg_keyed (faultless P) ?a ?key (- charge_amount q) (charge_entry (micros E) q)) d = Some (d', Inr e)"
  proof (cases "find_existing s ?a ?key")
    case None
    then have re: "replay (faultless P) (as_uuid ?a) ?key t = Some (t\<lparr>steps := steps t + (if ?key = None then 0 else 1)\<rparr>, Inr None)"
      if "working t = d" for t
      using that sim_keyed [OF assms(1), of ?a "the ?key"]
      by (cases ?key) (auto simp: replay_def find_existing_def sql_def select_keyed_def Let_def)
    obtain d1 org' d2 where
      1: "update_settled P (as_uuid ?a) (- charge_amount q) d = Inr (d1, settled_of s ?a - charge_amount q, org')"
      and 2: "insert_entry P (charge_entry (micros E) q (settled_of s ?a - charge_amount q)) (pa_org_id pa) d1 = Inr (d2, ())"
      using charge_inserts [OF assms(1-4,6) assms(7) [OF None] None] by blast
    show ?thesis
      by (simp add: transact_def pg_keyed_def begin_hot_def sql_def select_account_def pa re 1 2 commit_with_def
            tx_commit_def Let_def)
  next
    case (Some e)
    then obtain k where k: "?key = Some k" "find_keyed s ?a k = Some e" by (auto simp: find_existing_def split: option.splits)
    then obtain org t0 where "List.find (\<lambda>e. pe_account_id e = as_uuid ?a \<and> pe_key e = Some k) (tb_entries d)
        = Some (row_of_entry org (e\<lparr>created_at := t0\<rparr>))"
      using sim_keyed [OF assms(1), of ?a k] by (auto simp: option_rel_Some2 entry_sim_iff)
    then show ?thesis using k
      by (simp add: transact_def pg_keyed_def begin_hot_def sql_def select_account_def pa replay_def select_keyed_def
            commit_with_def tx_commit_def decodes_all_simps [OF assms(2)] Let_def)
  qed
  then show ?thesis using assms(5) by (auto simp: pg_charge_def pg_replying_def)
qed

section \<open>Retrying through failures\<close>

text \<open>A client that sends the same request again and again, whatever comes back.\<close>

fun attempts :: "deps \<Rightarrow> request \<Rightarrow> db \<Rightarrow> (pg \<times> env) list \<Rightarrow> db option" where
  "attempts D q d [] = Some d"
| "attempts D q d ((P, E) # xs) = (case pg_exec D P E d q of
      None \<Rightarrow> None
    | Some (d', _) \<Rightarrow> attempts D q d' xs)"

text \<open>The database is where it was, or where one application of the charge puts it.\<close>

definition charged_once :: "deps \<Rightarrow> state \<Rightarrow> charge_request \<Rightarrow> db \<Rightarrow> bool" where
  "charged_once D s q d \<longleftrightarrow> (\<exists>E s1 e. charge D E s q = Some (s1, Inr e) \<and> sim d s1)"

lemma disturbed_call:
  assumes "sim d s" and "exact_sums D" and "total_sums D" and "decodes_exactly P"
    and "storable P q" and "charges_in_order q d"
  shows "\<exists>d' r. pg_exec D P E d q = Some (d', r) \<and>
    (d' = d \<or> (\<exists>s' r'. exec D E s q = Some (s', r') \<and> sim d' s'))"
  using atomic_exec [of d D P E q] simulates_exec [OF assms, of E]
  unfolding atomic_def simulates_def agrees_def by fastforce

lemma charge_replays:
  assumes "charge D E s q = Some (s1, Inr e)" and "charge_idempotency_key q = Some k"
  shows "charge D E' s1 q = Some (s1, Inr e)"
proof -
  from charge.recorded [OF assms] have f: "find_existing s1 (charge_account q) (charge_idempotency_key q) = Some e"
    "0 < charge_amount q" "has_account s (charge_account q)" by blast+
  from f(3) have "has_account s1 (charge_account q)"
    using assms(1) by (auto simp: charge_def has_account_def post_debit_def account_sub_def system_add_def push_entry_def
        Let_def Option.bind_eq_Some_conv split: if_splits option.splits)
  with f charge.found show ?thesis by blast
qed

lemma exec_charge_Ok:
  "exec D E s (RCharge q) = Some (s', Inr x) \<longleftrightarrow> (\<exists>e. charge D E s q = Some (s', Inr e) \<and> x = PEntry e)"
proof (cases "charge D E s q")
  case (Some p)
  then show ?thesis by (cases p; cases "snd p") (auto simp: replying_def)
qed (simp add: replying_def)

lemma charged_call:
  assumes "exact_sums D" and "total_sums D" and "decodes_exactly P" and "storable P (RCharge q)"
    and "charge_idempotency_key q = Some k" and "sim d s \<or> charged_once D s q d"
  shows "\<exists>d' r. pg_exec D P E d (RCharge q) = Some (d', r) \<and> (sim d' s \<or> charged_once D s q d')"
  using assms(6)
proof
  assume s: "sim d s"
  from disturbed_call [OF s assms(1-4), of E] obtain d' r where
    "pg_exec D P E d (RCharge q) = Some (d', r)"
    "d' = d \<or> (\<exists>s' r'. exec D E s (RCharge q) = Some (s', r') \<and> sim d' s')"
    by (auto simp: charges_in_order_def)
  moreover have "sim d' s \<or> charged_once D s q d'" if ex: "exec D E s (RCharge q) = Some (s', r')" "sim d' s'" for s' r'
  proof (cases r')
    case (Inl e)
    with ex exec_error show ?thesis by blast
  next
    case (Inr x)
    with ex obtain e where "charge D E s q = Some (s', Inr e)" using exec_charge_Ok by blast
    with ex(2) show ?thesis unfolding charged_once_def by blast
  qed
  ultimately show ?thesis using s by blast
next
  assume "charged_once D s q d"
  then obtain E0 s1 e where c: "charge D E0 s q = Some (s1, Inr e)" and s1: "sim d s1" by (auto simp: charged_once_def)
  from disturbed_call [OF s1 assms(1-4), of E] charge_replays [OF c assms(5), of E] obtain d' r where
    "pg_exec D P E d (RCharge q) = Some (d', r)" "d' = d \<or> sim d' s1"
    by (auto simp: charges_in_order_def replying_def)
  with c s1 show ?thesis unfolding charged_once_def by blast
qed

lemma charged_attempts:
  assumes "exact_sums D" and "total_sums D" and "charge_idempotency_key q = Some k"
    and "charge_account q \<noteq> SYSTEM_ACCOUNT" and "on_grid (charge_amount q)"
  shows "list_all (decodes_exactly \<circ> fst) xs \<Longrightarrow> sim d s \<or> charged_once D s q d \<Longrightarrow>
    \<exists>dn. attempts D (RCharge q) d xs = Some dn \<and> (sim dn s \<or> charged_once D s q dn)"
proof (induction xs arbitrary: d)
  case (Cons x xs)
  obtain P E where x: "x = (P, E)" by (cases x)
  have "decodes_exactly P" "storable P (RCharge q)" using Cons.prems(1) x assms(4,5) by auto
  from charged_call [OF assms(1,2) this assms(3) Cons.prems(2), of E] obtain d' r where
    d': "pg_exec D P E d (RCharge q) = Some (d', r)" "sim d' s \<or> charged_once D s q d'" by blast
  from Cons.IH [OF _ d'(2)] Cons.prems(1) d'(1) show ?case unfolding x by simp
qed simp

section \<open>A small database\<close>

definition demo_pg :: "(nat \<Rightarrow> fault option) \<Rightarrow> pg" where
  "demo_pg f = \<lparr>pg_text = (\<lambda>_. ''sql''), pg_decode = Some, pg_micros = (\<lambda>t. t - t mod 1000), pg_fault = f\<rparr>"

definition demo_db :: db where
  "demo_db = migrated\<lparr>
     tb_accounts := tb_accounts migrated @ [row_of_account 100 (row_account (demo_row 100))],
     tb_entries := [row_of_entry 7 (grant_entry (demo_env 1) demo_grant 100)]\<rparr>"

lemma demo_pg_laws [simp]: "decodes_all (demo_pg f)" "decodes_exactly (demo_pg f)"
  by (simp_all add: demo_pg_def decodes_all_def decodes_exactly_def)

lemma demo_db_sim: "sim demo_db demo_funded"
  by code_simp

section \<open>Properties\<close>

text \<open>
  C34. A call on the Postgres ledger is atomic. Whichever of its statements the database refuses, and
  even when the acknowledgement of a commit is lost, the tables end up as the undisturbed call leaves
  them or as they were before; in both of the disturbed cases the caller sees a backend error, and
  when no statement is disturbed the reply is the undisturbed one.
\<close>

theorem pg_call_is_atomic:
  "pg_exec D P E d q = pg_exec D (faultless P) E d q \<or>
   (\<exists>b. pg_exec D P E d q = Some (d, Inl (Backend b))) \<or>
   (\<exists>b d' r. pg_exec D P E d q = Some (d', Inl (Backend b)) \<and> pg_exec D (faultless P) E d q = Some (d', r))"
  using atomic_exec [of d D P E q] by (simp add: atomic_def)

text \<open>
  C35. Where the Postgres ledger does what the in-memory ledger does. On tables and a state that stand
  for the same ledger, an undisturbed call of any of the fifteen methods either refuses with a backend
  error and leaves the tables alone, or gives the in-memory ledger's reply and tables that stand for
  the in-memory ledger's next state. Replies agree up to clock readings and the order of a history.
  This is for requests the tables can hold as they are, \<open>storable\<close>: amounts with at most five decimal
  places, expiries and sweep instants in whole microseconds, and no business on the system account;
  and, for a run void, for usage rows of the run stored in the order of their clock readings,
  \<open>charges_in_order\<close>. Outside them the two ledgers differ: \<open>grant_below_scale\<close> is a grant of a finer
  amount, which the tables round.
\<close>

theorem pg_simulates_memory:
  assumes "sim d s" and "exact_sums D" and "total_sums D" and "decodes_exactly P"
    and "storable P q" and "charges_in_order q d"
  shows "(\<exists>b. pg_exec D (faultless P) E d q = Some (d, Inl (Backend b))) \<or>
    (\<exists>d' r s' r'. pg_exec D (faultless P) E d q = Some (d', r) \<and> exec D E s q = Some (s', r') \<and>
       sim d' s' \<and> rel_sum (=) same_reply r r')"
  using simulates_exec [OF assms, of E] by (auto simp: simulates_def agrees_def)

theorem pg_simulates_memory_witness:
  "\<exists>d' r s' r'. pg_exec exact_deps (faultless (demo_pg (\<lambda>_. None))) (demo_env 4) demo_db (RCharge demo_charge) = Some (d', r) \<and>
     exec exact_deps (demo_env 4) demo_funded (RCharge demo_charge) = Some (s', r') \<and>
     sim d' s' \<and> rel_sum (=) same_reply r r'"
proof -
  let ?P = "demo_pg (\<lambda>_. None)" and ?q = "RCharge demo_charge"
  have "storable ?P ?q" "charges_in_order ?q demo_db" by code_simp+
  note claim = pg_simulates_memory [OF demo_db_sim exact_deps_laws(1,2) demo_pg_laws(2) this, of "demo_env 4"]
  have "map_option (isl \<circ> snd) (pg_exec exact_deps (faultless ?P) (demo_env 4) demo_db ?q) = Some False" by code_simp
  with claim show ?thesis by auto
qed

text \<open>
  C36. A charge retried through failures is applied exactly once. A client sends a keyed charge any number
  of times while statements fail and acknowledgements get lost. No attempt panics, and the next attempt
  that is not disturbed answers with an entry; the tables then stand for the ledger with one
  application of the charge, and the entry is the one it posted. The attempt needs what any insert
  needs: an identifier that is not taken and numbers that fit the columns.
\<close>

theorem pg_charge_exactly_once:
  assumes "exact_sums D" and "total_sums D" and "sim d s" and "list_all (decodes_exactly \<circ> fst) xs" and "decodes_all P"
    and "charge_idempotency_key q = Some k" and "charge_account q \<noteq> SYSTEM_ACCOUNT" and "on_grid (charge_amount q)"
    and "0 < charge_amount q" and "has_account s (charge_account q)"
  shows "\<exists>dn. attempts D (RCharge q) d xs = Some dn \<and>
    (fits E s q dn \<longrightarrow> (\<exists>d' e' E' s1 e. pg_exec D (faultless P) E dn (RCharge q) = Some (d', Inr (PEntry e')) \<and>
       charge D E' s q = Some (s1, Inr e) \<and> same_entry e' e \<and> sim d' s1))"
proof -
  from charged_attempts [OF assms(1,2,6-8) assms(4)] assms(3) obtain dn where
    dn: "attempts D (RCharge q) d xs = Some dn" "sim dn s \<or> charged_once D s q dn" by blast
  have st: "storable P (RCharge q)" using assms(7,8) by simp
  have run: "\<exists>d' e' s'' e. pg_exec D (faultless P) E dn (RCharge q) = Some (d', Inr (PEntry e')) \<and>
       charge D E s' q = Some (s'', Inr e) \<and> same_entry e' e \<and> sim d' s''"
    if sim: "sim dn s'" and acc: "has_account s' (charge_account q)"
      and room: "find_existing s' (charge_account q) (charge_idempotency_key q) = None \<Longrightarrow> fits E s' q dn" for s'
  proof -
    from charge_succeeds [OF sim assms(5,7-9) acc room] obtain d' e' where
      1: "pg_exec D (faultless P) E dn (RCharge q) = Some (d', Inr (PEntry e'))" by blast
    from simulates_exec [OF sim assms(1,2) decodes_all_exactly [OF assms(5)] st, of E] 1 obtain s'' x where
      2: "exec D E s' (RCharge q) = Some (s'', Inr x)" "sim d' s''" "same_reply (PEntry e') x"
      by (auto simp: simulates_def agrees_def charges_in_order_def elim: rel_sum.cases simp del: exec.simps)
    with 1 show ?thesis unfolding exec_charge_Ok by (auto simp: same_reply_def)
  qed
  have "\<exists>d' e' E' s1 e. pg_exec D (faultless P) E dn (RCharge q) = Some (d', Inr (PEntry e')) \<and>
       charge D E' s q = Some (s1, Inr e) \<and> same_entry e' e \<and> sim d' s1" if room: "fits E s q dn"
    using dn(2)
  proof
    assume "sim dn s"
    from run [OF this assms(10) room] show ?thesis by blast
  next
    assume "charged_once D s q dn"
    then obtain E0 s1 e where c: "charge D E0 s q = Some (s1, Inr e)" and s1: "sim dn s1" by (auto simp: charged_once_def)
    from charge.recorded [OF c assms(6)] have room: "fits E s1 q dn"
      if "find_existing s1 (charge_account q) (charge_idempotency_key q) = None" using that by simp
    have acc: "has_account s1 (charge_account q)"
      using charge_replays [OF c assms(6), of E] assms(9) by (auto simp: charge_def has_account_def split: if_splits)
    from run [OF s1 acc room] obtain d' e' s2 e2 where 3: "pg_exec D (faultless P) E dn (RCharge q) = Some (d', Inr (PEntry e'))"
      "charge D E s1 q = Some (s2, Inr e2)" "same_entry e' e2" "sim d' s2" by blast
    with charge_replays [OF c assms(6), of E] c show ?thesis by auto
  qed
  with dn(1) show ?thesis by blast
qed

definition demo_faults :: "(pg \<times> env) list" where
  "demo_faults = [(demo_pg (\<lambda>n. if n = 5 then Some (Refused ''timeout'') else None), demo_env 4),
     (demo_pg (\<lambda>n. if n = 6 then Some (AckLost ''reset'') else None), demo_env 5)]"

theorem pg_charge_exactly_once_witness:
  "\<exists>dn d' e' E' s1 e. attempts exact_deps (RCharge demo_charge) demo_db demo_faults = Some dn \<and>
     pg_exec exact_deps (faultless (demo_pg (\<lambda>_. None))) (demo_env 6) dn (RCharge demo_charge) = Some (d', Inr (PEntry e')) \<and>
     charge exact_deps E' demo_funded demo_charge = Some (s1, Inr e) \<and> same_entry e' e \<and> sim d' s1"
proof -
  have laws: "list_all (decodes_exactly \<circ> fst) demo_faults" by (simp add: demo_faults_def)
  have q: "charge_idempotency_key demo_charge = Some ''u1''" "charge_account demo_charge \<noteq> SYSTEM_ACCOUNT"
    "on_grid (charge_amount demo_charge)" "0 < charge_amount demo_charge"
    "has_account demo_funded (charge_account demo_charge)"
    by code_simp+
  have "map_option (fits (demo_env 6) demo_funded demo_charge)
     (attempts exact_deps (RCharge demo_charge) demo_db demo_faults) = Some True" by code_simp
  with pg_charge_exactly_once [OF exact_deps_laws(1,2) demo_db_sim laws demo_pg_laws(1) q, of "demo_env 6"]
  show ?thesis by auto
qed

section \<open>Where the two ledgers part\<close>

text \<open>
  A grant of one millionth of a credit: the caller is told an entry of one millionth, the table stores
  an entry of zero and the balance does not move.
\<close>

definition tiny_grant :: grant_request where
  "tiny_grant = \<lparr>grant_account = demo_wallet, grant_amount = 1 / 1000000, grant_source = Paid_source,
     grant_idempotency_key = Some ''g2''\<rparr>"

lemma grant_below_scale:
  "map_option (\<lambda>(d, r). (map_sum id (\<lambda>x. case x of PEntry e \<Rightarrow> delta_credits e | _ \<Rightarrow> 0) r,
       pe_delta (last (tb_entries d)), pa_settled (last (tb_accounts d))))
     (pg_exec exact_deps (demo_pg (\<lambda>_. None)) (demo_env 4) demo_db (RGrant tiny_grant))
   = Some (Inr (1 / 1000000), 0, 100)"
  by code_simp

text \<open>
  A refund that names an entry nobody posted: the in-memory ledger posts it, the foreign key of the
  table refuses it.
\<close>

definition stray_refund :: refund_request where
  "stray_refund = \<lparr>refund_account = demo_wallet, refund_amount = 5, refund_reverses_entry_id = Some (Id 99),
     refund_idempotency_key = None\<rparr>"

lemma refund_of_unknown_entry:
  "map_option (isl \<circ> snd) (exec exact_deps (demo_env 4) demo_funded (RRefund stray_refund)) = Some False"
  "pg_exec exact_deps (demo_pg (\<lambda>_. None)) (demo_env 4) demo_db (RRefund stray_refund) = Some (demo_db, Inl (Backend ''sql''))"
  by code_simp+

end
