(* ===== verification/Suite_Runs.thy ===== *)
theory Suite_Runs
  imports Conformance_Props Event_Suite Pg_Props
begin

text \<open>
  The conformance suites run on the models: the scenarios of the ledger suite on the in-memory ledger and
  two of them on the Postgres ledger, those of the event suite on the in-memory store. Each starts from
  a fresh backend and is evaluated to the end; a scenario that returns has passed. That the other
  backends answer as the in-memory ones do is proved in \<open>Pg_Props\<close> and \<open>Ch_Props\<close>.
\<close>

section \<open>The Postgres ledger behind the trait\<close>

definition pg_ops :: "deps \<Rightarrow> pg \<Rightarrow> db ledger_ops" where
  "pg_ops D P = \<lparr>
     be_open_account = pg_open_account P, be_balance = pg_balance P, be_grant = pg_grant P,
     be_refund = pg_refund P, be_reserve = pg_reserve D P, be_settle = pg_settle P,
     be_charge = pg_charge P, be_reverse_charge = pg_reverse_charge D P, be_void = pg_void P,
     be_void_expired_holds = pg_void_expired_holds P, be_extend_hold = pg_extend_hold P,
     be_void_run = pg_void_run D P, be_open_lease = pg_open_lease D P,
     be_close_lease = pg_close_lease D P, be_entries = pg_entries P\<rparr>"

section \<open>The scenarios as programs on a fresh backend\<close>

definition passes :: "'s bench \<Rightarrow> ('s bench \<Rightarrow> 's bench option) \<Rightarrow> bool" where
  "passes t scenario = (scenario t \<noteq> None)"

definition ledger_scenarios ::
  "'l ledger_ops \<Rightarrow> deps \<Rightarrow> (nat \<Rightarrow> env) \<Rightarrow> ('l bench \<Rightarrow> 'l bench option) list" where
  "ledger_scenarios L D E = [
     grant_increases_balance L D E,
     reserve_denies_when_insufficient L E,
     refund_credits_back L E,
     reverse_charge_reverses_remainder_once L E,
     void_run_reverses_holds_and_settles L E,
     void_run_reverses_direct_charges L E,
     void_run_does_not_double_refund_corrected_charges L E,
     void_run_ignores_unlinked_credit_notes L E,
     expired_holds_are_swept L E,
     extend_hold_keeps_it_alive L E,
     reserve_hold_then_settle_charges_actual L D E,
     reserve_and_settle_are_idempotent L E,
     grant_is_idempotent_on_key L E,
     void_releases_a_failed_run L D E,
     settle_overage_charges_actual L E,
     soft_limit_allows_overage L E,
     settle_after_void_is_refused L E,
     void_after_settle_is_refused L E,
     charge_records_usage L E,
     lease_moves_credits_and_conserves L D E,
     lease_spend_then_close_returns_remainder L E,
     over_lease_is_refused L E]"

definition event_scenarios ::
  "'x event_ops \<Rightarrow> (nat \<Rightarrow> env) \<Rightarrow> ('x bench \<Rightarrow> 'x bench option) list" where
  "event_scenarios S E = [
     record_and_get S E,
     record_is_idempotent S E,
     record_batch_is_idempotent_and_ordered S E,
     amend_supersedes S E,
     amend_is_idempotent_on_key S E,
     amend_after_void_is_refused S E,
     void_run_voids_events S E]"

section \<open>The runs\<close>

definition calm_pg :: pg where
  "calm_pg = demo_pg (\<lambda>_. None)"

theorem memory_scenarios_pass:
  "list_all (passes (0, new_ledger)) (ledger_scenarios (memory_ops exact_deps) exact_deps suite_env)"
  unfolding ledger_scenarios_def list.pred_inject by (intro conjI TrueI; code_simp)

theorem pg_sample_passes:
  "passes (0, migrated) (reserve_and_settle_are_idempotent (pg_ops exact_deps calm_pg) suite_env) \<and>
   passes (0, migrated) (void_run_ignores_unlinked_credit_notes (pg_ops exact_deps calm_pg) suite_env)"
  by code_simp

theorem memory_event_scenarios_pass:
  "list_all (passes (0, [])) (event_scenarios (memory_events exact_deps) suite_env)"
  unfolding event_scenarios_def list.pred_inject by (intro conjI TrueI; code_simp)

end
