(* ===== verification/Config.thy ===== *)
theory Config
  imports Api Pg_Tables
begin

text \<open>
  The configuration the control plane syncs into the engine. The tables of \<open>migrations/0002_config.sql\<close>
  and the methods of \<open>PgConfig\<close> (\<open>crates/meter-store-pg/src/config.rs\<close>), the lookups of
  \<open>crates/meter-api/src/cards.rs\<close> over them, and the gRPC \<open>ConfigService\<close>
  (\<open>crates/meter-api/src/grpc/config.rs\<close>, with the shared conversions of \<open>grpc/mod.rs\<close>).

  A table is the list of its rows. Every method is one statement on the pool, which can be refused or
  lose its acknowledgement (\<open>pg_fault\<close>). \<open>jsonb\<close> is what a \<open>jsonb\<close> column gives back for a JSON value and
  \<open>parse\<close> the derived deserialiser of a component list, both parameters.
\<close>

section \<open>Tables\<close>

record budget_record =
  bg_account_id :: uuid
  bg_limit_credits :: rat
  bg_period :: string

record config =
  cf_rate_cards :: "rate_card_record list"
  cf_budgets :: "budget_record list"

definition no_config :: config where
  "no_config = \<lparr>cf_rate_cards = [], cf_budgets = []\<rparr>"

text \<open>One statement sent to the pool, with \<open>map_err(be)?\<close>.\<close>

definition on_pool :: "pg \<Rightarrow> ('c \<Rightarrow> sql_failure + 'c \<times> 'a) \<Rightarrow> 'c \<Rightarrow> ('c, ledger_error, 'a) sres" where
  "on_pool P st c = (case pg_fault P 0 of
      Some (Refused m) \<Rightarrow> Some (c, Inl (Backend m))
    | f \<Rightarrow> (case st c of
        Inl e \<Rightarrow> Some (c, Inl (Backend (pg_text P e)))
      | Inr (c', a) \<Rightarrow> Some (c', case f of None \<Rightarrow> Inr a | Some g \<Rightarrow> Inl (Backend (fault_text g)))))"

section \<open>Rate cards\<close>

text \<open>A \<open>numeric(20, 10)\<close>: ten places, fewer than eleven integer digits.\<close>

definition numeric_20_10 :: "rat \<Rightarrow> sql_failure + rat" where
  "numeric_20_10 x = (let r = (if 0 \<le> x then of_int \<lfloor>x * 10 ^ 10 + 1 / 2\<rfloor> / 10 ^ 10
                               else - (of_int \<lfloor>- x * 10 ^ 10 + 1 / 2\<rfloor> / 10 ^ 10)) in
     if \<bar>r\<bar> < 10 ^ 10 then Inr r else Inl NumericOverflow)"

text \<open>\<open>INSERT \<dots> ON CONFLICT \<dots> DO UPDATE\<close>: \<open>same\<close> finds the conflicting row.\<close>

definition upsert :: "('a \<Rightarrow> bool) \<Rightarrow> 'a \<Rightarrow> 'a list \<Rightarrow> 'a list" where
  "upsert same row rows =
     (if list_ex same rows then map (\<lambda>x. if same x then row else x) rows else rows @ [row])"

definition same_version :: "rate_card_record \<Rightarrow> rate_card_record \<Rightarrow> bool" where
  "same_version a b = (rcr_id a = rcr_id b \<and> rcr_version a = rcr_version b)"

text \<open>\<open>INSERT INTO rate_cards \<dots> ON CONFLICT (id, version) DO UPDATE SET \<dots>\<close>\<close>

definition upsert_rate_card ::
  "(json \<Rightarrow> json) \<Rightarrow> rate_card_record \<Rightarrow> config \<Rightarrow> sql_failure + config \<times> unit" where
  "upsert_rate_card jsonb rec c = (case numeric_20_10 (rcr_margin rec) of
      Inl f \<Rightarrow> Inl f
    | Inr m \<Rightarrow>
        Inr (c\<lparr>cf_rate_cards := upsert (same_version rec)
               (rec\<lparr>rcr_margin := m, rcr_components := jsonb (rcr_components rec)\<rparr>) (cf_rate_cards c)\<rparr>, ()))"

definition put_rate_card ::
  "pg \<Rightarrow> (json \<Rightarrow> json) \<Rightarrow> config \<Rightarrow> rate_card_record \<Rightarrow> (config, ledger_error, unit) sres" where
  "put_rate_card P jsonb c rec = on_pool P (upsert_rate_card jsonb rec) c"

text \<open>\<open>record_from_row\<close>: only the numeric column can fail to decode.\<close>

definition record_from_row :: "pg \<Rightarrow> rate_card_record \<Rightarrow> ledger_error + rate_card_record" where
  "record_from_row P row = (case decode_numeric P ''margin'' (rcr_margin row) of
      Inl f \<Rightarrow> Inl (Backend (pg_text P f)) | Inr m \<Rightarrow> Inr (row\<lparr>rcr_margin := m\<rparr>))"

text \<open>\<open>ORDER BY version DESC\<close>; \<open>version\<close> is a signed integer column.\<close>

definition newest_version :: "rate_card_record list \<Rightarrow> rate_card_record list" where
  "newest_version rows = sort_key (\<lambda>r. - sint (rcr_version r)) rows"

definition first_row :: "'a list \<Rightarrow> 'a option" where
  "first_row rows = (case rows of [] \<Rightarrow> None | r # _ \<Rightarrow> Some r)"

definition latest_rate_card ::
  "pg \<Rightarrow> config \<Rightarrow> uuid \<Rightarrow> (config, ledger_error, rate_card_record option) sres" where
  "latest_rate_card P c i =
     sbind (on_pool P (\<lambda>c. Inr (c, first_row (newest_version (filter (\<lambda>r. rcr_id r = i) (cf_rate_cards c))))) c)
       (\<lambda>c row. Some (c, case row of None \<Rightarrow> Inr None | Some r \<Rightarrow> map_sum id Some (record_from_row P r)))"

text \<open>\<open>SELECT DISTINCT ON (id) \<dots> ORDER BY id, version DESC\<close>: the first row of every id.\<close>

fun distinct_on :: "('a \<Rightarrow> 'k) \<Rightarrow> 'a list \<Rightarrow> 'a list" where
  "distinct_on f [] = []"
| "distinct_on f (x # xs) = x # distinct_on f (filter (\<lambda>y. f y \<noteq> f x) xs)"

fun all_rows :: "('a \<Rightarrow> 'e + 'b) \<Rightarrow> 'a list \<Rightarrow> 'e + 'b list" where
  "all_rows f [] = Inr []"
| "all_rows f (x # xs) = (case f x of Inl e \<Rightarrow> Inl e | Inr y \<Rightarrow> map_sum id ((#) y) (all_rows f xs))"

definition list_rate_cards :: "pg \<Rightarrow> config \<Rightarrow> (config, ledger_error, rate_card_record list) sres" where
  "list_rate_cards P c =
     sbind (on_pool P (\<lambda>c. Inr (c, distinct_on rcr_id (sort_key rcr_id (newest_version (cf_rate_cards c))))) c)
       (\<lambda>c rows. Some (c, all_rows (record_from_row P) rows))"

section \<open>Budgets\<close>

definition upsert_budget :: "budget_record \<Rightarrow> config \<Rightarrow> sql_failure + config \<times> unit" where
  "upsert_budget b c = (case numeric_30_5 (bg_limit_credits b) of
      Inl f \<Rightarrow> Inl f
    | Inr l \<Rightarrow>
        Inr (c\<lparr>cf_budgets := upsert (\<lambda>x. bg_account_id x = bg_account_id b)
               (b\<lparr>bg_limit_credits := l\<rparr>) (cf_budgets c)\<rparr>, ()))"

definition set_budget :: "pg \<Rightarrow> config \<Rightarrow> budget_record \<Rightarrow> (config, ledger_error, unit) sres" where
  "set_budget P c b = on_pool P (upsert_budget b) c"

definition budget :: "pg \<Rightarrow> config \<Rightarrow> uuid \<Rightarrow> (config, ledger_error, budget_record option) sres" where
  "budget P c a =
     sbind (on_pool P (\<lambda>c. Inr (c, List.find (\<lambda>b. bg_account_id b = a) (cf_budgets c))) c)
       (\<lambda>c row. Some (c, case row of
          None \<Rightarrow> Inr None
        | Some b \<Rightarrow> (case decode_numeric P ''limit_credits'' (bg_limit_credits b) of
            Inl f \<Rightarrow> Inl (Backend (pg_text P f)) | Inr l \<Rightarrow> Inr (Some (b\<lparr>bg_limit_credits := l\<rparr>)))))"

end
