(* ===== verification/Grpc_Config.thy ===== *)
theory Grpc_Config
  imports Config
begin

text \<open>
  The gRPC surface, first part: statuses and the conversions the services share
  (\<open>crates/meter-api/src/grpc/mod.rs\<close>) and the \<open>ConfigService\<close> (\<open>grpc/config.rs\<close>) over the configuration store,
  with the lookups of synced cards (\<open>src/cards.rs\<close>) on the other side of it.

  The proto messages are records of the fields of \<open>proto/meter/v1\<close>: an enum is its \<open>i32\<close>, a message field
  an option, a missing string is empty. The text of a ledger or event error is left symbolic
  (\<open>Shown_ledger\<close>, \<open>Shown_event\<close>): it prints decimals with their scale.
\<close>

section \<open>Statuses\<close>

datatype grpc_code = InvalidArgument | CodeNotFound | FailedPrecondition | ResourceExhausted | CodeInternal

datatype message = Said string | Shown_ledger ledger_error | Shown_event event_error

record status =
  grpc_code :: grpc_code
  grpc_message :: message

definition invalid_argument :: "string \<Rightarrow> status" where
  "invalid_argument m = \<lparr>grpc_code = InvalidArgument, grpc_message = Said m\<rparr>"

definition status_from_ledger :: "ledger_error \<Rightarrow> status" where
  "status_from_ledger e = \<lparr>grpc_code = (case e of
      AccountNotFound _ \<Rightarrow> CodeNotFound
    | ReservationNotFound _ \<Rightarrow> CodeNotFound
    | ReservationClosed _ \<Rightarrow> FailedPrecondition
    | NotALease _ \<Rightarrow> FailedPrecondition
    | NonPositiveAmount \<Rightarrow> InvalidArgument
    | InsufficientFunds _ _ \<Rightarrow> ResourceExhausted
    | Backend _ \<Rightarrow> CodeInternal), grpc_message = Shown_ledger e\<rparr>"

definition status_from_event :: "event_error \<Rightarrow> status" where
  "status_from_event e = \<lparr>grpc_code = (case e of
      EventNotFound _ \<Rightarrow> CodeNotFound
    | EventVoided _ \<Rightarrow> FailedPrecondition
    | EventBackend _ \<Rightarrow> CodeInternal), grpc_message = Shown_event e\<rparr>"

text \<open>\<open>.map_err(|error| status_from_ledger(&error))\<close>\<close>

definition or_ledger_status :: "('s, ledger_error, 'a) sres \<Rightarrow> ('s, status, 'a) sres" where
  "or_ledger_status m = map_option (map_prod id (map_sum status_from_ledger id)) m"

definition or_event_status :: "('s, event_error, 'a) sres \<Rightarrow> ('s, status, 'a) sres" where
  "or_event_status m = map_option (map_prod id (map_sum status_from_event id)) m"

text \<open>\<open>?\<close> on a conversion: its status is the reply and the store is not called.\<close>

definition checked :: "'s \<Rightarrow> (status + 'a) \<Rightarrow> ('a \<Rightarrow> ('s, status, 'b) sres) \<Rightarrow> ('s, status, 'b) sres" where
  "checked s r f = (case r of Inl e \<Rightarrow> Some (s, Inl e) | Inr a \<Rightarrow> f a)"

section \<open>Conversions\<close>

definition parse_uuid :: "deps \<Rightarrow> string \<Rightarrow> string \<Rightarrow> status + uuid" where
  "parse_uuid D v field = (case uuid_parse D v of
      None \<Rightarrow> Inl (invalid_argument (''invalid '' @ field @ '': '' @ v)) | Some u \<Rightarrow> Inr u)"

text \<open>A proto \<open>Credit\<close> is its decimal text.\<close>

definition credit_from_proto :: "deps \<Rightarrow> string option \<Rightarrow> string \<Rightarrow> status + credit" where
  "credit_from_proto D c field = (case c of
      None \<Rightarrow> Inl (invalid_argument (''missing '' @ field))
    | Some t \<Rightarrow> (case dec_parse D t of
        None \<Rightarrow> Inl (invalid_argument (''invalid '' @ field @ '': '' @ t)) | Some x \<Rightarrow> Inr x))"

definition credit_to_proto :: "deps \<Rightarrow> credit \<Rightarrow> string" where
  "credit_to_proto D c = dec_str D c"

text \<open>\<open>rfc3339\<close> is the parser of the \<open>time\<close> crate.\<close>

definition parse_time :: "(string \<Rightarrow> time option) \<Rightarrow> string \<Rightarrow> string \<Rightarrow> status + time" where
  "parse_time rfc3339 v field = (case rfc3339 v of
      None \<Rightarrow> Inl (invalid_argument (''invalid '' @ field @ '': '' @ v)) | Some t \<Rightarrow> Inr t)"

definition parse_decimal :: "deps \<Rightarrow> string \<Rightarrow> string \<Rightarrow> status + rat" where
  "parse_decimal D v field = (case dec_parse D v of
      None \<Rightarrow> Inl (invalid_argument (''invalid '' @ field @ '': '' @ v)) | Some x \<Rightarrow> Inr x)"

section \<open>The config service\<close>

record v1_money =
  v1_amount :: string
  v1_money_currency :: string

record v1_price_component =
  v1_dimension :: string
  v1_modality :: string
  v1_context_tier :: string
  v1_unit :: string
  v1_charge_model :: string
  v1_unit_price :: "v1_money option"

record v1_rate_card =
  v1_id :: string
  v1_kind :: "32 word"
  v1_currency :: string
  v1_version :: "32 word"
  v1_margin :: string
  v1_components :: "v1_price_component list"

record v1_budget =
  v1_account_id :: string
  v1_limit :: "string option"
  v1_period :: string

definition rate_card_kind_str :: "32 word \<Rightarrow> status + string" where
  "rate_card_kind_str k =
     (if k = 1 then Inr ''provider_cost'' else if k = 2 then Inr ''customer''
      else Inl (invalid_argument ''kind is required''))"

definition component_json :: "v1_price_component \<Rightarrow> json" where
  "component_json pc = JObject
     [(''dimension'', JString (v1_dimension pc)), (''modality'', JString (v1_modality pc)),
      (''context_tier'', JString (v1_context_tier pc)), (''unit'', JString (v1_unit pc)),
      (''charge_model'', JString (v1_charge_model pc)),
      (''unit_price'', case v1_unit_price pc of None \<Rightarrow> JNull
        | Some p \<Rightarrow> JObject [(''amount'', JString (v1_amount p)), (''currency'', JString (v1_money_currency p))])]"

definition components_json :: "v1_price_component list \<Rightarrow> json" where
  "components_json pcs = JArray (map component_json pcs)"

definition validate_record ::
  "(json \<Rightarrow> string + price_component list) \<Rightarrow> rate_card_record \<Rightarrow> status + unit" where
  "validate_record parse rec = (case currency_new (rcr_currency rec) of
      Inl e \<Rightarrow> Inl (invalid_argument (''currency: '' @ money_error_text e))
    | Inr cur \<Rightarrow> (case parse (rcr_components rec) of
        Inl e \<Rightarrow> Inl (invalid_argument (''invalid components: '' @ e))
      | Inr comps \<Rightarrow> map_sum (\<lambda>e. invalid_argument (''invalid rate card: '' @ pricing_error_text e)) id
          (card_validate \<lparr>card_id = Id (rcr_id rec), card_kind = ProviderCost, card_currency = cur,
             version = 0, card_margin = margin_none, components = comps\<rparr>)))"

text \<open>\<open>i32::try_from\<close> on the \<open>u32\<close> of the message.\<close>

definition version_i32 :: "32 word \<Rightarrow> status + 32 word" where
  "version_i32 v = (if uint v < 2 ^ 31 then Inr v else Inl (invalid_argument ''version out of range''))"

definition grpc_put_rate_card ::
  "deps \<Rightarrow> pg \<Rightarrow> (json \<Rightarrow> json) \<Rightarrow> (json \<Rightarrow> string + price_component list) \<Rightarrow> env \<Rightarrow> config \<Rightarrow>
   v1_rate_card option \<Rightarrow> (config, status, string) sres" where
  "grpc_put_rate_card D P jsonb parse E c req = (case req of
      None \<Rightarrow> Some (c, Inl (invalid_argument ''card is required''))
    | Some rc \<Rightarrow>
        checked c (if v1_id rc = [] then Inr (new_v7 E 0) else parse_uuid D (v1_id rc) ''card.id'') (\<lambda>i.
        checked c (version_i32 (v1_version rc)) (\<lambda>ver.
        checked c (rate_card_kind_str (v1_kind rc)) (\<lambda>kind.
        checked c (parse_decimal D (v1_margin rc) ''margin'') (\<lambda>margin.
        let rec = \<lparr>rcr_id = i, rcr_version = ver, rcr_kind = kind, rcr_currency = v1_currency rc,
                   rcr_margin = margin, rcr_components = components_json (v1_components rc)\<rparr> in
        checked c (validate_record parse rec) (\<lambda>_.
        sbind (or_ledger_status (put_rate_card P jsonb c rec)) (\<lambda>c _.
          Some (c, Inr (uuid_str D i)))))))))"

definition grpc_set_budget ::
  "deps \<Rightarrow> pg \<Rightarrow> config \<Rightarrow> v1_budget option \<Rightarrow> (config, status, unit) sres" where
  "grpc_set_budget D P c req = (case req of
      None \<Rightarrow> Some (c, Inl (invalid_argument ''budget is required''))
    | Some b \<Rightarrow> (case v1_limit b of
        None \<Rightarrow> Some (c, Inl (invalid_argument ''limit is required''))
      | Some l \<Rightarrow>
          checked c (parse_uuid D (v1_account_id b) ''account_id'') (\<lambda>a.
          checked c (parse_decimal D l ''limit'') (\<lambda>x.
            or_ledger_status (set_budget P c
              \<lparr>bg_account_id = a, bg_limit_credits = x, bg_period = v1_period b\<rparr>)))))"

section \<open>Reading the cards back\<close>

text \<open>An app whose cards come from the store; \<open>latest_rate_card\<close> does not change it.\<close>

definition reply_of :: "('s, 'e, 'a) sres \<Rightarrow> 'e + 'a" where
  "reply_of m = snd (the m)"

definition over_config :: "pg \<Rightarrow> config \<Rightarrow> ('l, 'x) app_state \<Rightarrow> ('l, 'x) app_state" where
  "over_config P c app = app\<lparr>app_latest_card := \<lambda>i. reply_of (latest_rate_card P c i)\<rparr>"

definition list_stored_cards :: "pg \<Rightarrow> ('l, 'x) app_state \<Rightarrow> config \<Rightarrow> (config, api_error, rate_card list) sres" where
  "list_stored_cards P app c =
     sbind (map_option (map_prod id (map_sum ApiLedger id)) (list_rate_cards P c)) (\<lambda>c recs.
       Some (c, all_rows (rate_card_from_record app) recs))"

end
