(* ===== verification/Calendar.thy ===== *)
theory Calendar
  imports Prelude "HOL-Library.List_Lexorder" "HOL-Library.Char_ord"
begin

text \<open>
  The days the daily reports are cut into. An instant is a count of nanoseconds from the Unix epoch; its
  UTC day is a count of days, its date that day in the proleptic Gregorian calendar, and the
  report names it by \<open>to_char(\<dots> AT TIME ZONE 'UTC', 'YYYY-MM-DD')\<close>. \<open>civil_sound\<close> says that the date
  found is the day counted, and \<open>iso_date_less\<close> that from year 1 to year 9999 the order of the texts
  is the order of the days, which is why the queries may sort and group by the text.
\<close>

section \<open>Dates\<close>

definition NANOS_PER_DAY :: int where
  "NANOS_PER_DAY = 86400 * 1000000000"

definition utc_day :: "time \<Rightarrow> int" where
  "utc_day t = t div NANOS_PER_DAY"

definition leap_year :: "int \<Rightarrow> bool" where
  "leap_year y \<longleftrightarrow> y mod 4 = 0 \<and> (y mod 100 \<noteq> 0 \<or> y mod 400 = 0)"

text \<open>The first of January of a year, in days from the first of January of year 1.\<close>

definition year_start :: "int \<Rightarrow> int" where
  "year_start y = (let k = y - 1 in 365 * k + k div 4 - k div 100 + k div 400)"

text \<open>The mean year gives the year up to one; two comparisons settle it.\<close>

definition year_of :: "int \<Rightarrow> int" where
  "year_of d = (let y = 400 * d div 146097 + 1 in
     if d < year_start y then y - 1 else if d < year_start (y + 1) then y else y + 1)"

definition month_lengths :: "int \<Rightarrow> int list" where
  "month_lengths y = [31, if leap_year y then 29 else 28, 31, 30, 31, 30, 31, 31, 30, 31, 30, 31]"

fun month_day :: "int \<Rightarrow> int list \<Rightarrow> int \<Rightarrow> int \<times> int" where
  "month_day m (l # l' # ls) n = (if n < l then (m, n + 1) else month_day (m + 1) (l' # ls) (n - l))"
| "month_day m [l] n = (m, n + 1)"
| "month_day m [] n = (m, n + 1)"

text \<open>Days from the first of January of year 1 to the Unix epoch.\<close>

definition EPOCH_DAY :: int where
  "EPOCH_DAY = 719162"

definition civil :: "int \<Rightarrow> int \<times> int \<times> int" where
  "civil d = (let y = year_of (d + EPOCH_DAY) in (y, month_day 1 (month_lengths y) (d + EPOCH_DAY - year_start y)))"

section \<open>Texts\<close>

definition digit :: "int \<Rightarrow> char" where
  "digit n = char_of (48 + nat n)"

fun zero_padded :: "nat \<Rightarrow> int \<Rightarrow> string" where
  "zero_padded 0 n = []"
| "zero_padded (Suc w) n = zero_padded w (n div 10) @ [digit (n mod 10)]"

text \<open>
  \<open>YYYY\<close> has four digits, more from year 10000 on; a year before the first is written as the year BC it is.
\<close>

fun digits_of :: "nat \<Rightarrow> nat" where
  "digits_of n = (if n < 10 then 1 else Suc (digits_of (n div 10)))"

definition year_text :: "int \<Rightarrow> string" where
  "year_text y = (let n = (if y \<le> 0 then 1 - y else y) in zero_padded (max 4 (digits_of (nat n))) n)"

definition iso_date :: "int \<Rightarrow> string" where
  "iso_date d = (case civil d of (y, m, dd) \<Rightarrow>
     year_text y @ ''-'' @ zero_padded 2 m @ ''-'' @ zero_padded 2 dd)"

text \<open>\<open>to_char(created_at AT TIME ZONE 'UTC', 'YYYY-MM-DD')\<close>.\<close>

definition day_text :: "time \<Rightarrow> string" where
  "day_text t = iso_date (utc_day t)"

lemma known_dates:
  "day_text 0 = ''1970-01-01''" "day_text (- 1) = ''1969-12-31''"
  "day_text (1709164800 * 1000000000) = ''2024-02-29''"
  "day_text (1709251199 * 1000000000 + 999999999) = ''2024-02-29''"
  "day_text (951782400 * 1000000000) = ''2000-02-29''" "day_text (1767225599 * 1000000000) = ''2025-12-31''"
  by code_simp+

section \<open>The date is the day\<close>

lemma div_pred:
  assumes "0 < (n::int)"
  shows "(k - 1) div n = (if k mod n = 0 then k div n - 1 else k div n)"
proof -
  have k: "k = n * (k div n) + k mod n" "0 \<le> k mod n" "k mod n < n" using assms by simp_all
  show ?thesis
  proof (cases "k mod n = 0")
    case True
    with k(1) have "k - 1 = n * (k div n - 1) + (n - 1)" by (simp add: algebra_simps)
    from int_div_pos_eq [OF this] True assms show ?thesis by simp
  next
    case False
    with k have "k - 1 = n * (k div n) + (k mod n - 1)" by linarith
    with False k show ?thesis using int_div_pos_eq [of "k - 1" n "k div n" "k mod n - 1"] by simp
  qed
qed

lemma mod_dvd_zero: "(m::int) dvd n \<Longrightarrow> k mod n = 0 \<Longrightarrow> k mod m = 0"
  by (meson dvd_trans mod_0_imp_dvd dvd_imp_mod_0)

lemma year_start_Suc: "year_start (y + 1) = year_start y + (if leap_year y then 366 else 365)"
  using mod_dvd_zero [of 100 400 y] mod_dvd_zero [of 4 100 y]
  by (auto simp: year_start_def leap_year_def Let_def div_pred)

lemma year_start_mono: "y < y' \<Longrightarrow> year_start y + 365 \<le> year_start y'"
proof (induction "nat (y' - y)" arbitrary: y')
  case (Suc n)
  have step: "year_start (y' - 1) + 365 \<le> year_start y'" using year_start_Suc [of "y' - 1"] by simp
  show ?case
  proof (cases "y' = y + 1")
    case False
    with Suc.prems Suc.hyps have "year_start y + 365 \<le> year_start (y' - 1)" by (intro Suc.hyps(1)) auto
    with step show ?thesis by simp
  qed (use step in simp)
qed simp

lemma div_bounds: "0 < (n::int) \<Longrightarrow> n * (k div n) \<le> k \<and> k < n * (k div n) + n"
  by (metis add_left_cancel add_less_cancel_left mult_div_mod_eq pos_mod_bound pos_mod_sign le_add_same_cancel1)

lemma year_of_bounds: "year_start (year_of d) \<le> d \<and> d < year_start (year_of d + 1)"
proof -
  define k where "k = 400 * d div 146097"
  have k: "146097 * k \<le> 400 * d" "400 * d < 146097 * k + 146097"
    using div_bounds [of 146097 "400 * d"] by (simp_all add: k_def)
  have "year_start k \<le> d"
    using k div_bounds [of 4 "k - 1"] div_bounds [of 100 "k - 1"] div_bounds [of 400 "k - 1"]
    by (simp add: year_start_def Let_def)
  moreover have "d < year_start (k + 1 + 1 + 1)"
    using k div_bounds [of 4 "k + 2"] div_bounds [of 100 "k + 2"] div_bounds [of 400 "k + 2"]
    by (simp add: year_start_def Let_def)
  ultimately show ?thesis by (auto simp: year_of_def k_def [symmetric] Let_def)
qed

text \<open>Where a day of a year lies: the months before it, and a day of its month.\<close>

lemma month_day_sound:
  assumes "0 \<le> n" and "n < sum_list ls" and "month_day m ls n = (m', dd)"
  shows "\<exists>i < length ls. m' = m + int i \<and> n = sum_list (take i ls) + dd - 1 \<and> 1 \<le> dd \<and> dd \<le> ls ! i"
  using assms
proof (induction m ls n rule: month_day.induct)
  case (1 m l l' ls n)
  show ?case
  proof (cases "n < l")
    case True
    with 1 show ?thesis by (intro exI [of _ 0]) auto
  next
    case False
    with 1 obtain i where "i < length (l' # ls)" "m' = m + 1 + int i" "n - l = sum_list (take i (l' # ls)) + dd - 1"
      "1 \<le> dd" "dd \<le> (l' # ls) ! i" by auto
    then show ?thesis by (intro exI [of _ "Suc i"]) auto
  qed
next
  case (2 m l n)
  then show ?case by (intro exI [of _ 0]) auto
qed simp

lemma year_length: "sum_list (month_lengths y) = year_start (y + 1) - year_start y"
  by (simp add: month_lengths_def year_start_Suc)

lemma civil_sound:
  assumes "civil d = (y, m, dd)"
  shows "1 \<le> m \<and> m \<le> 12 \<and> 1 \<le> dd \<and> dd \<le> month_lengths y ! nat (m - 1) \<and>
    d + EPOCH_DAY = year_start y + sum_list (take (nat (m - 1)) (month_lengths y)) + dd - 1"
proof -
  have y: "y = year_of (d + EPOCH_DAY)" and md: "month_day 1 (month_lengths y) (d + EPOCH_DAY - year_start y) = (m, dd)"
    using assms by (auto simp: civil_def Let_def)
  have "0 \<le> d + EPOCH_DAY - year_start y" "d + EPOCH_DAY - year_start y < sum_list (month_lengths y)"
    using year_of_bounds [of "d + EPOCH_DAY"] by (simp_all add: y year_length)
  from month_day_sound [OF this md] obtain i where "i < length (month_lengths y)" "m = 1 + int i"
    "d + EPOCH_DAY - year_start y = sum_list (take i (month_lengths y)) + dd - 1" "1 \<le> dd" "dd \<le> month_lengths y ! i"
    by blast
  then show ?thesis by (auto simp: month_lengths_def)
qed

lemma civil_bounds:
  assumes "civil d = (y, m, dd)"
  shows "0 \<le> m" "m < 100" "0 \<le> dd" "dd < 100"
proof -
  note c = civil_sound [OF assms]
  have "length (month_lengths y) = 12" by (simp add: month_lengths_def)
  moreover have "nat (m - 1) < 12" using c by linarith
  ultimately have "nat (m - 1) < length (month_lengths y)" by simp
  then have "month_lengths y ! nat (m - 1) \<in> set (month_lengths y)" by simp
  then have "month_lengths y ! nat (m - 1) \<le> 31" by (auto simp: month_lengths_def)
  with c show "0 \<le> m" "m < 100" "0 \<le> dd" "dd < 100" by auto
qed

section \<open>The order of the texts\<close>

lemma month_day_mono:
  assumes "0 \<le> n" and "n < n'" and "n' < sum_list ls"
  shows "fst (month_day m ls n) < fst (month_day m ls n') \<or>
    fst (month_day m ls n) = fst (month_day m ls n') \<and> snd (month_day m ls n) < snd (month_day m ls n')"
  using assms
proof (induction m ls n arbitrary: n' rule: month_day.induct)
  case (1 m l l' ls n)
  have later: "m < fst (month_day (m + 1) (l' # ls) (n' - l))" if "\<not> n' < l"
  proof -
    obtain m' dd where md: "month_day (m + 1) (l' # ls) (n' - l) = (m', dd)" by force
    have "0 \<le> n' - l" "n' - l < sum_list (l' # ls)" using that 1 by auto
    from month_day_sound [OF this md] md show ?thesis by auto
  qed
  from 1 later show ?case by auto
qed auto

lemma civil_mono:
  assumes "d < d'" and "civil d = (y, m, dd)" and "civil d' = (y', m', dd')"
  shows "y < y' \<or> y = y' \<and> (m < m' \<or> m = m' \<and> dd < dd')"
proof -
  have y: "y = year_of (d + EPOCH_DAY)" "y' = year_of (d' + EPOCH_DAY)"
    and md: "month_day 1 (month_lengths y) (d + EPOCH_DAY - year_start y) = (m, dd)"
      "month_day 1 (month_lengths y') (d' + EPOCH_DAY - year_start y') = (m', dd')"
    using assms(2,3) by (auto simp: civil_def Let_def)
  note b = year_of_bounds [of "d + EPOCH_DAY"] year_of_bounds [of "d' + EPOCH_DAY"]
  have "\<not> y' < y"
  proof
    assume "y' < y"
    then have "year_start (y' + 1) \<le> year_start y" using year_start_mono [of "y' + 1" y] by (cases "y' + 1 = y") auto
    with b y assms(1) show False by simp
  qed
  moreover have "m < m' \<or> m = m' \<and> dd < dd'" if "y = y'"
    using month_day_mono [of "d + EPOCH_DAY - year_start y" "d' + EPOCH_DAY - year_start y" "month_lengths y" 1]
      md b y that assms(1) by (simp add: year_length)
  ultimately show ?thesis by linarith
qed

lemma length_zero_padded [simp]: "length (zero_padded w n) = w"
  by (induction w arbitrary: n) auto

lemma append_less:
  fixes a b :: "'a::linorder list"
  assumes "length a = length b"
  shows "a < b \<Longrightarrow> a @ x < b @ y" "a = b \<Longrightarrow> x < y \<Longrightarrow> a @ x < b @ y"
  using assms
proof (induction a b rule: list_induct2)
  case (Cons u us v vs)
  { case 1
    then show ?case using Cons.IH(1) by (auto simp: Cons_less_Cons)
  next
    case 2
    then show ?case using Cons.IH(2) by (auto simp: Cons_less_Cons) }
qed auto

lemma digit_less: "0 \<le> i \<Longrightarrow> i < j \<Longrightarrow> j < 10 \<Longrightarrow> digit i < digit j"
  by (simp add: digit_def less_char_def nat_less_eq_zless)

lemma zero_padded_less:
  "0 \<le> n \<Longrightarrow> n < n' \<Longrightarrow> n' < 10 ^ w \<Longrightarrow> zero_padded w n < zero_padded w n'"
proof (induction w arbitrary: n n')
  case (Suc w)
  have up: "n' div 10 < 10 ^ w" using Suc.prems(3) by simp
  show ?case
  proof (cases "n div 10 < n' div 10")
    case True
    with Suc.IH [OF _ True up] Suc.prems(1) show ?thesis by (auto intro: append_less(1))
  next
    case False
    with Suc.prems(2) have "n div 10 = n' div 10" "n mod 10 < n' mod 10" by presburger+
    then show ?thesis using digit_less [of "n mod 10" "n' mod 10"] by (auto intro!: append_less(2) simp: Cons_less_Cons)
  qed
qed simp

lemma year_text_four: "1 \<le> y \<Longrightarrow> y < 10000 \<Longrightarrow> year_text y = zero_padded 4 y"
proof -
  assume y: "1 \<le> y" "y < 10000"
  then have "nat y < 10000" by simp
  then have "digits_of (nat y) \<le> 4" by (simp add: digits_of.simps)
  with y show ?thesis by (simp add: year_text_def max_def Let_def)
qed

definition FIRST_DAY :: int where
  "FIRST_DAY = - 719162"

definition LAST_DAY :: int where
  "LAST_DAY = 2932896"

lemma civil_year:
  assumes "FIRST_DAY \<le> d" and "d \<le> LAST_DAY" and "civil d = (y, m, dd)"
  shows "1 \<le> y" "y < 10000"
proof -
  have "y = year_of (d + EPOCH_DAY)" using assms(3) by (auto simp: civil_def Let_def)
  with year_of_bounds [of "d + EPOCH_DAY"] have b: "year_start y \<le> d + EPOCH_DAY" "d + EPOCH_DAY < year_start (y + 1)"
    by simp_all
  have s: "year_start 1 = 0" "year_start 10000 = 3652059" by (simp_all add: year_start_def)
  have "\<not> y + 1 \<le> 1" using b assms(1) year_start_mono [of "y + 1" 1] s(1)
    by (cases "y + 1 = 1") (auto simp: FIRST_DAY_def EPOCH_DAY_def)
  then show "1 \<le> y" by linarith
  have "\<not> 10000 \<le> y" using b assms(2) year_start_mono [of 10000 y] s(2)
    by (cases "y = 10000") (auto simp: LAST_DAY_def EPOCH_DAY_def)
  then show "y < 10000" by linarith
qed

lemma iso_date_less:
  assumes "d < d'" and "FIRST_DAY \<le> d" and "d' \<le> LAST_DAY"
  shows "iso_date d < iso_date d'"
proof -
  obtain y m dd y' m' dd' where c: "civil d = (y, m, dd)" "civil d' = (y', m', dd')" by (metis prod_cases3)
  have y: "1 \<le> y" "y < 10000" "1 \<le> y'" "y' < 10000"
    using civil_year [OF _ _ c(1)] civil_year [OF _ _ c(2)] assms by auto
  note b = civil_bounds [OF c(1)] civil_bounds [OF c(2)]
  have years: "y < y' \<Longrightarrow> zero_padded 4 y < zero_padded 4 y'" using y by (intro zero_padded_less) auto
  have months: "m < m' \<Longrightarrow> zero_padded 2 m < zero_padded 2 m'" using b by (intro zero_padded_less) auto
  have days: "dd < dd' \<Longrightarrow> zero_padded 2 dd < zero_padded 2 dd'" using b by (intro zero_padded_less) auto
  let ?t = "\<lambda>y m dd. zero_padded 4 y @ ''-'' @ zero_padded 2 m @ ''-'' @ zero_padded 2 dd"
  from civil_mono [OF assms(1) c] have "?t y m dd < ?t y' m' dd'"
  proof (elim disjE conjE)
    assume "y < y'"
    from append_less(1) [OF _ years [OF this]] show ?thesis by simp
  next
    assume "y = y'" "m < m'"
    have "zero_padded 2 m @ ''-'' @ zero_padded 2 dd < zero_padded 2 m' @ ''-'' @ zero_padded 2 dd'"
      by (rule append_less(1) [OF _ months [OF \<open>m < m'\<close>]]) simp
    then show ?thesis using \<open>y = y'\<close> by (simp add: append_less(2))
  next
    assume "y = y'" "m = m'" "dd < dd'"
    then show ?thesis using days by (simp add: append_less(2))
  qed
  then show ?thesis
    unfolding iso_date_def c prod.case year_text_four [OF y(1,2)] year_text_four [OF y(3,4)] .
qed

lemma iso_date_inj:
  assumes "FIRST_DAY \<le> d" "d \<le> LAST_DAY" "FIRST_DAY \<le> d'" "d' \<le> LAST_DAY"
  shows "iso_date d = iso_date d' \<longleftrightarrow> d = d'"
  using iso_date_less [of d d'] iso_date_less [of d' d] assms by (metis less_irrefl linorder_neqE)

end
