(* ===== verification/Reports.thy ===== *)
theory Reports
  imports Config Ch_Usage Calendar
begin

text \<open>
  Billing reads over the Postgres ledger: the two queries of \<open>crates/meter-store-pg/src/report.rs\<close> and the
  routes that answer them, \<open>crates/meter-api/src/routes/invoices.rs\<close>, \<open>routes/analytics.rs\<close> and the
  budget status of \<open>routes/budgets.rs\<close> with the limits of the configuration store.

  The days of the series are those of \<open>Calendar\<close>.
\<close>

section \<open>Queries\<close>

text \<open>
  The \<open>WHERE\<close> clause of \<open>period_usage\<close>, \<open>account_id = $1 AND entry_type IN ('settle', 'usage') AND
  created_at >= $2 AND created_at < $3\<close>; the driver sends the two times in microseconds.
\<close>

definition spend_rows :: "pg \<Rightarrow> account_id \<Rightarrow> time \<Rightarrow> time \<Rightarrow> db \<Rightarrow> pg_entry list" where
  "spend_rows P a start until d = filter (\<lambda>r. pe_account_id r = as_uuid a \<and>
     pe_entry_type r \<in> {''settle'', ''usage''} \<and>
     pg_micros P start \<le> pe_created_at r \<and> pe_created_at r < pg_micros P until) (tb_entries d)"

definition spent :: "pg_entry list \<Rightarrow> rat" where
  "spent rows = sum_list (map (\<lambda>r. - pe_delta r) rows)"

definition total_col :: "pg \<Rightarrow> rat \<Rightarrow> ledger_error + rat" where
  "total_col P v = (case decode_numeric P ''total'' v of Inl f \<Rightarrow> Inl (Backend (pg_text P f)) | Inr x \<Rightarrow> Inr x)"

definition pg_period_usage ::
  "pg \<Rightarrow> db \<Rightarrow> account_id \<Rightarrow> time \<Rightarrow> time \<Rightarrow> (db, ledger_error, period_usage) sres" where
  "pg_period_usage P d a start until =
     sbind (on_pool P (\<lambda>d. let rows = spend_rows P a start until d in Inr (d, spent rows, length rows)) d)
       (\<lambda>d (v, n). Some (d, map_sum id (\<lambda>x. \<lparr>total_credits = x, entry_count = n\<rparr>) (total_col P v)))"

record pg_day_usage =
  pd_day :: string
  pd_total_credits :: credit
  pd_entry_count :: nat

text \<open>The \<open>WHERE\<close> clause of \<open>usage_by_day\<close>, a query of its own.\<close>

definition day_spend_rows :: "pg \<Rightarrow> account_id \<Rightarrow> time \<Rightarrow> time \<Rightarrow> db \<Rightarrow> pg_entry list" where
  "day_spend_rows P a start until d = filter (\<lambda>r. pe_account_id r = as_uuid a \<and>
     pe_entry_type r \<in> {''settle'', ''usage''} \<and>
     pg_micros P start \<le> pe_created_at r \<and> pe_created_at r < pg_micros P until) (tb_entries d)"

definition pg_usage_by_day ::
  "pg \<Rightarrow> db \<Rightarrow> account_id \<Rightarrow> time \<Rightarrow> time \<Rightarrow> (db, ledger_error, pg_day_usage list) sres" where
  "pg_usage_by_day P d a start until =
     sbind (on_pool P (\<lambda>d. Inr (d, sort_key fst
         (map (\<lambda>(day, rows). (day, spent rows, length rows))
           (group_by (\<lambda>r. day_text (pe_created_at r)) (day_spend_rows P a start until d))))) d)
       (\<lambda>d days. Some (d, all_rows (\<lambda>(day, v, n).
          map_sum id (\<lambda>x. \<lparr>pd_day = day, pd_total_credits = x, pd_entry_count = n\<rparr>) (total_col P v)) days))"

section \<open>Routes\<close>

record invoice_response =
  inv_account_id :: account_id
  inv_total_credits :: credit
  inv_entries :: nat

definition or_ledger :: "('s, ledger_error, 'a) sres \<Rightarrow> ('s, api_error, 'a) sres" where
  "or_ledger m = map_option (map_prod id (map_sum ApiLedger id)) m"

definition invoice :: "pg \<Rightarrow> db \<Rightarrow> uuid \<Rightarrow> time \<Rightarrow> time \<Rightarrow> (db, api_error, invoice_response) sres" where
  "invoice P d i start until =
     sbind (or_ledger (pg_period_usage P d (Id i) start until)) (\<lambda>d u.
       Some (d, Inr \<lparr>inv_account_id = Id i, inv_total_credits = total_credits u, inv_entries = entry_count u\<rparr>))"

definition route_usage_by_day ::
  "pg \<Rightarrow> db \<Rightarrow> uuid \<Rightarrow> time \<Rightarrow> time \<Rightarrow> (db, api_error, pg_day_usage list) sres" where
  "route_usage_by_day P d i start until = or_ledger (pg_usage_by_day P d (Id i) start until)"

record budget_status_response =
  bs_used_credits :: string
  bs_limit_credits :: string
  bs_remaining_credits :: string
  bs_ratio :: string
  bs_status :: string

text \<open>The limit of the query, else the configured budget.\<close>

definition budget_limit ::
  "deps \<Rightarrow> pg \<Rightarrow> config \<Rightarrow> uuid \<Rightarrow> string option \<Rightarrow> (config, api_error, rat) sres" where
  "budget_limit D P c i limit = (case limit of
      Some v \<Rightarrow> Some (c, case dec_parse D v of None \<Rightarrow> Inl (unprocessable ''invalid limit'') | Some x \<Rightarrow> Inr x)
    | None \<Rightarrow> sbind (or_ledger (budget P c i)) (\<lambda>c b. Some (c, case b of
        None \<Rightarrow> Inl (unprocessable ''limit required: no budget configured for this account'')
      | Some bg \<Rightarrow> Inr (bg_limit_credits bg))))"

definition budget_status ::
  "deps \<Rightarrow> pg \<Rightarrow> pg \<Rightarrow> config \<times> db \<Rightarrow> uuid \<Rightarrow> time \<Rightarrow> time \<Rightarrow> string option \<Rightarrow>
   (config \<times> db, api_error, budget_status_response) sres" where
  "budget_status D P Q w i start until limit = (case w of (c, d) \<Rightarrow>
     sbind (map_option (map_prod (\<lambda>c. (c, d)) id) (budget_limit D P c i limit)) (\<lambda>(c, d) lim.
     sbind (map_option (map_prod (Pair c) id) (or_ledger (pg_period_usage Q d (Id i) start until))) (\<lambda>w u.
       do { (ratio, st) \<leftarrow> classify D (total_credits u) lim;
            remaining \<leftarrow> dec_sub D lim (total_credits u);
            Some (w, Inr \<lparr>bs_used_credits = dec_str D (total_credits u), bs_limit_credits = dec_str D lim,
              bs_remaining_credits = dec_str D remaining, bs_ratio = dec_str D ratio, bs_status = st\<rparr>) })))"

end
