(* ===== verification/Ch_Log.thy ===== *)
theory Ch_Log
  imports Ch_Usage Api
begin

text \<open>
  The append-only tables of the ClickHouse store that no event method touches: the audit log
  (\<open>record_audit\<close>, \<open>list_audit\<close>) and the dead letters (\<open>record_dead_letter\<close>, \<open>list_dead_letter\<close>,
  \<open>dead_letter_count\<close>), and the middleware and route of \<open>crates/meter-api/src/routes/audit.rs\<close>.
\<close>

section \<open>Tables\<close>

record audit_row =
  aud_id :: uuid
  aud_actor :: string
  aud_method :: string
  aud_path :: string
  aud_status :: int
  aud_request_id :: string
  aud_created_at :: time

record audit_entry =
  audit_id :: string
  audit_actor :: string
  audit_method :: string
  audit_path :: string
  audit_status :: int
  audit_request_id :: string
  audit_created_at :: time

record audit_filter =
  by_actor :: "string option"
  by_method :: "string option"
  since_time :: "time option"
  until_time :: "time option"

record dead_letter =
  dead_id :: uuid
  dead_org_id :: uuid
  dead_source :: string
  dead_payload :: string
  dead_error :: string
  dead_received_at :: time

record ch_logs =
  log_audit :: "audit_row list"
  log_dead :: "dead_letter list"
  log_calls :: nat

definition log_call :: "ch \<Rightarrow> (ch_logs \<Rightarrow> ch_logs \<times> 'a) \<Rightarrow> ch_logs \<Rightarrow> (ch_logs, string, 'a) sres" where
  "log_call P f x = (let x1 = x\<lparr>log_calls := Suc (log_calls x)\<rparr> in
     case ch_fault P (log_calls x) of
       None \<Rightarrow> (case f x1 of (y, a) \<Rightarrow> Some (y, Inr a))
     | Some (Refused m) \<Rightarrow> Some (x1, Inl m)
     | Some (AckLost m) \<Rightarrow> Some (fst (f x1), Inl m))"

section \<open>The audit log\<close>

definition audit_row_to_entry :: "deps \<Rightarrow> audit_row \<Rightarrow> audit_entry" where
  "audit_row_to_entry D r = \<lparr>audit_id = uuid_str D (aud_id r), audit_actor = aud_actor r, audit_method = aud_method r,
     audit_path = aud_path r, audit_status = aud_status r, audit_request_id = aud_request_id r,
     audit_created_at = aud_created_at r\<rparr>"

definition record_audit ::
  "ch \<Rightarrow> env \<Rightarrow> ch_logs \<Rightarrow> string \<Rightarrow> string \<Rightarrow> string \<Rightarrow> int \<Rightarrow> string \<Rightarrow> (ch_logs, string, unit) sres" where
  "record_audit P E x actor mthd path status request_id = log_call P (\<lambda>x. (x\<lparr>log_audit := log_audit x @
     [\<lparr>aud_id = new_v7 E 0, aud_actor = actor, aud_method = mthd, aud_path = path, aud_status = status,
       aud_request_id = request_id, aud_created_at = to_millis P (now_utc E 0)\<rparr>]\<rparr>, ())) x"

text \<open>\<open>unix_timestamp_nanos() / 1_000_000\<close>, which truncates towards zero.\<close>

definition unix_millis :: "time \<Rightarrow> int" where
  "unix_millis t = sgn t * (\<bar>t\<bar> div 1000000)"

definition audit_matches :: "audit_filter \<Rightarrow> audit_row \<Rightarrow> bool" where
  "audit_matches f r \<longleftrightarrow>
     (case by_actor f of None \<Rightarrow> True | Some a \<Rightarrow> aud_actor r = a) \<and>
     (case by_method f of None \<Rightarrow> True | Some m \<Rightarrow> aud_method r = m) \<and>
     (case since_time f of None \<Rightarrow> True | Some t \<Rightarrow> unix_millis t \<le> unix_millis (aud_created_at r)) \<and>
     (case until_time f of None \<Rightarrow> True | Some t \<Rightarrow> unix_millis (aud_created_at r) < unix_millis t)"

text \<open>\<open>ORDER BY created_at DESC, id DESC LIMIT ?\<close>; the only caller passes a limit from 1 to 1000.\<close>

definition newest_first :: "ch \<Rightarrow> audit_row list \<Rightarrow> audit_row list" where
  "newest_first P rows = sort_key (\<lambda>r. - aud_created_at r) (sort_key (\<lambda>r. - int (uuid_rank P (aud_id r))) rows)"

definition list_audit :: "deps \<Rightarrow> ch \<Rightarrow> ch_logs \<Rightarrow> int \<Rightarrow> audit_filter \<Rightarrow> (ch_logs, string, audit_entry list) sres" where
  "list_audit D P x limit f = log_call P (\<lambda>x. (x, map (audit_row_to_entry D)
     (take (nat limit) (newest_first P (filter (audit_matches f) (log_audit x)))))) x"

section \<open>Dead letters\<close>

definition record_dead_letter :: "ch \<Rightarrow> ch_logs \<Rightarrow> dead_letter list \<Rightarrow> (ch_logs, string, unit) sres" where
  "record_dead_letter P x rows = log_call P (\<lambda>x. (x\<lparr>log_dead := log_dead x @
     map (\<lambda>r. r\<lparr>dead_received_at := to_millis P (dead_received_at r)\<rparr>) rows\<rparr>, ())) x"

definition list_dead_letter :: "ch \<Rightarrow> ch_logs \<Rightarrow> uuid \<Rightarrow> (ch_logs, string, dead_letter list) sres" where
  "list_dead_letter P x org = log_call P (\<lambda>x. (x, sort_key (\<lambda>r. - dead_received_at r)
     (filter (\<lambda>r. dead_org_id r = org) (log_dead x)))) x"

definition dead_letter_count :: "ch \<Rightarrow> ch_logs \<Rightarrow> uuid \<Rightarrow> (ch_logs, string, 64 word) sres" where
  "dead_letter_count P x org = log_call P (\<lambda>x. (x, of_nat (length (filter (\<lambda>r. dead_org_id r = org) (log_dead x))))) x"

section \<open>The middleware and the route\<close>

definition is_mutating :: "string \<Rightarrow> bool" where
  "is_mutating mthd \<longleftrightarrow> mthd \<in> {''POST'', ''PUT'', ''PATCH'', ''DELETE''}"

record http_request =
  req_method :: string
  req_path :: string
  req_actor :: "string option"
  req_request_id :: "string option"

text \<open>
  \<open>next.run(request)\<close> is the rest of the application: what it returns, with its status. The reply of
  \<open>record_audit\<close> is dropped.
\<close>

definition audit_middleware ::
  "ch \<Rightarrow> env \<Rightarrow> ch_logs \<Rightarrow> http_request \<Rightarrow> (http_request \<Rightarrow> int \<times> 'b) \<Rightarrow> ch_logs \<times> int \<times> 'b" where
  "audit_middleware P E x req next_run = (let response = next_run req in
     (if is_mutating (req_method req)
      then case record_audit P E x (case req_actor req of None \<Rightarrow> ''system'' | Some a \<Rightarrow> a) (req_method req) (req_path req)
             (fst response) (case req_request_id req of None \<Rightarrow> [] | Some i \<Rightarrow> i) of
           None \<Rightarrow> x | Some (y, _) \<Rightarrow> y
      else x, response))"

record audit_query =
  qry_limit :: int
  qry_actor :: "string option"
  qry_method :: "string option"
  qry_since :: "string option"
  qry_until :: "string option"

definition default_limit :: int where
  "default_limit = 100"

text \<open>
  \<open>OffsetDateTime::parse(_, Rfc3339)\<close> of the \<open>time\<close> crate is the argument \<open>rfc3339\<close>; \<open>Ok\<close> or its error.
\<close>

definition parse_bound :: "(string \<Rightarrow> time option) \<Rightarrow> string option \<Rightarrow> string \<Rightarrow> api_error + time option" where
  "parse_bound rfc3339 raw field = (case raw of
      None \<Rightarrow> Inr None
    | Some s \<Rightarrow> (case rfc3339 s of
        None \<Rightarrow> Inl (unprocessable (''invalid '' @ field @ '': '' @ s)) | Some t \<Rightarrow> Inr (Some t)))"

definition clamp :: "int \<Rightarrow> int \<Rightarrow> int \<Rightarrow> int" where
  "clamp lo hi n = min hi (max lo n)"

definition api_internal :: "string \<Rightarrow> api_error" where
  "api_internal message = ApiStatus 500 ''internal'' message"

text \<open>\<open>ChError::Client\<close>: the text of an error of the client, as the store reports it.\<close>

definition ch_error_text :: "string \<Rightarrow> string" where
  "ch_error_text m = ''clickhouse: '' @ m"

definition audit_list ::
  "deps \<Rightarrow> ch \<Rightarrow> (string \<Rightarrow> time option) \<Rightarrow> ch_logs \<Rightarrow> audit_query \<Rightarrow> (ch_logs, api_error, audit_entry list) sres" where
  "audit_list D P rfc3339 x q =
     (case parse_bound rfc3339 (qry_since q) ''since'' of
        Inl e \<Rightarrow> Some (x, Inl e)
      | Inr since \<Rightarrow> (case parse_bound rfc3339 (qry_until q) ''until'' of
          Inl e \<Rightarrow> Some (x, Inl e)
        | Inr until \<Rightarrow> map_option (map_prod id (map_sum (\<lambda>e. api_internal (''audit: '' @ ch_error_text e)) id))
            (list_audit D P x (clamp 1 1000 (qry_limit q))
               \<lparr>by_actor = qry_actor q, by_method = qry_method q, since_time = since, until_time = until\<rparr>)))"

section \<open>The analytics routes\<close>

text \<open>Each hands the organization to the store; an error of the store is an internal error.\<close>

definition or_internal :: "('s, string, 'a) sres \<Rightarrow> ('s, api_error, 'a) sres" where
  "or_internal m = map_option (map_prod id (map_sum (api_internal \<circ> ch_error_text) id)) m"

definition route_usage_by_model :: "ch \<Rightarrow> ch_store \<Rightarrow> uuid \<Rightarrow> (ch_store, api_error, model_usage list) sres" where
  "route_usage_by_model P x i = or_internal (usage_by_model P x i)"

definition route_usage_by_field :: "ch \<Rightarrow> ch_store \<Rightarrow> uuid \<Rightarrow> string \<Rightarrow> (ch_store, api_error, field_usage list) sres" where
  "route_usage_by_field P x i field = or_internal (usage_by_field P x i field)"

definition org_usage_by_day :: "ch \<Rightarrow> ch_store \<Rightarrow> uuid \<Rightarrow> (ch_store, api_error, day_usage list) sres" where
  "org_usage_by_day P x i = or_internal (usage_by_day P x i)"

definition route_reconcile :: "ch \<Rightarrow> ch_store \<Rightarrow> uuid \<Rightarrow> (ch_store, api_error, rollup_drift list) sres" where
  "route_reconcile P x i = or_internal (reconcile_rollups P x i)"

definition route_event_count :: "ch \<Rightarrow> ch_store \<Rightarrow> uuid \<Rightarrow> (ch_store, api_error, 64 word) sres" where
  "route_event_count P x i = or_internal (event_count_ch P x i)"

section \<open>What they do\<close>

text \<open>
  The audit log is best effort and complete. The middleware answers exactly what the application
  answered, whatever became of the audit call; a request that is not mutating leaves the log alone,
  and a mutating one appends one row, with the method, path, status and actor of the request,
  unless the call was refused.
\<close>

theorem audit_middleware_exact:
  "snd (audit_middleware P E x req run) = run req \<and>
   (let y = fst (audit_middleware P E x req run) in
    if is_mutating (req_method req) \<and> (\<nexists>m. ch_fault P (log_calls x) = Some (Refused m))
    then log_audit y = log_audit x @ [\<lparr>aud_id = new_v7 E 0, aud_actor = (case req_actor req of None \<Rightarrow> ''system'' | Some a \<Rightarrow> a),
        aud_method = req_method req, aud_path = req_path req, aud_status = fst (run req),
        aud_request_id = (case req_request_id req of None \<Rightarrow> [] | Some i \<Rightarrow> i), aud_created_at = to_millis P (now_utc E 0)\<rparr>]
    else log_audit y = log_audit x)"
  by (auto simp: audit_middleware_def record_audit_def log_call_def Let_def split: option.splits fault.splits)

text \<open>
  A page of the audit log. It holds at most a thousand entries, all matching the filter, newest first,
  and it is everything that matches when that is no more than the limit.
\<close>

lemma newest_first_sorted: "sorted (map (\<lambda>r. - aud_created_at r) (newest_first P rows))"
  by (simp add: newest_first_def)

lemma clamp_bounds: "1 \<le> clamp 1 1000 n" "clamp 1 1000 n \<le> 1000"
  by (simp_all add: clamp_def)

theorem audit_page_sound:
  assumes "list_audit D P x (clamp 1 1000 n) f = Some (y, Inr page)"
  shows "length page \<le> 1000 \<and> sorted (map (\<lambda>e. - audit_created_at e) page) \<and>
    set page \<subseteq> audit_row_to_entry D ` {r \<in> set (log_audit x). audit_matches f r} \<and>
    (int (length (filter (audit_matches f) (log_audit x))) \<le> clamp 1 1000 n \<longrightarrow>
       set page = audit_row_to_entry D ` {r \<in> set (log_audit x). audit_matches f r})"
proof -
  let ?rows = "newest_first P (filter (audit_matches f) (log_audit x))"
  from assms have page: "page = map (audit_row_to_entry D) (take (nat (clamp 1 1000 n)) ?rows)"
    by (auto simp: list_audit_def log_call_def Let_def split: option.splits fault.splits)
  have len: "length ?rows = length (filter (audit_matches f) (log_audit x))" by (simp add: newest_first_def)
  have mem: "set ?rows = {r \<in> set (log_audit x). audit_matches f r}" by (auto simp: newest_first_def)
  have "length page \<le> 1000" using clamp_bounds(2) [of n] by (simp add: page)
  moreover have "sorted (map (\<lambda>e. - audit_created_at e) page)"
    using sorted_wrt_take [OF newest_first_sorted [of P "filter (audit_matches f) (log_audit x)"], of "nat (clamp 1 1000 n)"]
    by (simp add: page take_map audit_row_to_entry_def comp_def)
  moreover have "set page \<subseteq> audit_row_to_entry D ` set ?rows" using set_take_subset unfolding page by fastforce
  moreover have "set page = audit_row_to_entry D ` set ?rows"
    if "int (length (filter (audit_matches f) (log_audit x))) \<le> clamp 1 1000 n"
    using that len by (simp add: page)
  ultimately show ?thesis unfolding mem by blast
qed

end
