(* ===== verification/Grpc.thy ===== *)
theory Grpc
  imports Grpc_Config Reports Ch_Log
begin

text \<open>
  The gRPC surface, second part: the \<open>LedgerService\<close> (\<open>crates/meter-api/src/grpc/ledger.rs\<close>) over any ledger
  backend, the \<open>IngestService\<close> (\<open>grpc/ingest.rs\<close>) over any event store and the \<open>QueryService\<close> (\<open>grpc/query.rs\<close>)
  over the ClickHouse analytics and the Postgres ledger. A method reads its fields in the order of the
  code, so that the first bad field decides the status. \<open>rfc3339\<close> and \<open>json_str\<close> are the parsers of
  timestamps and of JSON text.
\<close>

section \<open>The ledger service\<close>

record v1_open_account =
  oa_org_id :: string
  oa_scope :: "32 word"
  oa_no_overdraft :: bool
  oa_parent_id :: string

record v1_grant =
  gr_account_id :: string
  gr_amount :: "string option"
  gr_source :: "32 word"
  gr_idempotency_key :: string

record v1_reserve =
  rs_account_id :: string
  rs_reservation_id :: string
  rs_amount :: "string option"
  rs_limit :: "32 word"
  rs_expires_at :: string
  rs_run_id :: string

record v1_reserve_response =
  rr_allowed :: bool
  rr_available :: "string option"
  rr_requested :: "string option"

record v1_settle =
  st_reservation_id :: string
  st_actual :: "string option"

record v1_void_run_response =
  vrr_holds_released :: nat
  vrr_charges_refunded :: nat
  vrr_credits_refunded :: "string option"

record v1_balance_response =
  br_settled :: "string option"
  br_held :: "string option"

definition account_scope_of :: "32 word \<Rightarrow> status + account_scope" where
  "account_scope_of n =
     (if n = 1 then Inr Org else if n = 2 then Inr Team else if n = 3 then Inr User
      else if n = 4 then Inr Product else if n = 5 then Inr Session else if n = 6 then Inr Promo
      else if n = 7 then Inr Paid else Inl (invalid_argument ''scope is required''))"

definition credit_source_of :: "32 word \<Rightarrow> status + credit_source" where
  "credit_source_of n =
     (if n = 1 then Inr Paid_source else if n = 2 then Inr Promo_source else if n = 3 then Inr Grant_source
      else Inl (invalid_argument ''source is required''))"

definition limit_class_of :: "32 word \<Rightarrow> status + limit_class" where
  "limit_class_of n =
     (if n = 1 then Inr Hard else if n = 2 then Inr Soft else Inl (invalid_argument ''limit is required''))"

text \<open>An optional field: an empty string is none.\<close>

definition optional :: "string \<Rightarrow> (string \<Rightarrow> status + 'a) \<Rightarrow> status + 'a option" where
  "optional v f = (if v = [] then Inr None else map_sum id Some (f v))"

definition grpc_open_account ::
  "deps \<Rightarrow> 'l ledger_ops \<Rightarrow> env \<Rightarrow> 'l \<Rightarrow> v1_open_account \<Rightarrow> ('l, status, string) sres" where
  "grpc_open_account D L E l req =
     checked l (optional (oa_parent_id req) (\<lambda>v. map_sum id Id (parse_uuid D v ''parent_id''))) (\<lambda>parent.
     checked l (parse_uuid D (oa_org_id req) ''org_id'') (\<lambda>org.
     checked l (account_scope_of (oa_scope req)) (\<lambda>sc.
     sbind (or_ledger_status (be_open_account L E l
         \<lparr>na_org_id = Id org, na_scope = sc, na_no_overdraft = oa_no_overdraft req, na_parent_id = parent\<rparr>))
       (\<lambda>l acct. Some (l, Inr (uuid_str D (as_uuid (acct_id acct))))))))"

definition grpc_grant ::
  "deps \<Rightarrow> 'l ledger_ops \<Rightarrow> env \<Rightarrow> 'l \<Rightarrow> v1_grant \<Rightarrow> ('l, status, string option) sres" where
  "grpc_grant D L E l req =
     checked l (parse_uuid D (gr_account_id req) ''account_id'') (\<lambda>a.
     checked l (credit_from_proto D (gr_amount req) ''amount'') (\<lambda>x.
     checked l (credit_source_of (gr_source req)) (\<lambda>src.
     sbind (or_ledger_status (be_grant L E l \<lparr>grant_account = Id a, grant_amount = x, grant_source = src,
         grant_idempotency_key = (if gr_idempotency_key req = [] then None else Some (gr_idempotency_key req))\<rparr>)) (\<lambda>l _.
     sbind (or_ledger_status (be_balance L l (Id a))) (\<lambda>l b.
       Some (l, Inr (Some (credit_to_proto D (bal_settled b)))))))))"

definition grpc_reserve ::
  "deps \<Rightarrow> (string \<Rightarrow> time option) \<Rightarrow> 'l ledger_ops \<Rightarrow> 'l \<Rightarrow> v1_reserve \<Rightarrow> ('l, status, v1_reserve_response) sres" where
  "grpc_reserve D rfc3339 L l req =
     checked l (optional (rs_expires_at req) (\<lambda>v. parse_time rfc3339 v ''expires_at'')) (\<lambda>expires.
     checked l (optional (rs_run_id req) (\<lambda>v. map_sum id Id (parse_uuid D v ''run_id''))) (\<lambda>run.
     checked l (parse_uuid D (rs_account_id req) ''account_id'') (\<lambda>a.
     checked l (parse_uuid D (rs_reservation_id req) ''reservation_id'') (\<lambda>r.
     checked l (credit_from_proto D (rs_amount req) ''amount'') (\<lambda>x.
     checked l (limit_class_of (rs_limit req)) (\<lambda>cls.
     sbind (or_ledger_status (be_reserve L l \<lparr>rsv_account = Id a, rsv_reservation_id = ReservationId r,
         rsv_amount = x, rsv_limit = cls, rsv_expires_at = expires, rsv_run_id = run\<rparr>)) (\<lambda>l outcome.
       Some (l, Inr (case outcome of
           Allowed _ \<Rightarrow> \<lparr>rr_allowed = True, rr_available = None, rr_requested = None\<rparr>
         | Denied left wanted \<Rightarrow> \<lparr>rr_allowed = False, rr_available = Some (credit_to_proto D left),
             rr_requested = Some (credit_to_proto D wanted)\<rparr>)))))))))"

definition grpc_settle ::
  "deps \<Rightarrow> 'l ledger_ops \<Rightarrow> env \<Rightarrow> 'l \<Rightarrow> v1_settle \<Rightarrow> ('l, status, string option) sres" where
  "grpc_settle D L E l req =
     checked l (parse_uuid D (st_reservation_id req) ''reservation_id'') (\<lambda>r.
     checked l (credit_from_proto D (st_actual req) ''actual'') (\<lambda>x.
     sbind (or_ledger_status (be_settle L E l \<lparr>settle_reservation_id = ReservationId r, settle_actual = x\<rparr>))
       (\<lambda>l e. Some (l, Inr (Some (credit_to_proto D (balance_after e)))))))"

definition grpc_void :: "deps \<Rightarrow> 'l ledger_ops \<Rightarrow> 'l \<Rightarrow> string \<Rightarrow> ('l, status, unit) sres" where
  "grpc_void D L l reservation =
     checked l (parse_uuid D reservation ''reservation_id'') (\<lambda>r.
     sbind (or_ledger_status (be_void L l (ReservationId r))) (\<lambda>l _. Some (l, Inr ())))"

definition grpc_extend_hold ::
  "deps \<Rightarrow> (string \<Rightarrow> time option) \<Rightarrow> 'l ledger_ops \<Rightarrow> 'l \<Rightarrow> string \<Rightarrow> string \<Rightarrow> ('l, status, unit) sres" where
  "grpc_extend_hold D rfc3339 L l reservation expires =
     checked l (parse_uuid D reservation ''reservation_id'') (\<lambda>r.
     checked l (parse_time rfc3339 expires ''expires_at'') (\<lambda>t.
     sbind (or_ledger_status (be_extend_hold L l (ReservationId r) t)) (\<lambda>l _. Some (l, Inr ()))))"

text \<open>The server's own clock decides which holds are expired.\<close>

definition grpc_void_expired_holds :: "'l ledger_ops \<Rightarrow> env \<Rightarrow> 'l \<Rightarrow> ('l, status, nat) sres" where
  "grpc_void_expired_holds L E l =
     sbind (or_ledger_status (be_void_expired_holds L l (now_utc E 0))) (\<lambda>l n. Some (l, Inr n))"

definition grpc_void_run ::
  "deps \<Rightarrow> 'l ledger_ops \<Rightarrow> env \<Rightarrow> 'l \<Rightarrow> string \<Rightarrow> ('l, status, v1_void_run_response) sres" where
  "grpc_void_run D L E l run =
     checked l (parse_uuid D run ''run_id'') (\<lambda>r.
     sbind (or_ledger_status (be_void_run L E l (Id r))) (\<lambda>l sm.
       Some (l, Inr \<lparr>vrr_holds_released = holds_released sm, vrr_charges_refunded = charges_refunded sm,
         vrr_credits_refunded = Some (credit_to_proto D (credits_refunded sm))\<rparr>)))"

definition grpc_balance ::
  "deps \<Rightarrow> 'l ledger_ops \<Rightarrow> 'l \<Rightarrow> string \<Rightarrow> ('l, status, v1_balance_response) sres" where
  "grpc_balance D L l account =
     checked l (parse_uuid D account ''account_id'') (\<lambda>a.
     sbind (or_ledger_status (be_balance L l (Id a))) (\<lambda>l b.
       Some (l, Inr \<lparr>br_settled = Some (credit_to_proto D (bal_settled b)),
         br_held = Some (credit_to_proto D (bal_held b))\<rparr>)))"

section \<open>The ingest service\<close>

record v1_record_event =
  re_org_id :: string
  re_idempotency_key :: string
  re_event_time :: string
  re_meter :: string
  re_account_id :: string
  re_run_id :: string
  re_properties :: string

record v1_amend_event =
  ae_event_id :: string
  ae_properties :: string
  ae_idempotency_key :: string

definition properties :: "(string \<Rightarrow> string + json) \<Rightarrow> string \<Rightarrow> status + json" where
  "properties json_str raw = (if raw = [] then Inr JNull
     else map_sum (\<lambda>e. invalid_argument (''invalid properties JSON: '' @ e)) id (json_str raw))"

text \<open>\<open>?\<close> between two conversions.\<close>

definition andthen :: "(status + 'a) \<Rightarrow> ('a \<Rightarrow> status + 'b) \<Rightarrow> status + 'b" where
  "andthen r f = (case r of Inl e \<Rightarrow> Inl e | Inr a \<Rightarrow> f a)"

definition record_event_of ::
  "deps \<Rightarrow> (string \<Rightarrow> time option) \<Rightarrow> (string \<Rightarrow> string + json) \<Rightarrow> time \<Rightarrow> v1_record_event \<Rightarrow> status + record_event" where
  "record_event_of D rfc3339 json_str now req =
     andthen (if re_event_time req = [] then Inr now else parse_time rfc3339 (re_event_time req) ''event_time'') (\<lambda>t.
     andthen (optional (re_run_id req) (\<lambda>v. map_sum id Id (parse_uuid D v ''run_id''))) (\<lambda>run.
     andthen (parse_uuid D (re_org_id req) ''org_id'') (\<lambda>org.
     andthen (parse_uuid D (re_account_id req) ''account_id'') (\<lambda>a.
     andthen (properties json_str (re_properties req)) (\<lambda>props.
       Inr \<lparr>rec_org_id = Id org, rec_idempotency_key = re_idempotency_key req, rec_event_time = t,
         rec_meter = re_meter req, rec_account_id = Id a, rec_run_id = run, rec_properties = props\<rparr>)))))"

definition grpc_record_event ::
  "deps \<Rightarrow> (string \<Rightarrow> time option) \<Rightarrow> (string \<Rightarrow> string + json) \<Rightarrow> 'x event_ops \<Rightarrow> (nat \<Rightarrow> env) \<Rightarrow> 'x \<Rightarrow>
   v1_record_event \<Rightarrow> ('x, status, string) sres" where
  "grpc_record_event D rfc3339 json_str X E x req =
     checked x (record_event_of D rfc3339 json_str (now_utc (E 0) 0) req) (\<lambda>q.
     sbind (or_event_status (ev_record X (E 1) x q)) (\<lambda>x e.
       Some (x, Inr (uuid_str D (as_uuid (event_id e))))))"

text \<open>\<open>collect::<Result<Vec<_>, _>>()\<close>: the first bad event is the reply and none is recorded.\<close>

fun record_events_of ::
  "deps \<Rightarrow> (string \<Rightarrow> time option) \<Rightarrow> (string \<Rightarrow> string + json) \<Rightarrow> env \<Rightarrow> nat \<Rightarrow> v1_record_event list \<Rightarrow>
   status + record_event list" where
  "record_events_of D rfc3339 json_str E k [] = Inr []"
| "record_events_of D rfc3339 json_str E k (req # reqs) =
     andthen (record_event_of D rfc3339 json_str (now_utc E k) req) (\<lambda>q.
     andthen (record_events_of D rfc3339 json_str E (Suc k) reqs) (\<lambda>qs. Inr (q # qs)))"

definition grpc_record_batch ::
  "deps \<Rightarrow> (string \<Rightarrow> time option) \<Rightarrow> (string \<Rightarrow> string + json) \<Rightarrow> 'x event_ops \<Rightarrow> (nat \<Rightarrow> env) \<Rightarrow> 'x \<Rightarrow>
   v1_record_event list \<Rightarrow> ('x, status, nat) sres" where
  "grpc_record_batch D rfc3339 json_str X E x reqs =
     checked x (record_events_of D rfc3339 json_str (E 0) 0 reqs) (\<lambda>qs.
     sbind (or_event_status (ev_record_batch X (E 1) x qs)) (\<lambda>x es. Some (x, Inr (length es))))"

definition grpc_amend_event ::
  "deps \<Rightarrow> (string \<Rightarrow> string + json) \<Rightarrow> 'x event_ops \<Rightarrow> env \<Rightarrow> 'x \<Rightarrow> v1_amend_event \<Rightarrow> ('x, status, string) sres" where
  "grpc_amend_event D json_str X E x req =
     checked x (parse_uuid D (ae_event_id req) ''event_id'') (\<lambda>i.
     checked x (properties json_str (ae_properties req)) (\<lambda>props.
     sbind (or_event_status (ev_amend X E x \<lparr>amend_event_id = Id i, amend_properties = props,
         amend_idempotency_key = (if ae_idempotency_key req = [] then None else Some (ae_idempotency_key req))\<rparr>))
       (\<lambda>x e. Some (x, Inr (uuid_str D (as_uuid (event_id e)))))))"

definition grpc_void_run_events :: "deps \<Rightarrow> 'x event_ops \<Rightarrow> 'x \<Rightarrow> string \<Rightarrow> ('x, status, nat) sres" where
  "grpc_void_run_events D X x run =
     checked x (parse_uuid D run ''run_id'') (\<lambda>r.
     sbind (or_event_status (ev_void_run X x (Id r))) (\<lambda>x n. Some (x, Inr n)))"

section \<open>The query service\<close>

definition status_from_ch :: "string \<Rightarrow> status" where
  "status_from_ch e = \<lparr>grpc_code = CodeInternal, grpc_message = Said (ch_error_text e)\<rparr>"

definition or_ch_status :: "('s, string, 'a) sres \<Rightarrow> ('s, status, 'a) sres" where
  "or_ch_status m = map_option (map_prod id (map_sum status_from_ch id)) m"

text \<open>The proto rows have the fields of the store's rows; \<open>credits\<close> is printed.\<close>

definition grpc_usage_by_model :: "deps \<Rightarrow> ch \<Rightarrow> ch_store \<Rightarrow> string \<Rightarrow> (ch_store, status, model_usage list) sres" where
  "grpc_usage_by_model D P x org =
     checked x (parse_uuid D org ''org_id'') (\<lambda>i. or_ch_status (usage_by_model P x i))"

definition grpc_usage_by_field ::
  "deps \<Rightarrow> ch \<Rightarrow> ch_store \<Rightarrow> string \<Rightarrow> string \<Rightarrow> (ch_store, status, field_usage list) sres" where
  "grpc_usage_by_field D P x org field =
     checked x (parse_uuid D org ''org_id'') (\<lambda>i. or_ch_status (usage_by_field P x i field))"

definition grpc_usage_by_day :: "deps \<Rightarrow> ch \<Rightarrow> ch_store \<Rightarrow> string \<Rightarrow> (ch_store, status, day_usage list) sres" where
  "grpc_usage_by_day D P x org =
     checked x (parse_uuid D org ''org_id'') (\<lambda>i. or_ch_status (usage_by_day P x i))"

definition grpc_event_count :: "deps \<Rightarrow> ch \<Rightarrow> ch_store \<Rightarrow> string \<Rightarrow> (ch_store, status, 64 word) sres" where
  "grpc_event_count D P x org =
     checked x (parse_uuid D org ''org_id'') (\<lambda>i. or_ch_status (event_count_ch P x i))"

record v1_invoice_response =
  vi_total_credits :: "string option"
  vi_entries :: nat

definition grpc_invoice ::
  "deps \<Rightarrow> (string \<Rightarrow> time option) \<Rightarrow> pg \<Rightarrow> db \<Rightarrow> string \<Rightarrow> string \<Rightarrow> string \<Rightarrow> (db, status, v1_invoice_response) sres" where
  "grpc_invoice D rfc3339 P d account start until =
     checked d (parse_uuid D account ''account_id'') (\<lambda>a.
     checked d (parse_time rfc3339 start ''start'') (\<lambda>t0.
     checked d (parse_time rfc3339 until ''end'') (\<lambda>t1.
     sbind (or_ledger_status (pg_period_usage P d (Id a) t0 t1)) (\<lambda>d u.
       Some (d, Inr \<lparr>vi_total_credits = Some (credit_to_proto D (total_credits u)), vi_entries = entry_count u\<rparr>)))))"

end
