(* ===== verification/Routes.thy ===== *)
theory Routes
  imports Grpc_Config
begin

text \<open>
  The remaining HTTP routes of \<open>crates/meter-api/src/routes\<close> (\<open>accounts.rs\<close>, \<open>leases.rs\<close>, \<open>reservations.rs\<close>,
  \<open>events.rs\<close>, \<open>rate_cards.rs\<close>, \<open>catalog.rs\<close>, \<open>simulate.rs\<close>) with their bodies (\<open>src/dto.rs\<close>). Each hands its body and
  path to one operation of the ledger, the event store, the configuration or pricing, and turns an error
  into the API's. They share the app state and the pair of stores with the handlers of \<open>Api\<close>; \<open>E 1\<close> are
  the surroundings of the store call. A reply that is a status without a body is its number.
\<close>

section \<open>Bodies\<close>

record open_account_body =
  oab_org_id :: org_id
  oab_scope :: account_scope
  oab_no_overdraft :: bool
  oab_parent_id :: "account_id option"

record grant_body =
  gb_amount :: credit
  gb_source :: credit_source
  gb_idempotency_key :: "string option"

record refund_body =
  rb_amount :: credit
  rb_reverses_entry_id :: "entry_id option"
  rb_idempotency_key :: "string option"

record open_lease_body =
  olb_parent :: account_id
  olb_amount :: credit

record reserve_body =
  rsb_account :: account_id
  rsb_reservation_id :: reservation_id
  rsb_amount :: credit
  rsb_limit :: limit_class
  rsb_expires_at :: "time option"
  rsb_run_id :: "run_id option"

record settle_body =
  sb_actual :: credit

record extend_body =
  eb_expires_at :: time

record record_event_body =
  reb_org_id :: org_id
  reb_idempotency_key :: string
  reb_event_time :: "time option"
  reb_meter :: string
  reb_account :: account_id
  reb_run_id :: "run_id option"
  reb_properties :: json

record amend_body =
  ab_properties :: json
  ab_idempotency_key :: "string option"

record simulate_body =
  sm_current_model :: string
  sm_proposed_model :: string
  sm_events :: "usage_dimensions list"

text \<open>The body as a store request; a missing event time is now.\<close>

definition into_request :: "time \<Rightarrow> record_event_body \<Rightarrow> record_event" where
  "into_request now body = \<lparr>rec_org_id = reb_org_id body, rec_idempotency_key = reb_idempotency_key body,
     rec_event_time = (case reb_event_time body of Some t \<Rightarrow> t | None \<Rightarrow> now), rec_meter = reb_meter body,
     rec_account_id = reb_account body, rec_run_id = reb_run_id body, rec_properties = reb_properties body\<rparr>"

section \<open>Accounts\<close>

definition route_open_account ::
  "(nat \<Rightarrow> env) \<Rightarrow> ('l, 'x) app_state \<Rightarrow> 'l \<times> 'x \<Rightarrow> open_account_body \<Rightarrow> ('l \<times> 'x, api_error, ledger_account) sres" where
  "route_open_account E app w body = on_ledger (snd w) (be_open_account (app_ledger app) (E 1) (fst w)
     \<lparr>na_org_id = oab_org_id body, na_scope = oab_scope body, na_no_overdraft = oab_no_overdraft body,
      na_parent_id = oab_parent_id body\<rparr>)"

definition route_balance ::
  "('l, 'x) app_state \<Rightarrow> 'l \<times> 'x \<Rightarrow> uuid \<Rightarrow> ('l \<times> 'x, api_error, balance) sres" where
  "route_balance app w i = on_ledger (snd w) (be_balance (app_ledger app) (fst w) (Id i))"

definition route_grant ::
  "(nat \<Rightarrow> env) \<Rightarrow> ('l, 'x) app_state \<Rightarrow> 'l \<times> 'x \<Rightarrow> uuid \<Rightarrow> grant_body \<Rightarrow> ('l \<times> 'x, api_error, ledger_entry) sres" where
  "route_grant E app w i body = on_ledger (snd w) (be_grant (app_ledger app) (E 1) (fst w)
     \<lparr>grant_account = Id i, grant_amount = gb_amount body, grant_source = gb_source body,
      grant_idempotency_key = gb_idempotency_key body\<rparr>)"

definition route_credit_note ::
  "(nat \<Rightarrow> env) \<Rightarrow> ('l, 'x) app_state \<Rightarrow> 'l \<times> 'x \<Rightarrow> uuid \<Rightarrow> refund_body \<Rightarrow> ('l \<times> 'x, api_error, ledger_entry) sres" where
  "route_credit_note E app w i body = on_ledger (snd w) (be_refund (app_ledger app) (E 1) (fst w)
     \<lparr>refund_account = Id i, refund_amount = rb_amount body,
      refund_reverses_entry_id = rb_reverses_entry_id body, refund_idempotency_key = rb_idempotency_key body\<rparr>)"

definition route_entries ::
  "('l, 'x) app_state \<Rightarrow> 'l \<times> 'x \<Rightarrow> uuid \<Rightarrow> ('l \<times> 'x, api_error, ledger_entry list) sres" where
  "route_entries app w i = on_ledger (snd w) (be_entries (app_ledger app) (fst w) (Id i))"

section \<open>Leases\<close>

definition route_open_lease ::
  "(nat \<Rightarrow> env) \<Rightarrow> ('l, 'x) app_state \<Rightarrow> 'l \<times> 'x \<Rightarrow> open_lease_body \<Rightarrow> ('l \<times> 'x, api_error, ledger_account) sres" where
  "route_open_lease E app w body = on_ledger (snd w) (be_open_lease (app_ledger app) (E 1) (fst w)
     \<lparr>lease_parent = olb_parent body, lease_amount = olb_amount body\<rparr>)"

definition route_close_lease ::
  "deps \<Rightarrow> (nat \<Rightarrow> env) \<Rightarrow> ('l, 'x) app_state \<Rightarrow> 'l \<times> 'x \<Rightarrow> uuid \<Rightarrow> ('l \<times> 'x, api_error, json) sres" where
  "route_close_lease D E app w i =
     sbind (on_ledger (snd w) (be_close_lease (app_ledger app) (E 1) (fst w) (Id i))) (\<lambda>w x.
       Some (w, Inr (JObject [(''returned'', JString (dec_str D x))])))"

section \<open>Reservations\<close>

definition route_reserve ::
  "('l, 'x) app_state \<Rightarrow> 'l \<times> 'x \<Rightarrow> reserve_body \<Rightarrow> ('l \<times> 'x, api_error, reserve_outcome) sres" where
  "route_reserve app w body = on_ledger (snd w) (be_reserve (app_ledger app) (fst w)
     \<lparr>rsv_account = rsb_account body, rsv_reservation_id = rsb_reservation_id body,
      rsv_amount = rsb_amount body, rsv_limit = rsb_limit body, rsv_expires_at = rsb_expires_at body,
      rsv_run_id = rsb_run_id body\<rparr>)"

definition route_settle ::
  "(nat \<Rightarrow> env) \<Rightarrow> ('l, 'x) app_state \<Rightarrow> 'l \<times> 'x \<Rightarrow> uuid \<Rightarrow> settle_body \<Rightarrow> ('l \<times> 'x, api_error, ledger_entry) sres" where
  "route_settle E app w i body = on_ledger (snd w) (be_settle (app_ledger app) (E 1) (fst w)
     \<lparr>settle_reservation_id = ReservationId i, settle_actual = sb_actual body\<rparr>)"

definition NO_CONTENT :: nat where
  "NO_CONTENT = 204"

definition route_void :: "('l, 'x) app_state \<Rightarrow> 'l \<times> 'x \<Rightarrow> uuid \<Rightarrow> ('l \<times> 'x, api_error, nat) sres" where
  "route_void app w i =
     sbind (on_ledger (snd w) (be_void (app_ledger app) (fst w) (ReservationId i))) (\<lambda>w _. Some (w, Inr NO_CONTENT))"

definition route_extend ::
  "('l, 'x) app_state \<Rightarrow> 'l \<times> 'x \<Rightarrow> uuid \<Rightarrow> extend_body \<Rightarrow> ('l \<times> 'x, api_error, nat) sres" where
  "route_extend app w i body =
     sbind (on_ledger (snd w) (be_extend_hold (app_ledger app) (fst w) (ReservationId i) (eb_expires_at body)))
       (\<lambda>w _. Some (w, Inr NO_CONTENT))"

section \<open>Events\<close>

definition route_record ::
  "(nat \<Rightarrow> env) \<Rightarrow> ('l, 'x) app_state \<Rightarrow> 'l \<times> 'x \<Rightarrow> record_event_body \<Rightarrow> ('l \<times> 'x, api_error, event) sres" where
  "route_record E app w body =
     on_events (fst w) (ev_record (app_events app) (E 1) (snd w) (into_request (now_utc (E 0) 0) body))"

definition ACCEPTED :: nat where
  "ACCEPTED = 202"

text \<open>The \<open>k\<close>-th body reads the clock at position \<open>k\<close>.\<close>

definition route_record_batch ::
  "(nat \<Rightarrow> env) \<Rightarrow> ('l, 'x) app_state \<Rightarrow> 'l \<times> 'x \<Rightarrow> record_event_body list \<Rightarrow> ('l \<times> 'x, api_error, nat \<times> json) sres" where
  "route_record_batch E app w bodies =
     sbind (on_events (fst w) (ev_record_batch (app_events app) (E 1) (snd w)
         (map (\<lambda>(k, b). into_request (now_utc (E 0) k) b) (enumerate 0 bodies)))) (\<lambda>w es.
       Some (w, Inr (ACCEPTED, JObject [(''accepted'', JNumber (of_nat (length es)))])))"

definition route_get :: "('l, 'x) app_state \<Rightarrow> 'l \<times> 'x \<Rightarrow> uuid \<Rightarrow> ('l \<times> 'x, api_error, event) sres" where
  "route_get app w i = on_events (fst w) (ev_get (app_events app) (snd w) (Id i))"

definition route_list_for_account ::
  "('l, 'x) app_state \<Rightarrow> 'l \<times> 'x \<Rightarrow> uuid \<Rightarrow> ('l \<times> 'x, api_error, event list) sres" where
  "route_list_for_account app w i = on_events (fst w) (ev_list_for_account (app_events app) (snd w) (Id i))"

definition route_amend ::
  "(nat \<Rightarrow> env) \<Rightarrow> ('l, 'x) app_state \<Rightarrow> 'l \<times> 'x \<Rightarrow> uuid \<Rightarrow> amend_body \<Rightarrow> ('l \<times> 'x, api_error, event) sres" where
  "route_amend E app w i body = on_events (fst w) (ev_amend (app_events app) (E 1) (snd w)
     \<lparr>amend_event_id = Id i, amend_properties = ab_properties body, amend_idempotency_key = ab_idempotency_key body\<rparr>)"

section \<open>Cards, catalog and simulation\<close>

definition route_list_cards ::
  "pg \<Rightarrow> ('l, 'x) app_state \<Rightarrow> config \<Rightarrow> (config, api_error, rate_card list) sres" where
  "route_list_cards P app c = list_stored_cards P app c"

definition route_get_card :: "deps \<Rightarrow> ('l, 'x) app_state \<Rightarrow> uuid \<Rightarrow> api_error + rate_card" where
  "route_get_card D app i = load_stored_card D app i"

record catalog_response =
  as_of :: string
  models :: "model_catalog_entry list"

definition CATALOG_AS_OF :: string where
  "CATALOG_AS_OF = ''2026-06''"

definition route_catalog :: catalog_response where
  "route_catalog = \<lparr>as_of = CATALOG_AS_OF, models = catalog\<rparr>"

definition route_catalog_card :: "env \<Rightarrow> string \<Rightarrow> (nat + rate_card) option" where
  "route_catalog_card E m = map_option (\<lambda>found. case found of None \<Rightarrow> Inl 404 | Some rc \<Rightarrow> Inr rc) (rate_card_for E m)"

record simulate_response =
  sr_current_model :: string
  sr_proposed_model :: string
  sr_event_count :: nat
  sr_credits_current :: string
  sr_credits_proposed :: string
  sr_credit_delta :: string

definition catalog_card :: "env \<Rightarrow> string \<Rightarrow> (api_error, rate_card) res" where
  "catalog_card E m = map_option
     (\<lambda>found. case found of None \<Rightarrow> Inl (not_found (''unknown model: '' @ m)) | Some rc \<Rightarrow> Inr rc) (rate_card_for E m)"

definition simulate ::
  "deps \<Rightarrow> (nat \<Rightarrow> env) \<Rightarrow> ('l, 'x) app_state \<Rightarrow> simulate_body \<Rightarrow> (api_error, simulate_response) res" where
  "simulate D E app body =
     rbind (catalog_card (E 0) (sm_current_model body)) (\<lambda>current.
     rbind (catalog_card (E 1) (sm_proposed_model body)) (\<lambda>proposed.
     rbind (map_err (\<lambda>e. unprocessable (''pricing: '' @ pricing_error_text e))
         (simulate_rerate D (map to_usage (sm_events body)) current proposed (app_credit_value app))) (\<lambda>sm.
       Some (Inr \<lparr>sr_current_model = sm_current_model body, sr_proposed_model = sm_proposed_model body,
         sr_event_count = event_count sm, sr_credits_current = dec_str D (credits_current sm),
         sr_credits_proposed = dec_str D (credits_proposed sm), sr_credit_delta = dec_str D (credit_delta sm)\<rparr>))))"

end
