(* ===== verification/Config_Props.thy ===== *)
theory Config_Props
  imports Grpc_Config Api_Props Pg_Props
begin

text \<open>
  What syncing configuration guarantees. \<open>config_step\<close> is one call of the config service, with any
  fault of the database and any request; its reachable states keep \<open>config_ok\<close>: every stored card can be
  loaded and passes validation, and keys are unique. From it, the listing and the lookup of cards.
\<close>

section \<open>Reachable configurations\<close>

inductive config_step ::
  "deps \<Rightarrow> (json \<Rightarrow> json) \<Rightarrow> (json \<Rightarrow> string + price_component list) \<Rightarrow> config \<Rightarrow> config \<Rightarrow> bool"
  for D jsonb parse where
  put: "grpc_put_rate_card D P jsonb parse E c req = Some (c', r) \<Longrightarrow> config_step D jsonb parse c c'"
| set_budget: "grpc_set_budget D P c req = Some (c', r') \<Longrightarrow> config_step D jsonb parse c c'"

definition synced :: "deps \<Rightarrow> (json \<Rightarrow> json) \<Rightarrow> (json \<Rightarrow> string + price_component list) \<Rightarrow> config \<Rightarrow> bool" where
  "synced D jsonb parse c = (config_step D jsonb parse)\<^sup>*\<^sup>* no_config c"

text \<open>Named hypothesis: what a \<open>jsonb\<close> column gives back deserialises like what was stored.\<close>

definition jsonb_faithful :: "(json \<Rightarrow> json) \<Rightarrow> (json \<Rightarrow> string + price_component list) \<Rightarrow> bool" where
  "jsonb_faithful jsonb parse \<longleftrightarrow> (\<forall>v. parse (jsonb v) = parse v)"

definition usable :: "(json \<Rightarrow> string + price_component list) \<Rightarrow> rate_card_record \<Rightarrow> bool" where
  "usable parse rec = (case currency_new (rcr_currency rec) of
      Inl _ \<Rightarrow> False
    | Inr cur \<Rightarrow> (case parse (rcr_components rec) of
        Inl _ \<Rightarrow> False
      | Inr comps \<Rightarrow> 0 \<le> sint (rcr_version rec) \<and> rcr_kind rec \<in> {''provider_cost'', ''customer''} \<and>
          card_validate_from cur [] comps = Inr ()))"

definition version_key :: "rate_card_record \<Rightarrow> uuid \<times> 32 word" where
  "version_key rec = (rcr_id rec, rcr_version rec)"

definition config_ok :: "(json \<Rightarrow> string + price_component list) \<Rightarrow> config \<Rightarrow> bool" where
  "config_ok parse c \<longleftrightarrow> (\<forall>rec \<in> set (cf_rate_cards c). usable parse rec) \<and>
     distinct (map version_key (cf_rate_cards c)) \<and> distinct (map bg_account_id (cf_budgets c))"

section \<open>The invariant\<close>

lemma usable_loads:
  assumes "usable (app_parse_components app) rec"
  obtains rc where "rate_card_from_record app rec = Inr rc" and "card_validate rc = Inr ()"
    and "card_id rc = Id (rcr_id rec)" and "version rc = rcr_version rec"
proof -
  from assms have "\<exists>rc. rate_card_from_record app rec = Inr rc \<and> card_validate rc = Inr () \<and>
      card_id rc = Id (rcr_id rec) \<and> version rc = rcr_version rec"
    by (auto simp: usable_def rate_card_from_record_def kind_from_str_def card_validate_def split: sum.splits)
  with that show thesis by blast
qed

lemma sint_small:
  assumes "uint (w :: 32 word) < 2 ^ 31"
  shows "sint w = uint w"
proof -
  have "- (2 ^ 31) \<le> uint w" by (rule order_trans [OF _ uint_ge_0]) simp
  with assms show ?thesis unfolding sint_uint by (simp add: signed_take_bit_int_eq_self)
qed

lemma map_sum_Inr: "map_sum f id r = Inr y \<longleftrightarrow> r = Inr y"
  by (cases r) auto

lemma validated_usable:
  assumes "validate_record parse rec = Inr u" and "uint (rcr_version rec) < 2 ^ 31"
    and "rate_card_kind_str k = Inr (rcr_kind rec)"
  shows "usable parse rec"
  using assms
  by (auto simp: usable_def validate_record_def card_validate_def rate_card_kind_str_def sint_small map_sum_Inr
           split: sum.splits if_splits)

lemma on_pool_cases:
  assumes "on_pool P st c = Some (c', r)"
  obtains "c' = c" | a where "st c = Inr (c', a)"
  using assms by (auto simp: on_pool_def split: option.splits fault.splits sum.splits)

lemma version_key_same: "same_version a b \<longleftrightarrow> version_key a = version_key b"
  by (auto simp: same_version_def version_key_def)

lemma set_upsert: "set (upsert same row rows) \<subseteq> insert row (set rows)"
  by (auto simp: upsert_def)

lemma distinct_upsert:
  assumes "distinct (map key rows)" and "\<And>x. same x \<longleftrightarrow> key x = key row"
  shows "distinct (map key (upsert same row rows))"
proof (cases "list_ex same rows")
  case True
  then have "map key (upsert same row rows) = map key rows" by (simp add: upsert_def assms(2))
  with assms(1) show ?thesis by (simp only:)
next
  case False
  with assms show ?thesis by (auto simp: upsert_def list_ex_iff)
qed

lemma upsert_keeps_ok:
  assumes "config_ok parse c" and "usable parse rec" and "jsonb_faithful jsonb parse"
    and "upsert_rate_card jsonb rec c = Inr (c', u)"
  shows "config_ok parse c'"
proof -
  from assms(4) obtain m where c': "c' = c\<lparr>cf_rate_cards := upsert (same_version rec)
      (rec\<lparr>rcr_margin := m, rcr_components := jsonb (rcr_components rec)\<rparr>) (cf_rate_cards c)\<rparr>"
    by (auto simp: upsert_rate_card_def split: sum.splits)
  define row where "row = rec\<lparr>rcr_margin := m, rcr_components := jsonb (rcr_components rec)\<rparr>"
  have row: "usable parse row" "version_key row = version_key rec"
    using assms(2,3)
    by (auto simp: row_def usable_def jsonb_faithful_def version_key_def split: sum.splits)
  have "distinct (map version_key (upsert (same_version rec) row (cf_rate_cards c)))"
    using assms(1) row(2) by (intro distinct_upsert) (auto simp: config_ok_def version_key_same)
  with assms(1) row(1) set_upsert [of "same_version rec" row "cf_rate_cards c"] show ?thesis
    unfolding c' row_def [symmetric] config_ok_def by auto
qed

lemma upsert_budget_keeps_ok:
  assumes "config_ok parse c" and "upsert_budget b c = Inr (c', u)"
  shows "config_ok parse c'"
  using assms
  by (auto simp: upsert_budget_def config_ok_def split: sum.splits intro!: distinct_upsert)

lemma checked_cases:
  assumes "checked s r f = Some (s', x)"
  obtains "s' = s" | a where "r = Inr a" and "f a = Some (s', x)"
  using assms by (auto simp: checked_def split: sum.splits)

lemma put_keeps_ok:
  assumes "config_ok parse c" and "jsonb_faithful jsonb parse"
    and "grpc_put_rate_card D P jsonb parse E c req = Some (c', r)"
  shows "config_ok parse c'"
proof -
  from assms(3) consider "c' = c"
    | rec r' k u where "put_rate_card P jsonb c rec = Some (c', r')" "validate_record parse rec = Inr u"
      "uint (rcr_version rec) < 2 ^ 31" "rate_card_kind_str k = Inr (rcr_kind rec)"
    by (auto simp: grpc_put_rate_card_def Let_def version_i32_def or_ledger_status_def sbind_def
             split: option.splits if_splits sum.splits prod.splits elim!: checked_cases)
  then show ?thesis
  proof cases
    case 2
    then show ?thesis unfolding put_rate_card_def
      using assms(1) upsert_keeps_ok [OF assms(1) validated_usable assms(2)] by (auto elim!: on_pool_cases)
  qed (use assms(1) in simp)
qed

lemma set_budget_keeps_ok:
  assumes "config_ok parse c" and "grpc_set_budget D P c req = Some (c', r)"
  shows "config_ok parse c'"
  using assms upsert_budget_keeps_ok [OF assms(1)]
  by (auto simp: grpc_set_budget_def or_ledger_status_def set_budget_def
           split: option.splits elim!: checked_cases on_pool_cases)

lemma synced_ok:
  assumes "synced D jsonb parse c" and "jsonb_faithful jsonb parse"
  shows "config_ok parse c"
  using assms(1) unfolding synced_def
proof (induction rule: rtranclp_induct)
  case base
  show ?case by (simp add: config_ok_def no_config_def)
next
  case (step c c')
  from step.hyps(2) show ?case
    by cases (use put_keeps_ok [OF step.IH assms(2)] set_budget_keeps_ok [OF step.IH] in blast)+
qed

section \<open>Listing and looking up\<close>

lemma distinct_on_first:
  "x \<in> set (distinct_on f xs) \<Longrightarrow> first_row (filter (\<lambda>y. f y = f x) xs) = Some x"
proof (induction f xs rule: distinct_on.induct)
  case (2 f z zs)
  show ?case
  proof (cases "x = z")
    case False
    with 2 have x: "x \<in> set (distinct_on f (filter (\<lambda>y. f y \<noteq> f z) zs))" by simp
    have sub: "set (distinct_on f ys) \<subseteq> set ys" for ys by (induction f ys rule: distinct_on.induct) auto
    from x sub have "f x \<noteq> f z" by fastforce
    then have "filter (\<lambda>y. f y = f x) (filter (\<lambda>y. f y \<noteq> f z) zs) = filter (\<lambda>y. f y = f x) zs"
      unfolding filter_filter by (intro filter_cong) auto
    with 2 x \<open>f x \<noteq> f z\<close> show ?thesis by auto
  qed (simp add: first_row_def)
qed simp

lemma distinct_on_keys: "distinct (map f (distinct_on f xs)) \<and> f ` set (distinct_on f xs) = f ` set xs"
proof (induction f xs rule: distinct_on.induct)
  case (2 f z zs)
  then show ?case by auto
qed simp

lemma sorted_distinct_on: "sorted (map f xs) \<Longrightarrow> sorted (map f (distinct_on f xs))"
proof (induction f xs rule: distinct_on.induct)
  case (2 f z zs)
  then have "sorted (map f (filter (\<lambda>y. f y \<noteq> f z) zs))" by (simp add: sorted_filter)
  moreover have "f ` set (distinct_on f (filter (\<lambda>y. f y \<noteq> f z) zs)) \<subseteq> f ` set zs"
    using distinct_on_keys [of f "filter (\<lambda>y. f y \<noteq> f z) zs"] by auto
  ultimately show ?case using 2 by auto
qed simp

lemma first_row_sorted:
  assumes "first_row (sort_key g rows) = Some x"
  shows "x \<in> set rows" and "y \<in> set rows \<Longrightarrow> g x \<le> g y"
proof -
  from assms obtain zs where zs: "sort_key g rows = x # zs" by (auto simp: first_row_def split: list.splits)
  then have s: "set rows = insert x (set zs)" by (metis list.simps(15) set_sort)
  then show "x \<in> set rows" by simp
  have "sorted (map g (x # zs))" using sorted_sort_key [of g rows] zs by simp
  then show "g x \<le> g y" if "y \<in> set rows" using s that by auto
qed

lemma all_rows_map: "(\<And>x. x \<in> set xs \<Longrightarrow> f (h x) = Inr (g x)) \<Longrightarrow> all_rows f (map h xs) = Inr (map g xs)"
  by (induction xs) auto

definition latest_row :: "config \<Rightarrow> uuid \<Rightarrow> rate_card_record option" where
  "latest_row c i = first_row (newest_version (filter (\<lambda>r. rcr_id r = i) (cf_rate_cards c)))"

definition listed_rows :: "config \<Rightarrow> rate_card_record list" where
  "listed_rows c = distinct_on rcr_id (sort_key rcr_id (newest_version (cf_rate_cards c)))"

lemma listed_is_latest: "rec \<in> set (listed_rows c) \<Longrightarrow> latest_row c (rcr_id rec) = Some rec"
  unfolding listed_rows_def latest_row_def
  using distinct_on_first [of rec rcr_id "sort_key rcr_id (newest_version (cf_rate_cards c))"]
  by (simp add: sort_key_stable newest_version_def filter_sort)

lemma latest_row_highest:
  assumes "latest_row c i = Some rec"
  shows "rec \<in> set (cf_rate_cards c)" and "rcr_id rec = i"
    and "r \<in> set (cf_rate_cards c) \<Longrightarrow> rcr_id r = i \<Longrightarrow> sint (rcr_version r) \<le> sint (rcr_version rec)"
  using first_row_sorted [OF assms [unfolded latest_row_def newest_version_def]] by auto

lemma listed_rows_keys:
  "distinct (map rcr_id (listed_rows c))" "rcr_id ` set (listed_rows c) = rcr_id ` set (cf_rate_cards c)"
  "sorted (map rcr_id (listed_rows c))"
  unfolding listed_rows_def
  using distinct_on_keys [of rcr_id "sort_key rcr_id (newest_version (cf_rate_cards c))"]
  by (auto simp: newest_version_def intro: sorted_distinct_on)

lemma on_pool_read: "pg_fault P 0 = None \<Longrightarrow> on_pool P (\<lambda>c. Inr (c, f c)) c = Some (c, Inr (f c))"
  by (simp add: on_pool_def)

lemma latest_card_reads:
  assumes "pg_fault P 0 = None"
  shows "app_latest_card (over_config P c app) i =
    (case latest_row c i of None \<Rightarrow> Inr None | Some r \<Rightarrow> map_sum id Some (record_from_row P r))"
  by (simp add: over_config_def latest_rate_card_def on_pool_read [OF assms] reply_of_def sbind_def latest_row_def)

lemma parse_config: "app_parse_components (over_config P c app) = app_parse_components app"
  by (simp add: over_config_def)

lemma from_record_config [simp]:
  "rate_card_from_record (over_config P c app) rec = rate_card_from_record app rec"
  unfolding rate_card_from_record_def parse_config ..

lemma row_loads:
  assumes "usable (app_parse_components app) rec" and "pg_decode P (rcr_margin rec) = Some m"
    and "latest_row c (rcr_id rec) = Some rec" and "pg_fault P 0 = None"
  obtains rc where "record_from_row P rec = Inr (rec\<lparr>rcr_margin := m\<rparr>)"
    and "rate_card_from_record app (rec\<lparr>rcr_margin := m\<rparr>) = Inr rc" and "card_validate rc = Inr ()"
    and "load_stored_card D (over_config P c app) (rcr_id rec) = Inr rc"
    and "card_id rc = Id (rcr_id rec)" and "version rc = rcr_version rec"
proof -
  from assms(1) have "usable (app_parse_components app) (rec\<lparr>rcr_margin := m\<rparr>)"
    by (auto simp: usable_def split: sum.splits)
  then obtain rc where rc: "rate_card_from_record app (rec\<lparr>rcr_margin := m\<rparr>) = Inr rc"
    "card_validate rc = Inr ()" "card_id rc = Id (rcr_id rec)" "version rc = rcr_version rec"
    by (elim usable_loads) simp
  have row: "record_from_row P rec = Inr (rec\<lparr>rcr_margin := m\<rparr>)"
    by (simp add: record_from_row_def decode_numeric_def assms(2))
  have "load_stored_card D (over_config P c app) (rcr_id rec) = Inr rc"
    by (simp add: load_stored_card_def latest_card_reads [OF assms(4)] assms(3) row rc)
  with that rc row show thesis by blast
qed

lemma latest_row_eqI:
  assumes "rec \<in> set (cf_rate_cards c)" and "distinct (map version_key (cf_rate_cards c))"
    and "\<And>r. r \<in> set (cf_rate_cards c) \<Longrightarrow> rcr_id r = rcr_id rec \<Longrightarrow> sint (rcr_version r) \<le> sint (rcr_version rec)"
  shows "latest_row c (rcr_id rec) = Some rec"
proof (cases "latest_row c (rcr_id rec)")
  case None
  with assms(1) show ?thesis
    by (auto simp: latest_row_def first_row_def newest_version_def filter_empty_conv split: list.splits
        dest!: arg_cong [of _ _ set])
next
  case (Some r)
  note r = latest_row_highest [OF Some]
  from r(3) [OF assms(1)] assms(3) [OF r(1,2)] have "rcr_version r = rcr_version rec"
    by (intro signed_word_eqI [where ?'a = int]) simp
  with r(2) have "version_key r = version_key rec" by (simp add: version_key_def)
  with assms(1,2) r(1) have "r = rec" by (auto simp: distinct_map dest: inj_onD)
  with Some show ?thesis by simp
qed

lemma upsert_row: "row \<in> set (upsert same row rows)"
  by (auto simp: upsert_def list_ex_iff)

lemma checked_Ok: "checked s r f = Some (s', Inr b) \<longleftrightarrow> (\<exists>a. r = Inr a \<and> f a = Some (s', Inr b))"
  by (auto simp: checked_def split: sum.splits)

lemma on_pool_Ok: "on_pool P st c = Some (c', Inr a) \<longleftrightarrow> pg_fault P 0 = None \<and> st c = Inr (c', a)"
  by (auto simp: on_pool_def split: option.splits fault.splits sum.splits)

lemma ledger_status_Ok:
  "sbind (or_ledger_status m) (\<lambda>c _. Some (c, Inr x)) = Some (c', Inr t) \<longleftrightarrow> t = x \<and> (\<exists>u. m = Some (c', Inr u))"
  by (auto simp: or_ledger_status_def sbind_def map_sum_Inr split: option.splits sum.splits)

lemma put_Ok:
  assumes "grpc_put_rate_card D P jsonb parse E c (Some rc) = Some (c', Inr t)"
  obtains rec m where "t = uuid_str D (rcr_id rec)" and "rcr_version rec = v1_version rc"
    and "uint (v1_version rc) < 2 ^ 31" and "rate_card_kind_str (v1_kind rc) = Inr (rcr_kind rec)"
    and "dec_parse D (v1_margin rc) = Some (rcr_margin rec)" and "numeric_20_10 (rcr_margin rec) = Inr m"
    and "rcr_currency rec = v1_currency rc" and "rcr_components rec = components_json (v1_components rc)"
    and "validate_record parse rec = Inr ()"
    and "c' = c\<lparr>cf_rate_cards := upsert (same_version rec)
       (rec\<lparr>rcr_margin := m, rcr_components := jsonb (rcr_components rec)\<rparr>) (cf_rate_cards c)\<rparr>"
proof -
  from assms obtain i kind m0 where
    i: "uint (v1_version rc) < 2 ^ 31" "rate_card_kind_str (v1_kind rc) = Inr kind"
      "dec_parse D (v1_margin rc) = Some m0" "t = uuid_str D i" and
    rest: "validate_record parse \<lparr>rcr_id = i, rcr_version = v1_version rc, rcr_kind = kind,
        rcr_currency = v1_currency rc, rcr_margin = m0, rcr_components = components_json (v1_components rc)\<rparr> = Inr ()"
      "upsert_rate_card jsonb \<lparr>rcr_id = i, rcr_version = v1_version rc, rcr_kind = kind,
        rcr_currency = v1_currency rc, rcr_margin = m0, rcr_components = components_json (v1_components rc)\<rparr> c
       = Inr (c', ())"
    by (auto simp: grpc_put_rate_card_def checked_Ok Let_def version_i32_def parse_decimal_def
        ledger_status_Ok put_rate_card_def on_pool_Ok split: option.splits if_splits)
  define rec where "rec = \<lparr>rcr_id = i, rcr_version = v1_version rc, rcr_kind = kind,
     rcr_currency = v1_currency rc, rcr_margin = m0, rcr_components = components_json (v1_components rc)\<rparr>"
  note rest = rest [folded rec_def]
  from rest(2) obtain m where "numeric_20_10 (rcr_margin rec) = Inr m"
    "c' = c\<lparr>cf_rate_cards := upsert (same_version rec)
       (rec\<lparr>rcr_margin := m, rcr_components := jsonb (rcr_components rec)\<rparr>) (cf_rate_cards c)\<rparr>"
    by (auto simp: upsert_rate_card_def split: sum.splits)
  with that [of rec m] i rest(1) show thesis by (simp add: rec_def)
qed

section \<open>Properties\<close>

text \<open>
  C28. Every synced card is usable. Whatever requests the config service got and whatever the database
  refused or failed to acknowledge, listing the stored cards never fails on a card: it answers every
  synced id once, in order, and each card it answers passes \<open>RateCard::validate\<close>, is the card a lookup by
  its id loads, and has the highest version stored for that id.
\<close>

theorem synced_cards_are_usable:
  assumes "synced D jsonb (app_parse_components app) c" and "jsonb_faithful jsonb (app_parse_components app)"
    and "pg_fault P 0 = None" and "\<forall>rec \<in> set (cf_rate_cards c). pg_decode P (rcr_margin rec) \<noteq> None"
  shows "\<exists>cards. list_stored_cards P app c = Some (c, Inr cards) \<and>
    sorted (map (as_uuid \<circ> card_id) cards) \<and> distinct (map (as_uuid \<circ> card_id) cards) \<and>
    set (map (as_uuid \<circ> card_id) cards) = rcr_id ` set (cf_rate_cards c) \<and>
    (\<forall>rc \<in> set cards. card_validate rc = Inr () \<and>
       load_stored_card D (over_config P c app) (as_uuid (card_id rc)) = Inr rc \<and>
       (\<forall>rec \<in> set (cf_rate_cards c). rcr_id rec = as_uuid (card_id rc) \<longrightarrow>
          sint (rcr_version rec) \<le> sint (version rc)))"
proof -
  define stored where "stored rec = rec\<lparr>rcr_margin := the (pg_decode P (rcr_margin rec))\<rparr>" for rec :: rate_card_record
  define loaded where "loaded rec = projr (rate_card_from_record app (stored rec))" for rec
  let ?rows = "listed_rows c" and ?cards = "map loaded (listed_rows c)"
  have row: "record_from_row P rec = Inr (stored rec) \<and> rate_card_from_record app (stored rec) = Inr (loaded rec) \<and>
      card_validate (loaded rec) = Inr () \<and> card_id (loaded rec) = Id (rcr_id rec) \<and>
      version (loaded rec) = rcr_version rec \<and>
      load_stored_card D (over_config P c app) (rcr_id rec) = Inr (loaded rec)"
    if "rec \<in> set ?rows" for rec
  proof -
    note latest = listed_is_latest [OF that]
    from latest_row_highest(1) [OF latest] synced_ok [OF assms(1,2)] assms(4)
    obtain m where m: "usable (app_parse_components app) rec" "pg_decode P (rcr_margin rec) = Some m"
      by (auto simp: config_ok_def)
    from row_loads [OF this latest assms(3), of D] obtain rc where rc:
      "record_from_row P rec = Inr (rec\<lparr>rcr_margin := m\<rparr>)"
      "rate_card_from_record app (rec\<lparr>rcr_margin := m\<rparr>) = Inr rc" "card_validate rc = Inr ()"
      "load_stored_card D (over_config P c app) (rcr_id rec) = Inr rc"
      "card_id rc = Id (rcr_id rec)" "version rc = rcr_version rec" .
    have "stored rec = rec\<lparr>rcr_margin := m\<rparr>" by (simp add: stored_def m)
    moreover from this rc have "loaded rec = rc" by (simp add: loaded_def)
    ultimately show ?thesis using rc by simp
  qed
  have "all_rows (record_from_row P) (map (\<lambda>r. r) ?rows) = Inr (map stored ?rows)"
    by (rule all_rows_map) (simp add: row)
  moreover have "all_rows (rate_card_from_record app) (map stored ?rows) = Inr ?cards"
    by (rule all_rows_map) (simp add: row)
  ultimately have "list_stored_cards P app c = Some (c, Inr ?cards)"
    by (simp add: list_stored_cards_def list_rate_cards_def on_pool_read [OF assms(3)] sbind_def
        listed_rows_def [symmetric])
  moreover have ids: "map (as_uuid \<circ> card_id) ?cards = map rcr_id ?rows" by (simp add: row)
  moreover have "card_validate rc = Inr () \<and>
       load_stored_card D (over_config P c app) (as_uuid (card_id rc)) = Inr rc \<and>
       (\<forall>rec \<in> set (cf_rate_cards c). rcr_id rec = as_uuid (card_id rc) \<longrightarrow>
          sint (rcr_version rec) \<le> sint (version rc))" if "rc \<in> set ?cards" for rc
    using that row listed_is_latest latest_row_highest(3) by fastforce
  moreover have "set (map (as_uuid \<circ> card_id) ?cards) = rcr_id ` set (cf_rate_cards c)"
    unfolding ids using listed_rows_keys(2) by simp
  moreover have "sorted (map (as_uuid \<circ> card_id) ?cards)" "distinct (map (as_uuid \<circ> card_id) ?cards)"
    unfolding ids by (rule listed_rows_keys)+
  ultimately show ?thesis by blast
qed

text \<open>
  C29. A synced card prices as it was sent. After a successful sync whose version is the highest of its id,
  metering with the id that the service replied resolves to a valid card with the kind, currency, version
  and components of the request and its margin to the ten places the store keeps.
\<close>

theorem synced_card_prices:
  assumes "synced D jsonb (app_parse_components app) c" and "jsonb_faithful jsonb (app_parse_components app)"
    and "grpc_put_rate_card D P jsonb (app_parse_components app) E c (Some rc) = Some (c', Inr t)"
    and "\<forall>u. uuid_parse D (uuid_str D u) = Some u" and "pg_fault Q 0 = None" and "decodes_all Q"
    and "\<forall>rec \<in> set (cf_rate_cards c). uuid_str D (rcr_id rec) = t \<longrightarrow> sint (rcr_version rec) \<le> sint (v1_version rc)"
  shows "\<exists>cd m. resolve_card D E' (over_config Q c' app) model (Some t) = Some (Inr cd) \<and>
    card_validate cd = Inr () \<and> uuid_str D (as_uuid (card_id cd)) = t \<and> version cd = v1_version rc \<and>
    currency_new (v1_currency rc) = Inr (card_currency cd) \<and>
    app_parse_components app (components_json (v1_components rc)) = Inr (components cd) \<and>
    rate_card_kind_str (v1_kind rc) =
      Inr (case card_kind cd of ProviderCost \<Rightarrow> ''provider_cost'' | Customer \<Rightarrow> ''customer'') \<and>
    dec_parse D (v1_margin rc) = Some m \<and> numeric_20_10 m = Inr (card_margin cd)"
proof -
  let ?parse = "app_parse_components app"
  obtain rec m where rec: "t = uuid_str D (rcr_id rec)" "rcr_version rec = v1_version rc"
    "uint (v1_version rc) < 2 ^ 31" "rate_card_kind_str (v1_kind rc) = Inr (rcr_kind rec)"
    "dec_parse D (v1_margin rc) = Some (rcr_margin rec)" "numeric_20_10 (rcr_margin rec) = Inr m"
    "rcr_currency rec = v1_currency rc" "rcr_components rec = components_json (v1_components rc)"
    "validate_record ?parse rec = Inr ()"
    and c': "c' = c\<lparr>cf_rate_cards := upsert (same_version rec)
       (rec\<lparr>rcr_margin := m, rcr_components := jsonb (rcr_components rec)\<rparr>) (cf_rate_cards c)\<rparr>"
    using assms(3) by (rule put_Ok)
  define row where "row = rec\<lparr>rcr_margin := m, rcr_components := jsonb (rcr_components rec)\<rparr>"
  note c' = c' [folded row_def]
  have ok: "config_ok ?parse c'" by (rule put_keeps_ok [OF synced_ok [OF assms(1,2)] assms(2,3)])
  have rows: "row \<in> set (cf_rate_cards c')" "set (cf_rate_cards c') \<subseteq> insert row (set (cf_rate_cards c))"
    using upsert_row [of row] set_upsert [of "same_version rec" row] by (simp_all add: c')
  have "sint (rcr_version r) \<le> sint (rcr_version row)"
    if "r \<in> set (cf_rate_cards c')" "rcr_id r = rcr_id row" for r
    using that rows(2) assms(7) rec(1,2) by (auto simp: row_def)
  then have latest: "latest_row c' (rcr_id row) = Some row"
    using rows(1) ok by (intro latest_row_eqI) (auto simp: config_ok_def)
  have u: "usable ?parse row" using ok rows(1) by (simp add: config_ok_def)
  have dec: "pg_decode Q (rcr_margin row) = Some (rcr_margin row)" using assms(6) by (simp add: decodes_all_def)
  obtain cd where cd: "rate_card_from_record app row = Inr cd" "card_validate cd = Inr ()"
    "load_stored_card D (over_config Q c' app) (rcr_id row) = Inr cd"
    using row_loads [OF u dec latest assms(5), of D] by auto
  have "resolve_card D E' (over_config Q c' app) model (Some t) = Some (Inr cd)"
    using cd(3) assms(4) by (simp add: resolve_card_def rec(1) row_def)
  moreover have "?parse (rcr_components row) = ?parse (rcr_components rec)"
    using assms(2) by (simp add: jsonb_faithful_def row_def)
  then have "as_uuid (card_id cd) = rcr_id rec \<and> version cd = v1_version rc \<and> card_margin cd = m \<and>
      currency_new (v1_currency rc) = Inr (card_currency cd) \<and>
      ?parse (components_json (v1_components rc)) = Inr (components cd) \<and>
      kind_from_str (rcr_kind rec) = Inr (card_kind cd)"
    using cd(1) rec by (auto simp: rate_card_from_record_def row_def split: sum.splits if_splits)
  moreover from this rec(4) have "rate_card_kind_str (v1_kind rc) =
      Inr (case card_kind cd of ProviderCost \<Rightarrow> ''provider_cost'' | Customer \<Rightarrow> ''customer'')"
    by (auto simp: kind_from_str_def split: if_splits)
  ultimately show ?thesis using cd(2) rec(1,5,6) by (intro exI [of _ cd] exI [of _ "rcr_margin rec"]) simp
qed

section \<open>A concrete configuration\<close>

text \<open>A deserialiser of one flat cell of text output: its price is read, the other axes are fixed.\<close>

definition json_field :: "json \<Rightarrow> string \<Rightarrow> json" where
  "json_field j k = (case j of JObject fs \<Rightarrow> (case map_of fs k of None \<Rightarrow> JNull | Some v \<Rightarrow> v) | _ \<Rightarrow> JNull)"

definition demo_parse :: "json \<Rightarrow> string + price_component list" where
  "demo_parse j = (case j of
      JArray [cell] \<Rightarrow> (case json_field (json_field cell ''unit_price'') ''amount'' of
          JString t \<Rightarrow> (case rat_of_text t of
              None \<Rightarrow> Inl ''bad price''
            | Some x \<Rightarrow> Inr [\<lparr>comp_dimension = Output, comp_modality = Text, comp_context_tier = StandardTier,
                comp_unit = Token, charge_model = Standard, comp_unit_price = money_new x (Currency ''USD'')\<rparr>])
        | _ \<Rightarrow> Inl ''no price'')
    | _ \<Rightarrow> Inl ''not one cell'')"

definition demo_card_request :: "32 word \<Rightarrow> string \<Rightarrow> v1_rate_card" where
  "demo_card_request v price = \<lparr>v1_id = uuid_bytes 77, v1_kind = 2, v1_currency = ''USD'', v1_version = v,
     v1_margin = ''11/1'', v1_components = [\<lparr>v1_dimension = ''output'', v1_modality = ''text'',
       v1_context_tier = ''standard'', v1_unit = ''token'', v1_charge_model = ''standard'',
       v1_unit_price = Some \<lparr>v1_amount = price, v1_money_currency = ''USD''\<rparr>\<rparr>]\<rparr>"

definition demo_config :: config where
  "demo_config = \<lparr>cf_rate_cards = map (\<lambda>(v, price). \<lparr>rcr_id = 77, rcr_version = v, rcr_kind = ''customer'',
     rcr_currency = ''USD'', rcr_margin = 2, rcr_components = components_json (v1_components (demo_card_request v price))\<rparr>)
       [(1, ''111/1''), (2, ''11/1'')], cf_budgets = []\<rparr>"

lemma demo_put:
  "grpc_put_rate_card exact_deps (demo_pg (\<lambda>_. None)) id demo_parse (demo_env 0) no_config
     (Some (demo_card_request 1 ''111/1'')) =
   Some (demo_config\<lparr>cf_rate_cards := take 1 (cf_rate_cards demo_config)\<rparr>, Inr (uuid_bytes 77))"
  "grpc_put_rate_card exact_deps (demo_pg (\<lambda>_. None)) id demo_parse (demo_env 0)
     (demo_config\<lparr>cf_rate_cards := take 1 (cf_rate_cards demo_config)\<rparr>)
     (Some (demo_card_request 2 ''11/1'')) = Some (demo_config, Inr (uuid_bytes 77))"
  by code_simp+

lemma uuid_bytes_digits:
  "foldl (\<lambda>acc c. acc * 256 + of_char c) a (map (\<lambda>i. char_of (x div 256 ^ i)) (rev [0..<n])) =
   a * 256 ^ n + x mod (256 ^ n :: int)"
proof (induction n arbitrary: a)
  case (Suc n)
  have "x mod (256 ^ n * 256) = 256 ^ n * (x div 256 ^ n mod 256) + x mod 256 ^ n"
    by (rule zmod_zmult2_eq) simp
  then show ?case by (simp add: Suc) (simp add: algebra_simps)
qed simp

lemma exact_uuid_text: "\<forall>u. uuid_parse exact_deps (uuid_str exact_deps u) = Some u"
proof
  fix u :: uuid
  have "(2 :: int) ^ LENGTH(128) = 256 ^ 16" by simp
  then have "uint u < 256 ^ 16" using uint_lt2p [of u] by (simp only:)
  then have "uint u mod 256 ^ 16 = uint u" by (intro mod_pos_pos_trivial) simp_all
  then show "uuid_parse exact_deps (uuid_str exact_deps u) = Some u"
    using uuid_bytes_digits [of 0 "uint u" 16] by (simp add: uuid_of_bytes_def uuid_bytes_def)
qed

abbreviation demo_config_old :: config where
  "demo_config_old \<equiv> demo_config\<lparr>cf_rate_cards := take 1 (cf_rate_cards demo_config)\<rparr>"

lemma demo_synced:
  shows "synced exact_deps id demo_parse demo_config" and "synced exact_deps id demo_parse demo_config_old"
proof -
  have "config_step exact_deps id demo_parse no_config demo_config_old" by (rule config_step.put [OF demo_put(1)])
  then show old: "synced exact_deps id demo_parse demo_config_old" unfolding synced_def by (rule r_into_rtranclp)
  have "config_step exact_deps id demo_parse demo_config_old demo_config" by (rule config_step.put [OF demo_put(2)])
  with old show "synced exact_deps id demo_parse demo_config"
    unfolding synced_def by (rule rtranclp.rtrancl_into_rtrancl)
qed

definition demo_card_app where
  "demo_card_app = demo_app\<lparr>app_parse_components := demo_parse\<rparr>"

lemma demo_card_app_parse [simp]: "app_parse_components demo_card_app = demo_parse"
  by (simp add: demo_card_app_def)

theorem synced_cards_are_usable_witness:
  "\<exists>cards. list_stored_cards (demo_pg (\<lambda>_. None)) demo_card_app demo_config = Some (demo_config, Inr cards) \<and>
     map (as_uuid \<circ> card_id) cards = [77] \<and> list_all (\<lambda>rc. card_validate rc = Inr () \<and> 2 \<le> sint (version rc)) cards"
proof -
  have d: "rcr_id ` set (cf_rate_cards demo_config) = {77}" by (simp add: demo_config_def)
  have v: "\<lparr>rcr_id = 77, rcr_version = 2, rcr_kind = ''customer'', rcr_currency = ''USD'', rcr_margin = 2,
      rcr_components = components_json (v1_components (demo_card_request 2 ''11/1''))\<rparr> \<in> set (cf_rate_cards demo_config)"
    by (simp add: demo_config_def)
  have "jsonb_faithful id demo_parse" by (simp add: jsonb_faithful_def)
  with synced_cards_are_usable [of exact_deps id demo_card_app demo_config "demo_pg (\<lambda>_. None)"] demo_synced(1)
  obtain cards where c: "list_stored_cards (demo_pg (\<lambda>_. None)) demo_card_app demo_config = Some (demo_config, Inr cards)"
    "distinct (map (as_uuid \<circ> card_id) cards)" "set (map (as_uuid \<circ> card_id) cards) = {77}"
    "\<forall>rc \<in> set cards. card_validate rc = Inr () \<and>
       (\<forall>rec \<in> set (cf_rate_cards demo_config). rcr_id rec = as_uuid (card_id rc) \<longrightarrow>
          sint (rcr_version rec) \<le> sint (version rc))"
    by (auto simp: demo_pg_def d)
  from c(2,3) have "length cards = 1" by (metis card_1_singleton_iff distinct_card length_map One_nat_def)
  then obtain rc where rc: "cards = [rc]" by (auto simp: length_Suc_conv)
  with c(3) have i: "as_uuid (card_id rc) = 77" by simp
  from c(4) rc have "card_validate rc = Inr ()" by simp
  moreover from c(4) rc v i have "sint (2 :: 32 word) \<le> sint (version rc)" by fastforce
  ultimately show ?thesis using c(1) rc i by simp
qed

theorem synced_card_prices_witness:
  "\<exists>cd. resolve_card exact_deps (demo_env 1) (over_config (demo_pg (\<lambda>_. None)) demo_config demo_card_app) []
      (Some (uuid_bytes 77)) = Some (Inr cd) \<and> version cd = 2 \<and> card_validate cd = Inr ()"
proof -
  let ?P = "demo_pg (\<lambda>_. None)" and ?rc = "demo_card_request 2 ''11/1''"
  have f: "jsonb_faithful id (app_parse_components demo_card_app)" by (simp add: jsonb_faithful_def)
  have "sint (1 :: 32 word) \<le> sint (2 :: 32 word)" by simp
  then have h: "\<forall>rec \<in> set (cf_rate_cards demo_config_old). uuid_str exact_deps (rcr_id rec) = uuid_bytes 77 \<longrightarrow>
      sint (rcr_version rec) \<le> sint (v1_version ?rc)"
    by (simp add: demo_config_def demo_card_request_def)
  have p: "pg_fault ?P 0 = None" by (simp add: demo_pg_def)
  have v: "v1_version ?rc = 2" by (simp add: demo_card_request_def)
  note demo = demo_synced(2) [folded demo_card_app_parse] demo_put(2) [folded demo_card_app_parse]
  from synced_card_prices [OF demo(1) f demo(2) exact_uuid_text p demo_pg_laws(1) h, of "demo_env 1" "[]"] v
  show ?thesis by metis
qed

end
