(* ===== verification/Reports_Props.thy ===== *)
theory Reports_Props
  imports Reports Pg_Props Ch_Rollup Ledger_Moved
begin

text \<open>
  What a bill is. The days of a period add up to its invoice, the invoice is exactly what spending took
  from the balance, a voided run stays on it, and the status of a budget compares it with the limit.
\<close>

section \<open>The queries\<close>

lemma spend_type: "entry_type_to_str ty \<in> {''settle'', ''usage''} \<longleftrightarrow> ty \<in> {Settle, Usage}"
  by (cases ty) (simp_all add: entry_type_to_str_def)

lemma period_usage_reads:
  assumes "pg_fault P 0 = None" and "decodes_all P"
  shows "pg_period_usage P d a start until = Some (d, Inr \<lparr>total_credits = spent (spend_rows P a start until d),
    entry_count = length (spend_rows P a start until d)\<rparr>)"
  using assms
  by (simp add: pg_period_usage_def on_pool_def sbind_def Let_def total_col_def decode_numeric_def decodes_all_def)

text \<open>The groups of a grouped and sorted query, by their keys.\<close>

lemma sorted_groups:
  fixes g :: "'r \<Rightarrow> 'k::linorder"
  assumes "sorted_wrt (<) ks" and "set ks = g ` set rows"
  shows "sort_key fst (map (\<lambda>(k, rs). (k, F rs)) (group_by g rows)) = map (\<lambda>k. (k, F (filter (\<lambda>r. g r = k) rows))) ks"
proof -
  let ?l = "sort_key fst (map (\<lambda>(k, rs). (k, F rs)) (group_by g rows))"
  have "card (set (map fst ?l)) = length (map fst ?l)"
    by (simp add: group_by_def image_image length_remdups_card_conv)
  then have "distinct (map fst ?l)" by (rule card_distinct)
  moreover have "set (map fst ?l) = set ks" using assms(2) by (simp add: group_by_def image_image)
  moreover have "sorted (map fst ?l)" by simp
  ultimately have ks: "map fst ?l = ks"
    using assms(1) by (intro sorted_distinct_set_unique) (auto simp: strict_sorted_iff)
  have "p = (fst p, F (filter (\<lambda>r. g r = fst p) rows))" if "p \<in> set ?l" for p
    using that by (auto simp: group_by_def)
  then have "?l = map (\<lambda>p. (fst p, F (filter (\<lambda>r. g r = fst p) rows))) ?l" by (metis (no_types, lifting) map_idI)
  also have "\<dots> = map (\<lambda>k. (k, F (filter (\<lambda>r. g r = k) rows))) ks" by (simp only: ks [symmetric] map_map comp_def)
  finally show ?thesis .
qed

lemma sum_over_keys:
  fixes f :: "'r \<Rightarrow> 'v::comm_monoid_add" and g :: "'r \<Rightarrow> 'k::linorder"
  assumes "sorted_wrt (<) ks" and "set ks = g ` set rows"
  shows "sum_list (map (\<lambda>k. sum_list (map f (filter (\<lambda>r. g r = k) rows))) ks) = sum_list (map f rows)"
proof -
  have "sum_list (map (\<lambda>k. sum_list (map f (filter (\<lambda>r. g r = k) rows))) ks) =
      (\<Sum>k \<in> g ` set rows. sum_of f (filter (\<lambda>r. g r = k) rows))"
    using assms by (simp add: sum_list_distinct_conv_sum_set strict_sorted_iff sum_of_def)
  also have "\<dots> = sum_list (map (\<lambda>k. sum_of f (filter (\<lambda>r. g r = k) rows)) (remdups (map g rows)))"
    by (simp add: sum_list_distinct_conv_sum_set)
  also have "\<dots> = sum_of (\<lambda>(k, rs). sum_of f rs) (group_by g rows)" by (simp add: group_by_def sum_of_def comp_def)
  also have "\<dots> = sum_of f rows" by (rule sum_group_by)
  finally show ?thesis by (simp add: sum_of_def)
qed

text \<open>Instants between two day boundaries, and the texts of their days.\<close>

lemma utc_day_range:
  assumes "FIRST_DAY * NANOS_PER_DAY \<le> t" and "t < (LAST_DAY + 1) * NANOS_PER_DAY"
  shows "FIRST_DAY \<le> utc_day t \<and> utc_day t \<le> LAST_DAY"
proof -
  have n: "0 < NANOS_PER_DAY" by (simp add: NANOS_PER_DAY_def)
  have "FIRST_DAY * NANOS_PER_DAY div NANOS_PER_DAY \<le> utc_day t"
    unfolding utc_day_def using n assms(1) by (intro zdiv_mono1)
  moreover have "utc_day t < LAST_DAY + 1"
    using div_bounds [OF n, of t] assms(2) n unfolding utc_day_def
    by (metis (no_types) mult.commute mult_less_cancel_left_pos order.strict_trans1)
  ultimately show ?thesis using n by simp
qed

lemma dated_rows:
  assumes "\<forall>r \<in> set rows. FIRST_DAY \<le> utc_day (pe_created_at r) \<and> utc_day (pe_created_at r) \<le> LAST_DAY"
    and "ns = sorted_list_of_set ((\<lambda>r. utc_day (pe_created_at r)) ` set rows)"
  shows "sorted_wrt (<) ns" and "set ns = (\<lambda>r. utc_day (pe_created_at r)) ` set rows"
    and "sorted_wrt (<) (map iso_date ns)" and "set (map iso_date ns) = (\<lambda>r. day_text (pe_created_at r)) ` set rows"
    and "n \<in> set ns \<Longrightarrow> filter (\<lambda>r. day_text (pe_created_at r) = iso_date n) rows = filter (\<lambda>r. utc_day (pe_created_at r) = n) rows"
proof -
  show ns: "sorted_wrt (<) ns" "set ns = (\<lambda>r. utc_day (pe_created_at r)) ` set rows"
    using assms(2) by simp_all
  then have r: "FIRST_DAY \<le> n \<and> n \<le> LAST_DAY" if "n \<in> set ns" for n using assms(1) that by auto
  show "sorted_wrt (<) (map iso_date ns)" unfolding sorted_wrt_map
    using ns(1) by (rule sorted_wrt_mono_rel [rotated]) (use r iso_date_less in auto)
  show "set (map iso_date ns) = (\<lambda>r. day_text (pe_created_at r)) ` set rows"
    using ns(2) by (simp add: image_image day_text_def)
  show "filter (\<lambda>r. day_text (pe_created_at r) = iso_date n) rows = filter (\<lambda>r. utc_day (pe_created_at r) = n) rows"
    if "n \<in> set ns"
    using r [OF that] assms(1) by (intro filter_cong) (auto simp: day_text_def iso_date_inj)
qed

lemma iso_date_four:
  assumes "FIRST_DAY \<le> n" and "n \<le> LAST_DAY"
  shows "iso_date n = (case civil n of (y, m, dd) \<Rightarrow> zero_padded 4 y @ ''-'' @ zero_padded 2 m @ ''-'' @ zero_padded 2 dd)"
  using civil_year [OF assms] by (auto simp: iso_date_def year_text_four split: prod.splits)

definition is_spend :: "account_id \<Rightarrow> ledger_entry \<Rightarrow> bool" where
  "is_spend a e = (account_id e = a \<and> entry_type e \<in> {Settle, Usage})"

lemma entry_sim_fields:
  "entry_sim r e \<Longrightarrow> pe_account_id r = as_uuid (account_id e) \<and>
     pe_entry_type r = entry_type_to_str (entry_type e) \<and> pe_delta r = delta_credits e"
  by (auto simp: entry_sim_iff row_of_entry_def)

lemma spent_simulated:
  assumes "list_all2 entry_sim rows es" 
    and "\<forall>r \<in> set rows. pe_account_id r = as_uuid a \<longrightarrow> lo \<le> pe_created_at r \<and> pe_created_at r < hi"
  shows "spent (filter (\<lambda>r. pe_account_id r = as_uuid a \<and> pe_entry_type r \<in> {''settle'', ''usage''} \<and>
      lo \<le> pe_created_at r \<and> pe_created_at r < hi) rows) = - sum_list (map delta_credits (filter (is_spend a) es))"
  using assms
proof (induction rows es)
  case (Cons r rs e es)
  note r = entry_sim_fields [OF Cons.hyps(1)]
  have "(pe_account_id r = as_uuid a \<and> pe_entry_type r \<in> {''settle'', ''usage''} \<and>
      lo \<le> pe_created_at r \<and> pe_created_at r < hi) = is_spend a e"
    using r spend_type [of "entry_type e"] Cons.prems by (auto simp: is_spend_def)
  with Cons r show ?case by (simp add: spent_def)
qed (simp add: spent_def)

lemma posted_to_split:
  assumes "entries_ok s" and "a \<noteq> SYSTEM_ACCOUNT" and "set es \<subseteq> set (entries s)"
  shows "posted_to es a = posted_to (filter (\<lambda>e. \<not> is_spend a e) es) a + sum_list (map delta_credits (filter (is_spend a) es))"
  using assms(3)
proof (induction es)
  case (Cons e es)
  have "entry_effect a e = delta_credits e" if "is_spend a e"
    using that assms(1,2) Cons.prems by (auto simp: is_spend_def entry_effect_def entries_ok_def)
  with Cons show ?case by simp
qed simp

section \<open>What the statements of a run void keep\<close>

text \<open>A fact of the tables that every statement of a transaction keeps holds of what it leaves behind, fault or not.\<close>

definition kept :: "(db \<Rightarrow> bool) \<Rightarrow> (tx, 'e, 'a) sres \<Rightarrow> bool" where
  "kept F m \<longleftrightarrow> (\<forall>t x. m = Some (t, x) \<longrightarrow> F (working t) \<and> F (committed t))"

lemma kept_return: "F (working t) \<Longrightarrow> F (committed t) \<Longrightarrow> kept F (Some (t, x))"
  by (simp add: kept_def)

lemma kept_sbind:
  "kept F m \<Longrightarrow> (\<And>t x. F (working t) \<Longrightarrow> F (committed t) \<Longrightarrow> kept F (f t x)) \<Longrightarrow> kept F (sbind m f)"
proof (cases m)
  case (Some p)
  obtain t y where p: "p = (t, y)" by force
  assume m: "kept F m" and f: "\<And>t x. F (working t) \<Longrightarrow> F (committed t) \<Longrightarrow> kept F (f t x)"
  then have "F (working t)" "F (committed t)" using Some p by (simp_all add: kept_def)
  then show ?thesis using f [of t] Some p by (cases y) (simp_all add: sbind_def kept_return)
qed (simp add: kept_def sbind_def)

lemma kept_sql:
  "F (working t) \<Longrightarrow> F (committed t) \<Longrightarrow> (\<And>d a. st (working t) = Inr (d, a) \<Longrightarrow> F d) \<Longrightarrow> kept F (sql P st t)"
  by (auto simp: kept_def sql_def Let_def split: option.splits sum.splits)

lemma kept_commit: "F (working t) \<Longrightarrow> F (committed t) \<Longrightarrow> kept F (commit_with P x t)"
  by (auto simp: kept_def commit_with_def tx_commit_def sbind_def Let_def split: option.splits fault.splits)

lemma kept_get_col: "F (working t) \<Longrightarrow> F (committed t) \<Longrightarrow> kept F (get_col P v t)"
  by (simp add: kept_def get_col_def)

lemma kept_begin: "F (working t) \<Longrightarrow> F (committed t) \<Longrightarrow> kept F (begin_hot P t)"
  unfolding begin_hot_def by (intro kept_sbind kept_sql) auto

lemma kept_map: "F (working t) \<Longrightarrow> F (committed t) \<Longrightarrow> kept F (map_option (\<lambda>r. (t, g r)) x)"
  by (auto simp: kept_def)

lemma kept_fold:
  assumes "\<And>t b x. F (working t) \<Longrightarrow> F (committed t) \<Longrightarrow> kept F (f t b x)"
  shows "F (working t) \<Longrightarrow> F (committed t) \<Longrightarrow> kept F (fold_calls f t b xs)"
proof (induction xs arbitrary: t b)
  case (Cons x xs)
  then show ?case unfolding fold_calls.simps by (intro kept_sbind assms)
qed (simp add: kept_return)

text \<open>The rows the billing queries can see, and the accounts there are.\<close>

definition bill_view :: "db \<Rightarrow> pg_entry list \<times> uuid list" where
  "bill_view d = (filter (\<lambda>r. pe_entry_type r \<in> {''settle'', ''usage''}) (tb_entries d), map pa_id (tb_accounts d))"

lemma bill_view_statements:
  "update_settled P u amt d = Inr (d', x) \<Longrightarrow> bill_view d' = bill_view d"
  "update_hold u f d = Inr (d', y) \<Longrightarrow> bill_view d' = bill_view d"
  "insert_entry P (reversal_entry i a amt after c rsv run key now) org d = Inr (d', z) \<Longrightarrow> bill_view d' = bill_view d"
  "select_entry u d = Inr (d', v) \<Longrightarrow> bill_view d' = bill_view d"
  "select_reversed P u d = Inr (d', w) \<Longrightarrow> bill_view d' = bill_view d"
  "select_run_holds run' d = Inr (d', hs) \<Longrightarrow> bill_view d' = bill_view d"
  "select_run_usage run' d = Inr (d', us) \<Longrightarrow> bill_view d' = bill_view d"
  by (auto simp: bill_view_def decode_numeric_def update_settled_def update_hold_def insert_entry_def row_of_entry_def reversal_entry_def
      entry_type_to_str_def select_entry_def select_reversed_def select_run_holds_def select_run_usage_def Let_def comp_def
      split: option.splits sum.splits if_splits)

lemma kept_vr_refund:
  assumes "bill_view (working t) = v" and "bill_view (committed t) = v"
  shows "kept (\<lambda>d. bill_view d = v) (pg_vr_refund D P E run a c rsv key t b)"
  unfolding pg_vr_refund_def pg_unreversed_remainder_def
  using assms
  by (cases b) (auto intro!: kept_sbind kept_sql kept_get_col kept_map kept_return simp: bill_view_statements split: prod.splits)

lemma kept_vr_hold:
  assumes "bill_view (working t) = v" and "bill_view (committed t) = v"
  shows "kept (\<lambda>d. bill_view d = v) (pg_vr_hold D P E run t b h)"
  unfolding pg_vr_hold_def
  using assms
  by (cases b) (auto intro!: kept_sbind kept_sql kept_get_col kept_return kept_vr_refund simp: bill_view_statements)

lemma void_run_bill_view:
  assumes "pg_void_run D P E d run = Some (d', x)"
  shows "bill_view d' = bill_view d"
proof -
  let ?F = "\<lambda>e. bill_view e = bill_view d"
  have "kept ?F (sbind (begin_hot P t) (\<lambda>t _.
     sbind (sql P (select_run_holds run) t) (\<lambda>t rows.
     sbind (fold_calls (pg_vr_hold D P E run) t (0, empty_summary) rows) (\<lambda>t v.
     sbind (sql P (select_run_usage run) t) (\<lambda>t charges.
     sbind (fold_calls (pg_vr_charge D P E run) t v charges) (\<lambda>t v.
       commit_with P (Inr (snd v)) t))))))" if "?F (working t)" "?F (committed t)" for t
    using that
    by (intro kept_sbind kept_begin kept_sql kept_fold kept_commit; (assumption | simp add: bill_view_statements
        pg_vr_charge_def kept_vr_refund kept_vr_hold)?)
  from this [of "\<lparr>committed = d, working = d, steps = 0\<rparr>"] assms show ?thesis
    by (auto simp: pg_void_run_def transact_def kept_def)
qed

lemma spend_rows_view:
  "spend_rows P a start until d = filter (\<lambda>r. pe_account_id r = as_uuid a \<and>
     pg_micros P start \<le> pe_created_at r \<and> pe_created_at r < pg_micros P until) (fst (bill_view d))"
  by (auto simp: spend_rows_def bill_view_def intro!: filter_cong)

section \<open>Properties\<close>

text \<open>
  C31. The days of a period add up to the invoice. For any account, any content of the tables and any period
  from year 1 to year 9999, the daily series has one line for each UTC day on which the account spent, in
  chronological order; a line carries that day's date as \<open>YYYY-MM-DD\<close> and exactly the credits and the number
  of the settle and usage entries of that day; and the lines sum to what the invoice of the period charges.
\<close>

theorem days_sum_to_invoice:
  assumes "pg_fault P 0 = None" and "decodes_all P"
    and "FIRST_DAY * NANOS_PER_DAY \<le> pg_micros P start" and "pg_micros P until \<le> (LAST_DAY + 1) * NANOS_PER_DAY"
  shows "\<exists>days inv ns. route_usage_by_day P d i start until = Some (d, Inr days) \<and>
    invoice P d i start until = Some (d, Inr inv) \<and>
    (let rows = filter (\<lambda>r. pe_account_id r = i \<and> (pe_entry_type r = ''settle'' \<or> pe_entry_type r = ''usage'') \<and>
          pg_micros P start \<le> pe_created_at r \<and> pe_created_at r < pg_micros P until) (tb_entries d);
        on_day = (\<lambda>n. filter (\<lambda>r. pe_created_at r div (86400 * 10 ^ 9) = n) rows)
     in sorted_wrt (<) ns \<and> set ns = (\<lambda>r. pe_created_at r div (86400 * 10 ^ 9)) ` set rows \<and>
        days = map (\<lambda>n. \<lparr>pd_day = (case civil n of (y, m, dd) \<Rightarrow>
            zero_padded 4 y @ ''-'' @ zero_padded 2 m @ ''-'' @ zero_padded 2 dd),
          pd_total_credits = sum_list (map (\<lambda>r. - pe_delta r) (on_day n)), pd_entry_count = length (on_day n)\<rparr>) ns) \<and>
    sum_list (map pd_total_credits days) = inv_total_credits inv \<and>
    sum_list (map pd_entry_count days) = inv_entries inv"
proof -
  define rows where "rows = filter (\<lambda>r. pe_account_id r = i \<and> (pe_entry_type r = ''settle'' \<or> pe_entry_type r = ''usage'') \<and>
          pg_micros P start \<le> pe_created_at r \<and> pe_created_at r < pg_micros P until) (tb_entries d)"
  define day where "day = (\<lambda>r :: pg_entry. utc_day (pe_created_at r))"
  define ns where "ns = sorted_list_of_set (day ` set rows)"
  define line where "line = (\<lambda>n. \<lparr>pd_day = iso_date n,
      pd_total_credits = spent (filter (\<lambda>r. day r = n) rows), pd_entry_count = length (filter (\<lambda>r. day r = n) rows)\<rparr>)"
  have rows: "spend_rows P (Id i) start until d = rows" "day_spend_rows P (Id i) start until d = rows"
    by (auto simp: spend_rows_def day_spend_rows_def rows_def)
  have dated: "\<forall>r \<in> set rows. FIRST_DAY \<le> utc_day (pe_created_at r) \<and> utc_day (pe_created_at r) \<le> LAST_DAY"
    using assms(3,4) by (auto simp: rows_def intro!: utc_day_range)
  note ns = dated_rows [OF dated ns_def [unfolded day_def]]
  have groups: "sort_key fst (map (\<lambda>(day, rows). (day, spent rows, length rows)) (group_by (\<lambda>r. day_text (pe_created_at r)) rows)) =
      map (\<lambda>n. (iso_date n, spent (filter (\<lambda>r. day r = n) rows), length (filter (\<lambda>r. day r = n) rows))) ns"
    using sorted_groups [OF ns(3,4), where F = "\<lambda>rs. (spent rs, length rs)"] ns(5) by (simp add: day_def)
  have all: "all_rows (\<lambda>(day, v, n). map_sum id (\<lambda>x. \<lparr>pd_day = day, pd_total_credits = x, pd_entry_count = n\<rparr>)
      (total_col P v)) gs = Inr (map (\<lambda>(day, v, n). \<lparr>pd_day = day, pd_total_credits = v, pd_entry_count = n\<rparr>) gs)" for gs
    using assms(2) by (induction gs) (auto simp: total_col_def decode_numeric_def decodes_all_def)
  have days: "route_usage_by_day P d i start until = Some (d, Inr (map line ns))"
    using assms(1) by (simp add: route_usage_by_day_def pg_usage_by_day_def on_pool_def sbind_def or_ledger_def rows
        groups all line_def comp_def)
  have inv: "invoice P d i start until = Some (d, Inr \<lparr>inv_account_id = Id i,
      inv_total_credits = spent rows, inv_entries = length rows\<rparr>)"
    by (simp add: invoice_def period_usage_reads [OF assms(1,2)] or_ledger_def sbind_def rows)
  have "sum_list (map (\<lambda>n. spent (filter (\<lambda>r. day r = n) rows)) ns) = spent rows"
    using sum_over_keys [OF ns(1,2), of "\<lambda>r. - pe_delta r"] by (simp add: spent_def day_def)
  moreover have "sum_list (map (\<lambda>n. length (filter (\<lambda>r. day r = n) rows)) ns) = length rows"
    using sum_over_keys [OF ns(1,2), of "\<lambda>_. 1 :: nat"] by (simp add: day_def sum_list_triv)
  moreover have "map line ns = map (\<lambda>n. \<lparr>pd_day = (case civil n of (y, m, dd) \<Rightarrow>
            zero_padded 4 y @ ''-'' @ zero_padded 2 m @ ''-'' @ zero_padded 2 dd),
          pd_total_credits = sum_list (map (\<lambda>r. - pe_delta r) (filter (\<lambda>r. pe_created_at r div (86400 * 10 ^ 9) = n) rows)),
          pd_entry_count = length (filter (\<lambda>r. pe_created_at r div (86400 * 10 ^ 9) = n) rows)\<rparr>) ns"
    using ns(2) dated iso_date_four by (auto simp: line_def spent_def day_def utc_day_def NANOS_PER_DAY_def)
  ultimately show ?thesis using days inv ns(1,2)
    by (intro exI [of _ "map line ns"] exI [of _ ns] exI)
       (auto simp: Let_def rows_def [symmetric] utc_day_def NANOS_PER_DAY_def line_def comp_def)
qed

text \<open>
  C30. What is enforced is billed. In a database that stands for a ledger reached by any calls, and for a
  period that holds all of an account's own entries (other accounts may have entries at any time), the
  stored balance is what grants, refunds and transfers posted to the account less exactly the total of the
  invoice: no spend misses the bill and none is on it twice.
\<close>

theorem enforced_is_billed:
  assumes "exact_sums D" and "runs D new_ledger qs s" and "sim d s" and "has_account s a" and "a \<noteq> SYSTEM_ACCOUNT"
    and "pg_fault P 0 = None" and "decodes_all P"
    and "\<forall>r \<in> set (tb_entries d). pe_account_id r = as_uuid a \<longrightarrow>
      pg_micros P start \<le> pe_created_at r \<and> pe_created_at r < pg_micros P until"
  shows "\<exists>row inv. find_pg_account d (as_uuid a) = Some row \<and> invoice P d (as_uuid a) start until = Some (d, Inr inv) \<and>
    pa_settled row = posted_to (filter (\<lambda>e. \<not> is_spend a e) (entries s)) a - inv_total_credits inv"
proof -
  have inv: "ledger_inv s" using assms(1,2) by (rule runs_from_new_inv)
  have e: "list_all2 entry_sim (tb_entries d) (entries s)" using assms(3) by (simp add: sim_def)
  from assms(3,4) obtain row where row: "find_pg_account d (as_uuid a) = Some row"
    using sim_has_account by blast
  have "pa_settled row = settled_of s a"
    using sim_settled [OF assms(3) row assms(5)] by simp
  also have "\<dots> = posted_to (entries s) a" using inv assms(4) by (simp add: ledger_inv_def derived_ok_def)
  also have "\<dots> = posted_to (filter (\<lambda>e. \<not> is_spend a e) (entries s)) a + sum_list (map delta_credits (filter (is_spend a) (entries s)))"
    using inv assms(5) by (intro posted_to_split [where s = s]) (auto simp: ledger_inv_def)
  also have "sum_list (map delta_credits (filter (is_spend a) (entries s))) = - spent (spend_rows P a start until d)"
    using spent_simulated [OF e assms(8)] by (simp add: spend_rows_def)
  finally have "pa_settled row = posted_to (filter (\<lambda>e. \<not> is_spend a e) (entries s)) a - spent (spend_rows P a start until d)" by simp
  then show ?thesis using row
    by (simp add: invoice_def period_usage_reads [OF assms(6,7)] or_ledger_def sbind_def)
qed


text \<open>
  A budget status reports the spend of the period against the limit it was asked for or, without one, the
  configured budget: with a positive limit it answers \<open>exceeded\<close> from the limit on, \<open>warning\<close> from four fifths
  of it and \<open>ok\<close> below, and the remaining credits are exactly the difference. The stores are only read.
\<close>

theorem budget_status_classifies:
  assumes "exact_sums D" and "exact_products D" and "pg_fault P 0 = None" and "pg_fault Q 0 = None" and "decodes_all Q"
    and "budget_status D P Q (c, d) i start until limit = Some (w, Inr r)"
  shows "\<exists>lim used ratio. w = (c, d) \<and> map_option snd (budget_limit D P c i limit) = Some (Inr lim) \<and>
    used = spent (spend_rows Q (Id i) start until d) \<and>
    r = \<lparr>bs_used_credits = dec_str D used, bs_limit_credits = dec_str D lim,
         bs_remaining_credits = dec_str D (lim - used), bs_ratio = dec_str D ratio, bs_status =
           (if lim \<le> 0 then ''ok'' else if lim \<le> used then ''exceeded''
            else if 4 / 5 * lim \<le> used then ''warning'' else ''ok'')\<rparr>"
proof -
  let ?used = "spent (spend_rows Q (Id i) start until d)"
  have "on_pool P (\<lambda>c. Inr (c, f c)) c = Some (c, Inr (f c))" for f :: "config \<Rightarrow> budget_record option"
    by (simp add: on_pool_def assms(3))
  then have same: "budget_limit D P c i limit = Some (c', x) \<Longrightarrow> c' = c" for c' x
    by (auto simp: budget_limit_def budget_def or_ledger_def sbind_def split: option.splits sum.splits)
  from assms(6) obtain c1 lim ratio st rest where
    lim: "budget_limit D P c i limit = Some (c1, Inr lim)" and w: "w = (c1, d)"
    and st: "classify D ?used lim = Some (ratio, st)" and rest: "dec_sub D lim ?used = Some rest"
    and r: "r = \<lparr>bs_used_credits = dec_str D ?used, bs_limit_credits = dec_str D lim,
         bs_remaining_credits = dec_str D rest, bs_ratio = dec_str D ratio, bs_status = st\<rparr>"
    by (auto simp: budget_status_def sbind_def period_usage_reads [OF assms(4,5)] or_ledger_def
        Option.bind_eq_Some_conv split: option.splits sum.splits)
  from st have "st = (if lim \<le> 0 then ''ok'' else if lim \<le> ?used then ''exceeded''
      else if 4 / 5 * lim \<le> ?used then ''warning'' else ''ok'')"
    by (auto simp: classify_def Let_def WARNING_RATIO_def Option.bind_eq_Some_conv mult.commute
        dest!: dec_mul_exact [OF assms(2)] split: if_splits)
  moreover have "rest = lim - ?used" using dec_sub_exact [OF assms(1) rest] .
  moreover have "c1 = c" using lim by (rule same)
  ultimately show ?thesis using lim w r by auto
qed

section \<open>Witnesses\<close>

definition demo_spent_db :: db where
  "demo_spent_db = \<lparr>tb_accounts = map (\<lambda>(_, row). row_of_account (row_settled row) (row_account row)) (accounts demo_spent),
     tb_entries = map (row_of_entry 7) (entries demo_spent), tb_holds = map (row_of_hold 7) (holds demo_spent)\<rparr>"

definition clear_pg :: pg where
  "clear_pg = demo_pg (\<lambda>_. None)"

lemma clear_pg_laws: "pg_fault clear_pg 0 = None" "decodes_all clear_pg"
  by (simp_all add: clear_pg_def demo_pg_def decodes_all_def)

lemma demo_spent_sim: "sim demo_spent_db demo_spent"
  by code_simp

theorem days_sum_to_invoice_witness:
  "\<exists>inv. route_usage_by_day clear_pg demo_spent_db (as_uuid demo_wallet) 0 (10 ^ 12) =
       Some (demo_spent_db, Inr [\<lparr>pd_day = ''1970-01-01'', pd_total_credits = inv_total_credits inv, pd_entry_count = 2\<rparr>]) \<and>
     invoice clear_pg demo_spent_db (as_uuid demo_wallet) 0 (10 ^ 12) = Some (demo_spent_db, Inr inv) \<and>
     inv_total_credits inv = 50"
proof -
  let ?in = "\<lambda>r. pe_account_id r = as_uuid demo_wallet \<and> (pe_entry_type r = ''settle'' \<or> pe_entry_type r = ''usage'') \<and>
      pg_micros clear_pg 0 \<le> pe_created_at r \<and> pe_created_at r < pg_micros clear_pg (10 ^ 12)"
  let ?rows = "filter ?in (tb_entries demo_spent_db)"
  let ?on = "\<lambda>n. filter (\<lambda>r. pe_created_at r div (86400 * 10 ^ 9) = n) ?rows"
  have e: "map_option (map_sum id (\<lambda>v. (inv_total_credits v, inv_entries v)) \<circ> snd)
       (invoice clear_pg demo_spent_db (as_uuid demo_wallet) 0 (10 ^ 12)) = Some (Inr (50, 2))"
    "remdups (map (\<lambda>r. pe_created_at r div (86400 * 10 ^ 9)) ?rows) = [0]"
    "(case civil 0 of (y, m, dd) \<Rightarrow> zero_padded 4 y @ ''-'' @ zero_padded 2 m @ ''-'' @ zero_padded 2 dd) = ''1970-01-01''"
    by code_simp+
  have day: "(\<lambda>r. pe_created_at r div (86400 * 10 ^ 9)) ` set ?rows = {0}"
    using arg_cong [OF e(2), of set] by simp
  have p: "FIRST_DAY * NANOS_PER_DAY \<le> pg_micros clear_pg 0"
    "pg_micros clear_pg (10 ^ 12) \<le> (LAST_DAY + 1) * NANOS_PER_DAY"
    by code_simp+
  from days_sum_to_invoice [OF clear_pg_laws p, of demo_spent_db "as_uuid demo_wallet"]
  obtain days inv ns where d:
    "route_usage_by_day clear_pg demo_spent_db (as_uuid demo_wallet) 0 (10 ^ 12) = Some (demo_spent_db, Inr days)"
    "invoice clear_pg demo_spent_db (as_uuid demo_wallet) 0 (10 ^ 12) = Some (demo_spent_db, Inr inv)"
    "sum_list (map pd_total_credits days) = inv_total_credits inv" "sum_list (map pd_entry_count days) = inv_entries inv"
    "sorted_wrt (<) ns" "set ns = {0}"
    "days = map (\<lambda>n. \<lparr>pd_day = (case civil n of (y, m, dd) \<Rightarrow>
       zero_padded 4 y @ ''-'' @ zero_padded 2 m @ ''-'' @ zero_padded 2 dd), pd_total_credits = sum_list (map (\<lambda>r. - pe_delta r) (?on n)),
       pd_entry_count = length (?on n)\<rparr>) ns"
    unfolding Let_def day by blast
  have "ns = [0]" using d(5,6) by (intro sorted_distinct_set_unique) (auto simp: strict_sorted_iff)
  with d e(1,3) show ?thesis by auto
qed

lemma demo_times: "list_all (\<lambda>r. pe_account_id r = as_uuid demo_wallet \<longrightarrow> pg_micros clear_pg 0 \<le> pe_created_at r \<and> pe_created_at r < pg_micros clear_pg (10 ^ 12))
    (tb_entries demo_spent_db)"
  by code_simp

theorem enforced_is_billed_witness:
  "\<exists>row inv. find_pg_account demo_spent_db (as_uuid demo_wallet) = Some row \<and> pa_settled row = 50 \<and>
     invoice clear_pg demo_spent_db (as_uuid demo_wallet) 0 (10 ^ 12) = Some (demo_spent_db, Inr inv) \<and>
     inv_total_credits inv = 50"
proof -
  have "has_account demo_spent demo_wallet" "demo_wallet \<noteq> SYSTEM_ACCOUNT" by code_simp+
  from enforced_is_billed [OF exact_deps_laws(1) demo_spent_runs demo_spent_sim this clear_pg_laws
      demo_times [unfolded list_all_iff]]
  obtain row inv where *: "find_pg_account demo_spent_db (as_uuid demo_wallet) = Some row"
    "invoice clear_pg demo_spent_db (as_uuid demo_wallet) 0 (10 ^ 12) = Some (demo_spent_db, Inr inv)"
    "pa_settled row = posted_to (filter (\<lambda>e. \<not> is_spend demo_wallet e) (entries demo_spent)) demo_wallet - inv_total_credits inv"
    by blast
  have "posted_to (filter (\<lambda>e. \<not> is_spend demo_wallet e) (entries demo_spent)) demo_wallet = 100" by code_simp
  moreover have "map_option pa_settled (find_pg_account demo_spent_db (as_uuid demo_wallet)) = Some 50" by code_simp
  ultimately show ?thesis using * by auto
qed


theorem budget_status_classifies_witness:
  "\<exists>w r. budget_status exact_deps clear_pg clear_pg (no_config, demo_spent_db) (as_uuid demo_wallet) 0 (10 ^ 12)
       (Some (replicate 125 (CHR ''1'') @ ''/11'')) = Some (w, Inr r) \<and> w = (no_config, demo_spent_db) \<and>
     bs_status r = ''warning'' \<and> bs_remaining_credits r = rat_text (25 / 2)"
proof -
  define b where "b = budget_status exact_deps clear_pg clear_pg (no_config, demo_spent_db) (as_uuid demo_wallet) 0 (10 ^ 12)
       (Some (replicate 125 (CHR ''1'') @ ''/11''))"
  have e: "map_option (map_sum id (\<lambda>r. (bs_status r, bs_remaining_credits r)) \<circ> snd) b = Some (Inr (''warning'', rat_text (25 / 2)))"
    unfolding b_def by code_simp
  then obtain w y where y: "b = Some (w, y)" "map_sum id (\<lambda>r. (bs_status r, bs_remaining_credits r)) y = Inr (''warning'', rat_text (25 / 2))"
    by auto
  from y(2) obtain r where r: "y = Inr r" "bs_status r = ''warning''" "bs_remaining_credits r = rat_text (25 / 2)"
    by (cases y) auto
  note claim = budget_status_classifies [OF exact_deps_laws(1,3) clear_pg_laws(1) clear_pg_laws y(1) [unfolded b_def r(1)]]
  from claim have "w = (no_config, demo_spent_db)" by blast
  with y(1) r show ?thesis unfolding b_def by blast
qed

end
