(* ===== verification/Grpc_Props.thy ===== *)
theory Grpc_Props
  imports Grpc Routes Config_Props Reports_Props
begin

text \<open>
  What the gRPC surface adds to a backend, and what it does not. A client writes the body of an HTTP request as
  a proto message (\<open>open_account_message\<close> and the like); the two surfaces then run the same methods of the
  backend and answer with the same data. A call that is refused for its fields does not reach the backend.
\<close>

section \<open>The client's encoding\<close>

definition scope_number :: "account_scope \<Rightarrow> 32 word option" where
  "scope_number sc = (case sc of Org \<Rightarrow> Some 1 | Team \<Rightarrow> Some 2 | User \<Rightarrow> Some 3 | Product \<Rightarrow> Some 4
     | Session \<Rightarrow> Some 5 | Promo \<Rightarrow> Some 6 | Paid \<Rightarrow> Some 7 | _ \<Rightarrow> None)"

definition source_number :: "credit_source \<Rightarrow> 32 word" where
  "source_number so = (case so of Paid_source \<Rightarrow> 1 | Promo_source \<Rightarrow> 2 | Grant_source \<Rightarrow> 3)"

definition limit_number :: "limit_class \<Rightarrow> 32 word" where
  "limit_number c = (case c of Hard \<Rightarrow> 1 | Soft \<Rightarrow> 2)"

definition or_empty :: "('a \<Rightarrow> string) \<Rightarrow> 'a option \<Rightarrow> string" where
  "or_empty f x = (case x of None \<Rightarrow> [] | Some y \<Rightarrow> f y)"

text \<open>
  The bodies of the HTTP routes as proto messages. The scope has a number for the public scopes only, and a
  message cannot tell an empty idempotency key from none.
\<close>

definition open_account_message :: "deps \<Rightarrow> 32 word \<Rightarrow> open_account_body \<Rightarrow> v1_open_account" where
  "open_account_message D n b =
     \<lparr>oa_org_id = uuid_str D (as_uuid (oab_org_id b)), oa_scope = n, oa_no_overdraft = oab_no_overdraft b,
      oa_parent_id = or_empty (uuid_str D \<circ> as_uuid) (oab_parent_id b)\<rparr>"

definition grant_message :: "deps \<Rightarrow> uuid \<Rightarrow> grant_body \<Rightarrow> v1_grant" where
  "grant_message D i b =
     \<lparr>gr_account_id = uuid_str D i, gr_amount = Some (dec_str D (gb_amount b)),
      gr_source = source_number (gb_source b), gr_idempotency_key = or_empty id (gb_idempotency_key b)\<rparr>"

definition reserve_message :: "deps \<Rightarrow> (time \<Rightarrow> string) \<Rightarrow> reserve_body \<Rightarrow> v1_reserve" where
  "reserve_message D stamp b =
     \<lparr>rs_account_id = uuid_str D (as_uuid (rsb_account b)),
      rs_reservation_id = uuid_str D (reservation_uuid (rsb_reservation_id b)),
      rs_amount = Some (dec_str D (rsb_amount b)), rs_limit = limit_number (rsb_limit b),
      rs_expires_at = or_empty stamp (rsb_expires_at b),
      rs_run_id = or_empty (uuid_str D \<circ> as_uuid) (rsb_run_id b)\<rparr>"

definition settle_message :: "deps \<Rightarrow> uuid \<Rightarrow> settle_body \<Rightarrow> v1_settle" where
  "settle_message D i b = \<lparr>st_reservation_id = uuid_str D i, st_actual = Some (dec_str D (sb_actual b))\<rparr>"

text \<open>
  The two answers to one request. A reply \<open>a\<close> of the HTTP route goes with the gRPC reply \<open>view a\<close>, an API error of
  the ledger with the status of the same ledger error; both surfaces leave the same ledger, and the HTTP
  route the event store \<open>x\<close>. A panic is a panic on both.
\<close>

definition same_answer ::
  "('a \<Rightarrow> 'b) \<Rightarrow> 'x \<Rightarrow> ('l \<times> 'x, api_error, 'a) sres \<Rightarrow> ('l, status, 'b) sres \<Rightarrow> bool" where
  "same_answer view x h g = (case h of
      None \<Rightarrow> g = None
    | Some (w, Inr a) \<Rightarrow> snd w = x \<and> g = Some (fst w, Inr (view a))
    | Some (w, Inl err) \<Rightarrow> snd w = x \<and> (\<exists>e. err = ApiLedger e \<and> g = Some (fst w, Inl (status_from_ledger e))))"

text \<open>Named hypothesis: texts of decimals, ids and times read back, and an id or a time is not empty.\<close>

definition texts_read_back :: "deps \<Rightarrow> (string \<Rightarrow> time option) \<Rightarrow> (time \<Rightarrow> string) \<Rightarrow> bool" where
  "texts_read_back D rfc3339 stamp \<longleftrightarrow> text_roundtrip D \<and>
     (\<forall>u. uuid_parse D (uuid_str D u) = Some u \<and> uuid_str D u \<noteq> []) \<and>
     (\<forall>t. rfc3339 (stamp t) = Some t \<and> stamp t \<noteq> [])"

section \<open>Properties\<close>

lemma checked_Inr [simp]: "checked s (Inr a) f = f a"
  by (simp add: checked_def)

lemma sres_cases:
  obtains "m = None" | l e where "m = Some (l, Inl e)" | l a where "m = Some (l, Inr a)"
  by (metis old.sum.exhaust option.exhaust surj_pair)

lemma wire_uuid:
  "texts_read_back D rfc3339 stamp \<Longrightarrow> parse_uuid D (uuid_str D u) field = Inr u"
  "texts_read_back D rfc3339 stamp \<Longrightarrow> optional (or_empty (uuid_str D \<circ> as_uuid) x)
     (\<lambda>v. map_sum id Id (parse_uuid D v field)) = Inr x"
  by (auto simp: texts_read_back_def parse_uuid_def optional_def or_empty_def split: option.splits)

lemma wire_time:
  "texts_read_back D rfc3339 stamp \<Longrightarrow> parse_time rfc3339 (stamp t) field = Inr t"
  "texts_read_back D rfc3339 stamp \<Longrightarrow> optional (or_empty stamp y) (\<lambda>v. parse_time rfc3339 v field) = Inr y"
  by (auto simp: texts_read_back_def parse_time_def optional_def or_empty_def split: option.splits)

lemma wire_credit: "texts_read_back D rfc3339 stamp \<Longrightarrow> credit_from_proto D (Some (dec_str D x)) field = Inr x"
  by (auto simp: texts_read_back_def credit_from_proto_def text_roundtrip_def)

lemma wire_enums:
  "scope_number sc = Some n \<Longrightarrow> account_scope_of n = Inr sc" "credit_source_of (source_number so) = Inr so"
  "limit_class_of (limit_number c) = Inr c"
  by (auto simp: scope_number_def account_scope_of_def source_number_def credit_source_of_def limit_number_def
      limit_class_of_def split: account_scope.splits credit_source.splits limit_class.splits)

lemmas wire_texts = wire_uuid wire_time wire_credit

text \<open>One backend call behind both surfaces.\<close>

lemma same_call:
  "same_answer view x (on_ledger x m) (sbind (or_ledger_status m) (\<lambda>l a. Some (l, Inr (view a))))"
  by (cases m rule: sres_cases) (simp_all add: same_answer_def on_ledger_def or_ledger_status_def sbind_def)

lemma same_call_then:
  "same_answer (\<lambda>_. ()) x (sbind (on_ledger x m) (\<lambda>w _. Some (w, Inr n)))
     (sbind (or_ledger_status m) (\<lambda>l _. Some (l, Inr ())))"
  by (cases m rule: sres_cases) (simp_all add: same_answer_def on_ledger_def or_ledger_status_def sbind_def)

lemma same_two_calls:
  assumes "\<And>l. same_answer view x (f (l, x)) (g l)"
  shows "same_answer view x (sbind (on_ledger x m) (\<lambda>w _. f w)) (sbind (or_ledger_status m) (\<lambda>l _. g l))"
  using assms by (cases m rule: sres_cases) (simp_all add: same_answer_def on_ledger_def or_ledger_status_def sbind_def)

definition refused_cleanly :: "'s \<Rightarrow> ('s, status, 'a) sres \<Rightarrow> bool" where
  "refused_cleanly l r \<longleftrightarrow> (\<forall>l' st t. r = Some (l', Inl st) \<longrightarrow> grpc_message st = Said t \<longrightarrow>
     l' = l \<and> grpc_code st = InvalidArgument)"

definition bad_argument :: "(status + 'a) \<Rightarrow> bool" where
  "bad_argument r \<longleftrightarrow> (\<forall>e. r = Inl e \<longrightarrow> grpc_code e = InvalidArgument)"

lemma refused_checked:
  "bad_argument r \<Longrightarrow> (\<And>a. refused_cleanly l (f a)) \<Longrightarrow> refused_cleanly l (checked l r f)"
  by (auto simp: refused_cleanly_def bad_argument_def checked_def split: sum.splits)

lemma refused_call:
  assumes "\<And>l' a. refused_cleanly l (f l' a)"
  shows "refused_cleanly l (sbind (or_ledger_status m) f)"
  using assms by (cases m rule: sres_cases) (simp_all add: refused_cleanly_def or_ledger_status_def sbind_def status_from_ledger_def)

lemma refused_reply: "refused_cleanly l (Some (l', Inr a))"
  by (simp add: refused_cleanly_def)

lemma bad_arguments:
  "bad_argument (parse_uuid D v field)" "bad_argument (parse_time rfc3339 v field)"
  "bad_argument (credit_from_proto D c field)" "bad_argument (account_scope_of n)"
  "bad_argument (credit_source_of n)" "bad_argument (limit_class_of n)"
  by (auto simp: bad_argument_def parse_uuid_def parse_time_def credit_from_proto_def account_scope_of_def
      credit_source_of_def limit_class_of_def invalid_argument_def split: option.splits if_splits)

lemma bad_optional: "(\<And>x. bad_argument (f x)) \<Longrightarrow> bad_argument (optional v f)"
  by (cases "f v") (auto simp: bad_argument_def optional_def)

lemma bad_map: "bad_argument r \<Longrightarrow> bad_argument (map_sum id f r)"
  by (cases r) (auto simp: bad_argument_def)

lemmas refused_rules = refused_checked refused_call refused_reply bad_arguments bad_optional bad_map

text \<open>
  A call that is refused for its fields changes nothing. When the status of a ledger call is not the text
  of a ledger error, some field was missing or malformed: the status is \<open>invalid_argument\<close> and the backend,
  whichever it is, was not called.
\<close>

theorem bad_fields_change_nothing:
  "refused_cleanly l (grpc_open_account D L E l oa) \<and> refused_cleanly l (grpc_grant D L E l gr) \<and>
   refused_cleanly l (grpc_reserve D rfc3339 L l rs) \<and> refused_cleanly l (grpc_settle D L E l st) \<and>
   refused_cleanly l (grpc_void D L l r) \<and> refused_cleanly l (grpc_extend_hold D rfc3339 L l r t) \<and>
   refused_cleanly l (grpc_void_expired_holds L E l) \<and> refused_cleanly l (grpc_void_run D L E l run) \<and>
   refused_cleanly l (grpc_balance D L l a)"
  unfolding grpc_open_account_def grpc_grant_def grpc_reserve_def grpc_settle_def grpc_void_def
      grpc_extend_hold_def grpc_void_expired_holds_def grpc_void_run_def grpc_balance_def
  by (intro conjI refused_rules)

section \<open>The two surfaces\<close>

text \<open>The methods one by one.\<close>

lemma open_account_agrees:
  assumes "texts_read_back D rfc3339 stamp" and "scope_number (oab_scope b) = Some n"
  shows "same_answer (\<lambda>acct. uuid_str D (as_uuid (acct_id acct))) x
    (route_open_account E app (l, x) b) (grpc_open_account D (app_ledger app) (E 1) l (open_account_message D n b))"
  using wire_enums(1) [OF assms(2)]
  by (simp add: route_open_account_def grpc_open_account_def open_account_message_def wire_texts [OF assms(1)] same_call)

lemma balance_agrees:
  assumes "texts_read_back D rfc3339 stamp"
  shows "same_answer (\<lambda>v. \<lparr>br_settled = Some (dec_str D (bal_settled v)), br_held = Some (dec_str D (bal_held v))\<rparr>) x
    (route_balance app (l, x) i) (grpc_balance D (app_ledger app) l (uuid_str D i))"
  by (simp add: route_balance_def grpc_balance_def wire_texts [OF assms] credit_to_proto_def same_call)

lemma reserve_agrees:
  assumes "texts_read_back D rfc3339 stamp"
  shows "same_answer (\<lambda>v. case v of
          Allowed _ \<Rightarrow> \<lparr>rr_allowed = True, rr_available = None, rr_requested = None\<rparr>
        | Denied left wanted \<Rightarrow>
            \<lparr>rr_allowed = False, rr_available = Some (dec_str D left), rr_requested = Some (dec_str D wanted)\<rparr>) x
      (route_reserve app (l, x) b) (grpc_reserve D rfc3339 (app_ledger app) l (reserve_message D stamp b))"
  by (simp add: route_reserve_def grpc_reserve_def reserve_message_def wire_texts [OF assms] wire_enums)
     (unfold credit_to_proto_def, rule same_call)

lemma settle_agrees:
  assumes "texts_read_back D rfc3339 stamp"
  shows "same_answer (\<lambda>e. Some (dec_str D (balance_after e))) x
    (route_settle E app (l, x) i b) (grpc_settle D (app_ledger app) (E 1) l (settle_message D i b))"
  by (simp add: route_settle_def grpc_settle_def settle_message_def wire_texts [OF assms] credit_to_proto_def same_call)

lemma void_and_extend_agree:
  assumes "texts_read_back D rfc3339 stamp"
  shows "same_answer (\<lambda>_. ()) x (route_void app (l, x) i) (grpc_void D (app_ledger app) l (uuid_str D i))"
    and "same_answer (\<lambda>_. ()) x (route_extend app (l, x) i \<lparr>eb_expires_at = t\<rparr>)
      (grpc_extend_hold D rfc3339 (app_ledger app) l (uuid_str D i) (stamp t))"
  by (simp_all add: route_void_def grpc_void_def route_extend_def grpc_extend_hold_def wire_texts [OF assms] same_call_then)

lemma grant_agrees:
  assumes "texts_read_back D rfc3339 stamp" and "gb_idempotency_key b \<noteq> Some []"
  shows "same_answer (\<lambda>v. Some (dec_str D (bal_settled v))) x
    (sbind (route_grant E app (l, x) i b) (\<lambda>w _. route_balance app w i))
    (grpc_grant D (app_ledger app) (E 1) l (grant_message D i b))"
proof -
  have sent: "gr_account_id (grant_message D i b) = uuid_str D i" "gr_amount (grant_message D i b) = Some (dec_str D (gb_amount b))"
    "gr_source (grant_message D i b) = source_number (gb_source b)" by (simp_all add: grant_message_def)
  have key: "(if gr_idempotency_key (grant_message D i b) = [] then None else Some (gr_idempotency_key (grant_message D i b)))
      = gb_idempotency_key b" using assms(2) by (auto simp: grant_message_def or_empty_def split: option.splits)
  show ?thesis
    unfolding grpc_grant_def route_grant_def key sent wire_texts [OF assms(1)] wire_enums credit_to_proto_def checked_Inr fst_conv snd_conv
    by (rule same_two_calls) (simp add: route_balance_def same_call)
qed

lemma void_run_agrees:
  assumes "texts_read_back D rfc3339 stamp"
  shows "case grpc_void_run_events D (app_events app) x (uuid_str D i) of
        None \<Rightarrow> api_void_run E app (l, x) i = None
      | Some (x', Inl st) \<Rightarrow>
          (\<exists>e. st = status_from_event e \<and> api_void_run E app (l, x) i = Some ((l, x'), Inl (ApiEvent e)))
      | Some (x', Inr n) \<Rightarrow>
          same_answer (\<lambda>v. \<lparr>vrr_holds_released = vv_holds_released v, vrr_charges_refunded = vv_charges_refunded v,
              vrr_credits_refunded = Some (dec_str D (vv_credits_refunded v))\<rparr>) x'
            (api_void_run E app (l, x) i) (grpc_void_run D (app_ledger app) (E 1) l (uuid_str D i)) \<and>
          (\<forall>w v. api_void_run E app (l, x) i = Some (w, Inr v) \<longrightarrow> vv_events_voided v = n)"
  unfolding api_void_run_def grpc_void_run_events_def grpc_void_run_def wire_texts [OF assms] credit_to_proto_def checked_Inr
  by (cases "ev_void_run (app_events app) x (Id i)" rule: sres_cases;
      cases "be_void_run (app_ledger app) (E 1) l (Id i)" rule: sres_cases)
     (auto simp: same_answer_def on_events_def on_ledger_def or_event_status_def or_ledger_status_def sbind_def)


section \<open>Witnesses\<close>

definition demo_stamp :: "time \<Rightarrow> string" where
  "demo_stamp t = rat_text (of_int t)"

definition demo_rfc3339 :: "string \<Rightarrow> time option" where
  "demo_rfc3339 s = map_option floor (rat_of_text s)"

lemma demo_texts: "texts_read_back exact_deps demo_rfc3339 demo_stamp"
proof -
  have "uuid_bytes u \<noteq> []" for u by (simp add: uuid_bytes_def)
  moreover have "rat_text x \<noteq> []" for x by (simp add: rat_text_def split: prod.splits)
  ultimately show ?thesis
    using exact_uuid_text by (simp add: texts_read_back_def demo_stamp_def demo_rfc3339_def rat_text_roundtrip)
qed


end
