(* ===== verification/Engine.thy ===== *)
theory Engine
  imports Api Ch_Tables
begin

text \<open>
  The decisions of the engine binary (\<open>crates/meter-engine/src/main.rs\<close>): which surfaces a process serves
  (\<open>METER_ROLES\<close>) and how ingest deduplicates (\<open>METER_INGEST_MODE\<close>). An environment variable is an option.
\<close>

record roles =
  http :: bool
  grpc :: bool

definition is_space :: "char \<Rightarrow> bool" where
  "is_space c = (c = CHR '' '' \<or> (9 \<le> (of_char c :: nat) \<and> (of_char c :: nat) \<le> 13))"

definition trim :: "string \<Rightarrow> string" where
  "trim s = rev (dropWhile is_space (rev (dropWhile is_space s)))"

text \<open>\<open>str::split\<close> at commas: one part more than there are commas.\<close>

fun split_commas :: "string \<Rightarrow> string list" where
  "split_commas [] = [[]]"
| "split_commas (c # cs) = (case split_commas cs of
      [] \<Rightarrow> [[c]]
    | part # parts \<Rightarrow> if c = CHR '','' then [] # part # parts else (c # part) # parts)"

fun select_roles :: "roles \<Rightarrow> string list \<Rightarrow> string + roles" where
  "select_roles rl [] = Inr rl"
| "select_roles rl (part # parts) = (let t = trim part in
     if t = [] then select_roles rl parts
     else if t = ''http'' then select_roles (rl\<lparr>http := True\<rparr>) parts
     else if t = ''grpc'' then select_roles (rl\<lparr>grpc := True\<rparr>) parts
     else Inl (''unknown role in METER_ROLES: '' @ str_debug t @ '' (valid: http, grpc)''))"

definition parse_roles :: "string \<Rightarrow> string + roles" where
  "parse_roles raw =
     (if trim raw = [] then Inr \<lparr>http = True, grpc = True\<rparr>
      else case select_roles \<lparr>http = False, grpc = False\<rparr> (split_commas raw) of
        Inl e \<Rightarrow> Inl e
      | Inr rl \<Rightarrow> if \<not> http rl \<and> \<not> grpc rl then Inl ''METER_ROLES selected no roles (valid: http, grpc)'' else Inr rl)"

definition roles_from_env :: "string option \<Rightarrow> string + roles" where
  "roles_from_env v = parse_roles (case v of None \<Rightarrow> [] | Some raw \<Rightarrow> raw)"

definition ingest_mode_from_env :: "string option \<Rightarrow> ingest_mode" where
  "ingest_mode_from_env v = (if v = Some ''append'' then Append else ExactlyOnce)"

lemma select_roles_iff:
  "select_roles rl parts = Inr rl' \<longleftrightarrow>
     set (map trim parts) \<subseteq> {[], ''http'', ''grpc''} \<and>
     rl' = \<lparr>http = http rl \<or> ''http'' \<in> set (map trim parts), grpc = grpc rl \<or> ''grpc'' \<in> set (map trim parts)\<rparr>"
  by (induction parts arbitrary: rl) (auto simp: Let_def)

text \<open>
  The process serves what it was told to. A role list is accepted exactly when it is blank, which selects
  both surfaces, or its parts are roles or blank and name at least one; then it selects the surfaces named.
  So the arm of \<open>main\<close> for a process without any surface is unreachable.
\<close>

theorem roles_are_served:
  "parse_roles raw = Inr rl \<longleftrightarrow> (let parts = set (map trim (split_commas raw)) in
     if trim raw = [] then rl = \<lparr>http = True, grpc = True\<rparr>
     else parts \<subseteq> {[], ''http'', ''grpc''} \<and> (http rl \<or> grpc rl) \<and>
       rl = \<lparr>http = (''http'' \<in> parts), grpc = (''grpc'' \<in> parts)\<rparr>)"
proof -
  have "parse_roles raw = Inr rl \<longleftrightarrow> (if trim raw = [] then rl = \<lparr>http = True, grpc = True\<rparr>
      else select_roles \<lparr>http = False, grpc = False\<rparr> (split_commas raw) = Inr rl \<and> (http rl \<or> grpc rl))"
    by (auto simp: parse_roles_def split: sum.splits)
  then show ?thesis by (auto simp: Let_def select_roles_iff)
qed

end
