(* ===== verification/Spec2Isabelle.thy ===== *)
theory Spec2Isabelle
  imports Api_Props Ch_Props Suite_Runs Grpc_Props Engine
begin

text \<open>
  A verification development for \<^bold>\<open>meter\<close>, a usage-metering and credit-billing engine in Rust. It models the
  engine's crates as HOL functions, one definition per operation, and proves what makes them correct. This
  theory is the root and holds no model of its own.

  \<^bold>\<open>The program.\<close> A customer's usage is priced by a rate card into credits, the credits are held before a
  call and settled after it (or charged at once), and the usage is recorded as an event. Two stores carry
  this: a double-entry \<^emph>\<open>ledger\<close> of credits, whose reference implementation is in memory and whose production
  implementation is Postgres, and an \<^emph>\<open>event store\<close>, in memory and on ClickHouse with materialized usage
  rollups. \<open>meter-pricing\<close> and \<open>meter-ratecards\<close> price, \<open>meter-enforcement\<close> and \<open>meter-api\<close> compose pricing,
  ledger and events into handlers, over HTTP and over gRPC; the control plane syncs rate cards and budgets
  into the engine's configuration. Handlers are not atomic: each store call is a step of its own.

  \<^bold>\<open>Theories and sources\<close> (under \<open>src/crates\<close>).
  \<^item> \<open>Prelude\<close>: results and state passing (\<open>None\<close> is a panic, \<open>Some (s, Inl e)\<close> an error with its state), the
    parameters of the model, list and association-list lemmas, a concrete instance for evaluation.
  \<^item> \<open>Core\<close>: \<open>meter-core\<close> (\<open>money.rs\<close>, \<open>credit.rs\<close>, \<open>id.rs\<close>).
  \<^item> \<open>Ledger_Model\<close>, \<open>Ledger_Memory\<close>: \<open>meter-ledger/src/model\<close>, \<open>request.rs\<close>, \<open>error.rs\<close> and every operation of
    \<open>memory/\<close> over the record \<open>state\<close>. \<open>Ledger_Kernel\<close> is the abstract machine, a step relation of seven double-entry
    steps; \<open>Ledger_Refine\<close> refines each operation to it, \<open>Ledger_Invariant\<close>, \<open>Ledger_Overdraft\<close>, \<open>Ledger_Total\<close>,
    \<open>Ledger_Void\<close> and \<open>Ledger_Moved\<close> draw the consequences, \<open>Ledger_Props\<close> states them.
  \<^item> \<open>Backend\<close>, \<open>Event_Backend\<close>: the traits \<open>LedgerBackend\<close> and \<open>EventStore\<close> as records of operations, and the locales
    \<open>ledger_backend\<close> and \<open>event_backend\<close> with the laws that clients use, interpreted on the in-memory stores.
  \<^item> \<open>Pricing\<close>, \<open>Pricing_Props\<close>, \<open>Rate_Cards\<close>: \<open>meter-pricing\<close> and the catalog of \<open>meter-ratecards\<close>.
  \<^item> \<open>Events\<close>, \<open>Events_Props\<close>: \<open>meter-event\<close>, the in-memory store and its abstract steps.
  \<^item> \<open>Enforcement\<close>: \<open>meter-enforcement\<close>. \<open>Api\<close>, \<open>Api_Props\<close>: \<open>meter-api\<close>'s metering loop (\<open>routes/usage.rs\<close>), run kill,
    errors, bodies and card resolution; the locale \<open>metering\<close> joins the two backend interfaces. The code's \<open>AppState\<close>
    holds the Postgres and ClickHouse stores; the handlers are modelled over any two stores with those methods, and
    the theorems on them are for the in-memory pair, which the production stores simulate.
  \<^item> \<open>Routes\<close>: the other HTTP routes (accounts, leases, reservations, events, cards, catalog, simulation).
  \<^item> \<open>Config\<close>, \<open>Grpc_Config\<close>, \<open>Config_Props\<close>: the synced configuration (\<open>meter-store-pg/src/config.rs\<close> and its tables), the
    gRPC config service and the lookups of \<open>cards.rs\<close>.
  \<^item> \<open>Calendar\<close>, \<open>Reports\<close>, \<open>Reports_Props\<close>: \<open>meter-store-pg/src/report.rs\<close>, invoices, daily usage and budget status;
    \<open>Calendar\<close> is the UTC day of an instant, its Gregorian date and the text the query groups and sorts by.
  \<^item> \<open>Grpc\<close>, \<open>Grpc_Props\<close>: the ledger, ingest and query services of \<open>meter-api/src/grpc\<close>.
  \<^item> \<open>Pg_Tables\<close>, \<open>Pg_Ledger\<close>: \<open>meter-store-pg\<close>, its tables with their constraints, the SQL statements, transactions and every
    method of \<open>PgLedger\<close>. \<open>Pg_Sim\<close>, \<open>Pg_Refine\<close>, \<open>Pg_Methods\<close>, \<open>Pg_Void\<close> show the simulation of the in-memory ledger,
    \<open>Pg_Atomic\<close> atomicity, \<open>Pg_Props\<close> the results.
  \<^item> \<open>Ch_Tables\<close>, \<open>Ch_Usage\<close>, \<open>Ch_Log\<close>: \<open>meter-store-ch\<close>, the replacing events table, the two rollups with their materialized
    views, the analytics, the audit log and dead letters, with the audit and analytics routes. \<open>Ch_Steps\<close>, \<open>Ch_Methods\<close>, \<open>Ch_Rollup\<close>,
    \<open>Ch_Reads\<close>, \<open>Ch_Sim\<close> and \<open>Ch_Demo\<close> carry the proofs of \<open>Ch_Props\<close>; the locales \<open>rollup\<close> and \<open>rebuildable\<close> are
    interpreted on the six summed columns.
  \<^item> \<open>Conformance\<close>, \<open>Event_Suite\<close>: the conformance suites of the two crates, each scenario as a program over any
    backend. \<open>Conformance_Props\<close> proves the two randomised checks for all inputs, \<open>Suite_Runs\<close> runs the scenarios.
  \<^item> \<open>Engine\<close>: which surfaces and which ingest mode a process chooses (\<open>meter-engine/src/main.rs\<close>).

  \<^bold>\<open>What is shown.\<close>
  \<^item> Ledger: credits are conserved, balances are derived from the entries, no overdraft of a protected
    account, history is immutable, keyed calls are idempotent, a hold settles at most once, a run void reverses
    exactly what the run still owes, the expiry sweep, leases, absence of panics, errors without effect; and refinement of the
    abstract machine.
  \<^item> Pricing: graduated tiers are marginal prices, validation is characterised, credits are rounded once.
  \<^item> Events: lineage of versions, exactly-once recording, run voids.
  \<^item> Handlers, over the in-memory stores: a metered call charges its price exactly once, an amendment moves the difference once, on the card it names, a killed
    run stays dead, a hard limit holds.
  \<^item> Postgres: each call is atomic under any failure, simulates the in-memory ledger for requests its columns can hold
    exactly, and a retried charge is applied exactly once. ClickHouse: rollups track the events, the model report counts
    what a scan counts, a rebuild repairs, and the store simulates the in-memory one.
  \<^item> Configuration and billing: whatever was synced can be loaded and prices as sent; the daily series has each
    UTC day's spend in order and sums to the invoice; the invoice is what spending took from the balance, and a run void
    on the Postgres ledger returns credits without changing any invoice.
  \<^item> Surfaces: gRPC and HTTP run the same ledger calls and answer with the same data, method by method.

  \<^bold>\<open>Parameters and hypotheses.\<close> Code outside the repository is an argument. \<open>deps\<close> holds decimal arithmetic,
  texts of decimals and ids and the UUID hash; \<open>env\<close> the fresh ids and the clock; \<open>pg\<close> and \<open>ch\<close> the databases' codecs and
  failures; JSON and time parsers are functions. Theorems name what they need of them: \<open>exact_sums\<close>,
  \<open>total_sums\<close>, \<open>text_roundtrip\<close>, \<open>decodes_exactly\<close>, \<open>jsonb_faithful\<close> and the like, each documented behaviour and each
  satisfied by the instances of the witnesses. \<open>fresh\<close> says that ids handed out are new.

  \<^bold>\<open>Representation.\<close> Decimals are rationals; where a decimal operation can overflow it returns an option and the
  code's panic is \<open>None\<close>. A hash map is an association list with distinct keys in insertion order, and theorems
  do not depend on that order. Counters and enums keep their width (\<open>32 word\<close>, \<open>64 word\<close>, UUIDs \<open>128 word\<close>), times are integer
  nanoseconds. All recursion is structural or has a termination proof; no fuel is used. The ClickHouse version counter
  needs room for the versions it hands out and its credits, \<open>Float64\<close> columns, are rationals here, so no theorem on a report
  claims an exact sum of credits and the absence of drift is for exact sums, the Postgres statements check the precision of their \<open>numeric\<close> columns, and the
  arithmetic of the conformance checks is bounded to \<open>i64\<close>.

  \<^bold>\<open>Not modelled.\<close> Connecting, migrations as DDL, pings and credentials; routers, OpenAPI, metrics and request ids;
  serving and the process start-up of \<open>meter-engine\<close>; \<open>meter-cli\<close>, which calls the HTTP API and prints; generated protobuf
  code and the deserialisation of bodies, whose results are the arguments of the handlers; concurrency inside a
  store, where the code holds a mutex or a row lock: calls are steps in some order. The control plane, the dashboard,
  the documentation site and the client libraries are other programs.
\<close>

end
